(* ===== verification/Prelude.thy ===== *)
theory Prelude
  imports "HOL-Library.Word" "HOL-Library.Monad_Syntax"
begin

text \<open>
  Shared vocabulary of the development: the machine integers of \<^verbatim>\<open>types.h\<close> on a 32-bit x86,
  the byte-addressed memory every pointer of the kernel goes through, little-endian words in that
  memory, C strings, and the facts on words and addresses the component proofs share.

  Memory is a total function from 32-bit addresses to bytes.  Pointer arithmetic is arithmetic on
  \<open>32 word\<close>, so it wraps as it does on the machine, and an index past the end of an array reads
  or writes the byte that lies there: no access is unspecified.
\<close>

unbundle bit_operations_syntax

section \<open>Machine types\<close>

type_synonym u8 = "8 word"
type_synonym u16 = "16 word"
type_synonym u32 = "32 word"

text \<open>A signed \<^verbatim>\<open>int32_t\<close> is kept as the 32-bit pattern; \<^const>\<open>sint\<close> reads it.\<close>

type_synonym i32 = "32 word"

type_synonym memory = "u32 \<Rightarrow> u8"

named_theorems addr_simps \<open>normalising pointer expressions\<close>
named_theorems mem_defs \<open>unfolding loads and stores\<close>

section \<open>Words and offsets\<close>

lemma u32_of_nat_eq_iff [simp]:
  "i < 2 ^ 32 \<Longrightarrow> j < 2 ^ 32 \<Longrightarrow> (of_nat i :: u32) = of_nat j \<longleftrightarrow> i = j"
  by (simp add: word_of_nat_eq_iff take_bit_nat_eq_self)

lemma unat_u32_of_nat [simp]: "i < 2 ^ 32 \<Longrightarrow> unat (of_nat i :: u32) = i"
  by (simp add: unat_of_nat)

lemma u16_of_nat_eq_iff [simp]:
  "i < 65536 \<Longrightarrow> j < 65536 \<Longrightarrow> (of_nat i :: u16) = of_nat j \<longleftrightarrow> i = j"
  by (simp add: word_of_nat_eq_iff take_bit_nat_eq_self)

lemma unat_u16_of_nat [simp]: "i < 65536 \<Longrightarrow> unat (of_nat i :: u16) = i"
  by (simp add: unat_of_nat)

lemma u32_less_of_nat: "j < 2 ^ 32 \<Longrightarrow> (a :: u32) < of_nat j \<longleftrightarrow> unat a < j"
  by (simp add: word_less_nat_alt)

lemma u32_of_nat_unat_diff: "of_nat (unat (a - b :: u32)) = a - b"
  by simp

lemma u32_diff_add [addr_simps]: "(b :: u32) + (a - b) = a"
  by simp

lemma unat_less_2p32 [simp]: "unat (a :: u32) < 4294967296"
  using unsigned_less [of a, where ?'a = nat] by simp

lemma less_unat_u32: "i < unat (n :: u32) \<Longrightarrow> i < 4294967296"
  by (rule less_trans [OF _ unat_less_2p32])

lemma unat_of_nat_less [simp]: "i < unat (n :: u32) \<Longrightarrow> unat (of_nat i :: u32) = i"
  by (simp add: less_unat_u32)

lemma unat_Suc_less: "(i :: u32) < n \<Longrightarrow> unat (i + 1) = Suc (unat i)"
proof -
  assume "i < n"
  then have "unat i < unat n" by (simp add: word_less_nat_alt)
  then have "Suc (unat i) \<le> unat n" by simp
  then have "Suc (unat i) < 2 ^ 32"
    by (rule le_less_trans) simp
  then show ?thesis by (simp add: unat_word_ariths)
qed

lemma u32_loop_decreases: "(i :: u32) < n \<Longrightarrow> unat n - unat (i + 1) < unat n - unat i"
  by (simp add: unat_Suc_less) (simp add: word_less_nat_alt diff_less_mono2)

lemma unat_u32_Suc: "unat (a :: u32) < 4294967295 \<Longrightarrow> unat (a + 1) = Suc (unat a)"
  by (simp add: unat_word_ariths)

lemma unat_u32_minus_1: "a \<noteq> (0 :: u32) \<Longrightarrow> unat (a - 1) = unat a - 1"
  by (simp add: unat_minus_one)

lemma unat_u32_minus: "unat b \<le> unat (a :: u32) \<Longrightarrow> unat (a - b) = unat a - unat b"
  by (simp add: unat_sub word_le_nat_alt)

lemma unat_of_nat_diff:
  assumes "i < 2 ^ 31" "j < 2 ^ 31"
  shows "unat (of_nat j - of_nat i :: u32) = (if i \<le> j then j - i else 2 ^ 32 - (i - j))"
proof (cases "i \<le> j")
  case True
  with assms unat_u32_of_nat [of "j - i"] show ?thesis by simp
next
  case False
  have "(of_nat (2 ^ 32 - (i - j)) :: u32) = of_nat j - of_nat i"
    using False assms(1) by (simp add: of_nat_diff)
  moreover have "unat (of_nat (2 ^ 32 - (i - j)) :: u32) = 2 ^ 32 - (i - j)"
    using False by (intro unat_u32_of_nat) simp
  ultimately show ?thesis using False by (simp only: if_False)
qed

lemma list_update_two:
  assumes "n + 1 < length xs"
  shows "xs[n := c, n + 1 := a] = take n xs @ [c, a] @ drop (n + 2) xs"
proof -
  have "drop n xs = xs ! n # xs ! Suc n # drop (n + 2) xs"
    using assms by (simp add: Cons_nth_drop_Suc)
  then have "xs = take n xs @ xs ! n # xs ! Suc n # drop (n + 2) xs" by (metis append_take_drop_id)
  then have "xs[n := c, n + 1 := a] = (take n xs @ xs ! n # xs ! Suc n # drop (n + 2) xs)[n := c, n + 1 := a]"
    by (simp only:)
  also have "\<dots> = take n xs @ [c, a] @ drop (n + 2) xs"
    using assms by (simp add: list_update_append)
  finally show ?thesis .
qed

lemma same_block:
  fixes a n i :: nat
  assumes "a mod n + i < n"
  shows "(a + i) div n = a div n" "(a + i) mod n = a mod n + i"
proof -
  define q r where "q = a div n" and "r = a mod n"
  then have a: "a = n * q + r" and r: "r + i < n" using assms by simp_all
  then have "a + i = n * q + (r + i)" by simp
  with r show "(a + i) div n = a div n" "(a + i) mod n = a mod n + i"
    unfolding q_def [symmetric] r_def [symmetric] by (simp_all add: add.assoc)
qed

lemma sint_small: "unat (a :: u32) < 2147483648 \<Longrightarrow> sint a = int (unat a)"
proof -
  assume "unat a < 2147483648"
  moreover have "uint a = int (unat a)" by simp
  ultimately have "uint a < 2147483648" by linarith
  moreover have "- 2147483648 \<le> uint a" by (rule order_trans [OF _ unsigned_greater_eq]) simp
  ultimately show ?thesis using signed_take_bit_int_eq_self [of 31 "uint a"] by (simp add: sint_uint)
qed

lemma sint_u32_of_nat: "a < 2147483648 \<Longrightarrow> sint (of_nat a :: u32) = int a"
  using sint_small [of "of_nat a"] by (simp add: unat_of_nat)

lemma ucast_u8_u32_u8 [simp]: "(ucast (ucast (b :: u8) :: u32) :: u8) = b"
  by (rule bit_word_eqI) (auto simp: bit_simps)

lemma ucast_scast_u8 [simp]: "(ucast (scast (b :: u8) :: u32) :: u8) = b"
  by (rule bit_word_eqI) (auto simp: bit_simps)

section \<open>Regions\<close>

text \<open>The addresses \<open>a, a + 1, \<dots>, a + n - 1\<close>, wrapping at the top of the address space.\<close>

definition region :: "u32 \<Rightarrow> nat \<Rightarrow> u32 set" where
  "region a n = (\<lambda>i. a + of_nat i) ` {..<n}"

lemma region_0 [simp]: "region a 0 = {}"
  by (simp add: region_def)

lemma region_Suc: "region a (Suc n) = insert a (region (a + 1) n)"
proof -
  have "region a (Suc n) = (\<lambda>i. a + of_nat i) ` insert 0 (Suc ` {..<n})"
    by (simp add: region_def lessThan_Suc_eq_insert_0)
  also have "\<dots> = insert a (region (a + 1) n)"
    by (simp add: region_def image_image add.assoc)
  finally show ?thesis .
qed

lemma region_iff: "n \<le> 2 ^ 32 \<Longrightarrow> p \<in> region a n \<longleftrightarrow> unat (p - a) < n"
proof
  assume n: "n \<le> 2 ^ 32" and "p \<in> region a n"
  then obtain i where "i < n" "p = a + of_nat i"
    by (auto simp: region_def)
  with n show "unat (p - a) < n" by simp
next
  assume "unat (p - a) < n"
  moreover have "p = a + of_nat (unat (p - a))" by simp
  ultimately show "p \<in> region a n"
    unfolding region_def by blast
qed

lemma region_mono: "m \<le> n \<Longrightarrow> region a m \<subseteq> region a n"
  by (auto simp: region_def)

lemma in_regionI [intro]: "i < n \<Longrightarrow> a + of_nat i \<in> region a n"
  by (auto simp: region_def)

lemma region_shift_subset: "i + k \<le> n \<Longrightarrow> region (a + of_nat i) k \<subseteq> region a n"
proof
  fix p
  assume ik: "i + k \<le> n" and "p \<in> region (a + of_nat i) k"
  then obtain j where "j < k" "p = a + of_nat (i + j)"
    by (auto simp: region_def add.assoc)
  with ik in_regionI [of "i + j" n a] show "p \<in> region a n" by simp
qed

lemma region_disjointI:
  assumes "n \<le> unat (b - a)" "k \<le> unat (a - b)"
  shows "region a n \<inter> region b k = {}"
proof (rule ccontr)
  assume "region a n \<inter> region b k \<noteq> {}"
  then obtain i j where ij: "i < n" "j < k" "a + of_nat i = b + of_nat j"
    by (auto simp: region_def)
  have small: "i < 4294967296" "j < 4294967296"
    using ij assms less_unat_u32 order_less_le_trans by blast+
  show False
  proof (cases "j \<le> i")
    case True
    then have "b - a = of_nat (i - j)" using ij(3) by (simp add: of_nat_diff algebra_simps)
    then have "unat (b - a) = i - j" using small(1) unat_u32_of_nat [of "i - j"] by (simp del: of_nat_diff)
    with assms(1) ij(1) show False by linarith
  next
    case False
    then have "a - b = of_nat (j - i)" using ij(3) by (simp add: of_nat_diff algebra_simps)
    then have "unat (a - b) = j - i" using small(2) unat_u32_of_nat [of "j - i"] by (simp del: of_nat_diff)
    with assms(2) ij(2) show False by linarith
  qed
qed

section \<open>Loads, stores and byte runs\<close>

definition bytes :: "memory \<Rightarrow> u32 \<Rightarrow> nat \<Rightarrow> u8 list" where
  "bytes m a n = map (\<lambda>i. m (a + of_nat i)) [0..<n]"

primrec store_bytes :: "memory \<Rightarrow> u32 \<Rightarrow> u8 list \<Rightarrow> memory" where
  "store_bytes m a [] = m"
| "store_bytes m a (b # bs) = store_bytes (m(a := b)) (a + 1) bs"

definition load32 :: "memory \<Rightarrow> u32 \<Rightarrow> u32" where
  "load32 m a = ucast (m a) OR push_bit 8 (ucast (m (a + 1)))
     OR push_bit 16 (ucast (m (a + 2))) OR push_bit 24 (ucast (m (a + 3)))"

definition store32 :: "memory \<Rightarrow> u32 \<Rightarrow> u32 \<Rightarrow> memory" where
  "store32 m a v = m(a := ucast v, a + 1 := ucast (drop_bit 8 v),
     a + 2 := ucast (drop_bit 16 v), a + 3 := ucast (drop_bit 24 v))"

declare load32_def [mem_defs] store32_def [mem_defs]

lemma length_bytes [simp]: "length (bytes m a n) = n"
  by (simp add: bytes_def)

lemma bytes_nth [simp]: "i < n \<Longrightarrow> bytes m a n ! i = m (a + of_nat i)"
  by (simp add: bytes_def)

lemma bytes_0 [simp]: "bytes m a 0 = []"
  by (simp add: bytes_def)

lemma bytes_Suc: "bytes m a (Suc n) = m a # bytes m (a + 1) n"
  by (rule nth_equalityI) (auto simp: nth_Cons add.assoc split: nat.splits)

lemma bytes_append: "bytes m a (i + j) = bytes m a i @ bytes m (a + of_nat i) j"
  by (rule nth_equalityI) (auto simp: nth_append add.assoc)

lemma bytes_cong: "(\<And>p. p \<in> region a n \<Longrightarrow> m p = m' p) \<Longrightarrow> bytes m a n = bytes m' a n"
  by (simp add: bytes_def in_regionI)

lemma load32_cong:
  assumes "\<And>p. p \<in> region a 4 \<Longrightarrow> m p = m' p"
  shows "load32 m a = load32 m' a"
proof -
  have "m (a + of_nat i) = m' (a + of_nat i)" if "i < 4" for i
    using assms that by blast
  from this [of 0] this [of 1] this [of 2] this [of 3] show ?thesis
    by (simp add: load32_def)
qed

lemma store_bytes_outside: "p \<notin> region a (length bs) \<Longrightarrow> store_bytes m a bs p = m p"
proof (induction bs arbitrary: m a)
  case Nil
  then show ?case by simp
next
  case (Cons b bs)
  then show ?case by (simp add: region_Suc)
qed

lemma store_bytes_inside:
  "i < length bs \<Longrightarrow> length bs \<le> 2 ^ 32 \<Longrightarrow> store_bytes m a bs (a + of_nat i) = bs ! i"
proof (induction bs arbitrary: m a i)
  case Nil
  then show ?case by simp
next
  case (Cons b bs)
  show ?case
  proof (cases i)
    case 0
    have "a \<notin> region (a + 1) (length bs)"
    proof -
      have "unat (a - (a + 1)) = 4294967295"
        by (simp add: unsigned_minus_1_eq_mask mask_eq_exp_minus_1)
      with Cons.prems show ?thesis by (simp add: region_iff)
    qed
    with 0 show ?thesis by (simp add: store_bytes_outside)
  next
    case (Suc j)
    with Cons.prems have "store_bytes (m(a := b)) (a + 1) bs (a + 1 + of_nat j) = bs ! j"
      by (intro Cons.IH) simp_all
    with Suc show ?thesis by (simp add: add.assoc)
  qed
qed

lemma store_bytes_apply:
  assumes "length bs \<le> 2 ^ 32"
  shows "store_bytes m a bs p = (if unat (p - a) < length bs then bs ! unat (p - a) else m p)"
proof (cases "unat (p - a) < length bs")
  case True
  then have "store_bytes m a bs (a + of_nat (unat (p - a))) = bs ! unat (p - a)"
    using assms by (rule store_bytes_inside)
  with True show ?thesis by simp
next
  case False
  with assms show ?thesis by (simp add: store_bytes_outside region_iff)
qed

lemma bytes_store_bytes:
  "length bs \<le> 2 ^ 32 \<Longrightarrow> bytes (store_bytes m a bs) a (length bs) = bs"
  by (rule nth_equalityI) (simp_all add: store_bytes_inside)

lemma store_bytes_append:
  "store_bytes m a (xs @ ys) = store_bytes (store_bytes m a xs) (a + of_nat (length xs)) ys"
  by (induction xs arbitrary: m a) (simp_all add: add.assoc)

lemma load32_store32 [simp]: "load32 (store32 m a v) a = v"
proof -
  have [simp]: "a + 1 \<noteq> a" "a + 2 \<noteq> a" "a + 3 \<noteq> a" by simp_all
  show ?thesis
  proof (rule bit_word_eqI)
    fix n assume "n < LENGTH(32)"
    then consider "n < 8" | "8 \<le> n" "n < 16" | "16 \<le> n" "n < 24" | "24 \<le> n" "n < 32"
      by force
    then show "bit (load32 (store32 m a v) a) n \<longleftrightarrow> bit v n"
      by cases (auto simp: load32_def store32_def bit_simps)
  qed
qed

section \<open>C strings\<close>

text \<open>\<open>cstring m s xs\<close>: at address \<open>s\<close> lie the non-zero bytes \<open>xs\<close> and then a zero byte.\<close>

definition cstring :: "memory \<Rightarrow> u32 \<Rightarrow> u8 list \<Rightarrow> bool" where
  "cstring m s xs \<longleftrightarrow> length xs < 2 ^ 32 \<and> 0 \<notin> set xs \<and>
     bytes m s (length xs) = xs \<and> m (s + of_nat (length xs)) = 0"

lemma cstring_nth: "cstring m s xs \<Longrightarrow> i < length xs \<Longrightarrow> m (s + of_nat i) = xs ! i"
  by (metis bytes_nth cstring_def)

lemma cstring_nth_nz: "cstring m s xs \<Longrightarrow> i < length xs \<Longrightarrow> m (s + of_nat i) \<noteq> 0"
  by (metis cstring_def cstring_nth nth_mem)

lemma cstring_end: "cstring m s xs \<Longrightarrow> m (s + of_nat (length xs)) = 0"
  by (simp add: cstring_def)

lemma cstring_length: "cstring m s xs \<Longrightarrow> length xs < 4294967296"
  by (simp add: cstring_def)

lemma cstring_Cons: "cstring m s (x # xs) \<Longrightarrow> m s = x \<and> x \<noteq> 0 \<and> cstring m (s + 1) xs"
  by (auto simp: cstring_def bytes_Suc add.assoc)

lemma cstring_unique: "cstring m s xs \<Longrightarrow> cstring m s ys \<Longrightarrow> xs = ys"
proof (induction xs arbitrary: s ys)
  case Nil
  then show ?case by (cases ys) (auto simp: cstring_def bytes_Suc)
next
  case (Cons x xs)
  then have nz: "m s \<noteq> 0" "cstring m (s + 1) xs" "m s = x"
    by (auto dest: cstring_Cons)
  with Cons.prems obtain y ys' where ys: "ys = y # ys'"
    by (cases ys) (auto simp: cstring_def)
  with Cons nz show ?case by (auto dest!: cstring_Cons)
qed

lemma cstring_cong:
  assumes "cstring m s xs" "\<And>p. p \<in> region s (Suc (length xs)) \<Longrightarrow> m' p = m p"
  shows "cstring m' s xs"
proof -
  have "bytes m' s (length xs) = bytes m s (length xs)"
    by (rule bytes_cong) (use assms(2) region_mono [of "length xs" "Suc (length xs)" s] in auto)
  moreover have "m' (s + of_nat (length xs)) = m (s + of_nat (length xs))"
    by (rule assms(2)) (rule in_regionI, simp)
  ultimately show ?thesis using assms(1) by (simp add: cstring_def)
qed

end
