(* ===== verification/Lib_Memory.thy ===== *)
theory Lib_Memory
  imports Prelude
begin

text \<open>
  The block operations of \<^verbatim>\<open>lib.c\<close>: \<^verbatim>\<open>memset\<close>, \<^verbatim>\<open>memset_word\<close>, \<^verbatim>\<open>memset_dword\<close>, \<^verbatim>\<open>memcpy\<close>
  and \<^verbatim>\<open>memmove\<close>.  They are inline assembly; each label of the assembly is one recursive function
  over the registers it uses, with the counter register (\<^verbatim>\<open>ecx\<close>, \<^verbatim>\<open>edx\<close>) read as a natural number.
  The reference definitions are \<open>copy_region\<close> and \<open>fill_region\<close>; the theorems say when the
  word-at-a-time loops agree with them, overlapping regions included.
\<close>

section \<open>Reference definitions\<close>

definition copy_region :: "memory \<Rightarrow> u32 \<Rightarrow> u32 \<Rightarrow> nat \<Rightarrow> memory" where
  "copy_region m d s n = (\<lambda>p. if unat (p - d) < n then m (s + (p - d)) else m p)"

definition fill_region :: "memory \<Rightarrow> u32 \<Rightarrow> u8 \<Rightarrow> nat \<Rightarrow> memory" where
  "fill_region m d b n = (\<lambda>p. if unat (p - d) < n then b else m p)"

section \<open>The string instructions\<close>

text \<open>\<^verbatim>\<open>rep movsl\<close> with the direction flag clear: \<^verbatim>\<open>ecx\<close> double words, upwards.\<close>

fun rep_movsl :: "nat \<Rightarrow> memory \<Rightarrow> u32 \<Rightarrow> u32 \<Rightarrow> memory \<times> u32 \<times> u32" where
  "rep_movsl 0 m esi edi = (m, esi, edi)"
| "rep_movsl (Suc ecx) m esi edi =
     rep_movsl ecx (store32 m edi (load32 m esi)) (esi + 4) (edi + 4)"

text \<open>\<^verbatim>\<open>rep movsb\<close>, upwards and (after \<^verbatim>\<open>std\<close>) downwards.\<close>

fun rep_movsb_up :: "nat \<Rightarrow> memory \<Rightarrow> u32 \<Rightarrow> u32 \<Rightarrow> memory" where
  "rep_movsb_up 0 m esi edi = m"
| "rep_movsb_up (Suc ecx) m esi edi = rep_movsb_up ecx (m(edi := m esi)) (esi + 1) (edi + 1)"

fun rep_movsb_down :: "nat \<Rightarrow> memory \<Rightarrow> u32 \<Rightarrow> u32 \<Rightarrow> memory" where
  "rep_movsb_down 0 m esi edi = m"
| "rep_movsb_down (Suc ecx) m esi edi = rep_movsb_down ecx (m(edi := m esi)) (esi - 1) (edi - 1)"

text \<open>\<^verbatim>\<open>rep stosl\<close> and \<^verbatim>\<open>rep stosw\<close>, upwards.\<close>

fun rep_stosl :: "nat \<Rightarrow> memory \<Rightarrow> u32 \<Rightarrow> u32 \<Rightarrow> memory \<times> u32" where
  "rep_stosl 0 m eax edi = (m, edi)"
| "rep_stosl (Suc ecx) m eax edi = rep_stosl ecx (store32 m edi eax) eax (edi + 4)"

fun rep_stosw :: "nat \<Rightarrow> memory \<Rightarrow> u32 \<Rightarrow> u32 \<Rightarrow> memory" where
  "rep_stosw 0 m eax edi = m"
| "rep_stosw (Suc ecx) m eax edi =
     rep_stosw ecx (m(edi := ucast eax, edi + 1 := ucast (drop_bit 8 eax))) eax (edi + 2)"

section \<open>lib.c: memcpy\<close>

text \<open>Label \<^verbatim>\<open>.memcpy_bottom\<close>: \<^verbatim>\<open>edx\<close> single bytes.\<close>

fun memcpy_bottom :: "nat \<Rightarrow> memory \<Rightarrow> u32 \<Rightarrow> u32 \<Rightarrow> memory" where
  "memcpy_bottom 0 m esi edi = m"
| "memcpy_bottom (Suc edx) m esi edi = memcpy_bottom edx (m(edi := m esi)) (esi + 1) (edi + 1)"

text \<open>Label \<^verbatim>\<open>.memcpy_top\<close>: single bytes until the destination is aligned, then double words.\<close>

fun memcpy_top :: "nat \<Rightarrow> memory \<Rightarrow> u32 \<Rightarrow> u32 \<Rightarrow> memory" where
  "memcpy_top 0 m esi edi = m"
| "memcpy_top (Suc ecx) m esi edi =
     (if edi AND 3 = 0
      then (case rep_movsl (Suc ecx div 4) m esi edi of
              (m', esi', edi') \<Rightarrow> memcpy_bottom (Suc ecx mod 4) m' esi' edi')
      else memcpy_top ecx (m(edi := m esi)) (esi + 1) (edi + 1))"

definition memcpy :: "memory \<Rightarrow> u32 \<Rightarrow> u32 \<Rightarrow> u32 \<Rightarrow> memory" where
  "memcpy m dest src n = memcpy_top (unat n) m src dest"

section \<open>lib.c: memset, memset\_word, memset\_dword\<close>

fun memset_bottom :: "nat \<Rightarrow> memory \<Rightarrow> u32 \<Rightarrow> u32 \<Rightarrow> memory" where
  "memset_bottom 0 m eax edi = m"
| "memset_bottom (Suc edx) m eax edi = memset_bottom edx (m(edi := ucast eax)) eax (edi + 1)"

fun memset_top :: "nat \<Rightarrow> memory \<Rightarrow> u32 \<Rightarrow> u32 \<Rightarrow> memory" where
  "memset_top 0 m eax edi = m"
| "memset_top (Suc ecx) m eax edi =
     (if edi AND 3 = 0
      then (case rep_stosl (Suc ecx div 4) m eax edi of
              (m', edi') \<Rightarrow> memset_bottom (Suc ecx mod 4) m' eax edi')
      else memset_top ecx (m(edi := ucast eax)) eax (edi + 1))"

definition memset :: "memory \<Rightarrow> u32 \<Rightarrow> i32 \<Rightarrow> u32 \<Rightarrow> memory" where
  "memset m s c n =
     (let c = c AND 0xFF
      in memset_top (unat n) m (push_bit 24 c OR push_bit 16 c OR push_bit 8 c OR c) s)"

definition memset_word :: "memory \<Rightarrow> u32 \<Rightarrow> i32 \<Rightarrow> u32 \<Rightarrow> memory" where
  "memset_word m s c n = rep_stosw (unat n) m c s"

definition memset_dword :: "memory \<Rightarrow> u32 \<Rightarrow> i32 \<Rightarrow> u32 \<Rightarrow> memory" where
  "memset_dword m s c n = fst (rep_stosl (unat n) m c s)"

section \<open>lib.c: memmove\<close>

text \<open>The second component is the direction flag the routine leaves behind: the downward copy
  executes \<^verbatim>\<open>std\<close> and no \<^verbatim>\<open>cld\<close> follows.\<close>

definition memmove :: "memory \<Rightarrow> u32 \<Rightarrow> u32 \<Rightarrow> u32 \<Rightarrow> memory \<times> bool" where
  "memmove m dest src n =
     (if dest \<le> src then (rep_movsb_up (unat n) m src dest, False)
      else (rep_movsb_down (unat n) m (src + n - 1) (dest + n - 1), True))"

section \<open>Byte-wise copying\<close>

lemma copy_region_0 [simp]: "copy_region m d s 0 = m"
  by (simp add: copy_region_def)

lemma fill_region_0 [simp]: "fill_region m d b 0 = m"
  by (simp add: fill_region_def)

lemma offset_Suc:
  fixes p d :: u32
  assumes "p \<noteq> d"
  shows "unat (p - d) = Suc (unat (p - (d + 1)))"
proof -
  from assms have nz: "p - d \<noteq> 0" by simp
  have "p - (d + 1) = (p - d) - 1" by simp
  with nz show ?thesis
    by (metis Suc_pred' unat_gt_0 unat_u32_minus_1 diff_Suc_1 Suc_diff_1)
qed

lemma offset_back: "unat (d - (d + 1) :: u32) = 4294967295"
  by (simp add: unsigned_minus_1_eq_mask mask_eq_exp_minus_1)

lemma fill_region_Suc:
  "n < 2 ^ 32 \<Longrightarrow> fill_region (m(d := b)) (d + 1) b n = fill_region m d b (Suc n)"
proof (rule ext)
  fix p
  assume "n < 2 ^ 32"
  then show "fill_region (m(d := b)) (d + 1) b n p = fill_region m d b (Suc n) p"
    by (cases "p = d") (simp_all add: fill_region_def offset_Suc offset_back)
qed

text \<open>
  The upward copy reads byte \<open>j\<close> after it has written the bytes below \<open>j\<close>; it is a copy when
  no written byte is a later source byte, that is, when the destination does not start inside
  the source after its first byte.
\<close>

definition copy_up_ok :: "u32 \<Rightarrow> u32 \<Rightarrow> nat \<Rightarrow> bool" where
  "copy_up_ok d s n \<longleftrightarrow> d = s \<or> n \<le> unat (d - s)"

lemma copy_region_Suc:
  assumes "n < 2 ^ 32" "copy_up_ok d s (Suc n)"
  shows "copy_region (m(d := m s)) (d + 1) (s + 1) n = copy_region m d s (Suc n)"
proof (rule ext)
  fix p
  show "copy_region (m(d := m s)) (d + 1) (s + 1) n p = copy_region m d s (Suc n) p"
  proof (cases "p = d")
    case True
    with assms(1) show ?thesis by (simp add: copy_region_def offset_back)
  next
    case False
    have shift: "s + 1 + (p - (d + 1)) = s + (p - d)" by simp
    have "s + (p - d) \<noteq> d" if "unat (p - d) < Suc n"
    proof
      assume "s + (p - d) = d"
      then have "p - d = d - s" by (simp add: algebra_simps)
      with that assms(2) have "d = s" by (auto simp: copy_up_ok_def)
      with \<open>p - d = d - s\<close> False show False by simp
    qed
    with False show ?thesis
      by (simp add: copy_region_def shift offset_Suc del: add_diff_cancel_left)
  qed
qed

lemma copy_up_ok_Suc: "copy_up_ok d s (Suc n) \<Longrightarrow> copy_up_ok (d + 1) (s + 1) n"
  by (auto simp: copy_up_ok_def)

lemma memcpy_bottom_copy:
  "n < 2 ^ 32 \<Longrightarrow> copy_up_ok d s n \<Longrightarrow> memcpy_bottom n m s d = copy_region m d s n"
proof (induction n arbitrary: m s d)
  case 0
  then show ?case by simp
next
  case (Suc n)
  then have "memcpy_bottom n (m(d := m s)) (s + 1) (d + 1)
      = copy_region (m(d := m s)) (d + 1) (s + 1) n"
    by (intro Suc.IH) (simp_all add: copy_up_ok_Suc)
  with Suc.prems copy_region_Suc [of n d s m] show ?case by simp
qed

lemma rep_movsb_up_bottom: "rep_movsb_up n m s d = memcpy_bottom n m s d"
  by (induction n arbitrary: m s d) simp_all

lemma memcpy_bottom_add:
  "memcpy_bottom (i + j) m s d = memcpy_bottom j (memcpy_bottom i m s d) (s + of_nat i) (d + of_nat i)"
  by (induction i arbitrary: m s d) (simp_all add: add.assoc)

section \<open>Double words are four bytes\<close>

lemma load32_byte0: "ucast (load32 m a) = m a"
  by (rule bit_word_eqI) (auto simp: load32_def bit_simps dest: bit_imp_le_length)

lemma load32_byte1: "ucast (drop_bit 8 (load32 m a)) = m (a + 1)"
  by (rule bit_word_eqI) (auto simp: load32_def bit_simps dest: bit_imp_le_length)

lemma load32_byte2: "ucast (drop_bit 16 (load32 m a)) = m (a + 2)"
  by (rule bit_word_eqI) (auto simp: load32_def bit_simps dest: bit_imp_le_length)

lemma load32_byte3: "ucast (drop_bit 24 (load32 m a)) = m (a + 3)"
  by (rule bit_word_eqI) (auto simp: load32_def bit_simps dest: bit_imp_le_length)

lemmas load32_bytes = load32_byte0 load32_byte1 load32_byte2 load32_byte3

lemma add_ne_if_unat_diff:
  fixes d s k :: u32
  assumes "d = s \<or> 4 \<le> unat (d - s)" "0 < unat k" "unat k < 4"
  shows "s + k \<noteq> d"
proof
  assume "s + k = d"
  then have "d - s = k" by auto
  with assms show False by auto
qed

lemma movsl_bottom:
  assumes "d = s \<or> 4 \<le> unat (d - s)"
  shows "store32 m d (load32 m s) = memcpy_bottom 4 m s d"
proof -
  have "s + 1 \<noteq> d" "s + 2 \<noteq> d" "s + 3 \<noteq> d"
    using assms by (auto dest: add_ne_if_unat_diff [of d s 1]
        add_ne_if_unat_diff [of d s 2] add_ne_if_unat_diff [of d s 3])
  moreover from this have "s + 2 \<noteq> d + 1" "s + 3 \<noteq> d + 1" "s + 3 \<noteq> d + 2"
    by (auto simp: algebra_simps dest: arg_cong [where f = "\<lambda>x. x - 1"] arg_cong [where f = "\<lambda>x. x - 2"])
  moreover have "memcpy_bottom 4 m s d = memcpy_bottom (Suc (Suc (Suc (Suc 0)))) m s d"
    by (simp add: numeral_eq_Suc)
  ultimately show ?thesis
    by (simp add: store32_def load32_bytes add.assoc)
qed

lemma rep_movsl_bottom:
  assumes "d = s \<or> 4 \<le> unat (d - s)"
  shows "rep_movsl n m s d
     = (memcpy_bottom (4 * n) m s d, s + 4 * of_nat n, d + 4 * of_nat n)"
  using assms
proof (induction n arbitrary: m s d)
  case 0
  then show ?case by simp
next
  case (Suc n)
  have "memcpy_bottom (4 * n) (memcpy_bottom 4 m s d) (s + 4) (d + 4)
      = memcpy_bottom (4 * Suc n) m s d"
    using memcpy_bottom_add [of 4 "4 * n" m s d] by simp
  with Suc show ?case by (simp add: movsl_bottom add.assoc)
qed

lemma memcpy_top_bottom:
  assumes "n < 4 \<or> d = s \<or> 4 \<le> unat (d - s)"
  shows "memcpy_top n m s d = memcpy_bottom n m s d"
  using assms
proof (induction n arbitrary: m s d)
  case 0
  then show ?case by simp
next
  case (Suc n)
  show ?case
  proof (cases "d AND 3 = 0")
    case False
    have "memcpy_top n (m(d := m s)) (s + 1) (d + 1) = memcpy_bottom n (m(d := m s)) (s + 1) (d + 1)"
      using Suc.prems by (intro Suc.IH) auto
    with False show ?thesis by simp
  next
    case aligned: True
    show ?thesis
    proof (cases "Suc n < 4")
      case True
      with aligned show ?thesis by simp
    next
      case False
      with Suc.prems have "rep_movsl (Suc n div 4) m s d
          = (memcpy_bottom (4 * (Suc n div 4)) m s d,
             s + 4 * of_nat (Suc n div 4), d + 4 * of_nat (Suc n div 4))"
        by (intro rep_movsl_bottom) auto
      with aligned have "memcpy_top (Suc n) m s d
          = memcpy_bottom (4 * (Suc n div 4) + Suc n mod 4) m s d"
        by (simp only: memcpy_top.simps refl if_True prod.case memcpy_bottom_add of_nat_mult of_nat_numeral)
      then show ?thesis by simp
    qed
  qed
qed

section \<open>Correctness of the copies\<close>

lemma memcpy_copy_region:
  assumes "copy_up_ok d s (unat n)"
  shows "memcpy m d s n = copy_region m d s (unat n)"
proof -
  have "unat n < 4 \<or> d = s \<or> 4 \<le> unat (d - s)"
    using assms by (auto simp: copy_up_ok_def)
  with assms show ?thesis
    by (simp add: memcpy_def memcpy_top_bottom memcpy_bottom_copy)
qed

lemma rep_movsb_down_copy:
  "n < 2 ^ 32 \<Longrightarrow> n \<le> unat (s - d) \<or> s = d \<Longrightarrow>
     rep_movsb_down n m (s + of_nat n - 1) (d + of_nat n - 1) = copy_region m d s n"
proof (induction n arbitrary: m)
  case 0
  then show ?case by simp
next
  case (Suc n)
  let ?m = "m(d + of_nat n := m (s + of_nat n))"
  have "rep_movsb_down (Suc n) m (s + of_nat (Suc n) - 1) (d + of_nat (Suc n) - 1)
      = rep_movsb_down n ?m (s + of_nat n - 1) (d + of_nat n - 1)"
    by (simp add: add.commute [of 1] add.assoc [symmetric])
  also have "\<dots> = copy_region ?m d s n"
    using Suc.prems by (intro Suc.IH) auto
  also have "\<dots> = copy_region m d s (Suc n)"
  proof (rule ext)
    fix p
    have ne: "s + (p - d) \<noteq> d + of_nat n" if "unat (p - d) < n"
    proof
      assume eq: "s + (p - d) = d + of_nat n"
      have "s - d = of_nat n - (p - d)"
        using arg_cong [OF eq, of "\<lambda>x. x - d - (p - d)"] by simp
      moreover have "unat (of_nat n - (p - d)) = n - unat (p - d)"
        using that Suc.prems(1) by (simp add: unat_u32_minus)
      ultimately have "unat (s - d) = n - unat (p - d)" by (simp only:)
      with Suc.prems(2) that show False by auto
    qed
    have last: "unat (p - d) = n \<longleftrightarrow> p = d + of_nat n"
    proof
      assume "unat (p - d) = n"
      then have "of_nat n = p - d" by auto
      then show "p = d + of_nat n" by simp
    qed (use Suc.prems(1) in simp)
    show "copy_region ?m d s n p = copy_region m d s (Suc n) p"
      using ne last by (auto simp: copy_region_def less_Suc_eq)
  qed
  finally show ?case .
qed

lemma memmove_copy_region:
  assumes "unat d + unat n \<le> 2 ^ 32" "unat s + unat n \<le> 2 ^ 32"
  shows "fst (memmove m d s n) = copy_region m d s (unat n)"
proof (cases "d \<le> s")
  case True
  have "copy_up_ok d s (unat n)"
  proof (cases "d = s")
    case False
    with True have "\<not> s \<le> d" by simp
    then have "unat (d - s) = 2 ^ 32 + unat d - unat s"
      by (simp add: unat_sub_if_size word_size word_le_nat_alt)
    with assms(2) have "unat n \<le> unat (d - s)" by linarith
    then show ?thesis by (simp add: copy_up_ok_def)
  qed (simp add: copy_up_ok_def)
  with True show ?thesis
    by (simp add: memmove_def rep_movsb_up_bottom memcpy_bottom_copy)
next
  case False
  then have "unat (s - d) = 2 ^ 32 + unat s - unat d"
    by (simp add: unat_sub_if_size word_size word_le_nat_alt)
  with assms(1) have "unat n \<le> unat (s - d)" by linarith
  with False rep_movsb_down_copy [of "unat n" s d m] show ?thesis
    by (simp add: memmove_def)
qed

section \<open>Correctness of the fills\<close>

lemma memset_bottom_fill:
  "n < 2 ^ 32 \<Longrightarrow> memset_bottom n m eax d = fill_region m d (ucast eax) n"
  by (induction n arbitrary: m d) (simp_all add: fill_region_Suc)

lemma memset_bottom_add:
  "memset_bottom (i + j) m eax d = memset_bottom j (memset_bottom i m eax d) eax (d + of_nat i)"
  by (induction i arbitrary: m d) (simp_all add: add.assoc)

definition replicated :: "u32 \<Rightarrow> bool" where
  "replicated eax \<longleftrightarrow> (\<forall>k\<in>{8, 16, 24}. ucast (drop_bit k eax) = (ucast eax :: u8))"

lemma rep_stosl_bottom:
  "replicated eax \<Longrightarrow>
     rep_stosl n m eax d = (memset_bottom (4 * n) m eax d, d + 4 * of_nat n)"
proof (induction n arbitrary: m d)
  case 0
  then show ?case by simp
next
  case (Suc n)
  have "memset_bottom 4 m eax d = memset_bottom (Suc (Suc (Suc (Suc 0)))) m eax d"
    by (simp add: numeral_eq_Suc)
  with Suc.prems have "store32 m d eax = memset_bottom 4 m eax d"
    by (simp add: store32_def replicated_def add.assoc)
  with Suc memset_bottom_add [of 4 "4 * n" m eax d] show ?case
    by (simp add: add.assoc)
qed

lemma memset_top_bottom: "replicated eax \<Longrightarrow> memset_top n m eax d = memset_bottom n m eax d"
proof (induction n arbitrary: m d)
  case 0
  then show ?case by simp
next
  case (Suc n)
  have "memset_bottom (Suc n mod 4) (memset_bottom (4 * (Suc n div 4)) m eax d) eax
        (d + of_nat (4 * (Suc n div 4)))
      = memset_bottom (4 * (Suc n div 4) + Suc n mod 4) m eax d"
    by (simp only: memset_bottom_add)
  with Suc show ?case by (simp add: rep_stosl_bottom)
qed

lemma replicated_byte:
  assumes "c = c' AND 0xFF"
  shows "replicated (push_bit 24 c OR push_bit 16 c OR push_bit 8 c OR c)"
  unfolding replicated_def assms
  by (auto intro!: bit_word_eqI simp: bit_simps dest: bit_imp_le_length)

lemma mask_8: "mask 8 = (0xFF :: u32)"
  by (simp add: mask_eq_exp_minus_1)

lemma memset_fill_region: "memset m s c n = fill_region m s (ucast c) (unat n)"
proof -
  let ?c = "c AND 0xFF"
  have low: "(ucast (push_bit 24 ?c OR push_bit 16 ?c OR push_bit 8 ?c OR ?c) :: u8) = ucast c"
    by (rule bit_word_eqI) (auto simp: bit_simps mask_8 [symmetric])
  have "memset m s c n
      = memset_bottom (unat n) m (push_bit 24 ?c OR push_bit 16 ?c OR push_bit 8 ?c OR ?c) s"
    unfolding memset_def Let_def by (rule memset_top_bottom [OF replicated_byte [OF refl]])
  also have "\<dots> = fill_region m s (ucast c) (unat n)"
    by (subst memset_bottom_fill) (simp, simp only: low)
  finally show ?thesis .
qed

text \<open>\<^verbatim>\<open>memset_word\<close> and \<^verbatim>\<open>memset_dword\<close> take \<open>n\<close> in words, not in bytes.\<close>

lemma rep_stosw_outside: "p \<notin> region d (2 * n) \<Longrightarrow> rep_stosw n m c d p = m p"
proof (induction n arbitrary: m d)
  case 0
  then show ?case by simp
next
  case (Suc n)
  then show ?case by (simp add: region_Suc add.assoc)
qed

lemma unat_numeral_u32:
  "unat (4294967294 :: u32) = 4294967294" "unat (4294967295 :: u32) = 4294967295"
  by simp_all

lemma rep_stosw_inside:
  "i < n \<Longrightarrow> 2 * n \<le> 2 ^ 32 \<Longrightarrow>
     rep_stosw n m c d (d + of_nat (2 * i)) = ucast c \<and>
     rep_stosw n m c d (d + of_nat (2 * i + 1)) = ucast (drop_bit 8 c)"
proof (induction n arbitrary: m d i)
  case 0
  then show ?case by simp
next
  case (Suc n)
  show ?case
  proof (cases i)
    case 0
    have "d - (d + 2) = 4294967294" "d + 1 - (d + 2) = 4294967295"
      by simp_all
    then have "unat (d - (d + 2)) = 4294967294" "unat (d + 1 - (d + 2)) = 4294967295"
      by (simp_all only: unat_numeral_u32)
    with Suc.prems have "d \<notin> region (d + 2) (2 * n)" "d + 1 \<notin> region (d + 2) (2 * n)"
      by (auto simp: region_iff)
    with 0 show ?thesis by (simp add: rep_stosw_outside)
  next
    case (Suc j)
    let ?m = "m(d := ucast c, d + 1 := ucast (drop_bit 8 c))"
    from Suc Suc.prems have "rep_stosw n ?m c (d + 2) (d + 2 + of_nat (2 * j)) = ucast c \<and>
        rep_stosw n ?m c (d + 2) (d + 2 + of_nat (2 * j + 1)) = ucast (drop_bit 8 c)"
      by (intro Suc.IH) simp_all
    with Suc show ?thesis by (simp add: add.assoc)
  qed
qed

section \<open>The contract of a block copy\<close>

text \<open>
  The clients of \<^verbatim>\<open>memcpy\<close> and \<^verbatim>\<open>memmove\<close> rely on one law only: between disjoint regions the
  routine copies and touches nothing else.
\<close>

lemma disjoint_offsets:
  assumes "region d n \<inter> region s n = {}" "n < 2 ^ 32"
  shows "n \<le> unat (d - s)" "n \<le> unat (s - d)"
proof -
  have self: "a \<in> region a n" if "0 < n" for a
    using that in_regionI [of 0 n a] by simp
  show "n \<le> unat (d - s)"
  proof (rule ccontr)
    assume "\<not> n \<le> unat (d - s)"
    with assms(2) have "d \<in> region s n" "0 < n" by (simp_all add: region_iff)
    with self [of d] assms(1) show False by blast
  qed
  show "n \<le> unat (s - d)"
  proof (rule ccontr)
    assume "\<not> n \<le> unat (s - d)"
    with assms(2) have "s \<in> region d n" "0 < n" by (simp_all add: region_iff)
    with self [of s] assms(1) show False by blast
  qed
qed

lemma memcpy_bottom_store:
  assumes "region d k \<inter> region s k = {}" "k < 2 ^ 32"
  shows "memcpy_bottom k m s d = store_bytes m d (bytes m s k)"
proof -
  have "memcpy_bottom k m s d = copy_region m d s k"
    using disjoint_offsets(1) [OF assms] assms(2) by (intro memcpy_bottom_copy) (simp_all add: copy_up_ok_def)
  also have "\<dots> = store_bytes m d (bytes m s k)"
    using assms(2) by (auto simp: copy_region_def store_bytes_apply)
  finally show ?thesis .
qed

locale block_copy =
  fixes cp :: "memory \<Rightarrow> u32 \<Rightarrow> u32 \<Rightarrow> u32 \<Rightarrow> memory"
  assumes cp_disjoint:
    "region d (unat n) \<inter> region s (unat n) = {} \<Longrightarrow> cp m d s n = copy_region m d s (unat n)"
begin

lemma cp_store_bytes:
  "region d (unat n) \<inter> region s (unat n) = {} \<Longrightarrow> cp m d s n = store_bytes m d (bytes m s (unat n))"
  by (auto simp: cp_disjoint copy_region_def store_bytes_apply less_imp_le)

lemma cp_outside:
  "region d (unat n) \<inter> region s (unat n) = {} \<Longrightarrow> p \<notin> region d (unat n) \<Longrightarrow> cp m d s n p = m p"
  by (simp add: cp_disjoint copy_region_def region_iff less_imp_le)

lemma cp_nth:
  "region d (unat n) \<inter> region s (unat n) = {} \<Longrightarrow> i < unat n \<Longrightarrow>
     cp m d s n (d + of_nat i) = m (s + of_nat i)"
  by (simp add: cp_disjoint copy_region_def)

lemma cp_bytes:
  "region d (unat n) \<inter> region s (unat n) = {} \<Longrightarrow> bytes (cp m d s n) d (unat n) = bytes m s (unat n)"
  by (rule nth_equalityI) (simp_all add: cp_nth)

lemma cp_load32:
  assumes "region d (unat n) \<inter> region s (unat n) = {}" "k + 4 \<le> unat n"
  shows "load32 (cp m d s n) (d + of_nat k) = load32 m (s + of_nat k)"
proof -
  have "cp m d s n (d + of_nat (k + i)) = m (s + of_nat (k + i))" if "i < 4" for i
    by (rule cp_nth) (use assms that in simp_all)
  from this [of 0] this [of 1] this [of 2] this [of 3] show ?thesis
    by (simp add: load32_def ac_simps)
qed

end

interpretation memcpy: block_copy memcpy
proof
  fix d s n :: u32 and m :: memory
  assume "region d (unat n) \<inter> region s (unat n) = {}"
  then have "copy_up_ok d s (unat n)"
    using disjoint_offsets(1) [of d "unat n" s] by (simp add: copy_up_ok_def)
  then show "memcpy m d s n = copy_region m d s (unat n)"
    by (rule memcpy_copy_region)
qed

interpretation memmove: block_copy "\<lambda>m d s n. fst (memmove m d s n)"
proof
  fix d s n :: u32 and m :: memory
  assume "region d (unat n) \<inter> region s (unat n) = {}"
  then have off: "unat n \<le> unat (d - s)" "unat n \<le> unat (s - d)"
    using disjoint_offsets [of d "unat n" s] by simp_all
  then show "fst (memmove m d s n) = copy_region m d s (unat n)"
    using rep_movsb_down_copy [of "unat n" s d m]
    by (simp add: memmove_def rep_movsb_up_bottom memcpy_bottom_copy copy_up_ok_def)
qed

section \<open>Properties\<close>

text \<open>
  C21: \<^verbatim>\<open>memcpy\<close>, which moves single bytes up to a 4-byte boundary, then double words, then the
  remaining bytes, leaves exactly the memory a block copy leaves, whenever the destination does not
  start inside the source past its first byte.  In particular it is right for disjoint blocks of
  any alignment and for overlapping blocks moved towards lower addresses.
\<close>

theorem memcpy_correct:
  assumes "dest = src \<or> unat n \<le> unat (dest - src)"
  shows "memcpy m dest src n = copy_region m dest src (unat n)"
  using assms memcpy_copy_region by (simp add: copy_up_ok_def)

theorem memcpy_correct_witness:
  "memcpy ucast 0x1001 0x1005 7 = copy_region ucast 0x1001 0x1005 7 \<and>
   memcpy ucast 0x1001 0x1005 7 0x1004 = (8 :: u8)"
  using memcpy_correct [of "0x1001" "0x1005" 7 ucast] by (simp add: copy_region_def)

text \<open>
  C22: \<^verbatim>\<open>memmove\<close> is a block copy for every pair of blocks that do not run past the end of the
  address space, however they overlap.
\<close>

theorem memmove_correct:
  assumes "unat dest + unat n \<le> 2 ^ 32" "unat src + unat n \<le> 2 ^ 32"
  shows "fst (memmove m dest src n) = copy_region m dest src (unat n)"
  using assms by (rule memmove_copy_region)

theorem memmove_correct_witness:
  "fst (memmove ucast 0x1002 0x1001 5) = copy_region ucast 0x1002 0x1001 5 \<and>
   fst (memmove ucast 0x1002 0x1001 5) 0x1006 = (5 :: u8)"
  using memmove_correct [of "0x1002" 5 "0x1001" ucast] by (simp add: copy_region_def)

text \<open>
  \<^verbatim>\<open>memset\<close> fills exactly the \<open>n\<close> bytes at \<open>s\<close> with the low byte of \<open>c\<close>, for every alignment.
\<close>

theorem memset_correct: "memset m s c n = fill_region m s (ucast c) (unat n)"
  by (rule memset_fill_region)

end
