(* ===== verification/Lib_String.thy ===== *)
theory Lib_String
  imports Lib_Memory
begin

text \<open>
  The string routines of \<^verbatim>\<open>lib.c\<close>: \<^verbatim>\<open>strlen\<close>, \<^verbatim>\<open>strncmp\<close>, \<^verbatim>\<open>strcpy\<close>, \<^verbatim>\<open>strncpy\<close>, \<^verbatim>\<open>strrev\<close>
  and \<^verbatim>\<open>itoa\<close>.  A loop that runs until it meets a zero byte need not end; it is a
  \<^theory_text>\<open>partial_function (option)\<close> whose value \<open>None\<close> is "does not return".
\<close>

section \<open>lib.c: strlen, strncmp\<close>

partial_function (option) strlen_loop :: "memory \<Rightarrow> u32 \<Rightarrow> u32 \<Rightarrow> u32 option" where
  "strlen_loop m s len = (if m (s + len) \<noteq> 0 then strlen_loop m s (len + 1) else Some len)"

definition strlen :: "memory \<Rightarrow> u32 \<Rightarrow> u32 option" where
  "strlen m s = strlen_loop m s 0"

text \<open>The loop counter is an \<^verbatim>\<open>int32_t\<close> compared with the unsigned \<open>n\<close>, hence as unsigned;
  the characters are signed \<^verbatim>\<open>char\<close>.\<close>

function strncmp_loop :: "memory \<Rightarrow> u32 \<Rightarrow> u32 \<Rightarrow> u32 \<Rightarrow> u32 \<Rightarrow> i32" where
  "strncmp_loop m s1 s2 n i =
     (if i < n
      then if m (s1 + i) \<noteq> m (s2 + i) \<or> m (s1 + i) = 0
           then scast (m (s1 + i)) - scast (m (s2 + i))
           else strncmp_loop m s1 s2 n (i + 1)
      else 0)"
  by pat_completeness auto
termination
  by (relation "measure (\<lambda>(m, s1, s2, n, i). unat n - unat i)")
    (auto simp: u32_loop_decreases)

declare strncmp_loop.simps [simp del]

definition strncmp :: "memory \<Rightarrow> u32 \<Rightarrow> u32 \<Rightarrow> u32 \<Rightarrow> i32" where
  "strncmp m s1 s2 n = strncmp_loop m s1 s2 n 0"

section \<open>lib.c: strcpy, strncpy\<close>

partial_function (option) strcpy_loop :: "memory \<Rightarrow> u32 \<Rightarrow> u32 \<Rightarrow> u32 \<Rightarrow> memory option" where
  "strcpy_loop m dest src i =
     (if m (src + i) \<noteq> 0 then strcpy_loop (m(dest + i := m (src + i))) dest src (i + 1)
      else Some (m(dest + i := 0)))"

definition strcpy :: "memory \<Rightarrow> u32 \<Rightarrow> u32 \<Rightarrow> memory option" where
  "strcpy m dest src = strcpy_loop m dest src 0"

function strncpy_copy :: "memory \<Rightarrow> u32 \<Rightarrow> u32 \<Rightarrow> u32 \<Rightarrow> u32 \<Rightarrow> memory \<times> u32" where
  "strncpy_copy m dest src n i =
     (if m (src + i) \<noteq> 0 \<and> i < n
      then strncpy_copy (m(dest + i := m (src + i))) dest src n (i + 1) else (m, i))"
  by pat_completeness auto
termination
  by (relation "measure (\<lambda>(m, dest, src, n, i). unat n - unat i)")
    (auto simp: u32_loop_decreases)

function strncpy_pad :: "memory \<Rightarrow> u32 \<Rightarrow> u32 \<Rightarrow> u32 \<Rightarrow> memory" where
  "strncpy_pad m dest n i = (if i < n then strncpy_pad (m(dest + i := 0)) dest n (i + 1) else m)"
  by pat_completeness auto
termination
  by (relation "measure (\<lambda>(m, dest, n, i). unat n - unat i)")
    (auto simp: u32_loop_decreases)

declare strncpy_copy.simps [simp del] strncpy_pad.simps [simp del]

definition strncpy :: "memory \<Rightarrow> u32 \<Rightarrow> u32 \<Rightarrow> u32 \<Rightarrow> memory" where
  "strncpy m dest src n =
     (case strncpy_copy m dest src n 0 of (m', i) \<Rightarrow> strncpy_pad m' dest n i)"

section \<open>lib.c: strrev, itoa\<close>

text \<open>\<^verbatim>\<open>beg\<close> and \<^verbatim>\<open>end\<close> are \<^verbatim>\<open>int32_t\<close>; they move towards each other, so they never overflow.\<close>

function strrev_loop :: "memory \<Rightarrow> u32 \<Rightarrow> int \<Rightarrow> int \<Rightarrow> memory" where
  "strrev_loop m s beg end' =
     (if beg < end'
      then let tmp = m (s + word_of_int end');
               m = m(s + word_of_int end' := m (s + word_of_int beg));
               m = m(s + word_of_int beg := tmp)
           in strrev_loop m s (beg + 1) (end' - 1)
      else m)"
  by pat_completeness auto
termination
  by (relation "measure (\<lambda>(m, s, beg, end'). nat (end' - beg))") auto

declare strrev_loop.simps [simp del]

definition strrev :: "memory \<Rightarrow> u32 \<Rightarrow> memory option" where
  "strrev m s = map_option (\<lambda>len. strrev_loop m s 0 (sint (len - 1))) (strlen m s)"

text \<open>The static \<^verbatim>\<open>lookup\<close> holds 36 digits and a terminating zero byte; an index past it is
  \<open>None\<close>, and so is a division by a zero radix.\<close>

definition lookup_table :: "u8 list" where
  "lookup_table = map of_nat [48..<58] @ map of_nat [65..<91] @ [0]"

definition lookup_digit :: "u32 \<Rightarrow> u8 option" where
  "lookup_digit i = (if unat i < 37 then Some (lookup_table ! unat i) else None)"

partial_function (option) itoa_loop ::
  "memory \<Rightarrow> u32 \<Rightarrow> u32 \<Rightarrow> u32 \<Rightarrow> (memory \<times> u32) option" where
  "itoa_loop m newval newbuf radix =
     (if newval > 0
      then if radix = 0 then None
           else case lookup_digit (newval mod radix) of
                  None \<Rightarrow> None
                | Some c \<Rightarrow> itoa_loop (m(newbuf := c)) (newval div radix) (newbuf + 1) radix
      else Some (m, newbuf))"

definition itoa :: "memory \<Rightarrow> u32 \<Rightarrow> u32 \<Rightarrow> i32 \<Rightarrow> memory option" where
  "itoa m val buf radix =
     (if val = 0 then Some (m(buf := 48, buf + 1 := 0))
      else case itoa_loop m val buf radix of
             None \<Rightarrow> None
           | Some (m', newbuf) \<Rightarrow> strrev (m'(newbuf := 0)) buf)"

section \<open>strlen\<close>

lemma strlen_loop_cstring:
  "cstring m s xs \<Longrightarrow> i \<le> length xs \<Longrightarrow> strlen_loop m s (of_nat i) = Some (of_nat (length xs))"
proof (induction "length xs - i" arbitrary: i)
  case 0
  then have "i = length xs" by simp
  with "0.prems" show ?case by (subst strlen_loop.simps) (simp add: cstring_end)
next
  case (Suc k)
  then have i: "i < length xs" by simp
  have "strlen_loop m s (of_nat (Suc i)) = Some (of_nat (length xs))"
    by (rule Suc.hyps) (use Suc i in simp_all)
  with i Suc.prems(1) show ?case
    by (subst strlen_loop.simps) (simp add: cstring_nth_nz add.commute [of 1])
qed

lemma strlen_cstring: "cstring m s xs \<Longrightarrow> strlen m s = Some (of_nat (length xs))"
  unfolding strlen_def using strlen_loop_cstring [of m s xs 0] by simp

lemma strlen_loop_sound:
  assumes "strlen_loop m s len = Some r"
  shows "m (s + r) = 0 \<and> (\<forall>k. unat k < unat (r - len) \<longrightarrow> m (s + len + k) \<noteq> 0)"
proof (rule strlen_loop.raw_induct [where
      P = "\<lambda>m s len r. m (s + r) = 0 \<and> (\<forall>k. unat k < unat (r - len) \<longrightarrow> m (s + len + k) \<noteq> 0)",
      OF _ assms])
  fix f and m :: memory and s len r :: u32
  assume IH: "\<And>m s len r. f m s len = Some r \<Longrightarrow>
      m (s + r) = 0 \<and> (\<forall>k. unat k < unat (r - len) \<longrightarrow> m (s + len + k) \<noteq> 0)"
    and eq: "(if m (s + len) \<noteq> 0 then f m s (len + 1) else Some len) = Some r"
  show "m (s + r) = 0 \<and> (\<forall>k. unat k < unat (r - len) \<longrightarrow> m (s + len + k) \<noteq> 0)"
  proof (cases "m (s + len) = 0")
    case True
    with eq show ?thesis by simp
  next
    case False
    with eq have "f m s (len + 1) = Some r" by simp
    note ih = IH [OF this]
    have "m (s + len + k) \<noteq> 0" if k: "unat k < unat (r - len)" for k
    proof (cases "k = 0")
      case True
      with False show ?thesis by simp
    next
      case kn: False
      then have "r \<noteq> len" using k by auto
      then have "unat (r - len) = Suc (unat (r - (len + 1)))"
        by (rule offset_Suc)
      with k kn have "unat (k - 1) < unat (r - (len + 1))"
        by (simp add: unat_u32_minus_1 unat_gt_0 less_diff_conv2 Suc_le_eq)
      with ih have "m (s + (len + 1) + (k - 1)) \<noteq> 0" by blast
      then show ?thesis by (simp add: algebra_simps)
    qed
    with ih show ?thesis by simp
  qed
qed

lemma strlen_sound: "strlen m s = Some r \<Longrightarrow> cstring m s (bytes m s (unat r))"
proof -
  assume "strlen m s = Some r"
  then have r: "m (s + r) = 0" "\<And>k. unat k < unat r \<Longrightarrow> m (s + k) \<noteq> 0"
    using strlen_loop_sound [of m s 0 r] by (simp_all add: strlen_def)
  have "m (s + of_nat i) \<noteq> 0" if "i < unat r" for i
    by (rule r(2)) (use that in simp)
  with r(1) show ?thesis
    by (auto simp: cstring_def in_set_conv_nth)
qed

section \<open>strncmp\<close>

text \<open>The string of at most \<open>n\<close> characters at \<open>s\<close>: what \<^verbatim>\<open>strncmp\<close> looks at.\<close>

definition cprefix :: "memory \<Rightarrow> u32 \<Rightarrow> nat \<Rightarrow> u8 list" where
  "cprefix m s n = takeWhile (\<lambda>b. b \<noteq> 0) (bytes m s n)"

lemma cprefix_0 [simp]: "cprefix m s 0 = []"
  by (simp add: cprefix_def)

lemma cprefix_Suc:
  "cprefix m s (Suc n) = (if m s = 0 then [] else m s # cprefix m (s + 1) n)"
  by (simp add: cprefix_def bytes_Suc)

lemma cprefix_cstring: "cstring m s xs \<Longrightarrow> cprefix m s n = take n xs"
proof (induction n arbitrary: s xs)
  case 0
  then show ?case by simp
next
  case (Suc n)
  show ?case
  proof (cases xs)
    case Nil
    with Suc.prems show ?thesis by (simp add: cprefix_Suc cstring_def)
  next
    case (Cons y ys)
    with Suc.prems have "m s = y" "y \<noteq> 0" "cstring m (s + 1) ys"
      by (auto dest: cstring_Cons)
    with Suc.IH Cons show ?thesis by (simp add: cprefix_Suc)
  qed
qed

text \<open>The reference comparison of two byte strings: the difference, as signed characters, at the
  first place where they differ.\<close>

fun compare_strings :: "u8 list \<Rightarrow> u8 list \<Rightarrow> i32" where
  "compare_strings [] [] = 0"
| "compare_strings [] (y # ys) = - scast y"
| "compare_strings (x # xs) [] = scast x"
| "compare_strings (x # xs) (y # ys) =
     (if x = y then compare_strings xs ys else scast x - scast y)"

lemma scast_u8_eq_iff: "(scast (a :: u8) :: i32) = scast b \<longleftrightarrow> a = b"
proof
  have inv: "ucast (scast c :: i32) = c" for c :: u8
    by (rule bit_word_eqI) (auto simp: bit_simps)
  assume "(scast a :: i32) = scast b"
  then have "ucast (scast a :: i32) = (ucast (scast b :: i32) :: u8)" by simp
  then show "a = b" by (simp only: inv)
qed simp

lemma compare_strings_eq_0_iff:
  "0 \<notin> set xs \<Longrightarrow> 0 \<notin> set ys \<Longrightarrow> compare_strings xs ys = 0 \<longleftrightarrow> xs = ys"
proof (induction xs ys rule: compare_strings.induct)
  case (2 y ys)
  then show ?case using scast_u8_eq_iff [of y 0] by auto
next
  case (3 x xs)
  then show ?case using scast_u8_eq_iff [of x 0] by auto
next
  case (4 x xs y ys)
  then show ?case using scast_u8_eq_iff [of x y] by auto
qed simp

lemma strncmp_loop_compare:
  "unat i \<le> unat n \<Longrightarrow> strncmp_loop m s1 s2 n i =
     compare_strings (cprefix m (s1 + i) (unat n - unat i)) (cprefix m (s2 + i) (unat n - unat i))"
proof (induction m s1 s2 n i rule: strncmp_loop.induct)
  case (1 m s1 s2 n i)
  show ?case
  proof (cases "i < n")
    case False
    with "1.prems" have "unat n - unat i = 0" by (simp add: word_less_nat_alt)
    with False show ?thesis by (simp add: strncmp_loop.simps [of m s1 s2 n i])
  next
    case True
    then have lt: "unat i < unat n" by (simp add: word_less_nat_alt)
    from True have Si: "unat (i + 1) = Suc (unat i)" by (rule unat_Suc_less)
    with lt obtain k where k: "unat n - unat i = Suc k" "unat n - unat (i + 1) = k"
      by (cases "unat n - unat i") auto
    have "strncmp_loop m s1 s2 n (i + 1)
        = compare_strings (cprefix m (s1 + (i + 1)) k) (cprefix m (s2 + (i + 1)) k)"
      if "m (s1 + i) = m (s2 + i)" "m (s1 + i) \<noteq> 0"
      using "1.IH" [OF True] that lt Si k(2) by auto
    with True show ?thesis
      by (auto simp: strncmp_loop.simps [of m s1 s2 n i] k(1) cprefix_Suc add.assoc)
  qed
qed

lemma strncmp_compare:
  "strncmp m s1 s2 n = compare_strings (cprefix m s1 (unat n)) (cprefix m s2 (unat n))"
  using strncmp_loop_compare [of 0 n m s1 s2] by (simp add: strncmp_def)

lemma zero_notin_cprefix: "0 \<notin> set (cprefix m s n)"
  by (auto simp: cprefix_def dest: set_takeWhileD)

lemma strncmp_eq_0_iff: "strncmp m s1 s2 n = 0 \<longleftrightarrow> cprefix m s1 (unat n) = cprefix m s2 (unat n)"
  by (simp add: strncmp_compare compare_strings_eq_0_iff zero_notin_cprefix)

section \<open>strcpy\<close>

lemma strcpy_loop_spec:
  assumes "cstring m src xs" "i \<le> length xs"
    and "region dest (Suc (length xs)) \<inter> region src (Suc (length xs)) = {}"
  shows "strcpy_loop (store_bytes m dest (take i xs)) dest src (of_nat i)
       = Some (store_bytes m dest (xs @ [0]))"
  using assms(2)
proof (induction "length xs - i" arbitrary: i)
  case 0
  let ?m = "store_bytes m dest (take i xs)"
  from 0 have i: "i = length xs" by simp
  have src: "?m (src + of_nat i) = m (src + of_nat i)"
    by (rule store_bytes_outside)
      (use assms(3) i region_mono [of "length xs" "Suc (length xs)" dest]
        in_regionI [of "length xs" "Suc (length xs)" src] in auto)
  with i assms(1) have "?m (src + of_nat i) = 0" by (simp add: cstring_end)
  with i show ?case
    by (subst strcpy_loop.simps) (simp add: store_bytes_append)
next
  case (Suc k)
  let ?m = "store_bytes m dest (take i xs)"
  from Suc have i: "i < length xs" by simp
  have src: "?m (src + of_nat i) = m (src + of_nat i)"
    by (rule store_bytes_outside)
      (use assms(3) i region_mono [of i "Suc (length xs)" dest]
        in_regionI [of i "Suc (length xs)" src] in auto)
  with i assms(1) have x: "?m (src + of_nat i) = xs ! i" by (simp add: cstring_nth)
  from i assms(1) have nz: "xs ! i \<noteq> 0" using cstring_nth_nz cstring_nth by metis
  have "?m(dest + of_nat i := xs ! i) = store_bytes m dest (take (Suc i) xs)"
    using i by (simp add: take_Suc_conv_app_nth store_bytes_append)
  moreover have "strcpy_loop (store_bytes m dest (take (Suc i) xs)) dest src (of_nat (Suc i))
      = Some (store_bytes m dest (xs @ [0]))"
    by (rule Suc.hyps) (use Suc i in simp_all)
  ultimately show ?case
    by (subst strcpy_loop.simps) (simp add: x nz add.commute [of 1])
qed

lemma strcpy_spec:
  assumes "cstring m src xs"
    and "region dest (Suc (length xs)) \<inter> region src (Suc (length xs)) = {}"
  shows "strcpy m dest src = Some (store_bytes m dest (xs @ [0]))"
  using strcpy_loop_spec [OF assms(1) _ assms(2), of 0] by (simp add: strcpy_def)

lemma cstring_store_bytes:
  assumes "length xs < 2 ^ 32" "0 \<notin> set xs"
  shows "cstring (store_bytes m d (xs @ [0])) d xs"
proof -
  have "bytes (store_bytes m d (xs @ [0])) d (length (xs @ [0])) = xs @ [0]"
    by (rule bytes_store_bytes) (use assms in simp)
  then have "bytes (store_bytes m d (xs @ [0])) d (length xs)
        @ bytes (store_bytes m d (xs @ [0])) (d + of_nat (length xs)) 1 = xs @ [0]"
    by (simp add: bytes_append [symmetric])
  then show ?thesis
    using assms by (simp add: cstring_def bytes_Suc)
qed

section \<open>strrev\<close>

lemma rev_loop_step:
  assumes "i < j" "j < length xs" "length xs < 2 ^ 32"
  shows "(store_bytes m s xs)(s + of_nat j := xs ! i, s + of_nat i := xs ! j)
       = store_bytes m s (xs[j := xs ! i, i := xs ! j])"
proof (rule ext)
  fix p
  let ?ys = "xs[j := xs ! i, i := xs ! j]"
  have off: "p = s + of_nat k \<longleftrightarrow> unat (p - s) = k" if "k < length xs" for k
    using that assms(3) by auto
  show "((store_bytes m s xs)(s + of_nat j := xs ! i, s + of_nat i := xs ! j)) p
      = store_bytes m s ?ys p"
    using assms off [of i] off [of j] by (auto simp: store_bytes_apply nth_list_update)
qed

text \<open>Between \<open>beg\<close> and \<open>end\<close> the string is untouched, outside it is reversed already.\<close>

definition half_reversed :: "'a list \<Rightarrow> nat \<Rightarrow> 'a list" where
  "half_reversed xs k = map (\<lambda>i. if i < k \<or> length xs - k \<le> i then rev xs ! i else xs ! i) [0..<length xs]"

lemma length_half_reversed [simp]: "length (half_reversed xs k) = length xs"
  by (simp add: half_reversed_def)

lemma half_reversed_0 [simp]: "half_reversed xs 0 = xs"
  by (rule nth_equalityI) (simp_all add: half_reversed_def)

lemma half_reversed_done: "length xs \<le> 2 * k + 1 \<Longrightarrow> half_reversed xs k = rev xs"
proof (rule nth_equalityI)
  fix i
  assume bounds: "length xs \<le> 2 * k + 1" "i < length (half_reversed xs k)"
  have "i < k \<or> length xs - k \<le> i \<or> i = k \<and> length xs = 2 * k + 1"
    using bounds by simp linarith
  moreover have "xs ! i = rev xs ! i" if "i = k" "length xs = 2 * k + 1"
    using that by (simp add: rev_nth)
  ultimately show "half_reversed xs k ! i = rev xs ! i"
    using bounds(2) by (auto simp: half_reversed_def)
qed simp

lemma half_reversed_Suc:
  assumes "2 * k + 1 < length xs"
  shows "(half_reversed xs k)[length xs - 1 - k := half_reversed xs k ! k,
            k := half_reversed xs k ! (length xs - 1 - k)] = half_reversed xs (Suc k)"
  by (rule nth_equalityI) (use assms in \<open>auto simp: half_reversed_def nth_list_update rev_nth\<close>)

lemma strrev_loop_rev:
  assumes "length xs < 2 ^ 32" "2 * k \<le> length xs + 1"
  shows "strrev_loop (store_bytes m s (half_reversed xs k)) s (int k) (int (length xs) - 1 - int k)
       = store_bytes m s (rev xs)"
  using assms(2)
proof (induction "length xs - 2 * k" arbitrary: k rule: less_induct)
  case less
  let ?h = "half_reversed xs k" and ?e = "length xs - 1 - k"
  show ?case
  proof (cases "2 * k + 1 < length xs")
    case False
    with less.prems show ?thesis
      by (subst strrev_loop.simps) (simp add: half_reversed_done)
  next
    case True
    have e: "int (length xs) - 1 - int k = int ?e" "k < ?e" "?e < length xs"
      using True by auto
    have rd: "store_bytes m s ?h (s + of_nat i) = ?h ! i" if "i < length xs" for i
      using that assms(1) by (intro store_bytes_inside) simp_all
    have st: "(store_bytes m s ?h)(s + of_nat ?e := ?h ! k, s + of_nat k := ?h ! ?e)
        = store_bytes m s (half_reversed xs (Suc k))"
      using rev_loop_step [of k ?e ?h m s] e assms(1) half_reversed_Suc [OF True]
      by simp
    have "strrev_loop (store_bytes m s (half_reversed xs (Suc k))) s (int (Suc k))
        (int (length xs) - 1 - int (Suc k)) = store_bytes m s (rev xs)"
      by (rule less.hyps) (use True in auto)
    then have "strrev_loop (store_bytes m s (half_reversed xs (Suc k))) s (int k + 1) (int ?e - 1)
        = store_bytes m s (rev xs)"
      using True by (simp add: algebra_simps of_nat_diff)
    then show ?thesis
      unfolding e(1) using e(2,3) rd [of k] rd [of ?e] st
      by (subst strrev_loop.simps) (simp only: Let_def of_nat_less_iff if_True of_int_of_nat_eq)
  qed
qed

lemma store_bytes_cstring:
  assumes "cstring m s xs"
  shows "store_bytes m s xs = m"
proof (rule ext)
  fix p
  show "store_bytes m s xs p = m p"
  proof (cases "p \<in> region s (length xs)")
    case True
    then obtain i where "i < length xs" "p = s + of_nat i" by (auto simp: region_def)
    with assms show ?thesis
      by (simp add: store_bytes_inside cstring_nth cstring_length less_imp_le)
  qed (simp add: store_bytes_outside)
qed

lemma strrev_spec:
  assumes "cstring m s xs" "length xs \<le> 2 ^ 31"
  shows "strrev m s = Some (store_bytes m s (rev xs))"
proof -
  have "sint (of_nat (length xs) - 1 :: u32) = int (length xs) - 1"
  proof -
    have "(of_nat (length xs) - 1 :: u32) = word_of_int (int (length xs) - 1)" by simp
    then show ?thesis
      using assms(2) by (simp only: sint_sbintrunc') (simp add: signed_take_bit_int_eq_self)
  qed
  then show ?thesis
    using strrev_loop_rev [of xs 0 m s] assms
    by (simp add: strrev_def strlen_cstring store_bytes_cstring)
qed

section \<open>itoa\<close>

text \<open>The digits of \<open>v\<close>, least significant first (the order in which the loop emits them), and the
  value a string of digit characters denotes.\<close>

fun low_digits :: "nat \<Rightarrow> nat \<Rightarrow> nat list" where
  "low_digits r v = (if r < 2 \<or> v = 0 then [] else v mod r # low_digits r (v div r))"

declare low_digits.simps [simp del]

definition digit_char :: "nat \<Rightarrow> u8" where
  "digit_char d = lookup_table ! d"

definition char_digit :: "u8 \<Rightarrow> nat" where
  "char_digit c = (if c \<le> 57 then unat c - 48 else unat c - 55)"

definition parse_radix :: "nat \<Rightarrow> u8 list \<Rightarrow> nat" where
  "parse_radix r cs = foldl (\<lambda>v c. v * r + char_digit c) 0 cs"

definition radix_string :: "nat \<Rightarrow> nat \<Rightarrow> u8 list" where
  "radix_string r v = (if v = 0 then [48] else rev (map digit_char (low_digits r v)))"

lemma low_digits_less: "2 \<le> r \<Longrightarrow> d \<in> set (low_digits r v) \<Longrightarrow> d < r"
proof (induction r v rule: low_digits.induct)
  case (1 r v)
  then show ?case by (auto simp: low_digits.simps [of r v] split: if_splits)
qed

lemma length_low_digits: "v < 2 ^ k \<Longrightarrow> length (low_digits r v) \<le> k"
proof (induction k arbitrary: v)
  case 0
  then show ?case by (simp add: low_digits.simps)
next
  case (Suc k)
  show ?case
  proof (cases "r < 2")
    case True
    then show ?thesis by (simp add: low_digits.simps)
  next
    case False
    then have "v div r \<le> v div 2" by (intro div_le_mono2) auto
    with Suc.prems have "v div r < 2 ^ k" by simp
    with Suc.IH show ?thesis by (subst low_digits.simps) simp
  qed
qed

lemma digit_char_cases:
  assumes "d < 36"
  shows "digit_char d = of_nat (if d < 10 then 48 + d else 55 + d)"
proof -
  have "\<forall>d \<in> set [0..<36]. digit_char d = of_nat (if d < 10 then 48 + d else 55 + d)"
    by code_simp
  with assms show ?thesis by simp
qed

lemma digit_char_nz: "d < 36 \<Longrightarrow> digit_char d \<noteq> 0"
  by (auto simp: digit_char_cases word_of_nat_eq_0_iff dest: dvd_imp_le split: if_splits)

lemma char_digit_char: "d < 36 \<Longrightarrow> char_digit (digit_char d) = d"
  by (auto simp: char_digit_def digit_char_cases word_le_nat_alt unat_of_nat)

lemma parse_radix_snoc: "parse_radix r (cs @ [c]) = parse_radix r cs * r + char_digit c"
  by (simp add: parse_radix_def)

lemma parse_low_digits:
  "2 \<le> r \<Longrightarrow> r \<le> 36 \<Longrightarrow> parse_radix r (rev (map digit_char (low_digits r v))) = v"
proof (induction r v rule: low_digits.induct)
  case (1 r v)
  show ?case
  proof (cases "v = 0")
    case True
    then show ?thesis by (simp add: low_digits.simps [of r 0] parse_radix_def)
  next
    case False
    with 1 have "parse_radix r (rev (map digit_char (low_digits r (v div r)))) = v div r"
      by simp
    moreover have "v mod r < 36"
      by (rule less_le_trans [OF mod_less_divisor]) (use "1.prems" in simp_all)
    ultimately show ?thesis
      using False "1.prems"
      by (simp add: low_digits.simps [of r v] parse_radix_snoc char_digit_char)
  qed
qed

lemma itoa_loop_spec:
  assumes "2 \<le> unat radix" "unat radix \<le> 36"
  shows "itoa_loop m newval newbuf radix
     = (let ds = map digit_char (low_digits (unat radix) (unat newval))
        in Some (store_bytes m newbuf ds, newbuf + of_nat (length ds)))"
proof (induction "unat newval" arbitrary: m newval newbuf rule: less_induct)
  case less
  show ?case
  proof (cases "newval = 0")
    case True
    then show ?thesis by (subst itoa_loop.simps) (simp add: low_digits.simps)
  next
    case False
    let ?d = "unat newval mod unat radix" and ?q = "newval div radix"
    have q: "unat ?q = unat newval div unat radix" by (rule unat_div)
    have "unat newval div unat radix < unat newval"
      using False assms(1) by (intro div_less_dividend) (auto simp: unat_gt_0)
    then have lt: "unat ?q < unat newval" by (simp only: q)
    have d: "?d < 36" by (rule less_le_trans [OF mod_less_divisor]) (use assms in simp_all)
    then have look: "lookup_digit (newval mod radix) = Some (digit_char ?d)"
      by (simp add: lookup_digit_def digit_char_def unat_mod)
    have nz: "radix \<noteq> 0" "newval > 0"
      using assms(1) False by (auto simp: word_gt_0)
    have ds: "low_digits (unat radix) (unat newval) = ?d # low_digits (unat radix) (unat ?q)"
      using False assms(1) q by (subst low_digits.simps) (simp add: unat_eq_0)
    from less.hyps [OF lt] show ?thesis
      by (subst itoa_loop.simps) (simp add: nz look ds Let_def add.assoc)
  qed
qed

lemma store_bytes_prefix_overwrite:
  assumes "length ys = length xs" "length xs + length zs \<le> 2 ^ 32"
  shows "store_bytes (store_bytes m a (xs @ zs)) a ys = store_bytes m a (ys @ zs)"
  by (rule ext) (use assms in \<open>simp add: store_bytes_apply nth_append\<close>)

lemma itoa_spec:
  assumes "2 \<le> unat radix" "unat radix \<le> 36"
  shows "itoa m val buf radix
     = Some (store_bytes m buf (radix_string (unat radix) (unat val) @ [0]))"
proof (cases "val = 0")
  case True
  then show ?thesis by (simp add: itoa_def radix_string_def)
next
  case False
  let ?ds = "map digit_char (low_digits (unat radix) (unat val))"
  have len: "length ?ds \<le> 32"
    using length_low_digits [of "unat val" 32 "unat radix"] by simp
  have "d < 36" if "d \<in> set (low_digits (unat radix) (unat val))" for d
    using low_digits_less [OF assms(1) that] assms(2) by simp
  then have nz: "0 \<notin> set ?ds"
    using digit_char_nz by (metis (no_types, lifting) imageE list.set_map)
  have str: "cstring (store_bytes m buf (?ds @ [0])) buf ?ds"
    by (rule cstring_store_bytes) (use len nz in simp_all)
  have "itoa m val buf radix = strrev (store_bytes m buf (?ds @ [0])) buf"
    using False assms by (simp add: itoa_def itoa_loop_spec Let_def store_bytes_append)
  also have "\<dots> = Some (store_bytes (store_bytes m buf (?ds @ [0])) buf (rev ?ds))"
    by (rule strrev_spec [OF str]) (use len in simp)
  also have "\<dots> = Some (store_bytes m buf (rev ?ds @ [0]))"
    using store_bytes_prefix_overwrite [of "rev ?ds" ?ds "[0]" m buf] len by simp
  finally show ?thesis using False by (simp add: radix_string_def unat_eq_0)
qed

section \<open>Properties\<close>

text \<open>
  \<^verbatim>\<open>strlen\<close> returns \<open>r\<close> exactly when \<open>r\<close> non-zero bytes and then a zero byte lie at \<open>s\<close>;
  in every other case (no zero byte anywhere in memory) the loop does not end.
\<close>

theorem strlen_iff: "strlen m s = Some r \<longleftrightarrow> cstring m s (bytes m s (unat r))"
proof
  assume "cstring m s (bytes m s (unat r))"
  from strlen_cstring [OF this] show "strlen m s = Some r" by simp
qed (rule strlen_sound)

text \<open>
  \<^verbatim>\<open>strncmp\<close> returns the signed-character difference at the first place where the two strings,
  cut after \<open>n\<close> characters, differ, and zero exactly when they are equal.
\<close>

theorem strncmp_correct:
  "strncmp m s1 s2 n = compare_strings (cprefix m s1 (unat n)) (cprefix m s2 (unat n)) \<and>
   (strncmp m s1 s2 n = 0 \<longleftrightarrow> cprefix m s1 (unat n) = cprefix m s2 (unat n))"
  by (simp add: strncmp_compare [symmetric] strncmp_eq_0_iff)

text \<open>
  \<^verbatim>\<open>strrev\<close> returns on every string of at most \<open>2\<^sup>3\<^sup>1\<close> characters, leaves the reversed string in
  its place and changes nothing else.
\<close>

theorem strrev_correct:
  assumes "cstring m s xs" "length xs \<le> 2 ^ 31"
  shows "\<exists>m'. strrev m s = Some m' \<and> bytes m' s (length xs) = rev xs \<and>
           {p. m' p \<noteq> m p} \<subseteq> region s (length xs)"
proof -
  let ?m = "store_bytes m s (rev xs)"
  have "bytes ?m s (length xs) = rev xs"
    using bytes_store_bytes [of "rev xs" m s] assms(2) by simp
  moreover have "{p. ?m p \<noteq> m p} \<subseteq> region s (length xs)"
    using store_bytes_outside [of _ s "rev xs" m] by auto
  ultimately show ?thesis using strrev_spec [OF assms] by blast
qed

theorem strrev_correct_witness:
  "\<exists>m'. strrev (store_bytes (\<lambda>_. 7) 100 [104, 105, 0]) 100 = Some m' \<and> bytes m' 100 2 = [105, 104]"
proof -
  have str: "cstring (store_bytes (\<lambda>_. 7) 100 [104, 105, 0]) 100 [104, 105]"
    using cstring_store_bytes [of "[104, 105]" "\<lambda>_. 7" 100] by simp
  have len: "length [104 :: u8, 105] = 2" by simp
  have "length [104 :: u8, 105] \<le> 2 ^ 31" by simp
  from strrev_correct [OF str this] show ?thesis unfolding len by force
qed

text \<open>
  C23: \<^verbatim>\<open>itoa\<close> terminates for every value and every radix from 2 to 36, and the string it leaves in
  the buffer is at most 32 digits long, reads back as the value, and is all it writes.
\<close>

theorem itoa_roundtrip:
  assumes "2 \<le> unat radix" "unat radix \<le> 36"
  shows "\<exists>m' ds. itoa m val buf radix = Some m' \<and> cstring m' buf ds \<and>
           parse_radix (unat radix) ds = unat val \<and> length ds \<le> 32 \<and>
           {p. m' p \<noteq> m p} \<subseteq> region buf (Suc (length ds))"
proof -
  let ?ds = "radix_string (unat radix) (unat val)"
  have len: "length ?ds \<le> 32"
    using length_low_digits [of "unat val" 32 "unat radix"] by (simp add: radix_string_def)
  have "d < 36" if "d \<in> set (low_digits (unat radix) (unat val))" for d
    using low_digits_less [OF assms(1) that] assms(2) by simp
  then have "0 \<notin> set ?ds"
    using digit_char_nz by (auto simp: radix_string_def)
  with len have "cstring (store_bytes m buf (?ds @ [0])) buf ?ds"
    by (intro cstring_store_bytes) simp_all
  moreover have "parse_radix (unat radix) ?ds = unat val"
    using parse_low_digits [OF assms] by (simp add: radix_string_def parse_radix_def char_digit_def)
  moreover have "{p. store_bytes m buf (?ds @ [0]) p \<noteq> m p} \<subseteq> region buf (Suc (length ?ds))"
    using store_bytes_outside [of _ buf "?ds @ [0]" m] by auto
  ultimately show ?thesis
    using itoa_spec [OF assms, of m val buf] len by blast
qed

theorem itoa_roundtrip_witness:
  "\<exists>m' ds. itoa (\<lambda>_. 7) 391 4096 10 = Some m' \<and> cstring m' 4096 ds \<and> parse_radix 10 ds = 391"
  using itoa_roundtrip [of 10 "\<lambda>_. 7" 391 4096] by auto

text \<open>
  \<^verbatim>\<open>strcpy\<close> returns on every string whose copy does not overlap it, and leaves the string at the
  destination, the source and all other memory unchanged.
\<close>

theorem strcpy_correct:
  assumes "cstring m src xs"
    and "region dest (Suc (length xs)) \<inter> region src (Suc (length xs)) = {}"
  shows "\<exists>m'. strcpy m dest src = Some m' \<and> cstring m' dest xs \<and>
           {p. m' p \<noteq> m p} \<subseteq> region dest (Suc (length xs))"
proof -
  let ?m = "store_bytes m dest (xs @ [0])"
  have "cstring ?m dest xs"
    by (rule cstring_store_bytes) (use assms(1) in \<open>simp_all add: cstring_def\<close>)
  moreover have "{p. ?m p \<noteq> m p} \<subseteq> region dest (Suc (length xs))"
    using store_bytes_outside [of _ dest "xs @ [0]" m] by auto
  ultimately show ?thesis using strcpy_spec [OF assms] by blast
qed

theorem strcpy_correct_witness:
  "\<exists>m'. strcpy (store_bytes (\<lambda>_. 7) 100 [104, 105, 0]) 200 100 = Some m' \<and> cstring m' 200 [104, 105]"
proof -
  have "cstring (store_bytes (\<lambda>_. 7) 100 [104, 105, 0]) 100 [104, 105]"
    using cstring_store_bytes [of "[104, 105]" "\<lambda>_. 7" 100] by simp
  moreover have "region 200 (Suc (length [104 :: u8, 105])) \<inter> region 100 (Suc (length [104 :: u8, 105])) = {}"
    by (simp add: region_Suc)
  ultimately show ?thesis using strcpy_correct by blast
qed

end
