(* ===== verification/File_Sys.thy ===== *)
theory File_Sys
  imports Lib_String
begin

text \<open>
  The read-only file system of \<^verbatim>\<open>file_sys.c\<close> over its in-memory image.  The image starts with the
  boot block (\<^verbatim>\<open>boot_t\<close>: three counters, 52 reserved bytes and 63 directory entries of 64 bytes),
  then come the inode blocks (\<^verbatim>\<open>inode_t\<close>: a byte length and 1023 data block numbers) and then the data
  blocks, 4096 bytes each.  All of it is read through byte memory at the address \<^verbatim>\<open>bootmebb\<close>, with the
  pointer arithmetic of the code, so an index past a table reads what lies there.
  Locals whose address is taken (\<^verbatim>\<open>dentry_t dentry_idx\<close>) are passed by address.

  The main theorem, \<open>read_data_correct\<close>, says that \<^verbatim>\<open>read_data\<close> delivers exactly the requested
  slice of the file; the contract of a sequential reader built on it is the locale
  \<open>sequential_file\<close> of theory \<open>Read_File\<close>.
\<close>

section \<open>The image\<close>

definition d_table_entry :: "u32 \<Rightarrow> u32 \<Rightarrow> u32" where
  "d_table_entry bootmebb i = bootmebb + 64 + 64 * i"

definition num_inodes :: "memory \<Rightarrow> u32 \<Rightarrow> u32" where
  "num_inodes m bootmebb = load32 m (bootmebb + 4)"

definition data_blocks :: "memory \<Rightarrow> u32 \<Rightarrow> u32" where
  "data_blocks m bootmebb = load32 m (bootmebb + 8)"

definition inode_address :: "u32 \<Rightarrow> u32 \<Rightarrow> u32" where
  "inode_address bootmebb inode = bootmebb + 4096 * (1 + inode)"

definition b_length :: "memory \<Rightarrow> u32 \<Rightarrow> u32" where
  "b_length m iNode_address = load32 m iNode_address"

definition in_table :: "memory \<Rightarrow> u32 \<Rightarrow> u32 \<Rightarrow> u32" where
  "in_table m iNode_address k = load32 m (iNode_address + 4 + 4 * k)"

definition datablock_address :: "u32 \<Rightarrow> u32 \<Rightarrow> u32 \<Rightarrow> u32" where
  "datablock_address bootmebb number_of_iNodes k =
     bootmebb + 4096 * (1 + number_of_iNodes) + 4096 * k"

text \<open>Fields of a \<^verbatim>\<open>dentry_t\<close> at address \<open>d\<close>.\<close>

definition file_type :: "memory \<Rightarrow> u32 \<Rightarrow> u32" where
  "file_type m d = load32 m (d + 32)"

definition inode_num :: "memory \<Rightarrow> u32 \<Rightarrow> u32" where
  "inode_num m d = load32 m (d + 36)"

section \<open>file\_sys.c: directory entries\<close>

function read_dentry_by_name_loop ::
  "memory \<Rightarrow> u32 \<Rightarrow> u32 \<Rightarrow> u32 \<Rightarrow> nat \<Rightarrow> memory \<times> i32" where
  "read_dentry_by_name_loop m bootmebb fname dentry i =
     (if i < 63
      then if strncmp m (d_table_entry bootmebb (of_nat i)) fname 32 = 0
           then (memcpy m dentry (d_table_entry bootmebb (of_nat i)) 64, 0)
           else read_dentry_by_name_loop m bootmebb fname dentry (i + 1)
      else (m, -1))"
  by pat_completeness auto
termination
  by (relation "measure (\<lambda>(m, b, f, d, i). 63 - i)") auto

declare read_dentry_by_name_loop.simps [simp del]

definition read_dentry_by_name :: "memory \<Rightarrow> u32 \<Rightarrow> u32 \<Rightarrow> u32 \<Rightarrow> memory \<times> i32" where
  "read_dentry_by_name m bootmebb fname dentry = read_dentry_by_name_loop m bootmebb fname dentry 0"

definition read_dentry_by_index :: "memory \<Rightarrow> u32 \<Rightarrow> u32 \<Rightarrow> u32 \<Rightarrow> memory \<times> i32" where
  "read_dentry_by_index m bootmebb index dentry =
     (if index > 63 then (m, -1)
      else (memcpy m dentry (d_table_entry bootmebb index) 64, 0))"

section \<open>file\_sys.c: read\_data\<close>

text \<open>
  The body shared by the three copying loops: \<open>k\<close> iterations are left; an iteration copies one
  byte, counts it, and returns from \<^verbatim>\<open>read_data\<close> as soon as nothing is left to copy.  (The counter
  \<^verbatim>\<open>counter\<close> of the source is never read.)
\<close>

datatype read_result = Return memory u32 | Continue memory u32 u32

fun read_block :: "nat \<Rightarrow> memory \<Rightarrow> u32 \<Rightarrow> u32 \<Rightarrow> u32 \<Rightarrow> u32 \<Rightarrow> read_result" where
  "read_block 0 m dst src left_to_copy copied_so_far = Continue m left_to_copy copied_so_far"
| "read_block (Suc k) m dst src left_to_copy copied_so_far =
     (let m = m(dst := m src);
          copied_so_far = copied_so_far + 1;
          left_to_copy = left_to_copy - 1
      in if left_to_copy = 0 then Return m copied_so_far
         else read_block k m (dst + 1) (src + 1) left_to_copy copied_so_far)"

lemma read_block_eq:
  "k < 2 ^ 32 \<Longrightarrow> read_block k m dst src left_to_copy copied =
     (if left_to_copy \<noteq> 0 \<and> unat left_to_copy \<le> k
      then Return (memcpy_bottom (unat left_to_copy) m src dst) (copied + left_to_copy)
      else Continue (memcpy_bottom k m src dst) (left_to_copy - of_nat k) (copied + of_nat k))"
proof (induction k arbitrary: m dst src left_to_copy copied)
  case 0
  then show ?case by (simp add: unat_eq_0)
next
  case (Suc k)
  let ?l = "left_to_copy"
  consider (zero) "?l = 0" | (one) "?l = 1" | (more) "?l \<noteq> 0" "?l \<noteq> 1" by blast
  then show ?case
  proof cases
    case zero
    have "unat (- 1 :: u32) = 4294967295" by (simp add: unsigned_minus_1_eq_mask mask_eq_exp_minus_1)
    with zero Suc show ?thesis by (simp add: Let_def algebra_simps)
  next
    case one
    then show ?thesis by (simp add: Let_def)
  next
    case more
    then have u: "unat ?l = Suc (unat (?l - 1))" "?l - 1 \<noteq> 0"
      by (simp_all add: unat_u32_minus_1 unat_gt_0)
    with more Suc show ?thesis by (simp add: Let_def algebra_simps)
  qed
qed

text \<open>
  The \<^verbatim>\<open>while (blocks_to_copy > 0)\<close> loop.  The data block number is read from the inode at each
  round; \<^verbatim>\<open>remainder_to_copy\<close> is \<open>left_to_copy mod 4096\<close> whenever it is used.
\<close>

function read_full_blocks ::
  "memory \<Rightarrow> u32 \<Rightarrow> u32 \<Rightarrow> u32 \<Rightarrow> u32 \<Rightarrow> u32 \<Rightarrow> u32 \<Rightarrow> u32 \<Rightarrow> u32 \<Rightarrow> read_result \<times> u32 \<times> u32" where
  "read_full_blocks m bootmebb number_of_iNodes iNode_address buf blocks_to_offset buffer_idx
       left_to_copy copied_so_far =
     (if left_to_copy div 4096 > 0
      then case read_block 4096 m (buf + buffer_idx)
                  (datablock_address bootmebb number_of_iNodes (in_table m iNode_address blocks_to_offset))
                  left_to_copy copied_so_far of
             Return m' copied' \<Rightarrow> (Return m' copied', blocks_to_offset, buffer_idx)
           | Continue m' left' copied' \<Rightarrow>
               read_full_blocks m' bootmebb number_of_iNodes iNode_address buf (blocks_to_offset + 1)
                 copied' left' copied'
      else (Continue m left_to_copy copied_so_far, blocks_to_offset, buffer_idx))"
  by pat_completeness auto
termination
proof (relation "measure (\<lambda>(m, b, n, i, buf, blk, idx, l, c). unat l)", goal_cases)
  case 1
  show ?case by simp
next
  case (2 m b n i buf blk idx l c m' l' c')
  from 2(1) have "4096 \<le> unat l"
    by (auto simp: word_less_nat_alt unat_div div_greater_zero_iff)
  moreover from 2(2) have "l' = l - 4096"
    by (auto simp: read_block_eq split: if_splits)
  moreover from calculation(1) have "unat (l - 4096) = unat l - 4096"
    using unat_u32_minus [of 4096 l] by simp
  ultimately show ?case by simp
qed

declare read_full_blocks.simps [simp del]

text \<open>From the end of the first, partial block on: whole blocks, then the rest of the last one.\<close>

definition read_remaining ::
  "memory \<Rightarrow> u32 \<Rightarrow> u32 \<Rightarrow> u32 \<Rightarrow> u32 \<Rightarrow> u32 \<Rightarrow> u32 \<Rightarrow> u32 \<Rightarrow> memory \<times> i32" where
  "read_remaining m bootmebb number_of_iNodes iNode_address buf blocks_to_offset left_to_copy copied_so_far =
     (case read_full_blocks m bootmebb number_of_iNodes iNode_address buf blocks_to_offset
             copied_so_far left_to_copy copied_so_far of
        (Return m2 copied, _, _) \<Rightarrow> (m2, copied)
      | (Continue m2 left2 copied2, blk, buffer_idx) \<Rightarrow>
          if left2 > 0
          then case read_block (unat (left2 mod 4096)) m2 (buf + buffer_idx)
                      (datablock_address bootmebb number_of_iNodes (in_table m2 iNode_address blk))
                      left2 copied2 of
                 Return m3 copied \<Rightarrow> (m3, copied)
               | Continue m3 _ copied \<Rightarrow> (m3, copied)
          else (m2, copied2))"

definition read_data :: "memory \<Rightarrow> u32 \<Rightarrow> u32 \<Rightarrow> u32 \<Rightarrow> u32 \<Rightarrow> u32 \<Rightarrow> memory \<times> i32" where
  "read_data m bootmebb inode offset buf length' =
     (let iNode_address = inode_address bootmebb inode;
          size_of_file = b_length m iNode_address
      in if inode > num_inodes m bootmebb then (m, -1)
         else if offset > size_of_file then (m, 0)
         else
           let length' = (if offset + length' > size_of_file then size_of_file - offset else length');
               number_of_iNodes = num_inodes m bootmebb;
               blocks_to_offset = offset div 4096;
               bytes_to_offset = offset mod 4096
           in if offset > 0
              then case read_block (4096 - unat bytes_to_offset) m buf
                          (datablock_address bootmebb number_of_iNodes
                             (in_table m iNode_address blocks_to_offset) + bytes_to_offset)
                          length' 0 of
                     Return m1 copied \<Rightarrow> (m1, copied)
                   | Continue m1 left1 copied1 \<Rightarrow>
                       read_remaining m1 bootmebb number_of_iNodes iNode_address buf
                         (blocks_to_offset + 1) left1 copied1
              else read_remaining m bootmebb number_of_iNodes iNode_address buf
                     blocks_to_offset length' 0)"

section \<open>file\_sys.c: read\_directory and the default operations\<close>

text \<open>The loop \<^verbatim>\<open>for (j = 0; j < length; j++) buf[j] = dentry_idx.file_name[j]\<close>.\<close>

fun copy_name :: "nat \<Rightarrow> memory \<Rightarrow> u32 \<Rightarrow> u32 \<Rightarrow> memory" where
  "copy_name 0 m buf name = m"
| "copy_name (Suc k) m buf name = copy_name k (m(buf := m name)) (buf + 1) (name + 1)"

text \<open>
  The global \<^verbatim>\<open>read_directory_index\<close> is an 8-bit counter, shared by all processes.  The result is
  the memory, the counter and the return value; \<open>None\<close> when \<^verbatim>\<open>strlen\<close> does not return.
\<close>

definition read_directory ::
  "memory \<Rightarrow> u32 \<Rightarrow> u32 \<Rightarrow> u8 \<Rightarrow> u32 \<Rightarrow> (memory \<times> u8 \<times> i32) option" where
  "read_directory m bootmebb dentry_idx read_directory_index buf =
     (if read_directory_index > 16 then Some (m, 0, 0)
      else case read_dentry_by_index m bootmebb (ucast read_directory_index) dentry_idx of
             (m1, ret) \<Rightarrow>
               if ret = -1 then Some (m1, read_directory_index, 0)
               else case strlen m1 dentry_idx of
                      None \<Rightarrow> None
                    | Some len \<Rightarrow>
                        let len = (if len > 32 then 32 else len)
                        in Some (copy_name (unat len) m1 buf dentry_idx,
                                 read_directory_index + 1, len))"

definition file_open :: i32 where
  "file_open = 0"

definition file_close :: i32 where
  "file_close = 0"

definition file_write :: i32 where
  "file_write = -1"

definition write_directory :: i32 where
  "write_directory = -1"

definition open_directory :: i32 where
  "open_directory = 0"

definition close_directory :: i32 where
  "close_directory = 0"

section \<open>What a file is\<close>

definition image_size :: "memory \<Rightarrow> u32 \<Rightarrow> nat" where
  "image_size m bootmebb = 4096 * (1 + unat (num_inodes m bootmebb) + unat (data_blocks m bootmebb))"

definition image_region :: "memory \<Rightarrow> u32 \<Rightarrow> u32 set" where
  "image_region m bootmebb = region bootmebb (image_size m bootmebb)"

definition file_size :: "memory \<Rightarrow> u32 \<Rightarrow> u32 \<Rightarrow> nat" where
  "file_size m bootmebb inode = unat (b_length m (inode_address bootmebb inode))"

definition file_byte_address :: "memory \<Rightarrow> u32 \<Rightarrow> u32 \<Rightarrow> nat \<Rightarrow> u32" where
  "file_byte_address m bootmebb inode j =
     datablock_address bootmebb (num_inodes m bootmebb)
       (in_table m (inode_address bootmebb inode) (of_nat (j div 4096))) + of_nat (j mod 4096)"

definition file_content :: "memory \<Rightarrow> u32 \<Rightarrow> u32 \<Rightarrow> u8 list" where
  "file_content m bootmebb inode =
     map (\<lambda>j. m (file_byte_address m bootmebb inode j)) [0..<file_size m bootmebb inode]"

text \<open>
  A file is well formed when the image fits the address space, its inode number is one of the
  image's, it is no longer than an inode can describe, and the blocks it uses exist.
\<close>

definition file_wf :: "memory \<Rightarrow> u32 \<Rightarrow> u32 \<Rightarrow> bool" where
  "file_wf m bootmebb inode \<longleftrightarrow>
     image_size m bootmebb \<le> 2 ^ 32 \<and> inode < num_inodes m bootmebb \<and>
     file_size m bootmebb inode \<le> 1023 * 4096 \<and>
     (\<forall>b. 4096 * b < file_size m bootmebb inode \<longrightarrow>
        in_table m (inode_address bootmebb inode) (of_nat b) < data_blocks m bootmebb)"

section \<open>Addresses of the image\<close>

lemma datablock_address_offset:
  "datablock_address boot N k + of_nat r = boot + of_nat (4096 * (1 + unat N + unat k) + r)"
  by (simp add: datablock_address_def algebra_simps)

lemma in_table_address_offset:
  "inode_address boot inode + 4 + 4 * of_nat b + of_nat i
     = boot + of_nat (4096 * (1 + unat inode) + 4 + 4 * b + i)"
  by (simp add: inode_address_def algebra_simps)

lemma file_byte_in_image:
  assumes "file_wf m boot inode" "j < file_size m boot inode"
  shows "file_byte_address m boot inode j \<in> image_region m boot"
proof -
  let ?k = "in_table m (inode_address boot inode) (of_nat (j div 4096))"
  have "4096 * (j div 4096) < file_size m boot inode"
    using assms(2) by (meson le_less_trans times_div_less_eq_dividend)
  with assms(1) have "unat ?k < unat (data_blocks m boot)"
    by (simp add: file_wf_def word_less_nat_alt)
  then have "4096 * (1 + unat (num_inodes m boot) + unat ?k) + j mod 4096 < image_size m boot"
    using mod_less_divisor [of 4096 j] by (simp add: image_size_def)
  then show ?thesis
    unfolding file_byte_address_def image_region_def datablock_address_offset by (rule in_regionI)
qed

lemma in_table_agrees:
  assumes "file_wf m boot inode" "4096 * b < file_size m boot inode"
    and "\<And>p. p \<in> image_region m boot \<Longrightarrow> m' p = m p"
  shows "in_table m' (inode_address boot inode) (of_nat b) = in_table m (inode_address boot inode) (of_nat b)"
  unfolding in_table_def
proof (rule load32_cong)
  fix p
  assume "p \<in> region (inode_address boot inode + 4 + 4 * of_nat b) 4"
  then obtain i where i: "i < 4" "p = inode_address boot inode + 4 + 4 * of_nat b + of_nat i"
    by (auto simp: region_def)
  from assms have "b < 1023" "unat inode < unat (num_inodes m boot)"
    by (simp_all add: file_wf_def word_less_nat_alt)
  with i(1) have "4096 * (1 + unat inode) + 4 + 4 * b + i < image_size m boot"
    by (simp add: image_size_def)
  with i(2) have "p \<in> image_region m boot"
    unfolding image_region_def by (simp only: in_table_address_offset in_regionI)
  then show "m' p = m p" by (rule assms(3))
qed

section \<open>Memories with the same image\<close>

definition image_agrees :: "u32 \<Rightarrow> memory \<Rightarrow> memory \<Rightarrow> bool" where
  "image_agrees boot m m' \<longleftrightarrow> (\<forall>p \<in> image_region m boot. m' p = m p)"

lemma load32_image:
  assumes "image_agrees boot m m'" "d + 4 \<le> image_size m boot"
  shows "load32 m' (boot + of_nat d) = load32 m (boot + of_nat d)"
proof (rule load32_cong)
  fix p assume "p \<in> region (boot + of_nat d) 4"
  with region_shift_subset [OF assms(2), of boot] assms(1) show "m' p = m p"
    by (auto simp: image_agrees_def image_region_def)
qed

lemma image_agrees_counts:
  assumes "image_agrees boot m m'"
  shows "num_inodes m' boot = num_inodes m boot" "data_blocks m' boot = data_blocks m boot"
    "image_region m' boot = image_region m boot" "image_size m' boot = image_size m boot"
proof -
  show "num_inodes m' boot = num_inodes m boot" "data_blocks m' boot = data_blocks m boot"
    using load32_image [OF assms, of 4] load32_image [OF assms, of 8]
    by (simp_all add: num_inodes_def data_blocks_def image_size_def)
  then show "image_region m' boot = image_region m boot" "image_size m' boot = image_size m boot"
    by (simp_all add: image_region_def image_size_def)
qed

lemma image_agrees_b_length:
  assumes "image_agrees boot m m'" "inode < num_inodes m boot"
  shows "b_length m' (inode_address boot inode) = b_length m (inode_address boot inode)"
proof -
  have a: "inode_address boot inode = boot + of_nat (4096 * (1 + unat inode))"
    using in_table_address_offset [of boot inode 0 0] by (simp add: inode_address_def algebra_simps)
  have "4096 * (1 + unat inode) + 4 \<le> image_size m boot"
    using assms(2) by (simp add: image_size_def word_less_nat_alt)
  from load32_image [OF assms(1) this] show ?thesis by (simp only: b_length_def a)
qed

lemma image_agrees_file:
  assumes ag: "image_agrees boot m m'" and wf: "file_wf m boot inode"
  shows "file_wf m' boot inode" "file_content m' boot inode = file_content m boot inode"
    "file_size m' boot inode = file_size m boot inode"
proof -
  note counts = image_agrees_counts [OF ag]
  show size: "file_size m' boot inode = file_size m boot inode"
    using image_agrees_b_length [OF ag] wf by (simp add: file_size_def file_wf_def)
  have tab: "in_table m' (inode_address boot inode) (of_nat b) = in_table m (inode_address boot inode) (of_nat b)"
    if "4096 * b < file_size m boot inode" for b
    using in_table_agrees [OF wf that, of m'] ag by (simp add: image_agrees_def)
  with wf show "file_wf m' boot inode" by (simp add: file_wf_def counts size)
  have "m' (file_byte_address m' boot inode j) = m (file_byte_address m boot inode j)" if "j < file_size m boot inode" for j
  proof -
    have "4096 * (j div 4096) < file_size m boot inode" using that by (meson le_less_trans times_div_less_eq_dividend)
    with tab have "file_byte_address m' boot inode j = file_byte_address m boot inode j"
      by (simp add: file_byte_address_def counts)
    with file_byte_in_image [OF wf that] ag show ?thesis by (simp add: image_agrees_def)
  qed
  then show "file_content m' boot inode = file_content m boot inode"
    by (simp add: file_content_def size)
qed

section \<open>Slices of a file\<close>

definition file_slice :: "memory \<Rightarrow> u32 \<Rightarrow> u32 \<Rightarrow> nat \<Rightarrow> nat \<Rightarrow> u8 list" where
  "file_slice m boot inode pos c = map (\<lambda>j. m (file_byte_address m boot inode j)) [pos..<pos + c]"

lemma length_file_slice [simp]: "length (file_slice m boot inode pos c) = c"
  by (simp add: file_slice_def)

lemma file_slice_0 [simp]: "file_slice m boot inode pos 0 = []"
  by (simp add: file_slice_def)

lemma file_slice_add:
  "file_slice m boot inode pos (c + k) = file_slice m boot inode pos c @ file_slice m boot inode (pos + c) k"
proof -
  have "[pos..<pos + (c + k)] = [pos..<pos + c] @ [pos + c..<pos + c + k]"
    using upt_add_eq_append [of pos "pos + c" k] by (simp add: add.assoc)
  then show ?thesis by (simp add: file_slice_def)
qed

lemma file_slice_content:
  "pos + c \<le> file_size m boot inode \<Longrightarrow>
     file_slice m boot inode pos c = take c (drop pos (file_content m boot inode))"
  by (rule nth_equalityI) (auto simp: file_slice_def file_content_def)

text \<open>The memory after the first \<open>c\<close> bytes of the slice at \<open>pos\<close> have been delivered to \<open>buf\<close>.\<close>

definition delivered :: "memory \<Rightarrow> u32 \<Rightarrow> u32 \<Rightarrow> u32 \<Rightarrow> nat \<Rightarrow> nat \<Rightarrow> memory" where
  "delivered m boot inode buf pos c = store_bytes m buf (file_slice m boot inode pos c)"

lemma delivered_0 [simp]: "delivered m boot inode buf pos 0 = m"
  by (simp add: delivered_def)

lemma delivered_agrees:
  assumes "region buf n \<inter> image_region m boot = {}" "c \<le> n" "p \<in> image_region m boot"
  shows "delivered m boot inode buf pos c p = m p"
  unfolding delivered_def
  by (rule store_bytes_outside) (use assms region_mono [of c n buf] in auto)

lemma delivered_step:
  assumes wf: "file_wf m boot inode" and sep: "region buf n \<inter> image_region m boot = {}"
    and le: "c + k \<le> n" "pos + n \<le> file_size m boot inode" "(pos + c) mod 4096 + k \<le> 4096"
  shows "memcpy_bottom k (delivered m boot inode buf pos c)
           (datablock_address boot (num_inodes m boot)
              (in_table m (inode_address boot inode) (of_nat ((pos + c) div 4096)))
            + of_nat ((pos + c) mod 4096))
           (buf + of_nat c)
       = delivered m boot inode buf pos (c + k)"
proof -
  let ?src = "datablock_address boot (num_inodes m boot)
      (in_table m (inode_address boot inode) (of_nat ((pos + c) div 4096))) + of_nat ((pos + c) mod 4096)"
  let ?M = "delivered m boot inode buf pos c"
  have addr: "?src + of_nat i = file_byte_address m boot inode (pos + c + i)" if "i < k" for i
  proof -
    have "(pos + c) mod 4096 + i < 4096" using le(3) that by linarith
    from same_block [OF this] show ?thesis
      by (simp only: file_byte_address_def) (simp add: add.assoc)
  qed
  have img: "?src + of_nat i \<in> image_region m boot" if "i < k" for i
    unfolding addr [OF that] by (rule file_byte_in_image [OF wf]) (use that le in simp)
  have "region ?src k \<subseteq> image_region m boot" using img by (auto simp: region_def)
  moreover have "region (buf + of_nat c) k \<subseteq> region buf n" by (rule region_shift_subset) (rule le(1))
  ultimately have disj: "region (buf + of_nat c) k \<inter> region ?src k = {}" using sep by blast
  have k: "k < 2 ^ 32" using le(3) by simp
  have "bytes ?M ?src k = file_slice m boot inode (pos + c) k"
  proof (rule nth_equalityI)
    fix i
    assume "i < length (bytes ?M ?src k)"
    then have i: "i < k" by simp
    have "?M (?src + of_nat i) = m (?src + of_nat i)"
      by (rule delivered_agrees [OF sep _ img [OF i]]) (use le in simp)
    with i show "bytes ?M ?src k ! i = file_slice m boot inode (pos + c) k ! i"
      by (simp add: file_slice_def addr)
  qed simp
  then show ?thesis
    unfolding memcpy_bottom_store [OF disj k]
    by (simp add: delivered_def file_slice_add store_bytes_append)
qed

section \<open>The loop over whole blocks\<close>

lemma u32_div_4096: "j < 2 ^ 32 \<Longrightarrow> (of_nat j :: u32) div 4096 = of_nat (j div 4096)"
  by (simp add: word_unat_eq_iff unat_div)

lemma u32_div_4096_pos: "j < 2 ^ 32 \<Longrightarrow> (of_nat j :: u32) div 4096 > 0 \<longleftrightarrow> 4096 \<le> j"
  by (simp add: word_less_nat_alt unat_div div_greater_zero_iff)

lemma file_size_small: "file_wf m boot inode \<Longrightarrow> file_size m boot inode < 2 ^ 32"
  by (simp add: file_wf_def)

lemma delivered_in_table:
  assumes "file_wf m boot inode" "region buf n \<inter> image_region m boot = {}" "c \<le> n"
    "pos + c < file_size m boot inode"
  shows "in_table (delivered m boot inode buf pos c) (inode_address boot inode) (of_nat ((pos + c) div 4096))
       = in_table m (inode_address boot inode) (of_nat ((pos + c) div 4096))"
  by (rule in_table_agrees [OF assms(1)])
    (use assms delivered_agrees in \<open>auto intro: le_less_trans [OF times_div_less_eq_dividend]\<close>)

text \<open>One call of \<^verbatim>\<open>read_block\<close> for \<open>k\<close> bytes inside one block, as a step of the delivery.\<close>

lemma read_block_delivers:
  assumes wf: "file_wf m boot inode" and sep: "region buf n \<inter> image_region m boot = {}"
    and c: "c < n" "pos + n \<le> file_size m boot inode" "(pos + c) mod 4096 + k \<le> 4096" "0 < k"
  shows "read_block k (delivered m boot inode buf pos c) (buf + of_nat c)
           (datablock_address boot (num_inodes m boot)
              (in_table m (inode_address boot inode) (of_nat ((pos + c) div 4096)))
            + of_nat ((pos + c) mod 4096))
           (of_nat (n - c)) (of_nat c)
       = (if n - c \<le> k then Return (delivered m boot inode buf pos n) (of_nat n)
          else Continue (delivered m boot inode buf pos (c + k)) (of_nat (n - (c + k))) (of_nat (c + k)))"
proof -
  have n: "n < 2 ^ 32" using c(2) file_size_small [OF wf] by simp
  have k: "k < 2 ^ 32" using c(3) by simp
  have left: "(of_nat (n - c) :: u32) \<noteq> 0" "unat (of_nat (n - c) :: u32) = n - c"
    using c(1) n u32_of_nat_eq_iff [of "n - c" 0] unat_u32_of_nat [of "n - c"] by (simp_all del: of_nat_diff)
  have sub: "(of_nat (n - c) :: u32) - of_nat k = of_nat (n - (c + k))" if "\<not> n - c \<le> k"
    using that by (simp add: of_nat_diff)
  have sum: "(of_nat c :: u32) + of_nat (n - c) = of_nat n"
    using c(1) by (simp add: of_nat_diff)
  show ?thesis
    unfolding read_block_eq [OF k] left(2)
    using left(1) sub sum delivered_step [OF wf sep, of c k pos] delivered_step [OF wf sep, of c "n - c" pos] c
    by auto
qed

lemma read_full_blocks_spec:
  assumes wf: "file_wf m boot inode" and sep: "region buf n \<inter> image_region m boot = {}"
    and n: "pos + n \<le> file_size m boot inode" and "c \<le> n" "(pos + c) mod 4096 = 0"
  shows "let r = read_full_blocks (delivered m boot inode buf pos c) boot (num_inodes m boot)
                   (inode_address boot inode) buf (of_nat ((pos + c) div 4096)) (of_nat c)
                   (of_nat (n - c)) (of_nat c)
         in fst r = Return (delivered m boot inode buf pos n) (of_nat n) \<or>
            (\<exists>c'. c' \<le> n \<and> n - c' < 4096 \<and> (pos + c') mod 4096 = 0 \<and>
               r = (Continue (delivered m boot inode buf pos c') (of_nat (n - c')) (of_nat c'),
                    of_nat ((pos + c') div 4096), of_nat c'))"
  using assms(4,5)
proof (induction "n - c" arbitrary: c rule: less_induct)
  case less
  have small: "n - c < 2 ^ 32" using n file_size_small [OF wf] by simp
  show ?case
  proof (cases "4096 \<le> n - c")
    case False
    then have "\<not> (of_nat (n - c) :: u32) div 4096 > 0" by (simp only: u32_div_4096_pos [OF small] not_False_eq_True)
    with False less.prems show ?thesis
      by (subst read_full_blocks.simps) (auto simp: Let_def intro!: exI [of _ c])
  next
    case True
    have go: "(of_nat (n - c) :: u32) div 4096 > 0"
      using True by (simp only: u32_div_4096_pos [OF small])
    from True have c: "c < n" by simp
    note tbl = delivered_in_table [OF wf sep less.prems(1), of pos]
    have blk: "read_block 4096 (delivered m boot inode buf pos c) (buf + of_nat c)
           (datablock_address boot (num_inodes m boot)
              (in_table (delivered m boot inode buf pos c) (inode_address boot inode)
                 (of_nat ((pos + c) div 4096))))
           (of_nat (n - c)) (of_nat c)
       = (if n - c \<le> 4096 then Return (delivered m boot inode buf pos n) (of_nat n)
          else Continue (delivered m boot inode buf pos (c + 4096))
                 (of_nat (n - (c + 4096))) (of_nat (c + 4096)))"
      using read_block_delivers [OF wf sep c n, of 4096] less.prems(2) tbl c n by simp
    show ?thesis
    proof (cases "n - c = 4096")
      case True
      with go blk show ?thesis
        by (subst read_full_blocks.simps) (simp add: Let_def)
    next
      case False
      with True have more: "\<not> n - c \<le> 4096" by simp
      have next_blk: "of_nat ((pos + c) div 4096) + (1 :: u32) = of_nat ((pos + (c + 4096)) div 4096)"
        using div_add_self2 [of 4096 "pos + c"] by (simp add: add.assoc)
      have unfold: "read_full_blocks (delivered m boot inode buf pos c) boot (num_inodes m boot)
            (inode_address boot inode) buf (of_nat ((pos + c) div 4096)) (of_nat c)
            (of_nat (n - c)) (of_nat c)
          = read_full_blocks (delivered m boot inode buf pos (c + 4096)) boot (num_inodes m boot)
              (inode_address boot inode) buf (of_nat ((pos + (c + 4096)) div 4096))
              (of_nat (c + 4096)) (of_nat (n - (c + 4096))) (of_nat (c + 4096))"
        using go blk more next_blk by (subst read_full_blocks.simps) simp
      have "(pos + (c + 4096)) mod 4096 = 0"
        using less.prems(2) by (metis add.assoc mod_add_self2)
      then show ?thesis
        unfolding unfold by (intro less.hyps) (use more in auto)
    qed
  qed
qed


section \<open>read\_data\<close>

lemma read_remaining_correct:
  assumes wf: "file_wf m boot inode" and sep: "region buf n \<inter> image_region m boot = {}"
    and n: "pos + n \<le> file_size m boot inode" and c: "c \<le> n" "(pos + c) mod 4096 = 0"
  shows "read_remaining (delivered m boot inode buf pos c) boot (num_inodes m boot)
           (inode_address boot inode) buf (of_nat ((pos + c) div 4096)) (of_nat (n - c)) (of_nat c)
       = (delivered m boot inode buf pos n, of_nat n)"
proof -
  consider (ret) b i where "read_full_blocks (delivered m boot inode buf pos c) boot (num_inodes m boot)
        (inode_address boot inode) buf (of_nat ((pos + c) div 4096)) (of_nat c)
        (of_nat (n - c)) (of_nat c) = (Return (delivered m boot inode buf pos n) (of_nat n), b, i)"
    | (cont) c' where "c' \<le> n" "n - c' < 4096" "(pos + c') mod 4096 = 0"
        "read_full_blocks (delivered m boot inode buf pos c) boot (num_inodes m boot)
           (inode_address boot inode) buf (of_nat ((pos + c) div 4096)) (of_nat c)
           (of_nat (n - c)) (of_nat c)
         = (Continue (delivered m boot inode buf pos c') (of_nat (n - c')) (of_nat c'),
              of_nat ((pos + c') div 4096), of_nat c')"
    using read_full_blocks_spec [OF wf sep n c] unfolding Let_def by (metis prod.collapse)
  then show ?thesis
  proof cases
    case ret
    then show ?thesis by (simp add: read_remaining_def)
  next
    case cont
    show ?thesis
    proof (cases "c' = n")
      case True
      with cont(4) show ?thesis by (simp add: read_remaining_def)
    next
      case False
      with cont(1) have c': "c' < n" by simp
      have small: "n - c' < 2 ^ 32" using cont(2) by simp
      then have left: "(of_nat (n - c') :: u32) > 0" "unat (of_nat (n - c') mod 4096 :: u32) = n - c'"
        using c' cont(2) unat_u32_of_nat [OF small]
        by (simp_all add: word_less_nat_alt unat_mod del: of_nat_diff unat_u32_of_nat)
      have "read_block (n - c') (delivered m boot inode buf pos c') (buf + of_nat c')
           (datablock_address boot (num_inodes m boot)
              (in_table (delivered m boot inode buf pos c') (inode_address boot inode)
                 (of_nat ((pos + c') div 4096))))
           (of_nat (n - c')) (of_nat c')
        = Return (delivered m boot inode buf pos n) (of_nat n)"
        using read_block_delivers [OF wf sep c' n, of "n - c'"] c' cont(2,3) n
          delivered_in_table [OF wf sep cont(1), of pos] by simp
      with cont(4) left show ?thesis by (simp add: read_remaining_def del: of_nat_diff)
    qed
  qed
qed

lemma read_length:
  fixes offset sz len :: u32
  assumes "offset \<le> sz" "unat offset + unat len < 2 ^ 32"
  shows "(if offset + len > sz then sz - offset else len)
       = of_nat (min (unat len) (unat sz - unat offset))"
proof -
  have "unat (offset + len) = unat offset + unat len"
    using assms(2) by (simp add: unat_word_ariths)
  moreover have "unat (sz - offset) = unat sz - unat offset"
    using assms(1) by (simp add: unat_sub)
  moreover have "unat offset \<le> unat sz" using assms(1) by (simp add: word_le_nat_alt)
  ultimately show ?thesis
    by (auto simp: word_less_nat_alt word_unat_eq_iff min_def less_unat_u32)
qed

lemma round_up_4096:
  fixes p :: nat
  shows "p + (4096 - p mod 4096) = 4096 * Suc (p div 4096)"
proof -
  define q r where "q = p div 4096" and "r = p mod 4096"
  then have "p = 4096 * q + r" "r < 4096" by simp_all
  then show ?thesis
    unfolding q_def [symmetric] r_def [symmetric] by simp
qed

lemma read_data_delivers:
  assumes wf: "file_wf m boot inode" and pos: "unat offset \<le> file_size m boot inode"
    and no_wrap: "unat offset + unat len < 2 ^ 32"
    and start: "offset = 0 \<or> 0 < n" and n: "n = min (unat len) (file_size m boot inode - unat offset)"
    and sep: "region buf n \<inter> image_region m boot = {}"
  shows "read_data m boot inode offset buf len = (delivered m boot inode buf (unat offset) n, of_nat n)"
proof -
  let ?ia = "inode_address boot inode" and ?pos = "unat offset"
  have le: "offset \<le> b_length m ?ia" using pos by (simp add: word_le_nat_alt file_size_def)
  have len: "(if offset + len > b_length m ?ia then b_length m ?ia - offset else len) = of_nat n"
    using read_length [OF le no_wrap] n by (simp add: file_size_def)
  have valid: "\<not> inode > num_inodes m boot" "\<not> offset > b_length m ?ia"
    using wf le by (auto simp: file_wf_def)
  have pn: "?pos + n \<le> file_size m boot inode" using n pos by simp
  have off: "offset = of_nat ?pos" by simp
  have blk: "offset div 4096 = of_nat (?pos div 4096)" using u32_div_4096 [of ?pos] by simp
  have mod: "unat (offset mod 4096) = ?pos mod 4096" by (simp add: unat_mod)
  have "of_nat (unat (offset mod 4096)) = offset mod 4096" by simp
  with mod have mod': "offset mod 4096 = of_nat (?pos mod 4096)" by (simp only:)
  show ?thesis
  proof (cases "offset > 0")
    case False
    then have "offset = 0" by (simp add: word_neq_0_conv [symmetric])
    then show ?thesis
      using read_remaining_correct [OF wf sep pn, of 0] valid
      unfolding read_data_def Let_def len by simp
  next
    case True
    with start have n0: "0 < n" by auto
    let ?k = "4096 - ?pos mod 4096"
    have k: "0 < ?k" "(?pos + 0) mod 4096 + ?k \<le> 4096" by simp_all
    note first = read_block_delivers [OF wf sep n0 pn k(2,1)]
    have "?pos + ?k = 4096 * Suc (?pos div 4096)" by (rule round_up_4096)
    then have next_blk: "offset div 4096 + 1 = of_nat ((?pos + ?k) div 4096)"
        "(?pos + ?k) mod 4096 = 0"
      unfolding blk by (simp_all only:) simp_all
    show ?thesis
      using first valid True next_blk read_remaining_correct [OF wf sep pn, of ?k]
      unfolding read_data_def Let_def len by (simp add: blk mod mod' del: of_nat_diff)
  qed
qed

lemma read_data_content:
  assumes "file_wf m boot inode" "unat offset \<le> file_size m boot inode"
    and "unat offset + unat len < 2 ^ 32"
    and "offset = 0 \<or> unat offset < file_size m boot inode \<and> 0 < len"
    and "region buf (min (unat len) (file_size m boot inode - unat offset)) \<inter> image_region m boot = {}"
  shows "read_data m boot inode offset buf len =
     (store_bytes m buf (take (unat len) (drop (unat offset) (file_content m boot inode))),
      of_nat (min (unat len) (file_size m boot inode - unat offset)))"
proof -
  let ?n = "min (unat len) (file_size m boot inode - unat offset)"
  have start: "offset = 0 \<or> 0 < ?n" using assms(4) by (auto simp: word_less_nat_alt)
  have "file_slice m boot inode (unat offset) ?n
      = take (unat len) (drop (unat offset) (file_content m boot inode))"
    using assms(2) by (subst file_slice_content) (auto simp: file_content_def min_def)
  then show ?thesis
    using read_data_delivers [OF assms(1-3) start refl assms(5)] by (simp add: delivered_def)
qed

section \<open>Directory lookup\<close>

lemma read_dentry_by_name_loop_found:
  assumes "strncmp m (d_table_entry boot (of_nat k)) fname 32 = 0" "k < 63" "i \<le> k"
    and "\<And>j. i \<le> j \<Longrightarrow> j < k \<Longrightarrow> strncmp m (d_table_entry boot (of_nat j)) fname 32 \<noteq> 0"
  shows "read_dentry_by_name_loop m boot fname dentry i
       = (memcpy m dentry (d_table_entry boot (of_nat k)) 64, 0)"
  using assms(3,4)
proof (induction "k - i" arbitrary: i)
  case 0
  with assms(1,2) show ?case by (simp add: read_dentry_by_name_loop.simps [of _ _ _ _ i])
next
  case (Suc d)
  then have "i < k" "strncmp m (d_table_entry boot (of_nat i)) fname 32 \<noteq> 0" by simp_all
  moreover from Suc have "read_dentry_by_name_loop m boot fname dentry (i + 1)
       = (memcpy m dentry (d_table_entry boot (of_nat k)) 64, 0)" by (intro Suc.hyps) simp_all
  ultimately show ?case
    using assms(2) by (simp add: read_dentry_by_name_loop.simps [of _ _ _ _ i])
qed

lemma read_dentry_by_name_loop_missing:
  assumes "\<And>j. i \<le> j \<Longrightarrow> j < 63 \<Longrightarrow> strncmp m (d_table_entry boot (of_nat j)) fname 32 \<noteq> 0"
  shows "read_dentry_by_name_loop m boot fname dentry i = (m, -1)"
  using assms
proof (induction "63 - i" arbitrary: i)
  case 0
  then show ?case by (simp add: read_dentry_by_name_loop.simps [of _ _ _ _ i])
next
  case (Suc d)
  then have "read_dentry_by_name_loop m boot fname dentry (i + 1) = (m, -1)"
    by (intro Suc.hyps) simp_all
  with Suc.prems [of i] show ?case
    by (simp add: read_dentry_by_name_loop.simps [of _ _ _ _ i])
qed

text \<open>The name of directory entry \<open>i\<close> and the slot a lookup stops at.\<close>

definition entry_name :: "memory \<Rightarrow> u32 \<Rightarrow> nat \<Rightarrow> u8 list" where
  "entry_name m boot i = cprefix m (d_table_entry boot (of_nat i)) 32"

definition lookup_name :: "memory \<Rightarrow> u32 \<Rightarrow> u8 list \<Rightarrow> nat option" where
  "lookup_name m boot nm = List.find (\<lambda>i. entry_name m boot i = nm) [0..<63]"

lemma lookup_name_Some:
  "lookup_name m boot nm = Some k \<longleftrightarrow>
     k < 63 \<and> entry_name m boot k = nm \<and> (\<forall>j < k. entry_name m boot j \<noteq> nm)"
  by (auto simp: lookup_name_def find_Some_iff)

lemma lookup_name_None: "lookup_name m boot nm = None \<longleftrightarrow> (\<forall>j < 63. entry_name m boot j \<noteq> nm)"
  by (auto simp: lookup_name_def find_None_iff)

lemma strncmp_entry_name:
  "strncmp m (d_table_entry boot (of_nat i)) fname 32 = 0 \<longleftrightarrow> entry_name m boot i = cprefix m fname 32"
  by (simp add: strncmp_eq_0_iff entry_name_def)

lemma read_dentry_by_name_lookup:
  "read_dentry_by_name m boot fname dentry =
     (case lookup_name m boot (cprefix m fname 32) of
        None \<Rightarrow> (m, -1)
      | Some k \<Rightarrow> (memcpy m dentry (d_table_entry boot (of_nat k)) 64, 0))"
proof (cases "lookup_name m boot (cprefix m fname 32)")
  case None
  then have "\<forall>j < 63. entry_name m boot j \<noteq> cprefix m fname 32" by (simp add: lookup_name_None)
  then have "read_dentry_by_name m boot fname dentry = (m, -1)"
    by (simp add: read_dentry_by_name_def read_dentry_by_name_loop_missing strncmp_entry_name)
  with None show ?thesis by simp
next
  case (Some k)
  then have "k < 63" "entry_name m boot k = cprefix m fname 32" "\<forall>j < k. entry_name m boot j \<noteq> cprefix m fname 32"
    by (simp_all add: lookup_name_Some)
  then have "read_dentry_by_name m boot fname dentry = (memcpy m dentry (d_table_entry boot (of_nat k)) 64, 0)"
    by (simp add: read_dentry_by_name_def read_dentry_by_name_loop_found strncmp_entry_name)
  with Some show ?thesis by simp
qed

lemma d_table_entry_region: "k < 63 \<Longrightarrow> region (d_table_entry boot (of_nat k)) 64 \<subseteq> region boot 4096"
  using region_shift_subset [of "64 + 64 * k" 64 4096 boot]
  by (simp add: d_table_entry_def add.assoc)

text \<open>A copied entry carries the name, the type and the inode number of the table's entry.\<close>

lemma dentry_copied:
  assumes "region dentry 64 \<inter> region d 64 = {}"
  shows "bytes (memcpy m dentry d 64) dentry 64 = bytes m d 64"
    and "file_type (memcpy m dentry d 64) dentry = file_type m d"
    and "inode_num (memcpy m dentry d 64) dentry = inode_num m d"
    and "p \<notin> region dentry 64 \<Longrightarrow> memcpy m dentry d 64 p = m p"
  using memcpy.cp_bytes [of dentry 64 d m] memcpy.cp_load32 [of dentry 64 d 32 m]
    memcpy.cp_load32 [of dentry 64 d 36 m] memcpy.cp_outside [of dentry 64 d p m] assms
  by (simp_all add: file_type_def inode_num_def)

section \<open>Listing the directory\<close>

lemma copy_name_memcpy: "copy_name k m buf nm = memcpy_bottom k m nm buf"
  by (induction k arbitrary: m buf nm) simp_all

lemma cprefix_take: "n \<le> k \<Longrightarrow> cprefix m s n = take n (cprefix m s k)"
proof (induction n arbitrary: s k)
  case (Suc n)
  then show ?case by (cases k) (simp_all add: cprefix_Suc)
qed simp

lemma cprefix_is_cstring:
  assumes "length (cprefix m s n) < n" "n < 2 ^ 32"
  shows "cstring m s (cprefix m s n)"
proof -
  let ?l = "length (cprefix m s n)"
  have "m (s + of_nat ?l) = 0"
    using assms(1) nth_length_takeWhile [of "\<lambda>b. b \<noteq> 0" "bytes m s n"]
    by (simp add: cprefix_def)
  moreover have "bytes m s ?l = cprefix m s n"
  proof (rule nth_equalityI)
    fix i
    assume "i < length (bytes m s ?l)"
    then have "i < ?l" by simp
    moreover from this have "cprefix m s n ! i = bytes m s n ! i"
      unfolding cprefix_def by (rule takeWhile_nth)
    ultimately show "bytes m s ?l ! i = cprefix m s n ! i" using assms(1) by simp
  qed simp
  ultimately show ?thesis
    using assms by (simp add: cstring_def zero_notin_cprefix)
qed

text \<open>
  A directory is readable when every slot a listing visits ends in a zero byte within its 64 bytes.
\<close>

definition dir_wf :: "memory \<Rightarrow> u32 \<Rightarrow> bool" where
  "dir_wf m boot \<longleftrightarrow> (\<forall>i < 17. length (cprefix m (d_table_entry boot (of_nat i)) 64) < 64)"

lemma length_entry_name:
  "length (entry_name m boot i) = min 32 (length (cprefix m (d_table_entry boot (of_nat i)) 64))"
  unfolding entry_name_def by (subst cprefix_take [of 32 64]) simp_all

lemma read_directory_entry:
  assumes wf: "dir_wf m boot" and idx: "idx \<le> 16"
    and sep: "region dentry 64 \<inter> region boot 4096 = {}" "region buf 32 \<inter> region dentry 64 = {}"
  obtains m' where
    "read_directory m boot dentry idx buf
       = Some (m', idx + 1, of_nat (length (entry_name m boot (unat idx))))"
    "bytes m' buf (length (entry_name m boot (unat idx))) = entry_name m boot (unat idx)"
    "\<And>p. p \<notin> region buf 32 \<Longrightarrow> p \<notin> region dentry 64 \<Longrightarrow> m' p = m p"
proof -
  define i where "i = unat idx"
  let ?e = "d_table_entry boot (of_nat i)" and ?nm = "entry_name m boot i"
  let ?m1 = "memcpy m dentry ?e 64"
  have i: "i < 17" using idx by (simp add: i_def word_le_nat_alt)
  with sep(1) d_table_entry_region [of i boot] have disj: "region dentry 64 \<inter> region ?e 64 = {}"
    by auto
  have pre: "cprefix ?m1 dentry 64 = cprefix m ?e 64"
    using dentry_copied(1) [OF disj, of m] by (simp add: cprefix_def)
  let ?L = "length (cprefix m ?e 64)"
  have L: "?L < 64" using wf i unfolding dir_wf_def by blast
  have "cstring ?m1 dentry (cprefix m ?e 64)"
    using cprefix_is_cstring [of ?m1 dentry 64] L by (simp add: pre)
  then have strlen: "strlen ?m1 dentry = Some (of_nat ?L)" by (rule strlen_cstring)
  have len: "(if of_nat ?L > (32 :: u32) then 32 else of_nat ?L) = (of_nat (length ?nm) :: u32)"
    using L by (auto simp: length_entry_name word_less_nat_alt min_def)
  have le: "length ?nm \<le> 32" by (simp add: length_entry_name)
  have "bytes ?m1 dentry (length ?nm) = ?nm"
  proof -
    have "cprefix ?m1 dentry 32 = ?nm"
      unfolding entry_name_def by (subst (1 2) cprefix_take [of 32 64]) (simp_all add: pre)
    then show ?thesis
      by (metis cprefix_def bytes_append le le_add_diff_inverse length_bytes append_eq_conv_conj takeWhile_eq_take)
  qed
  moreover have sub: "region buf (length ?nm) \<subseteq> region buf 32" by (rule region_mono [OF le])
  moreover have "region buf (length ?nm) \<inter> region dentry (length ?nm) = {}"
    using sep(2) sub region_mono [of "length ?nm" 64 dentry] le by fastforce
  ultimately have copy: "copy_name (length ?nm) ?m1 buf dentry = store_bytes ?m1 buf ?nm"
    using le by (simp add: copy_name_memcpy memcpy_bottom_store)
  show thesis
  proof (rule that [folded i_def])
    have "ucast idx = (of_nat i :: u32)" by (simp add: i_def)
    moreover have "\<not> idx > 16" "\<not> (of_nat i :: u32) > 63"
      using i idx by (simp_all add: word_less_nat_alt word_le_nat_alt)
    ultimately show "read_directory m boot dentry idx buf = Some (store_bytes ?m1 buf ?nm, idx + 1, of_nat (length ?nm))"
      using strlen le len copy by (simp add: read_directory_def read_dentry_by_index_def Let_def)
    show "bytes (store_bytes ?m1 buf ?nm) buf (length ?nm) = ?nm"
      using le by (intro bytes_store_bytes) simp
    show "store_bytes ?m1 buf ?nm p = m p" if "p \<notin> region buf 32" "p \<notin> region dentry 64" for p
      using that sub dentry_copied(4) [OF disj, of p m] by (subst store_bytes_outside) auto
  qed
qed

text \<open>
  What a process sees that calls \<^verbatim>\<open>read\<close> on the directory \<open>n\<close> times with the same buffer: the bytes
  of each answer, and the shared counter at the end.
\<close>

fun list_directory ::
  "nat \<Rightarrow> memory \<Rightarrow> u32 \<Rightarrow> u32 \<Rightarrow> u8 \<Rightarrow> u32 \<Rightarrow> (u8 list list \<times> u8) option" where
  "list_directory 0 m boot dentry idx buf = Some ([], idx)"
| "list_directory (Suc n) m boot dentry idx buf =
     (case read_directory m boot dentry idx buf of
        None \<Rightarrow> None
      | Some (m', idx', r) \<Rightarrow>
          map_option (\<lambda>(names, idx''). (bytes m' buf (unat r) # names, idx''))
            (list_directory n m' boot dentry idx' buf))"

lemma entry_cprefix_cong:
  assumes "\<And>p. p \<in> region boot 4096 \<Longrightarrow> m' p = m p" "i < 63" "n \<le> 64"
  shows "cprefix m' (d_table_entry boot (of_nat i)) n = cprefix m (d_table_entry boot (of_nat i)) n"
proof -
  have "region (d_table_entry boot (of_nat i)) n \<subseteq> region boot 4096"
    using d_table_entry_region [OF assms(2), of boot] region_mono [OF assms(3)] by blast
  then have "bytes m' (d_table_entry boot (of_nat i)) n = bytes m (d_table_entry boot (of_nat i)) n"
    by (intro bytes_cong) (use assms(1) in blast)
  then show ?thesis by (simp add: cprefix_def)
qed

lemma list_directory_from:
  assumes sep: "region dentry 64 \<inter> region boot 4096 = {}" "region buf 32 \<inter> region dentry 64 = {}"
      "region buf 32 \<inter> region boot 4096 = {}"
  shows "dir_wf m boot \<Longrightarrow> k \<le> 17 \<Longrightarrow>
     list_directory (18 - k) m boot dentry (of_nat k) buf = Some (map (entry_name m boot) [k..<17] @ [[]], 0)"
proof (induction "17 - k" arbitrary: k m)
  case 0
  then have "k = 17" "18 - k = Suc 0" by simp_all
  then show ?case by (simp add: read_directory_def)
next
  case (Suc d)
  then have k: "k < 17" by simp
  then have u: "unat (of_nat k :: u8) = k" by (simp add: unat_of_nat)
  then have idx: "(of_nat k :: u8) \<le> 16" using k by (simp add: word_le_nat_alt)
  obtain m' where m':
    "read_directory m boot dentry (of_nat k) buf = Some (m', of_nat k + 1, of_nat (length (entry_name m boot k)))"
    "bytes m' buf (length (entry_name m boot k)) = entry_name m boot k"
    "\<And>p. p \<notin> region buf 32 \<Longrightarrow> p \<notin> region dentry 64 \<Longrightarrow> m' p = m p"
    using read_directory_entry [OF Suc.prems(1) idx sep(1,2)] unfolding u by metis
  have same: "m' p = m p" if "p \<in> region boot 4096" for p
    using that m'(3) [of p] sep by blast
  have names: "entry_name m' boot i = entry_name m boot i" if "i < 17" for i
    unfolding entry_name_def using same that by (intro entry_cprefix_cong) simp_all
  have wf: "dir_wf m' boot"
    using Suc.prems(1) by (simp add: dir_wf_def entry_cprefix_cong [OF same])
  have "list_directory (18 - Suc k) m' boot dentry (of_nat (Suc k)) buf
      = Some (map (entry_name m' boot) [Suc k..<17] @ [[]], 0)"
    using Suc k wf by (intro Suc.hyps) simp_all
  moreover have "18 - k = Suc (18 - Suc k)" "[k..<17] = k # [Suc k..<17]" using k by (simp_all add: upt_rec)
  moreover have "length (entry_name m boot k) \<le> 32" by (simp add: length_entry_name)
  ultimately show ?case
    using m'(1,2) names by (simp add: add.commute)
qed

section \<open>A small image\<close>

text \<open>
  One inode and one data block at address \<open>0x400000\<close>; directory slot 0 is the regular file
  \<^verbatim>\<open>a\<close> of five bytes; the name \<^verbatim>\<open>a\<close> also lies at \<open>0x900000\<close>.
\<close>

definition small_image :: memory where
  "small_image = (\<lambda>a. if 0x402000 \<le> a \<and> a < 0x403000 then ucast a else 0)
     (0x400000 := 1, 0x400004 := 1, 0x400008 := 1, 0x400040 := 97, 0x400060 := 2, 0x401000 := 5,
      0x900000 := 97)"

lemma small_image_counters:
  "num_inodes small_image 0x400000 = 1" "data_blocks small_image 0x400000 = 1"
  "file_size small_image 0x400000 0 = 5" "in_table small_image 0x401000 0 = 0"
  by (simp_all add: num_inodes_def data_blocks_def file_size_def b_length_def in_table_def
      inode_address_def load32_def small_image_def)

lemma small_image_size: "image_size small_image 0x400000 = 12288"
  by (simp add: image_size_def small_image_counters)

lemma small_image_wf: "file_wf small_image 0x400000 0"
proof -
  have "in_table small_image (inode_address 0x400000 0) (of_nat b) < data_blocks small_image 0x400000"
    if "4096 * b < 5" for b
  proof -
    from that have "b = 0" by simp
    then show ?thesis by (simp add: inode_address_def small_image_counters)
  qed
  then show ?thesis
    by (simp add: file_wf_def small_image_size small_image_counters)
qed

section \<open>Properties\<close>

text \<open>
  C15: On a well-formed file, with the position inside it, a buffer apart from the image and no
  wrap-around of position plus length, \<^verbatim>\<open>read_data\<close> writes to the buffer exactly the requested slice
  of the file (cut at its end), changes nothing else, and returns the number of bytes written; at
  a position past the start the slice must not be empty.
\<close>

theorem read_data_correct:
  assumes "file_wf m boot inode" "unat offset \<le> file_size m boot inode"
    and "unat offset + unat len < 2 ^ 32"
    and "offset = 0 \<or> unat offset < file_size m boot inode \<and> 0 < len"
    and "region buf (min (unat len) (file_size m boot inode - unat offset)) \<inter> image_region m boot = {}"
  shows "read_data m boot inode offset buf len =
     (store_bytes m buf (take (unat len) (drop (unat offset) (file_content m boot inode))),
      of_nat (min (unat len) (file_size m boot inode - unat offset)))"
  using assms by (rule read_data_content)

theorem read_data_correct_witness:
  "read_data small_image 0x400000 0 2 0x800000 10 =
     (store_bytes small_image 0x800000 (take 10 (drop 2 (file_content small_image 0x400000 0))), 3)"
proof -
  have "region 0x800000 3 \<inter> image_region small_image 0x400000 = {}"
    unfolding image_region_def small_image_size by (rule region_disjointI) simp_all
  then show ?thesis
    using read_data_correct [OF small_image_wf, of 2 10 "0x800000"] by (simp add: small_image_counters)
qed

text \<open>
  C29: \<^verbatim>\<open>read_dentry_by_name\<close> finds the first of the 63 directory slots whose name agrees with the
  given string in its first 32 characters; it copies that slot (name, type and inode number) to the
  caller's entry and changes nothing else, and it returns -1 with memory untouched when there is no
  such slot.
\<close>

theorem read_dentry_by_name_correct:
  assumes "region dentry 64 \<inter> region boot 4096 = {}"
  shows "case lookup_name m boot (cprefix m fname 32) of
      None \<Rightarrow> read_dentry_by_name m boot fname dentry = (m, -1)
    | Some k \<Rightarrow>
        \<exists>m'. read_dentry_by_name m boot fname dentry = (m', 0) \<and>
           bytes m' dentry 64 = bytes m (d_table_entry boot (of_nat k)) 64 \<and>
           file_type m' dentry = file_type m (d_table_entry boot (of_nat k)) \<and>
           inode_num m' dentry = inode_num m (d_table_entry boot (of_nat k)) \<and>
           (\<forall>p. p \<notin> region dentry 64 \<longrightarrow> m' p = m p)"
proof (cases "lookup_name m boot (cprefix m fname 32)")
  case (Some k)
  then have "region dentry 64 \<inter> region (d_table_entry boot (of_nat k)) 64 = {}"
    using assms d_table_entry_region [of k boot] by (auto simp: lookup_name_Some)
  from dentry_copied [OF this] Some show ?thesis by (simp add: read_dentry_by_name_lookup)
qed (simp add: read_dentry_by_name_lookup)

theorem read_dentry_by_name_correct_witness:
  "lookup_name small_image 0x400000 (cprefix small_image 0x900000 32) = Some 0 \<and>
   snd (read_dentry_by_name small_image 0x400000 0x900000 0x800000) = 0"
proof -
  have disj: "region 0x800000 64 \<inter> region 0x400000 4096 = {}"
    by (rule region_disjointI) simp_all
  have "cprefix small_image 0x900000 32 = [97]"
    by (simp add: cprefix_def bytes_def small_image_def upt_rec)
  moreover have "entry_name small_image 0x400000 0 = [97]"
    by (simp add: entry_name_def d_table_entry_def cprefix_def bytes_def small_image_def upt_rec)
  ultimately have "lookup_name small_image 0x400000 (cprefix small_image 0x900000 32) = Some 0"
    by (simp add: lookup_name_Some)
  then show ?thesis
    using read_dentry_by_name_correct [OF disj, of small_image "0x900000"] by auto
qed

text \<open>
  With a readable directory, and the buffer and the kernel's local entry apart from the boot
  block, a process that reads the directory from the start sees the names of slots 0 to 16, one per
  call and cut at 32 characters, and then an empty answer, after which the shared counter is 0 again.
\<close>

theorem list_directory_complete:
  assumes "dir_wf m boot"
    and "region dentry 64 \<inter> region boot 4096 = {}" "region buf 32 \<inter> region dentry 64 = {}"
      "region buf 32 \<inter> region boot 4096 = {}"
  shows "list_directory 18 m boot dentry 0 buf = Some (map (entry_name m boot) [0..<17] @ [[]], 0)"
  using list_directory_from [OF assms(2-4,1), of 0] by simp

theorem list_directory_complete_witness:
  "list_directory 18 (\<lambda>_. 0) 0x400000 0x7FFF00 0 0x900000
     = Some (map (entry_name (\<lambda>_. 0) 0x400000) [0..<17] @ [[]], 0)"
proof (rule list_directory_complete)
  show "dir_wf (\<lambda>_. 0) 0x400000" by (simp add: dir_wf_def cprefix_def bytes_def upt_rec)
qed (rule region_disjointI; simp)+

text \<open>
  C40: A request of zero bytes at a position past the start does not return at once.  The loop over
  the first block tests \<^verbatim>\<open>left_to_copy == 0\<close> only after decrementing it, so the counter passes
  below zero: the rest of the block is copied over the buffer and the copy goes on with
  \<open>2 ^ 32 - k\<close> bytes left.
\<close>

theorem read_data_zero_length_overruns:
  assumes "inode \<le> num_inodes m boot" "0 < offset" "offset \<le> b_length m (inode_address boot inode)"
  shows "read_data m boot inode offset buf 0 =
     (let k = 4096 - unat offset mod 4096 in
      read_remaining
        (memcpy_bottom k m
           (datablock_address boot (num_inodes m boot)
              (in_table m (inode_address boot inode) (offset div 4096)) + offset mod 4096) buf)
        boot (num_inodes m boot) (inode_address boot inode) buf (offset div 4096 + 1)
        (of_nat (2 ^ 32 - k)) (of_nat k))"
proof -
  have "\<not> inode > num_inodes m boot" "\<not> offset > b_length m (inode_address boot inode)"
    using assms by auto
  moreover define k where "k = 4096 - unat offset mod 4096"
  have "k \<le> 4096" by (simp add: k_def)
  then have "(of_nat (2 ^ 32 - k) :: u32) = - of_nat k" by (simp add: of_nat_diff)
  moreover have "unat (offset mod 4096) = unat offset mod 4096" by (simp add: unat_mod)
  ultimately show ?thesis
    using assms(2) \<open>k \<le> 4096\<close> unfolding k_def [symmetric] Let_def
    by (simp add: read_data_def Let_def read_block_eq k_def [symmetric] del: of_nat_diff)
qed

theorem read_data_zero_length_overruns_witness:
  "read_data small_image 0x400000 0 2 0x800000 0 =
     read_remaining (memcpy_bottom 4094 small_image 0x402002 0x800000)
       0x400000 1 0x401000 0x800000 1 (of_nat (2 ^ 32 - 4094)) 4094"
  using read_data_zero_length_overruns [of 0 small_image "0x400000" 2 "0x800000"] small_image_counters(3)
  by (simp add: small_image_counters inode_address_def datablock_address_def Let_def
      file_size_def word_le_nat_alt)

end
