(* ===== verification/Machine.thy ===== *)
theory Machine
  imports Lib_String
begin

text \<open>
  The machine the kernel drives: memory, the I/O ports behind \<^verbatim>\<open>inb\<close> and \<^verbatim>\<open>outb\<close> of
  \<^verbatim>\<open>lib.h\<close>, and the interrupt flag of \<^verbatim>\<open>cli\<close> and \<^verbatim>\<open>sti\<close>.  The kernel's state is this record,
  extended component by component with the C globals; an operation is typed on the record it needs
  and applies to every extension.

  Devices are outside the sources.  All that has passed the ports is kept in \<open>port_log\<close>, and a
  device is a parameter \<open>dev\<close> of the operations that read a port: it answers a read from the
  log so far.
\<close>

datatype port_op = Out u8 u16 | In u16

type_synonym device = "port_op list \<Rightarrow> u16 \<Rightarrow> u8"

record machine =
  mem :: memory
  port_log :: "port_op list"
  eflags_if :: bool

section \<open>lib.h: port and flag instructions\<close>

definition outb :: "u32 \<Rightarrow> u16 \<Rightarrow> 'a machine_scheme \<Rightarrow> 'a machine_scheme" where
  "outb data port s = s\<lparr>port_log := port_log s @ [Out (ucast data) port]\<rparr>"

definition inb :: "device \<Rightarrow> u16 \<Rightarrow> 'a machine_scheme \<Rightarrow> u32 \<times> 'a machine_scheme" where
  "inb dev port s = (ucast (dev (port_log s) port), s\<lparr>port_log := port_log s @ [In port]\<rparr>)"

text \<open>The wider accesses go to consecutive ports, the low byte first.\<close>

definition inw :: "device \<Rightarrow> u16 \<Rightarrow> 'a machine_scheme \<Rightarrow> u32 \<times> 'a machine_scheme" where
  "inw dev port s = (let (lo, s) = inb dev port s; (hi, s) = inb dev (port + 1) s in (lo OR push_bit 8 hi, s))"

definition inl :: "device \<Rightarrow> u16 \<Rightarrow> 'a machine_scheme \<Rightarrow> u32 \<times> 'a machine_scheme" where
  "inl dev port s = (let (lo, s) = inw dev port s; (hi, s) = inw dev (port + 2) s in (lo OR push_bit 16 hi, s))"

definition outw :: "u32 \<Rightarrow> u16 \<Rightarrow> 'a machine_scheme \<Rightarrow> 'a machine_scheme" where
  "outw data port s = outb (drop_bit 8 data) (port + 1) (outb data port s)"

definition outl :: "u32 \<Rightarrow> u16 \<Rightarrow> 'a machine_scheme \<Rightarrow> 'a machine_scheme" where
  "outl data port s = outw (drop_bit 16 data) (port + 2) (outw data port s)"

definition cli :: "'a machine_scheme \<Rightarrow> 'a machine_scheme" where
  "cli s = s\<lparr>eflags_if := False\<rparr>"

definition sti :: "'a machine_scheme \<Rightarrow> 'a machine_scheme" where
  "sti s = s\<lparr>eflags_if := True\<rparr>"

text \<open>
  Of \<^verbatim>\<open>EFLAGS\<close> the state has the interrupt flag, bit 9; \<open>others\<close> are the bits that \<^verbatim>\<open>pushfl\<close> finds in the others.
\<close>

definition cli_and_save :: "u32 \<Rightarrow> 'a machine_scheme \<Rightarrow> u32 \<times> 'a machine_scheme" where
  "cli_and_save others s = (if eflags_if s then set_bit 9 others else unset_bit 9 others, cli s)"

definition restore_flags :: "u32 \<Rightarrow> 'a machine_scheme \<Rightarrow> 'a machine_scheme" where
  "restore_flags flags s = s\<lparr>eflags_if := bit flags 9\<rparr>"

lemma restore_saved_flags: "cli_and_save others s = (flags, t) \<Longrightarrow> restore_flags flags t = s"
  by (auto simp: cli_and_save_def restore_flags_def cli_def bit_simps)

text \<open>The instruction \<^verbatim>\<open>shl\<close> takes its count modulo 32.\<close>

definition shl32 :: "u32 \<Rightarrow> u32 \<Rightarrow> u32" where
  "shl32 x n = push_bit (unat n mod 32) x"

named_theorems port_simps \<open>unfolding port traffic\<close>

declare outb_def [port_simps] inb_def [port_simps] cli_def [port_simps] sti_def [port_simps]

lemma outb_frame [simp]:
  "mem (outb d p s) = mem s" "eflags_if (outb d p s) = eflags_if s"
  "port_log (outb d p s) = port_log s @ [Out (ucast d) p]"
  by (simp_all add: outb_def)

lemma inb_frame [simp]:
  "mem (snd (inb dev p s)) = mem s" "eflags_if (snd (inb dev p s)) = eflags_if s"
  "fst (inb dev p s) = ucast (dev (port_log s) p)" "port_log (snd (inb dev p s)) = port_log s @ [In p]"
  by (simp_all add: inb_def)

lemma outl_bytes:
  "port_log (outl d p s) =
     port_log s @ [Out (ucast d) p, Out (ucast (drop_bit 8 d)) (p + 1), Out (ucast (drop_bit 16 d)) (p + 2), Out (ucast (drop_bit 24 d)) (p + 3)]"
  by (simp add: outl_def outw_def add.assoc)

lemma inl_bytes:
  "fst (inl (\<lambda>log q. if q = p then b0 else if q = p + 1 then b1 else if q = p + 2 then b2 else b3) p s) =
     ucast b0 OR push_bit 8 (ucast b1) OR push_bit 16 (ucast b2) OR push_bit 24 (ucast b3)"
proof -
  have "p + 1 \<noteq> p" "p + 2 \<noteq> p" "p + 2 \<noteq> p + 1" "p + 3 \<noteq> p" "p + 3 \<noteq> p + 1" "p + 3 \<noteq> p + 2" by simp_all
  then show ?thesis
    by (simp add: inl_def inw_def inb_def add.assoc push_bit_or or.assoc)
qed

end
