(* ===== verification/I8259.thy ===== *)
theory I8259
  imports Machine
begin

text \<open>
  The interrupt controller driver, \<^verbatim>\<open>i8259.c\<close>.  What the two 8259A chips do with the traffic is a
  specification read from their data sheet: \<open>pic_step\<close> is the part of it the kernel relies on
  (the initialization sequence, the mask register, specific end-of-interrupt and the special mask
  mode), and \<open>pic_answers\<close> is the hypothesis that reading a data port gives the mask register.
\<close>

section \<open>i8259.c\<close>

definition i8259_init :: "'a machine_scheme \<Rightarrow> 'a machine_scheme" where
  "i8259_init s =
     (let s = outb 0xFF 0x21 s; s = outb 0xFF 0xA1 s;
          s = outb 0x11 0x20 s; s = outb 0x20 0x21 s; s = outb 0x04 0x21 s; s = outb 0x01 0x21 s;
          s = outb 0x11 0xA0 s; s = outb 0x28 0xA1 s; s = outb 0x02 0xA1 s; s = outb 0x01 0xA1 s;
          s = outb 0xFF 0x21 s
      in outb 0xFF 0xA1 s)"

definition enable_irq :: "device \<Rightarrow> u32 \<Rightarrow> 'a machine_scheme \<Rightarrow> 'a machine_scheme" where
  "enable_irq dev irq_num s =
     (let (port, irq_num) = (if irq_num < 8 then (0x21, irq_num) else (0xA1, irq_num - 8));
          (v, s) = inb dev port s;
          val = (ucast (v AND NOT (shl32 1 irq_num)) :: u8)
      in outb (ucast val) port s)"

definition disable_irq :: "device \<Rightarrow> u32 \<Rightarrow> 'a machine_scheme \<Rightarrow> 'a machine_scheme" where
  "disable_irq dev irq_num s =
     (let (port, irq_num) = (if irq_num < 8 then (0x21, irq_num) else (0xA1, irq_num - 8));
          (v, s) = inb dev port s;
          val = (ucast (v OR shl32 1 irq_num) :: u8)
      in outb (ucast val) port s)"

definition send_eoi :: "u32 \<Rightarrow> 'a machine_scheme \<Rightarrow> 'a machine_scheme" where
  "send_eoi irq_num s =
     (let s = (if irq_num \<ge> 8
               then outb (0x60 OR 2) 0x20 (outb (0x60 OR (irq_num - 8)) 0xA0 s)
               else s)
      in outb (0x60 OR irq_num) 0x20 s)"

section \<open>The chip\<close>

record pic =
  icw1 :: u8
  next_icw :: nat
  vector_base :: u8
  cascade :: u8
  imr :: u8
  isr :: u8
  special_mask :: bool

text \<open>A write with address line 0 low: ICW1, OCW3 or OCW2, told apart by bits 4 and 3.\<close>

definition pic_command :: "u8 \<Rightarrow> pic \<Rightarrow> pic" where
  "pic_command v p =
     (if bit v 4 then p\<lparr>icw1 := v, next_icw := 2, imr := 0, special_mask := False\<rparr>
      else if bit v 3 then (if bit v 6 then p\<lparr>special_mask := bit v 5\<rparr> else p)
      else if drop_bit 5 v = 3 then p\<lparr>isr := unset_bit (unat (v AND 7)) (isr p)\<rparr>
      else p)"

text \<open>A write with address line 0 high: the next initialization word, else the mask (OCW1).\<close>

definition pic_data :: "u8 \<Rightarrow> pic \<Rightarrow> pic" where
  "pic_data v p =
     (if next_icw p = 2 then p\<lparr>vector_base := v AND 0xF8,
          next_icw := (if \<not> bit (icw1 p) 1 then 3 else if bit (icw1 p) 0 then 4 else 0)\<rparr>
      else if next_icw p = 3 then p\<lparr>cascade := v, next_icw := (if bit (icw1 p) 0 then 4 else 0)\<rparr>
      else if next_icw p = 4 then p\<lparr>next_icw := 0\<rparr>
      else p\<lparr>imr := v\<rparr>)"

fun pic_step :: "u16 \<Rightarrow> port_op \<Rightarrow> pic \<Rightarrow> pic" where
  "pic_step base (Out v port) p =
     (if port = base then pic_command v p else if port = base + 1 then pic_data v p else p)"
| "pic_step base (In port) p = p"

definition pic_after :: "u16 \<Rightarrow> pic \<Rightarrow> port_op list \<Rightarrow> pic" where
  "pic_after base p log = fold (pic_step base) log p"

definition pic_answers :: "pic \<Rightarrow> pic \<Rightarrow> device \<Rightarrow> bool" where
  "pic_answers p q dev \<longleftrightarrow>
     (\<forall>log. dev log 0x21 = imr (pic_after 0x20 p log) \<and> dev log 0xA1 = imr (pic_after 0xA0 q log))"

definition pic_device :: "pic \<Rightarrow> pic \<Rightarrow> device" where
  "pic_device p q log port =
     (if port = 0x21 then imr (pic_after 0x20 p log)
      else if port = 0xA1 then imr (pic_after 0xA0 q log) else 0)"

lemma pic_device_answers: "pic_answers p q (pic_device p q)"
  by (simp add: pic_answers_def pic_device_def)

lemma pic_after_append [simp]: "pic_after base p (xs @ ys) = pic_after base (pic_after base p xs) ys"
  by (simp add: pic_after_def)

lemma pic_after_Nil [simp]: "pic_after base p [] = p"
  by (simp add: pic_after_def)

lemma pic_after_Cons [simp]: "pic_after base p (x # xs) = pic_after base (pic_step base x p) xs"
  by (simp add: pic_after_def)

text \<open>Interrupt line \<open>n\<close> of 16 is masked, and both chips are out of their initialization sequence.\<close>

definition masked :: "pic \<Rightarrow> pic \<Rightarrow> port_op list \<Rightarrow> nat \<Rightarrow> bool" where
  "masked p q log n =
     (if n < 8 then bit (imr (pic_after 0x20 p log)) n else bit (imr (pic_after 0xA0 q log)) (n - 8))"

definition pics_ready :: "pic \<Rightarrow> pic \<Rightarrow> port_op list \<Rightarrow> bool" where
  "pics_ready p q log \<longleftrightarrow> next_icw (pic_after 0x20 p log) = 0 \<and> next_icw (pic_after 0xA0 q log) = 0"

section \<open>Masking\<close>

lemma bit_shl32_1: "n < 32 \<Longrightarrow> bit (shl32 1 (of_nat n)) j \<longleftrightarrow> j = n"
  by (auto simp: shl32_def bit_simps)

lemma irq_cases:
  assumes "unat irq < 16"
  obtains (master) n where "n < 8" "irq = of_nat n" "unat irq = n" "irq < 8"
    | (slave) n where "n < 8" "irq - 8 = of_nat n" "unat irq = n + 8" "\<not> irq < (8 :: u32)"
proof (cases "irq < 8")
  case True
  then show thesis by (intro master [of "unat irq"]) (simp_all add: word_less_nat_alt)
next
  case False
  then have "unat (irq - 8) = unat irq - 8" by (simp add: unat_sub word_less_nat_alt word_le_nat_alt)
  with False assms show thesis
    by (intro slave [of "unat (irq - 8)"]) (simp_all add: word_less_nat_alt)
qed

lemma masked_enable:
  assumes "pic_answers p q dev" "pics_ready p q (port_log s)" "unat irq < 16" "j < 16"
  shows "masked p q (port_log (enable_irq dev irq s)) j \<longleftrightarrow> masked p q (port_log s) j \<and> j \<noteq> unat irq"
  using assms(3)
proof (cases rule: irq_cases)
  case (master n)
  with assms show ?thesis
    by (auto simp: enable_irq_def masked_def pics_ready_def pic_answers_def inb_def pic_data_def
        bit_simps bit_shl32_1 dest: bit_imp_le_length)
next
  case (slave n)
  with assms show ?thesis
    by (auto simp: enable_irq_def masked_def pics_ready_def pic_answers_def inb_def pic_data_def
        bit_simps bit_shl32_1 dest: bit_imp_le_length)
qed

lemma masked_disable:
  assumes "pic_answers p q dev" "pics_ready p q (port_log s)" "unat irq < 16" "j < 16"
  shows "masked p q (port_log (disable_irq dev irq s)) j \<longleftrightarrow> masked p q (port_log s) j \<or> j = unat irq"
  using assms(3)
proof (cases rule: irq_cases)
  case (master n)
  with assms show ?thesis
    by (auto simp: disable_irq_def masked_def pics_ready_def pic_answers_def inb_def pic_data_def
        bit_simps bit_shl32_1 dest: bit_imp_le_length)
next
  case (slave n)
  with assms show ?thesis
    by (auto simp: disable_irq_def masked_def pics_ready_def pic_answers_def inb_def pic_data_def
        bit_simps bit_shl32_1 dest: bit_imp_le_length)
qed

lemma irq_ready:
  assumes "pics_ready p q (port_log s)"
  shows "pics_ready p q (port_log (enable_irq dev irq s))" "pics_ready p q (port_log (disable_irq dev irq s))"
  using assms
  by (auto simp: enable_irq_def disable_irq_def pics_ready_def inb_def pic_data_def Let_def)

lemma irq_frame [simp]:
  "mem (enable_irq dev irq s) = mem s" "mem (disable_irq dev irq s) = mem s"
  "mem (send_eoi irq s) = mem s" "mem (i8259_init s) = mem s"
  "eflags_if (enable_irq dev irq s) = eflags_if s" "eflags_if (disable_irq dev irq s) = eflags_if s"
  "eflags_if (send_eoi irq s) = eflags_if s" "eflags_if (i8259_init s) = eflags_if s"
  by (simp_all add: enable_irq_def disable_irq_def send_eoi_def i8259_init_def inb_def Let_def)

lemma init_chips:
  "pic_after 0x20 p (port_log (i8259_init s)) =
     (pic_after 0x20 p (port_log s))\<lparr>icw1 := 0x11, next_icw := 0, vector_base := 0x20, cascade := 4,
        imr := 0xFF, special_mask := False\<rparr>"
  "pic_after 0xA0 q (port_log (i8259_init s)) =
     (pic_after 0xA0 q (port_log s))\<lparr>icw1 := 0x11, next_icw := 0, vector_base := 0x28, cascade := 2,
        imr := 0xFF, special_mask := False\<rparr>"
  by (simp_all add: i8259_init_def Let_def pic_command_def pic_data_def bit_simps)

lemma init_ready: "pics_ready p q (port_log (i8259_init s))"
  by (simp add: pics_ready_def init_chips)

section \<open>Properties\<close>

text \<open>
  C36: Whatever the two controllers were doing, \<^verbatim>\<open>i8259_init\<close> leaves them initialized: vectors
  0x20-0x27 and 0x28-0x2F, cascaded over line 2, all 16 lines masked and special mask mode off.
\<close>

theorem i8259_init_correct:
  "let log = port_log (i8259_init s); master = pic_after 0x20 p log; slave = pic_after 0xA0 q log
   in pics_ready p q log \<and> vector_base master = 0x20 \<and> vector_base slave = 0x28 \<and>
      cascade master = 4 \<and> cascade slave = 2 \<and> list_all (masked p q log) [0..<16] \<and>
      \<not> special_mask master \<and> \<not> special_mask slave"
  by (simp add: Let_def init_chips init_ready masked_def upt_rec bit_simps)

text \<open>
  On initialized controllers whose data ports read back the mask, \<^verbatim>\<open>enable_irq\<close> unmasks and
  \<^verbatim>\<open>disable_irq\<close> masks exactly the given one of the 16 lines, and leaves the controllers ready.
\<close>

theorem irq_mask_correct:
  assumes "pic_answers p q dev" "pics_ready p q (port_log s)" "unat irq < 16" "j < 16"
  shows "(masked p q (port_log (enable_irq dev irq s)) j \<longleftrightarrow> masked p q (port_log s) j \<and> j \<noteq> unat irq) \<and>
     (masked p q (port_log (disable_irq dev irq s)) j \<longleftrightarrow> masked p q (port_log s) j \<or> j = unat irq) \<and>
     pics_ready p q (port_log (enable_irq dev irq s)) \<and> pics_ready p q (port_log (disable_irq dev irq s))"
  using masked_enable [OF assms] masked_disable [OF assms] irq_ready [OF assms(2)] by blast

definition reset_pic :: pic where
  "reset_pic = \<lparr>icw1 = 0, next_icw = 0, vector_base = 0, cascade = 0, imr = 0, isr = 0, special_mask = False\<rparr>"

definition reset_machine :: machine where
  "reset_machine = \<lparr>mem = (\<lambda>_. 0), port_log = [], eflags_if = False\<rparr>"

theorem irq_mask_correct_witness:
  "masked reset_pic reset_pic (port_log (i8259_init reset_machine)) 8 \<and>
   \<not> masked reset_pic reset_pic
       (port_log (enable_irq (pic_device reset_pic reset_pic) 8 (i8259_init reset_machine))) 8"
proof -
  have "masked reset_pic reset_pic (port_log (i8259_init reset_machine)) 8"
    by (simp add: masked_def init_chips)
  then show ?thesis
    using irq_mask_correct [OF pic_device_answers [of reset_pic reset_pic] init_ready [of _ _ reset_machine], of 8 8] by simp
qed

text \<open>
  For a line of the master, \<^verbatim>\<open>send_eoi\<close> is one specific end-of-interrupt.  For a line of the
  slave it ends the interrupt at both chips, but it then goes on to the master's last write with
  the full line number: \<^verbatim>\<open>EOI | irq_num\<close> has bit 3 set there, which the master takes for an OCW3
  that switches its special mask mode on.
\<close>

theorem send_eoi_correct:
  assumes "unat irq < 16"
  shows "let before = port_log s; after = port_log (send_eoi irq s);
             master = pic_after 0x20 p before; slave = pic_after 0xA0 q before in
     if unat irq < 8
     then pic_after 0x20 p after = master\<lparr>isr := unset_bit (unat irq) (isr master)\<rparr> \<and>
          pic_after 0xA0 q after = slave
     else pic_after 0xA0 q after = slave\<lparr>isr := unset_bit (unat irq - 8) (isr slave)\<rparr> \<and>
          pic_after 0x20 p after = master\<lparr>isr := unset_bit 2 (isr master), special_mask := True\<rparr>"
proof -
  from assms have "unat irq \<in> set [0..<16]" by simp
  then have "\<exists>n \<in> set [0..<16]. irq = of_nat n" by (metis word_of_nat_eq_iff of_nat_unat ucast_id)
  then consider "irq = 0" | "irq = 1" | "irq = 2" | "irq = 3" | "irq = 4" | "irq = 5" | "irq = 6"
    | "irq = 7" | "irq = 8" | "irq = 9" | "irq = 10" | "irq = 11" | "irq = 12" | "irq = 13"
    | "irq = 14" | "irq = 15"
    by (auto simp: upt_rec)
  then show ?thesis
    by cases (simp_all add: Let_def send_eoi_def pic_command_def bit_simps word_le_nat_alt)
qed

theorem send_eoi_correct_witness:
  "special_mask (pic_after 0x20 reset_pic (port_log (send_eoi 8 reset_machine)))"
  using send_eoi_correct [of 8 reset_machine reset_pic reset_pic] by (simp add: Let_def)

end
