(* ===== verification/RTC.thy ===== *)
theory RTC
  imports I8259
begin

text \<open>
  The real-time clock driver, \<^verbatim>\<open>RTC.c\<close>.  \<^verbatim>\<open>RTC_Read\<close> spins with interrupts enabled until the
  handler has set \<^verbatim>\<open>RTC_iflag\<close>; the interrupts taken while it spins are a list of handler effects,
  and the wait has no result when the list runs out first.  The scaling loop of
  \<^verbatim>\<open>RTC_set_frequency\<close> does not end for frequency 0, which is the value \<open>None\<close>.
\<close>

record rtc = machine +
  RTC_iflag :: u8

section \<open>RTC.c\<close>

definition RTC_init :: "device \<Rightarrow> 'a machine_scheme \<Rightarrow> 'a machine_scheme" where
  "RTC_init dev s =
     (let s = outb 0x8B 0x70 s;
          (v, s) = inb dev 0x71 s;
          prev = (ucast v :: u8);
          s = outb 0x8B 0x70 s
      in outb (0x40 OR scast prev) 0x71 s)"

definition RTC_Open :: i32 where
  "RTC_Open = 0"

definition RTC_Close :: i32 where
  "RTC_Close = 0"

definition get_RTC_iflag :: "i32 \<Rightarrow> 'a rtc_scheme \<Rightarrow> i32 \<times> 'a rtc_scheme" where
  "get_RTC_iflag val s = (scast (ucast val :: u8), s\<lparr>RTC_iflag := ucast val\<rparr>)"

definition RTC_handler :: "device \<Rightarrow> 'a rtc_scheme \<Rightarrow> 'a rtc_scheme" where
  "RTC_handler dev s =
     (let s = outb 0x0C 0x70 s;
          (_, s) = inb dev 0x71 s;
          (_, s) = get_RTC_iflag 1 s
      in send_eoi 8 s)"

fun RTC_spin ::
  "('a rtc_scheme \<Rightarrow> 'a rtc_scheme) list \<Rightarrow> 'a rtc_scheme \<Rightarrow>
     ('a rtc_scheme \<times> ('a rtc_scheme \<Rightarrow> 'a rtc_scheme) list) option" where
  "RTC_spin handlers s =
     (if RTC_iflag s = 0
      then case handlers of
             [] \<Rightarrow> None
           | h # rest \<Rightarrow> RTC_spin rest (h s)
      else Some (s, handlers))"

declare RTC_spin.simps [simp del]

definition RTC_Read ::
  "('a rtc_scheme \<Rightarrow> 'a rtc_scheme) list \<Rightarrow> 'a rtc_scheme \<Rightarrow>
     (i32 \<times> 'a rtc_scheme \<times> ('a rtc_scheme \<Rightarrow> 'a rtc_scheme) list) option" where
  "RTC_Read handlers s =
     (let s = sti s; s = s\<lparr>RTC_iflag := 0\<rparr>
      in case RTC_spin handlers s of
           None \<Rightarrow> None
         | Some (s, rest) \<Rightarrow> Some (0, cli s, rest))"

partial_function (option) RTC_rate :: "u16 \<Rightarrow> u8 \<Rightarrow> u8 option" where
  "RTC_rate new_freq rate =
     (if new_freq \<noteq> 1 then RTC_rate (drop_bit 1 new_freq) (rate + 1) else Some rate)"

definition RTC_set_frequency ::
  "device \<Rightarrow> u16 \<Rightarrow> 'a machine_scheme \<Rightarrow> (i32 \<times> 'a machine_scheme) option" where
  "RTC_set_frequency dev freq s =
     (case RTC_rate freq 0 of
        None \<Rightarrow> None
      | Some rate \<Rightarrow>
          let rate = (if rate < 3 \<or> rate > 15 then 6 else rate);
              rate = rate AND 0x0F;
              s = outb 0x8A 0x70 s;
              (v, s) = inb dev 0x71 s;
              prev = (ucast v :: u8);
              s = outb 0x8A 0x70 s
          in Some (0, outb ((scast prev AND 0xF0) OR ucast rate) 0x71 s))"

definition RTC_Write :: "device \<Rightarrow> 'a machine_scheme \<Rightarrow> (i32 \<times> 'a machine_scheme) option" where
  "RTC_Write dev s =
     (case RTC_set_frequency dev 1024 s of None \<Rightarrow> None | Some (_, s) \<Rightarrow> Some (0, s))"

section \<open>The clock chip\<close>

text \<open>
  Port 0x70 selects a register (bit 7 is the NMI gate), port 0x71 accesses it.  The periodic
  interrupt comes \<open>32768 div 2 ^ (rate - 1)\<close> times a second, where rate is the low half of
  register A and at least 3.
\<close>

record cmos =
  cmos_index :: u8
  cmos_reg :: "u8 \<Rightarrow> u8"

fun cmos_step :: "port_op \<Rightarrow> cmos \<Rightarrow> cmos" where
  "cmos_step (Out v port) c =
     (if port = 0x70 then c\<lparr>cmos_index := v AND 0x7F\<rparr>
      else if port = 0x71 then c\<lparr>cmos_reg := (cmos_reg c)(cmos_index c := v)\<rparr> else c)"
| "cmos_step (In port) c = c"

definition cmos_after :: "cmos \<Rightarrow> port_op list \<Rightarrow> cmos" where
  "cmos_after c log = fold cmos_step log c"

definition rtc_hz :: "u8 \<Rightarrow> nat" where
  "rtc_hz regA = 32768 div 2 ^ (unat (regA AND 0x0F) - 1)"

lemma cmos_after_append [simp]: "cmos_after c (xs @ ys) = cmos_after (cmos_after c xs) ys"
  by (simp add: cmos_after_def)

lemma cmos_after_Nil [simp]: "cmos_after c [] = c"
  by (simp add: cmos_after_def)

lemma cmos_after_Cons [simp]: "cmos_after c (x # xs) = cmos_after (cmos_step x c) xs"
  by (simp add: cmos_after_def)

section \<open>The scaling loop\<close>

lemma RTC_rate_power:
  assumes "2 ^ k \<le> unat f" "unat f < 2 ^ Suc k"
  shows "RTC_rate f r = Some (r + of_nat k)"
  using assms
proof (induction k arbitrary: f r)
  case 0
  then have "unat f = 1" by simp
  then have "f = 1" by (metis unsigned_1 unsigned_word_eqI)
  then show ?case by (simp add: RTC_rate.simps)
next
  case (Suc k)
  have "unat (drop_bit 1 f) = unat f div 2"
    by (simp add: drop_bit_Suc unat_div)
  then have "RTC_rate (drop_bit 1 f) (r + 1) = Some (r + 1 + of_nat k)"
    using Suc.prems by (intro Suc.IH) simp_all
  moreover have "1 < unat f"
    by (rule less_le_trans [OF _ Suc.prems(1)]) (rule one_less_power, simp_all)
  then have "f \<noteq> 1" by auto
  ultimately show ?case by (subst RTC_rate.simps) (simp add: add.assoc)
qed

lemma RTC_rate_0: "RTC_rate 0 r = None"
proof -
  have "f = 0 \<longrightarrow> False" if "RTC_rate f r = Some y" for f r y
  proof (rule RTC_rate.raw_induct [OF _ that])
    fix rec :: "u16 \<Rightarrow> u8 \<Rightarrow> u8 option" and f r y
    assume IH: "\<And>f r y. rec f r = Some y \<Longrightarrow> f = 0 \<longrightarrow> False"
      and "(if f \<noteq> 1 then rec (drop_bit 1 f) (r + 1) else Some r) = Some y"
    then show "f = 0 \<longrightarrow> False" using IH [of 0 "r + 1" y] by (auto split: if_splits)
  qed
  then show ?thesis by (cases "RTC_rate 0 r") blast+
qed

lemma nibble_join:
  fixes x r :: u8
  shows "(x AND 0xF0 OR r AND 0x0F) AND 0x0F = r AND 0x0F"
    and "(x AND 0xF0 OR r AND 0x0F) AND 0xF0 = x AND 0xF0"
  by (simp_all add: bit.conj_disj_distrib2 and.assoc)

lemma regA_byte:
  fixes v r :: u8
  shows "(ucast ((scast v AND 0xF0) OR ucast r :: u32) :: u8) = (v AND 0xF0) OR r"
  by (rule bit_word_eqI) (auto simp: bit_simps dest: bit_imp_le_length)

lemma RTC_set_frequency_regA:
  assumes "RTC_rate freq 0 = Some rate"
  obtains s' where "RTC_set_frequency dev freq s = Some (0, s')"
    "cmos_after c (port_log s') = (cmos_after c (port_log s))\<lparr>cmos_index := 0x0A,
       cmos_reg := (cmos_reg (cmos_after c (port_log s)))
         (0x0A := (dev (port_log s @ [Out 0x8A 0x70]) 0x71 AND 0xF0)
                  OR ((if rate < 3 \<or> rate > 15 then 6 else rate) AND 0x0F))\<rparr>"
proof (rule that)
  let ?r = "(if rate < 3 \<or> rate > 15 then 6 else rate) AND 0x0F"
  let ?s' = "outb ((scast (dev (port_log s @ [Out 0x8A 0x70]) 0x71) AND 0xF0) OR ucast ?r) 0x71
      (outb 0x8A 0x70 (snd (inb dev 0x71 (outb 0x8A 0x70 s))))"
  show "RTC_set_frequency dev freq s = Some (0, ?s')"
    using assms by (simp add: RTC_set_frequency_def inb_def Let_def split del: if_split)
  show "cmos_after c (port_log ?s') = (cmos_after c (port_log s))\<lparr>cmos_index := 0x0A,
       cmos_reg := (cmos_reg (cmos_after c (port_log s)))
         (0x0A := (dev (port_log s @ [Out 0x8A 0x70]) 0x71 AND 0xF0) OR ?r)\<rparr>"
    by (simp add: regA_byte split del: if_split)
qed

section \<open>Waiting\<close>

lemma RTC_handler_sets_flag [simp]: "RTC_iflag (RTC_handler dev s) = 1"
  by (simp add: RTC_handler_def get_RTC_iflag_def send_eoi_def outb_def inb_def Let_def)

lemma RTC_spin_until:
  "RTC_iflag s = 0 \<Longrightarrow> \<forall>h \<in> set hs. \<forall>s. RTC_iflag (h s) = RTC_iflag s \<Longrightarrow>
     RTC_spin (hs @ RTC_handler dev # rest) s = Some (RTC_handler dev (fold (\<lambda>h. h) hs s), rest)"
proof (induction hs arbitrary: s)
  case Nil
  then show ?case by (simp add: RTC_spin.simps)
next
  case (Cons h hs)
  then show ?case by (subst RTC_spin.simps) simp
qed

lemma RTC_spin_stuck:
  "RTC_iflag s = 0 \<Longrightarrow> \<forall>h \<in> set hs. \<forall>s. RTC_iflag (h s) = RTC_iflag s \<Longrightarrow> RTC_spin hs s = None"
proof (induction hs arbitrary: s)
  case Nil
  then show ?case by (simp add: RTC_spin.simps)
next
  case (Cons h hs)
  then show ?case by (subst RTC_spin.simps) simp
qed

section \<open>Properties\<close>

text \<open>
  C39: \<^verbatim>\<open>RTC_set_frequency\<close> returns 0 for every frequency except 0, for which its scaling loop never
  ends.  For a frequency of at least 8 it writes the binary logarithm of the frequency as the
  rate, so the clock then ticks \<open>2 ^ (16 - k)\<close> times a second for a request between
  \<open>2 ^ k\<close> and \<open>2 ^ (k + 1)\<close>, and 1024 times for a lower request; the upper half of register A
  and the other registers are kept.
\<close>

theorem RTC_set_frequency_correct:
  assumes "2 ^ k \<le> unat freq" "unat freq < 2 ^ Suc k"
  shows "RTC_set_frequency dev 0 s = None \<and>
    (\<exists>s'. RTC_set_frequency dev freq s = Some (0, s') \<and>
       (let regs = cmos_reg (cmos_after c (port_log s)); regs' = cmos_reg (cmos_after c (port_log s'))
        in rtc_hz (regs' 0x0A) = (if 3 \<le> k then 2 ^ (16 - k) else 1024) \<and>
           regs' 0x0A AND 0xF0 = dev (port_log s @ [Out 0x8A 0x70]) 0x71 AND 0xF0 \<and>
           (\<forall>r. r \<noteq> 0x0A \<longrightarrow> regs' r = regs r)))"
proof
  show "RTC_set_frequency dev 0 s = None" by (simp add: RTC_set_frequency_def RTC_rate_0)
  let ?rate = "of_nat k :: u8"
  let ?r = "if ?rate < 3 \<or> ?rate > 15 then 6 else ?rate"
  have "(2 :: nat) ^ k < 2 ^ 16"
    using le_less_trans [OF assms(1) unsigned_less [of freq, where ?'a = nat]] by simp
  then have "k < 16" by (simp only: power_strict_increasing_iff)
  then have "k \<in> set [0..<16]" by simp
  then have hz: "32768 div 2 ^ (unat (?r AND 0x0F) - 1) = (if 3 \<le> k then 2 ^ (16 - k) else (1024 :: nat))"
    by (auto simp: upt_rec)
  obtain s' where s': "RTC_set_frequency dev freq s = Some (0, s')"
    "cmos_after c (port_log s') = (cmos_after c (port_log s))\<lparr>cmos_index := 0x0A,
       cmos_reg := (cmos_reg (cmos_after c (port_log s)))
         (0x0A := (dev (port_log s @ [Out 0x8A 0x70]) 0x71 AND 0xF0) OR (?r AND 0x0F))\<rparr>"
    using RTC_rate_power [OF assms, of 0] RTC_set_frequency_regA [of freq ?rate dev s c] by auto
  show "\<exists>s'. RTC_set_frequency dev freq s = Some (0, s') \<and>
       (let regs = cmos_reg (cmos_after c (port_log s)); regs' = cmos_reg (cmos_after c (port_log s'))
        in rtc_hz (regs' 0x0A) = (if 3 \<le> k then 2 ^ (16 - k) else 1024) \<and>
           regs' 0x0A AND 0xF0 = dev (port_log s @ [Out 0x8A 0x70]) 0x71 AND 0xF0 \<and>
           (\<forall>r. r \<noteq> 0x0A \<longrightarrow> regs' r = regs r))"
  proof (intro exI conjI, rule s'(1))
    have regs: "cmos_reg (cmos_after c (port_log s')) = (cmos_reg (cmos_after c (port_log s)))
        (0x0A := (dev (port_log s @ [Out 0x8A 0x70]) 0x71 AND 0xF0) OR (?r AND 0x0F))"
      by (simp only: s'(2)) simp
    show "let regs = cmos_reg (cmos_after c (port_log s)); regs' = cmos_reg (cmos_after c (port_log s'))
        in rtc_hz (regs' 0x0A) = (if 3 \<le> k then 2 ^ (16 - k) else 1024) \<and>
           regs' 0x0A AND 0xF0 = dev (port_log s @ [Out 0x8A 0x70]) 0x71 AND 0xF0 \<and>
           (\<forall>r. r \<noteq> 0x0A \<longrightarrow> regs' r = regs r)"
      unfolding Let_def regs rtc_hz_def fun_upd_same nibble_join hz by simp
  qed
qed

theorem RTC_set_frequency_correct_witness:
  "\<exists>s'. RTC_set_frequency (\<lambda>_ _. 0x26) 1024 reset_machine = Some (0, s') \<and>
     rtc_hz (cmos_reg (cmos_after \<lparr>cmos_index = 0, cmos_reg = (\<lambda>_. 0)\<rparr> (port_log s')) 0x0A) = 64"
  using RTC_set_frequency_correct [of 10 1024 "\<lambda>_ _. 0x26" reset_machine "\<lparr>cmos_index = 0, cmos_reg = (\<lambda>_. 0)\<rparr>"]
  by (auto simp: Let_def)

text \<open>
  \<^verbatim>\<open>RTC_Read\<close> returns 0 with interrupts disabled right after the first clock interrupt, whatever
  other handlers ran while it was waiting; the interrupts after that one are still to come.  It
  discards a tick that was pending when it was called, and without a clock interrupt it never returns.
\<close>

theorem RTC_Read_correct:
  assumes "\<forall>h \<in> set others. \<forall>s. RTC_iflag (h s) = RTC_iflag s"
  shows "RTC_Read (others @ RTC_handler dev # rest) s =
      Some (0, cli (RTC_handler dev (fold (\<lambda>h. h) others ((sti s)\<lparr>RTC_iflag := 0\<rparr>))), rest) \<and>
    RTC_Read others s = None"
  using assms by (simp add: RTC_Read_def RTC_spin_until RTC_spin_stuck)

definition reset_rtc :: rtc where
  "reset_rtc = machine.extend reset_machine (rtc.fields 1)"

theorem RTC_Read_correct_witness:
  "RTC_Read [send_eoi 0] reset_rtc = None \<and>
   RTC_Read [send_eoi 0, RTC_handler (\<lambda>_ _. 0)] reset_rtc
     = Some (0, cli (RTC_handler (\<lambda>_ _. 0) (send_eoi 0 ((sti reset_rtc)\<lparr>RTC_iflag := 0\<rparr>))), [])"
proof -
  have "\<forall>h \<in> set [send_eoi 0]. \<forall>s :: rtc. RTC_iflag (h s) = RTC_iflag s"
    by (simp add: send_eoi_def outb_def)
  from RTC_Read_correct [OF this, of "\<lambda>_ _. 0" "[]" reset_rtc] show ?thesis by simp
qed

end
