(* ===== verification/Console.thy ===== *)
theory Console
  imports RTC "HOL-Library.Signed_Division"
begin

text \<open>
  The kernel console of \<^verbatim>\<open>lib.c\<close>: \<^verbatim>\<open>clear\<close>, \<^verbatim>\<open>putc\<close>, \<^verbatim>\<open>puts\<close>, \<^verbatim>\<open>printf\<close> and
  \<^verbatim>\<open>test_interrupts\<close> over the text-mode frame buffer at \<open>0xB8000\<close>.  Strings, the variable arguments
  of \<^verbatim>\<open>printf\<close> and its local \<^verbatim>\<open>conv_buf\<close> arrays lie in memory; the addresses of the locals are
  parameters.  A loop over a string that has no end, and a conversion that fails, is \<open>None\<close>.
\<close>

record console = rtc +
  screen_x :: i32
  screen_y :: i32

section \<open>lib.c: screen output\<close>

text \<open>The operators \<^verbatim>\<open>/\<close> and \<^verbatim>\<open>%\<close> of C on \<^verbatim>\<open>int\<close> truncate towards zero.\<close>

definition int_div :: "i32 \<Rightarrow> i32 \<Rightarrow> i32" where
  "int_div a b = word_of_int (sint a sdiv sint b)"

definition int_rem :: "i32 \<Rightarrow> i32 \<Rightarrow> i32" where
  "int_rem a b = word_of_int (sint a smod sint b)"

fun clear_loop :: "nat \<Rightarrow> nat \<Rightarrow> memory \<Rightarrow> memory" where
  "clear_loop 0 i m = m"
| "clear_loop (Suc k) i m =
     clear_loop k (i + 1) (m(0xB8000 + of_nat (2 * i) := 32, 0xB8000 + of_nat (2 * i) + 1 := 7))"

definition clear :: "'a machine_scheme \<Rightarrow> 'a machine_scheme" where
  "clear s = s\<lparr>mem := clear_loop 2000 0 (mem s)\<rparr>"

definition putc :: "u8 \<Rightarrow> 'a console_scheme \<Rightarrow> 'a console_scheme" where
  "putc c s =
     (if c = 10 \<or> c = 13 then s\<lparr>screen_y := screen_y s + 1, screen_x := 0\<rparr>
      else
        let a = 0xB8000 + push_bit 1 (80 * screen_y s + screen_x s);
            s = s\<lparr>mem := (mem s)(a := c, a + 1 := 7)\<rparr>;
            s = s\<lparr>screen_x := screen_x s + 1\<rparr>;
            s = s\<lparr>screen_x := int_rem (screen_x s) 80\<rparr>
        in s\<lparr>screen_y := int_rem (screen_y s + int_div (screen_x s) 80) 25\<rparr>)"

partial_function (option) puts_loop ::
  "u32 \<Rightarrow> u32 \<Rightarrow> 'a console_scheme \<Rightarrow> (i32 \<times> 'a console_scheme) option" where
  "puts_loop str index s =
     (if mem s (str + index) \<noteq> 0 then puts_loop str (index + 1) (putc (mem s (str + index)) s)
      else Some (index, s))"

definition puts :: "u32 \<Rightarrow> 'a console_scheme \<Rightarrow> (i32 \<times> 'a console_scheme) option" where
  "puts str s = puts_loop str 0 s"

text \<open>\<^verbatim>\<open>video_mem[i<<1]++\<close> over the 2000 cells.\<close>

fun test_interrupts_loop :: "nat \<Rightarrow> nat \<Rightarrow> memory \<Rightarrow> memory" where
  "test_interrupts_loop 0 i m = m"
| "test_interrupts_loop (Suc k) i m =
     test_interrupts_loop k (i + 1) (m(0xB8000 + of_nat (2 * i) := m (0xB8000 + of_nat (2 * i)) + 1))"

definition test_interrupts :: "'a machine_scheme \<Rightarrow> 'a machine_scheme" where
  "test_interrupts s = s\<lparr>mem := test_interrupts_loop 2000 0 (mem s)\<rparr>"

section \<open>lib.c: printf\<close>

text \<open>\<^verbatim>\<open>while(i < 8) { conv_buf[i] = '0'; i++; }\<close>\<close>

fun pad_zeros :: "nat \<Rightarrow> nat \<Rightarrow> u32 \<Rightarrow> memory \<Rightarrow> memory" where
  "pad_zeros 0 i conv_buf m = m"
| "pad_zeros (Suc k) i conv_buf m = pad_zeros k (i + 1) conv_buf (m(conv_buf + of_nat i := 48))"

text \<open>A number is converted into \<^verbatim>\<open>conv_buf\<close> and printed from \<open>start\<close>.\<close>

definition print_number ::
  "(memory \<Rightarrow> memory option) \<Rightarrow> u32 \<Rightarrow> 'a console_scheme \<Rightarrow> 'a console_scheme option" where
  "print_number convert start s =
     (case convert (mem s) of
        None \<Rightarrow> None
      | Some m \<Rightarrow> map_option snd (puts start (s\<lparr>mem := m\<rparr>)))"

definition print_hex_padded :: "u32 \<Rightarrow> u32 \<Rightarrow> 'a console_scheme \<Rightarrow> 'a console_scheme option" where
  "print_hex_padded val conv_buf s =
     (case itoa (mem s) val (conv_buf + 8) 16 of
        None \<Rightarrow> None
      | Some m \<Rightarrow>
          (case strlen m (conv_buf + 8) of
             None \<Rightarrow> None
           | Some i \<Rightarrow>
               let m = (if sint i < 8 then pad_zeros (nat (8 - sint i)) (unat i) conv_buf m else m)
               in map_option snd (puts (conv_buf + i) (s\<lparr>mem := m\<rparr>))))"

definition print_signed :: "i32 \<Rightarrow> u32 \<Rightarrow> 'a console_scheme \<Rightarrow> 'a console_scheme option" where
  "print_signed val conv_buf s =
     print_number
       (\<lambda>m. if sint val < 0 then itoa (m(conv_buf := 45)) (- val) (conv_buf + 1) 10
            else itoa m val conv_buf 10)
       conv_buf s"

text \<open>
  The conversion at \<open>buf\<close>, the character after the percent sign; \<open>conv\<close> gives the address of the
  local array of each branch.  The result is where the switch ends, the argument pointer and the state.
\<close>

partial_function (option) format_char ::
  "(u8 \<Rightarrow> u32) \<Rightarrow> bool \<Rightarrow> u32 \<Rightarrow> u32 \<Rightarrow> 'a console_scheme \<Rightarrow> (u32 \<times> u32 \<times> 'a console_scheme) option" where
  "format_char conv alternate buf esp s =
     (let c = mem s buf; arg = load32 (mem s) esp in
      if c = 37 then Some (buf, esp, putc 37 s)
      else if c = 35 then format_char conv True (buf + 1) esp s
      else if c = 120 then
        map_option (\<lambda>s. (buf, esp + 4, s))
          (if \<not> alternate then print_number (\<lambda>m. itoa m arg (conv c) 16) (conv c) s
           else print_hex_padded arg (conv c) s)
      else if c = 117 then
        map_option (\<lambda>s. (buf, esp + 4, s)) (print_number (\<lambda>m. itoa m arg (conv c) 10) (conv c) s)
      else if c = 100 then map_option (\<lambda>s. (buf, esp + 4, s)) (print_signed arg (conv c) s)
      else if c = 99 then Some (buf, esp + 4, putc (ucast arg) s)
      else if c = 115 then map_option (\<lambda>s. (buf, esp + 4, s)) (map_option snd (puts arg s))
      else Some (buf, esp, s))"

partial_function (option) printf_loop ::
  "(u8 \<Rightarrow> u32) \<Rightarrow> u32 \<Rightarrow> u32 \<Rightarrow> 'a console_scheme \<Rightarrow> (u32 \<times> 'a console_scheme) option" where
  "printf_loop conv buf esp s =
     (if mem s buf \<noteq> 0
      then if mem s buf = 37
           then case format_char conv False (buf + 1) esp s of
                  None \<Rightarrow> None
                | Some (buf, esp, s) \<Rightarrow> printf_loop conv (buf + 1) esp s
           else printf_loop conv (buf + 1) esp (putc (mem s buf) s)
      else Some (buf, s))"

definition printf ::
  "(u8 \<Rightarrow> u32) \<Rightarrow> u32 \<Rightarrow> u32 \<Rightarrow> 'a console_scheme \<Rightarrow> (i32 \<times> 'a console_scheme) option" where
  "printf conv format esp s =
     map_option (\<lambda>(buf, s). (buf - format, s)) (printf_loop conv format esp s)"

section \<open>Clearing\<close>

definition video :: u32 where
  "video = 0xB8000"

definition screen_bytes :: "memory \<Rightarrow> u8 list" where
  "screen_bytes m = bytes m video 4000"

lemma length_screen_bytes [simp]: "length (screen_bytes m) = 4000"
  by (simp add: screen_bytes_def)

lemma screen_store:
  assumes "i + length bs \<le> 4000"
  shows "screen_bytes (store_bytes m (video + of_nat i) bs)
       = take i (screen_bytes m) @ bs @ drop (i + length bs) (screen_bytes m)"
proof (rule nth_equalityI)
  fix j
  assume "j < length (screen_bytes (store_bytes m (video + of_nat i) bs))"
  then have j: "j < 4000" by simp
  have "unat (of_nat j - of_nat i :: u32) = (if i \<le> j then j - i else 2 ^ 32 - (i - j))"
    using j assms by (intro unat_of_nat_diff) simp_all
  then show "screen_bytes (store_bytes m (video + of_nat i) bs) ! j
      = (take i (screen_bytes m) @ bs @ drop (i + length bs) (screen_bytes m)) ! j"
    using j assms by (auto simp: screen_bytes_def store_bytes_apply nth_append)
qed (use assms in simp)

lemma screen_store_cell:
  "2 * i + 1 < 4000 \<Longrightarrow> screen_bytes (store_bytes m (video + of_nat (2 * i)) [c, a])
     = (screen_bytes m)[2 * i := c, 2 * i + 1 := a]"
  using screen_store [of "2 * i" "[c, a]" m] list_update_two [of "2 * i" "screen_bytes m" c a] by simp

lemma clear_loop_store:
  "clear_loop k i m = store_bytes m (0xB8000 + of_nat (2 * i)) (concat (replicate k [32, 7]))"
proof (induction k arbitrary: i m)
  case (Suc k)
  then show ?case by (simp add: fun_upd_def add.assoc)
qed simp

lemma length_concat_replicate [simp]: "length (concat (replicate k xs)) = k * length xs"
  by (induction k) simp_all

lemma clear_store: "clear s = s\<lparr>mem := store_bytes (mem s) video (concat (replicate 2000 [32, 7]))\<rparr>"
  by (simp add: clear_def clear_loop_store video_def)

section \<open>One character\<close>

lemma int_rem_of_nat:
  "a < 2147483648 \<Longrightarrow> b < 2147483648 \<Longrightarrow> int_rem (of_nat a) (of_nat b) = of_nat (a mod b)"
proof -
  have "int a smod int b = int (a mod b)" by (simp add: signed_modulo_int_def sgn_if zmod_int)
  then show "a < 2147483648 \<Longrightarrow> b < 2147483648 \<Longrightarrow> ?thesis"
    by (simp add: int_rem_def sint_u32_of_nat del: of_nat_mod)
qed

lemma int_div_of_nat:
  "a < 2147483648 \<Longrightarrow> b < 2147483648 \<Longrightarrow> int_div (of_nat a) (of_nat b) = of_nat (a div b)"
proof -
  have "int a sdiv int b = int (a div b)" by (simp add: signed_divide_int_def sgn_if zdiv_int)
  then show "a < 2147483648 \<Longrightarrow> b < 2147483648 \<Longrightarrow> ?thesis"
    by (simp add: int_div_def sint_u32_of_nat del: of_nat_div)
qed

definition newline :: "u8 \<Rightarrow> bool" where
  "newline c \<longleftrightarrow> c = 10 \<or> c = 13"

lemma putc_newline: "newline c \<Longrightarrow> putc c s = s\<lparr>screen_y := screen_y s + 1, screen_x := 0\<rparr>"
  by (simp add: putc_def newline_def)

lemma putc_print:
  assumes "\<not> newline c" "screen_x s = of_nat xc" "screen_y s = of_nat yc" "xc < 80" "yc \<le> 25"
  shows "putc c s = s\<lparr>mem := store_bytes (mem s) (video + of_nat (2 * (80 * yc + xc))) [c, 7],
       screen_x := of_nat ((xc + 1) mod 80), screen_y := of_nat (yc mod 25)\<rparr>"
proof -
  have x: "int_rem (of_nat xc + 1) 80 = of_nat ((xc + 1) mod 80)"
    using int_rem_of_nat [of "xc + 1" 80] assms(4) by (simp add: add.commute)
  have "(xc + 1) mod 80 < 80" by simp
  then have d: "int_div (of_nat ((xc + 1) mod 80)) 80 = 0"
    using int_div_of_nat [of "(xc + 1) mod 80" 80] by simp
  have y: "int_rem (of_nat yc) 25 = of_nat (yc mod 25)"
    using int_rem_of_nat [of yc 25] assms(5) by simp
  show ?thesis
    using assms(1-3) x d y
    by (simp add: putc_def newline_def Let_def video_def push_bit_eq_mult algebra_simps)
qed

text \<open>On the screen, \<^verbatim>\<open>putc\<close> stays on the screen; only a newline moves to another row.\<close>

definition on_screen :: "'a console_scheme \<Rightarrow> bool" where
  "on_screen s \<longleftrightarrow> unat (screen_x s) < 80 \<and> unat (screen_y s) < 25"

lemma putc_on_screen:
  assumes "on_screen s"
  shows "unat (screen_x (putc c s)) < 80"
    and "unat (screen_y (putc c s)) = unat (screen_y s) + (if newline c then 1 else 0)"
    and "p \<notin> region video 4000 \<Longrightarrow> mem (putc c s) p = mem s p"
proof -
  define xc yc where "xc = unat (screen_x s)" and "yc = unat (screen_y s)"
  have xy: "screen_x s = of_nat xc" "screen_y s = of_nat yc" "xc < 80" "yc < 25"
    using assms by (simp_all add: xc_def yc_def on_screen_def)
  have "unat (screen_x (putc c s)) < 80 \<and>
      unat (screen_y (putc c s)) = unat (screen_y s) + (if newline c then 1 else 0) \<and>
      (p \<notin> region video 4000 \<longrightarrow> mem (putc c s) p = mem s p)"
  proof (cases "newline c")
    case True
    have "unat (of_nat yc + 1 :: u32) = yc + 1"
      using xy(4) unat_u32_of_nat [of "yc + 1"] by (simp add: add.commute)
    with True xy show ?thesis by (simp add: putc_newline)
  next
    case False
    have "region (video + of_nat (2 * (80 * yc + xc))) (length [c, 7]) \<subseteq> region video 4000"
      by (rule region_shift_subset) (use xy in simp)
    then have "store_bytes (mem s) (video + of_nat (2 * (80 * yc + xc))) [c, 7] p = mem s p"
      if "p \<notin> region video 4000" by (intro store_bytes_outside) (use that in blast)
    moreover have "unat (of_nat (Suc xc mod 80) :: u32) < 80"
      by (subst unat_u32_of_nat) (use less_trans [of "Suc xc mod 80" 80 "2 ^ 32"] in simp_all)
    ultimately show ?thesis
      using False xy putc_print [OF False xy(1,2)] by simp
  qed
  then show "unat (screen_x (putc c s)) < 80"
    "unat (screen_y (putc c s)) = unat (screen_y s) + (if newline c then 1 else 0)"
    "p \<notin> region video 4000 \<Longrightarrow> mem (putc c s) p = mem s p"
    by blast+
qed

section \<open>Strings\<close>

text \<open>What printing a text does to the cells of a screen, from column \<open>x\<close> and row \<open>y\<close> on.\<close>

fun show_text :: "u8 list \<Rightarrow> nat \<Rightarrow> nat \<Rightarrow> u8 list \<Rightarrow> u8 list" where
  "show_text [] x y V = V"
| "show_text (c # cs) x y V =
     (if newline c then show_text cs 0 (y + 1) V
      else show_text cs ((x + 1) mod 80) y (V[2 * (80 * y + x) := c, 2 * (80 * y + x) + 1 := 7]))"

lemma fold_putc_screen:
  "unat (screen_x s) < 80 \<Longrightarrow> unat (screen_y s) + length (filter newline str) < 25 \<Longrightarrow>
     screen_bytes (mem (fold putc str s)) = show_text str (unat (screen_x s)) (unat (screen_y s)) (screen_bytes (mem s))"
proof (induction str arbitrary: s)
  case (Cons c str)
  define xc yc where "xc = unat (screen_x s)" and "yc = unat (screen_y s)"
  have xy: "screen_x s = of_nat xc" "screen_y s = of_nat yc" "xc < 80" "yc < 25"
    using Cons.prems by (simp_all add: xc_def yc_def split: if_splits)
  have on: "on_screen s" using Cons.prems by (auto simp: on_screen_def split: if_splits)
  have ih: "screen_bytes (mem (fold putc str (putc c s))) =
      show_text str (unat (screen_x (putc c s))) (unat (screen_y (putc c s))) (screen_bytes (mem (putc c s)))"
    using putc_on_screen(1,2) [OF on, of c] Cons.prems by (intro Cons.IH) (auto split: if_splits)
  show ?case
  proof (cases "newline c")
    case True
    with ih putc_on_screen(2) [OF on, of c] show ?thesis by (simp add: putc_newline)
  next
    case False
    have u: "unat (of_nat ((xc + 1) mod 80) :: u32) = (xc + 1) mod 80"
      by (rule unat_u32_of_nat) (rule less_trans [of _ 80]; simp)
    have p: "screen_bytes (mem (putc c s)) = (screen_bytes (mem s))[2 * (80 * yc + xc) := c, 2 * (80 * yc + xc) + 1 := 7]"
      "unat (screen_x (putc c s)) = (xc + 1) mod 80" "unat (screen_y (putc c s)) = yc"
      using putc_print [OF False xy(1,2)] xy screen_store_cell [of "80 * yc + xc" "mem s" c 7] u by simp_all
    show ?thesis using False ih unfolding p by (simp add: xc_def [symmetric] yc_def [symmetric])
  qed
qed simp

text \<open>A string that the console can print without leaving the screen or overwriting it.\<close>

definition printable_at :: "u32 \<Rightarrow> u8 list \<Rightarrow> 'a console_scheme \<Rightarrow> bool" where
  "printable_at a str s \<longleftrightarrow> cstring (mem s) a str \<and>
     region a (Suc (length str)) \<inter> region video 4000 = {} \<and>
     unat (screen_x s) < 80 \<and> unat (screen_y s) + length (filter newline str) < 25"

lemma printable_step:
  assumes "printable_at a (c # str) s"
  shows "printable_at (a + 1) str (putc c s)" "mem s a = c" "c \<noteq> 0"
proof -
  have str: "mem s a = c" "c \<noteq> 0" "cstring (mem s) (a + 1) str"
    using assms cstring_Cons [of "mem s" a c str] by (auto simp: printable_at_def)
  have on: "on_screen s" using assms by (auto simp: printable_at_def on_screen_def split: if_splits)
  have disj: "region (a + 1) (Suc (length str)) \<inter> region video 4000 = {}"
    using assms by (auto simp: printable_at_def region_Suc [of a])
  have "cstring (mem (putc c s)) (a + 1) str"
    by (rule cstring_cong [OF str(3)]) (use putc_on_screen(3) [OF on] disj in blast)
  with disj putc_on_screen(1,2) [OF on, of c] assms show "printable_at (a + 1) str (putc c s)"
    by (auto simp: printable_at_def split: if_splits)
  show "mem s a = c" "c \<noteq> 0" by (rule str)+
qed

lemma printf_loop_plain:
  "printable_at a str s \<Longrightarrow> 37 \<notin> set str \<Longrightarrow>
     printf_loop conv a esp s = Some (a + of_nat (length str), fold putc str s)"
proof (induction str arbitrary: a s)
  case Nil
  then show ?case by (subst printf_loop.simps) (simp add: printable_at_def cstring_def)
next
  case (Cons c str)
  note step = printable_step [OF Cons.prems(1)]
  have "printf_loop conv (a + 1) esp (putc c s) = Some (a + 1 + of_nat (length str), fold putc str (putc c s))"
    using Cons step by (intro Cons.IH) simp_all
  with step Cons.prems(2) show ?case by (subst printf_loop.simps) (simp add: add.assoc)
qed

lemma puts_loop_plain:
  "printable_at (a + index) str s \<Longrightarrow>
     puts_loop a index s = Some (index + of_nat (length str), fold putc str s)"
proof (induction str arbitrary: index s)
  case Nil
  then show ?case by (subst puts_loop.simps) (simp add: printable_at_def cstring_def)
next
  case (Cons c str)
  note step = printable_step [OF Cons.prems(1)]
  have "puts_loop a (index + 1) (putc c s) = Some (index + 1 + of_nat (length str), fold putc str (putc c s))"
    using Cons step by (intro Cons.IH) (simp add: add.assoc)
  with step show ?case by (subst puts_loop.simps) (simp add: add.assoc)
qed

section \<open>Properties\<close>

text \<open>
  \<^verbatim>\<open>clear\<close> leaves a blank in the attribute 7 in each of the 2000 cells of the screen, changes
  no other memory and does not move either cursor.
\<close>

theorem clear_correct:
  "screen_bytes (mem (clear s)) = concat (replicate 2000 [32, 7]) \<and>
   {p. mem (clear s) p \<noteq> mem s p} \<subseteq> region video 4000 \<and> clear s = s\<lparr>mem := mem (clear s)\<rparr>"
  using bytes_store_bytes [of "concat (replicate 2000 [32, 7])" "mem s" video]
    store_bytes_outside [of _ video "concat (replicate 2000 [32, 7])" "mem s"]
  by (auto simp: clear_store screen_bytes_def)

text \<open>
  With the cursor on the screen, \<^verbatim>\<open>putc\<close> of a printable character writes it to the cursor's cell
  and goes one column on.  From the last column it goes back to the first column of the same row:
  \<^verbatim>\<open>screen_x\<close> is reduced before it is divided, so the row never advances on its own.
\<close>

theorem putc_correct:
  assumes "on_screen s" "\<not> newline c"
  shows "mem (putc c s) =
      store_bytes (mem s) (video + of_nat (2 * (80 * unat (screen_y s) + unat (screen_x s)))) [c, 7] \<and>
    unat (screen_x (putc c s)) = (unat (screen_x s) + 1) mod 80 \<and> screen_y (putc c s) = screen_y s"
proof -
  have "putc c s = s\<lparr>mem := store_bytes (mem s) (video + of_nat (2 * (80 * unat (screen_y s) + unat (screen_x s)))) [c, 7],
       screen_x := of_nat ((unat (screen_x s) + 1) mod 80), screen_y := of_nat (unat (screen_y s) mod 25)\<rparr>"
    using assms by (intro putc_print) (simp_all add: on_screen_def)
  moreover have "(unat (screen_x s) + 1) mod 80 < 2 ^ 32"
    by (rule less_trans [of _ 80]) simp_all
  ultimately show ?thesis using assms(1) unat_u32_of_nat by (simp add: on_screen_def)
qed

definition reset_console :: "i32 \<Rightarrow> i32 \<Rightarrow> console" where
  "reset_console sx sy = rtc.extend reset_rtc (console.fields sx sy)"

lemma reset_console_simps [simp]:
  "screen_x (reset_console sx sy) = sx" "screen_y (reset_console sx sy) = sy"
  "mem (reset_console sx sy) = (\<lambda>_. 0)" "port_log (reset_console sx sy) = []"
  by (simp_all add: reset_console_def reset_rtc_def reset_machine_def rtc.defs machine.defs console.defs)

theorem putc_correct_witness:
  "screen_x (putc 65 (reset_console 79 3)) = 0 \<and> screen_y (putc 65 (reset_console 79 3)) = 3 \<and>
   mem (putc 65 (reset_console 79 3)) 0xB827E = 65"
proof -
  have "on_screen (reset_console 79 3)" "\<not> newline 65" by (simp_all add: on_screen_def newline_def)
  from putc_correct [OF this] show ?thesis by (simp add: video_def unat_eq_0)
qed

text \<open>
  \<^verbatim>\<open>printf\<close> of a string without conversions, kept apart from the frame buffer and with rows left
  for its newlines, returns its length after printing its characters one by one with \<^verbatim>\<open>putc\<close>; so
  does \<^verbatim>\<open>puts\<close>.
\<close>

theorem printf_plain:
  assumes "cstring (mem s) a str" "region a (Suc (length str)) \<inter> region video 4000 = {}"
    and "unat (screen_x s) < 80" "unat (screen_y s) + length (filter newline str) < 25"
    and "37 \<notin> set str"
  shows "printf conv a esp s = Some (of_nat (length str), fold putc str s) \<and>
         puts a s = Some (of_nat (length str), fold putc str s)"
proof -
  have p: "printable_at a str s" "printable_at (a + 0) str s" using assms by (simp_all add: printable_at_def)
  show ?thesis
    using printf_loop_plain [OF p(1) assms(5), of conv esp] puts_loop_plain [OF p(2)]
    by (simp add: printf_def puts_def)
qed

theorem printf_plain_witness:
  "let s = (reset_console 0 24)\<lparr>mem := store_bytes (\<lambda>_. 0) 0x1000 [72, 105]\<rparr>
   in printf (\<lambda>_. 0x2000) 0x1000 0x3000 s = Some (2, putc 105 (putc 72 s))"
proof -
  let ?s = "(reset_console 0 24)\<lparr>mem := store_bytes (\<lambda>_. 0) 0x1000 [72, 105]\<rparr>"
  have "cstring (mem ?s) 0x1000 [72, 105]"
    by (simp add: cstring_def bytes_def upt_rec)
  moreover have "region 0x1000 (Suc (length [72 :: u8, 105])) \<inter> region video 4000 = {}"
    unfolding video_def by (rule region_disjointI) simp_all
  moreover have "unat (screen_x ?s) < 80" "unat (screen_y ?s) + length (filter newline [72, 105]) < 25"
    "37 \<notin> set [72 :: u8, 105]" by (simp_all add: newline_def)
  ultimately have "printf (\<lambda>_. 0x2000) 0x1000 0x3000 ?s = Some (of_nat (length [72 :: u8, 105]), fold putc [72, 105] ?s)"
    using printf_plain by blast
  then show ?thesis by (simp add: Let_def)
qed

end
