(* ===== verification/Terminal.thy ===== *)
theory Terminal
  imports Console
begin

text \<open>
  The screen of the terminals: the drawing routines of \<^verbatim>\<open>keyboard.c\<close> (\<^verbatim>\<open>WriteCharacter\<close>,
  \<^verbatim>\<open>fb_move_cursor\<close>, \<^verbatim>\<open>scroll\<close>, the cursor accessors) and \<^verbatim>\<open>terminal.c\<close>.  The globals of
  \<^verbatim>\<open>keyboard.c\<close> are the record below: \<^verbatim>\<open>x\<close> and \<^verbatim>\<open>y\<close> are \<open>cursor_x\<close> and \<open>cursor_y\<close>, and the
  array \<^verbatim>\<open>buffer\<close> lies in memory at \<open>keybuf\<close>, the address the linker gave it.

  \<open>write_Terminal\<close> is proved to refine an abstract screen, a list of 4000 bytes and a cursor on it.
\<close>

record keyboard = console +
  cursor_x :: u16
  cursor_y :: u16
  capsLockFlag :: i32
  shiftKeyHoldDown :: i32
  ctrlKeyHoldDown :: i32
  altKeyFlag :: i32
  keybuf :: u32
  buffer_flag :: u16
  buffer_Size :: u16
  cursorPointer :: u16
  tabbed :: i32
  charactersOnScreen :: u16
  enter_flag :: u8

section \<open>keyboard.c: drawing\<close>

definition WriteCharacter ::
  "u8 \<Rightarrow> u8 \<Rightarrow> u8 \<Rightarrow> u16 \<Rightarrow> u16 \<Rightarrow> 'a keyboard_scheme \<Rightarrow> 'a keyboard_scheme" where
  "WriteCharacter c forecolour backcolour x_1 y_1 s =
     (let forecolour = (if buffer_flag s = 0 then 18 else if buffer_flag s = 1 then 19
                        else if buffer_flag s = 2 then 20 else forecolour);
          attrib = (ucast ((push_bit 4 (ucast backcolour) OR (ucast forecolour AND 0x0F)) :: u32) :: u16);
          where' = 0xB8000 + 2 * (ucast y_1 * 80 + ucast x_1);
          val = (ucast ((ucast c OR push_bit 8 (ucast attrib)) :: u32) :: u16)
      in s\<lparr>mem := (mem s)(where' := ucast val, where' + 1 := ucast (drop_bit 8 val))\<rparr>)"

definition fb_move_cursor :: "u16 \<Rightarrow> u16 \<Rightarrow> 'a machine_scheme \<Rightarrow> 'a machine_scheme" where
  "fb_move_cursor row col s =
     (let idx = ucast col * 80 + (ucast row :: u32);
          s = outb 14 0x3D4 s;
          s = outb (drop_bit 8 idx) 0x3D5 s;
          s = outb 15 0x3D4 s
      in outb idx 0x3D5 s)"

definition init_cursor_c :: "'a machine_scheme \<Rightarrow> 'a machine_scheme" where
  "init_cursor_c s = fb_move_cursor 0 0 s"

definition getX :: "'a keyboard_scheme \<Rightarrow> u16" where
  "getX s = cursor_x s"

definition getY :: "'a keyboard_scheme \<Rightarrow> u16" where
  "getY s = cursor_y s"

definition setX :: "u16 \<Rightarrow> 'a keyboard_scheme \<Rightarrow> 'a keyboard_scheme" where
  "setX terminal_x s = s\<lparr>cursor_x := terminal_x\<rparr>"

definition setY :: "u16 \<Rightarrow> 'a keyboard_scheme \<Rightarrow> 'a keyboard_scheme" where
  "setY terminal_y s = s\<lparr>cursor_y := terminal_y\<rparr>"

definition getCharactersOnScreen :: "'a keyboard_scheme \<Rightarrow> u16" where
  "getCharactersOnScreen s = charactersOnScreen s"

definition setCharactersOnScreen :: "u16 \<Rightarrow> 'a keyboard_scheme \<Rightarrow> 'a keyboard_scheme" where
  "setCharactersOnScreen n s = s\<lparr>charactersOnScreen := n\<rparr>"

definition getBufferSize :: "'a keyboard_scheme \<Rightarrow> u16" where
  "getBufferSize s = buffer_Size s"

definition setBufferSize :: "u16 \<Rightarrow> 'a keyboard_scheme \<Rightarrow> 'a keyboard_scheme" where
  "setBufferSize n s = s\<lparr>buffer_Size := n\<rparr>"

text \<open>The loop that moves the lines up, \<open>k\<close> rounds from line \<open>j\<close> on, and the one that blanks line \<open>row\<close>.\<close>

fun move_lines :: "nat \<Rightarrow> nat \<Rightarrow> memory \<Rightarrow> memory" where
  "move_lines 0 j m = m"
| "move_lines (Suc k) j m =
     move_lines k (j + 1)
       (if j < 24 then memcpy m (0xB8000 + of_nat j * 160) (0xB8000 + of_nat (j + 1) * 160) 160 else m)"

fun blank_line :: "nat \<Rightarrow> nat \<Rightarrow> u16 \<Rightarrow> 'a keyboard_scheme \<Rightarrow> 'a keyboard_scheme" where
  "blank_line 0 j row s = s"
| "blank_line (Suc k) j row s = blank_line k (j + 1) row (WriteCharacter 32 255 0 (of_nat j) row s)"

definition scroll :: "'a keyboard_scheme \<Rightarrow> 'a keyboard_scheme" where
  "scroll s =
     (let temp = cursor_y s;
          s = s\<lparr>mem := move_lines (unat (cursor_y s)) 0 (mem s)\<rparr>;
          s = s\<lparr>cursor_y := temp - 1\<rparr>
      in blank_line 80 0 (cursor_y s) s)"

section \<open>terminal.c\<close>

definition open_Terminal :: i32 where
  "open_Terminal = 0"

definition close_Terminal :: i32 where
  "close_Terminal = 0"

text \<open>The block that makes room when the cursor is on line 25, used at the start and after a character.\<close>

definition last_line :: "u16 \<Rightarrow> 'a keyboard_scheme \<Rightarrow> u16 \<times> 'a keyboard_scheme" where
  "last_line terminal_y s =
     (let terminal_y = terminal_y - 1;
          s = s\<lparr>mem := move_lines (unat terminal_y) 0 (mem s)\<rparr>
      in (terminal_y, blank_line 80 0 terminal_y s))"

definition write_Terminal_char ::
  "u8 \<Rightarrow> u16 \<times> u16 \<times> 'a keyboard_scheme \<Rightarrow> u16 \<times> u16 \<times> 'a keyboard_scheme" where
  "write_Terminal_char c =
     (\<lambda>(terminal_x, terminal_y, s).
        let (terminal_x, terminal_y, s) =
          (if c = 10
           then let terminal_y = terminal_y + 1; terminal_x = 0
                in if terminal_y = 25
                   then let s = scroll (setY terminal_y (setX terminal_x s)) in (getX s, getY s, s)
                   else (terminal_x, terminal_y, s)
           else let s = WriteCharacter c 255 0 terminal_x terminal_y s;
                    terminal_x = terminal_x + 1;
                    (terminal_x, terminal_y) =
                      (if terminal_x = 80 \<and> terminal_y < 25 then (0, terminal_y + 1)
                       else (terminal_x, terminal_y))
                in if terminal_y = 25
                   then let (terminal_y, s) = last_line terminal_y s in (terminal_x, terminal_y, s)
                   else (terminal_x, terminal_y, s))
        in (terminal_x, terminal_y, fb_move_cursor terminal_x terminal_y s))"

fun write_Terminal_loop ::
  "nat \<Rightarrow> u32 \<Rightarrow> u16 \<times> u16 \<times> 'a keyboard_scheme \<Rightarrow> u16 \<times> u16 \<times> 'a keyboard_scheme" where
  "write_Terminal_loop 0 buf st = st"
| "write_Terminal_loop (Suc k) buf st =
     write_Terminal_loop k (buf + 1) (write_Terminal_char (mem (snd (snd st)) buf) st)"

definition write_Terminal :: "u32 \<Rightarrow> i32 \<Rightarrow> 'a keyboard_scheme \<Rightarrow> i32 \<times> 'a keyboard_scheme" where
  "write_Terminal buf nbytes s =
     (let terminal_x = getX s;
          terminal_y = getY s;
          terminal_y = (if terminal_y = 26 then terminal_y - 1 else terminal_y);
          (terminal_y, s) = (if terminal_y = 25 then last_line terminal_y s else (terminal_y, s));
          (terminal_x, terminal_y, s) = write_Terminal_loop (nat (sint nbytes)) buf (terminal_x, terminal_y, s);
          s = fb_move_cursor terminal_x terminal_y s
      in (0, setY terminal_y (setX terminal_x s)))"

section \<open>The abstract screen\<close>

text \<open>
  A screen is the 4000 bytes of its cells with the column and row of the cursor; \<open>a\<close> is the
  attribute byte characters are written in.
\<close>

type_synonym screen = "u8 list \<times> nat \<times> nat"

definition blanks :: "u8 \<Rightarrow> nat \<Rightarrow> u8 list" where
  "blanks a n = concat (replicate n [32, a])"

definition scroll_up :: "u8 \<Rightarrow> u8 list \<Rightarrow> u8 list" where
  "scroll_up a V = drop 160 V @ blanks a 80"

definition next_row :: "u8 \<Rightarrow> u8 list \<Rightarrow> nat \<Rightarrow> screen" where
  "next_row a V r = (if r = 24 then (scroll_up a V, 0, 24) else (V, 0, r + 1))"

fun put_char :: "u8 \<Rightarrow> u8 \<Rightarrow> screen \<Rightarrow> screen" where
  "put_char a c (V, col, r) =
     (if c = 10 then next_row a V r
      else let V' = V[2 * (80 * r + col) := c, 2 * (80 * r + col) + 1 := a]
           in if col + 1 = 80 then next_row a V' r else (V', col + 1, r))"

definition attr :: "'a keyboard_scheme \<Rightarrow> u8" where
  "attr s = (if buffer_flag s = 0 then 2 else if buffer_flag s = 1 then 3 else if buffer_flag s = 2 then 4 else 15)"

section \<open>Writing to the frame buffer\<close>

lemma length_blanks [simp]: "length (blanks a n) = 2 * n"
  by (simp add: blanks_def)

lemma WriteCharacter_store:
  assumes "xc < 65536" "yc < 65536"
  shows "WriteCharacter c 255 0 (of_nat xc) (of_nat yc) s =
     s\<lparr>mem := store_bytes (mem s) (video + of_nat (2 * (80 * yc + xc))) [c, attr s]\<rparr>"
proof -
  have z: "(ucast (of_nat xc :: u16) :: u32) = of_nat xc" "(ucast (of_nat yc :: u16) :: u32) = of_nat yc"
    using assms by (simp_all add: word_unat_eq_iff unat_of_nat unsigned_ucast_eq take_bit_nat_eq_self)
  have lo: "(ucast (ucast ((ucast c OR push_bit 8 (ucast (a :: u16))) :: u32) :: u16) :: u8) = c" for a
    by (rule bit_word_eqI) (auto simp: bit_simps)
  have hi: "(ucast (drop_bit 8 (ucast ((ucast c OR push_bit 8 (ucast (a :: u16))) :: u32) :: u16)) :: u8) = ucast a" for a
    by (rule bit_word_eqI) (auto simp: bit_simps dest: bit_imp_le_length)
  have addr: "0xB8000 + 2 * (of_nat yc * 80 + of_nat xc) = video + (of_nat (2 * (80 * yc + xc)) :: u32)"
    by (simp add: video_def)
  show ?thesis
    unfolding WriteCharacter_def Let_def z addr lo hi attr_def by simp
qed

lemma store_outside_screen:
  assumes "i + length bs \<le> 4000" "p \<notin> region video 4000"
  shows "store_bytes m (video + of_nat i) bs p = m p"
  using region_shift_subset [of i "length bs" 4000 video] assms by (intro store_bytes_outside) blast

lemma blank_line_store:
  "j + k \<le> 65536 \<Longrightarrow> row < 65536 \<Longrightarrow> blank_line k j (of_nat row) s =
     s\<lparr>mem := store_bytes (mem s) (video + of_nat (2 * (80 * row + j))) (blanks (attr s) k)\<rparr>"
proof (induction k arbitrary: j s)
  case 0
  then show ?case by (simp add: blanks_def)
next
  case (Suc k)
  have a: "attr (s\<lparr>mem := m\<rparr>) = attr s" for m by (simp add: attr_def)
  from Suc show ?case
    by (simp add: WriteCharacter_store a blanks_def fun_upd_def add.assoc algebra_simps)
qed

section \<open>Scrolling\<close>

text \<open>The screen after the first \<open>j\<close> lines have been moved up.\<close>

definition moved :: "nat \<Rightarrow> u8 list \<Rightarrow> u8 list" where
  "moved j V = take (160 * j) (drop 160 V) @ drop (160 * j) V"

lemma moved_step:
  assumes "length V = 4000" "j < 24"
  shows "take (160 * j) (moved j V) @ take 160 (drop (160 * (j + 1)) (moved j V)) @ drop (160 * j + 160) (moved j V)
       = moved (j + 1) V"
proof -
  have "take (160 * (j + 1)) (drop 160 V) = take (160 * j) (drop 160 V) @ take 160 (drop (160 * (j + 1)) V)"
    using take_add [of "160 * j" 160 "drop 160 V"] by (simp add: add.commute algebra_simps)
  then show ?thesis
    using assms by (simp add: moved_def algebra_simps)
qed

lemma line_move:
  assumes "j < 24"
  shows "memcpy m (0xB8000 + of_nat j * 160) (0xB8000 + of_nat (j + 1) * 160) 160
       = store_bytes m (video + of_nat (160 * j)) (take 160 (drop (160 * (j + 1)) (screen_bytes m)))"
proof -
  have src: "bytes m (0xB8000 + of_nat (j + 1) * 160) 160 = take 160 (drop (160 * (j + 1)) (screen_bytes m))"
    using assms by (intro nth_equalityI) (simp_all add: screen_bytes_def video_def algebra_simps)
  have "0xB8000 + of_nat (j + 1) * 160 - (0xB8000 + of_nat j * 160) = (160 :: u32)"
    "0xB8000 + of_nat j * 160 - (0xB8000 + of_nat (j + 1) * 160) = (- 160 :: u32)"
    by (simp_all add: algebra_simps)
  then have "region (0xB8000 + of_nat j * 160) 160 \<inter> region (0xB8000 + of_nat (j + 1) * 160 :: u32) 160 = {}"
    by (intro region_disjointI) (simp_all only:, simp_all)
  then have "memcpy m (0xB8000 + of_nat j * 160) (0xB8000 + of_nat (j + 1) * 160) 160
      = store_bytes m (0xB8000 + of_nat j * 160) (bytes m (0xB8000 + of_nat (j + 1) * 160) 160)"
    using memcpy.cp_store_bytes [of "0xB8000 + of_nat j * 160" 160 "0xB8000 + of_nat (j + 1) * 160" m] by simp
  then show ?thesis unfolding src by (simp add: video_def mult.commute)
qed

lemma move_lines_screen:
  assumes "length V = 4000"
  shows "24 \<le> j + k \<Longrightarrow> j \<le> 24 \<Longrightarrow> screen_bytes m = moved j V \<Longrightarrow>
     screen_bytes (move_lines k j m) = moved 24 V \<and>
     (\<forall>p. p \<notin> region video 4000 \<longrightarrow> move_lines k j m p = m p)"
proof (induction k arbitrary: j m)
  case 0
  then show ?case by simp
next
  case (Suc k)
  show ?case
  proof (cases "j < 24")
    case True
    let ?m = "store_bytes m (video + of_nat (160 * j)) (take 160 (drop (160 * (j + 1)) (screen_bytes m)))"
    have len: "length (take 160 (drop (160 * (j + 1)) (screen_bytes m))) = 160" using True by simp
    have "screen_bytes ?m = moved (j + 1) V"
      using moved_step [OF assms True] screen_store [of "160 * j" "take 160 (drop (160 * (j + 1)) (screen_bytes m))" m, unfolded len]
        True by (simp only: Suc.prems(3))
    then have "screen_bytes (move_lines k (j + 1) ?m) = moved 24 V \<and>
        (\<forall>p. p \<notin> region video 4000 \<longrightarrow> move_lines k (j + 1) ?m p = ?m p)"
      using True Suc.prems by (intro Suc.IH) simp_all
    moreover have "?m p = m p" if "p \<notin> region video 4000" for p
      by (rule store_outside_screen) (use True that len in simp_all)
    moreover have "move_lines (Suc k) j m = move_lines k (j + 1) ?m"
      using True line_move [OF True, of m] by simp
    ultimately show ?thesis by simp
  next
    case False
    with Suc.prems have j: "j = 24" by simp
    have "move_lines k i m = m" if "24 \<le> i" for k i
      using that by (induction k arbitrary: i) simp_all
    then have "move_lines (Suc k) j m = m" unfolding j by simp
    with Suc.prems(3) j show ?thesis by (simp only: simp_thms)
  qed
qed

lemma moved_0 [simp]: "moved 0 V = V"
  by (simp add: moved_def)

lemma make_room:
  assumes "24 \<le> k"
  shows "blank_line 80 0 24 (s\<lparr>mem := move_lines k 0 (mem s)\<rparr>)
       = s\<lparr>mem := store_bytes (move_lines k 0 (mem s)) (video + of_nat 3840) (blanks (attr s) 80)\<rparr>"
    and "screen_bytes (store_bytes (move_lines k 0 (mem s)) (video + of_nat 3840) (blanks (attr s) 80))
       = scroll_up (attr s) (screen_bytes (mem s))"
    and "p \<notin> region video 4000 \<Longrightarrow>
       store_bytes (move_lines k 0 (mem s)) (video + of_nat 3840) (blanks (attr s) 80) p = mem s p"
proof -
  have a: "attr (s\<lparr>mem := m\<rparr>) = attr s" for m by (simp add: attr_def)
  show "blank_line 80 0 24 (s\<lparr>mem := move_lines k 0 (mem s)\<rparr>)
       = s\<lparr>mem := store_bytes (move_lines k 0 (mem s)) (video + of_nat 3840) (blanks (attr s) 80)\<rparr>"
    using blank_line_store [of 0 80 24 "s\<lparr>mem := move_lines k 0 (mem s)\<rparr>"] by (simp add: a)
  note mv = move_lines_screen [of "screen_bytes (mem s)" 0 k "mem s"]
  have "screen_bytes (move_lines k 0 (mem s)) = moved 24 (screen_bytes (mem s))"
    using mv assms by simp
  then show "screen_bytes (store_bytes (move_lines k 0 (mem s)) (video + of_nat 3840) (blanks (attr s) 80))
       = scroll_up (attr s) (screen_bytes (mem s))"
    by (subst screen_store) (simp_all add: scroll_up_def moved_def)
  show "store_bytes (move_lines k 0 (mem s)) (video + of_nat 3840) (blanks (attr s) 80) p = mem s p"
    if "p \<notin> region video 4000"
    using store_outside_screen [of 3840 "blanks (attr s) 80" p] mv assms that by simp
qed

text \<open>Frame facts: what drawing and moving the hardware cursor leave alone.\<close>

lemma fb_move_cursor_frame [simp]:
  "mem (fb_move_cursor r c s) = mem s" "buffer_flag (fb_move_cursor r c s') = buffer_flag s'"
  "cursor_x (fb_move_cursor r c s') = cursor_x s'" "cursor_y (fb_move_cursor r c s') = cursor_y s'"
  by (simp_all add: fb_move_cursor_def Let_def outb_def)

lemma attr_frame [simp]:
  "attr (fb_move_cursor r c s) = attr s" "attr (s\<lparr>mem := m\<rparr>) = attr s"
  "attr (s\<lparr>cursor_x := u\<rparr>) = attr s" "attr (s\<lparr>cursor_y := v\<rparr>) = attr s"
  by (simp_all add: attr_def)

section \<open>Refinement of the abstract screen\<close>

fun abs_screen :: "u16 \<times> u16 \<times> 'a keyboard_scheme \<Rightarrow> screen" where
  "abs_screen (tx, ty, s) = (screen_bytes (mem s), unat tx, unat ty)"

text \<open>What writing keeps: all memory off the screen and the attribute.\<close>

definition drawn :: "'a keyboard_scheme \<Rightarrow> 'a keyboard_scheme \<Rightarrow> bool" where
  "drawn s s' \<longleftrightarrow> attr s' = attr s \<and> (\<forall>p. p \<notin> region video 4000 \<longrightarrow> mem s' p = mem s p)"

lemma drawn_refl [simp]: "drawn s s"
  by (simp add: drawn_def)

lemma drawn_fb_move_cursor [simp]: "drawn s (fb_move_cursor r c t) \<longleftrightarrow> drawn s t"
  by (simp add: drawn_def)

lemma drawn_trans: "drawn s s' \<Longrightarrow> drawn s' s'' \<Longrightarrow> drawn s s''"
  by (simp add: drawn_def)

lemma last_line_25:
  "fst (last_line 25 s) = 24 \<and> screen_bytes (mem (snd (last_line 25 s))) = scroll_up (attr s) (screen_bytes (mem s)) \<and>
   drawn s (snd (last_line 25 s)) \<and> cursor_x (snd (last_line 25 s)) = cursor_x s"
  using make_room [where k = 24 and s = s] by (simp add: last_line_def drawn_def)

lemma scroll_25:
  assumes "cursor_y s = 25"
  shows "cursor_y (scroll s) = 24 \<and> cursor_x (scroll s) = cursor_x s \<and>
     screen_bytes (mem (scroll s)) = scroll_up (attr s) (screen_bytes (mem s)) \<and> drawn s (scroll s)"
proof -
  have "scroll s = blank_line 80 0 24 ((s\<lparr>cursor_y := 24\<rparr>)\<lparr>mem := move_lines 25 0 (mem s)\<rparr>)"
    using assms by (simp add: scroll_def Let_def) (rule arg_cong [where f = "blank_line 80 0 24"], simp)
  then show ?thesis
    using make_room [where k = 25 and s = "s\<lparr>cursor_y := 24\<rparr>"] assms by (simp add: drawn_def)
qed

lemma WriteCharacter_cell:
  assumes "unat tx < 80" "unat ty \<le> 24"
  shows "screen_bytes (mem (WriteCharacter c 255 0 tx ty s))
       = (screen_bytes (mem s))[2 * (80 * unat ty + unat tx) := c, 2 * (80 * unat ty + unat tx) + 1 := attr s]"
    and "drawn s (WriteCharacter c 255 0 tx ty s)"
    and "cursor_x (WriteCharacter c 255 0 tx ty s) = cursor_x s"
    and "cursor_y (WriteCharacter c 255 0 tx ty s) = cursor_y s"
proof -
  let ?i = "80 * unat ty + unat tx"
  have i: "2 * ?i + 1 < 4000" using assms by simp
  have w: "WriteCharacter c 255 0 tx ty s = s\<lparr>mem := store_bytes (mem s) (video + of_nat (2 * ?i)) [c, attr s]\<rparr>"
    using WriteCharacter_store [of "unat tx" "unat ty" c s] assms by simp
  show "screen_bytes (mem (WriteCharacter c 255 0 tx ty s)) = (screen_bytes (mem s))[2 * ?i := c, 2 * ?i + 1 := attr s]"
    using screen_store_cell [OF i, of "mem s" c "attr s"] by (simp only: w) simp
  show "drawn s (WriteCharacter c 255 0 tx ty s)"
    unfolding w drawn_def using store_outside_screen [of "2 * ?i" "[c, attr s]" _ "mem s"] i by simp
  show "cursor_x (WriteCharacter c 255 0 tx ty s) = cursor_x s"
    "cursor_y (WriteCharacter c 255 0 tx ty s) = cursor_y s" by (simp_all add: w)
qed

lemma write_Terminal_char_refines:
  assumes "xc < 80" "yc \<le> 24"
  shows "abs_screen (write_Terminal_char c (of_nat xc, of_nat yc, s))
         = put_char (attr s) c (screen_bytes (mem s), xc, yc) \<and>
     drawn s (snd (snd (write_Terminal_char c (of_nat xc, of_nat yc, s))))"
proof -
  have y25: "of_nat yc + 1 = (25 :: u16) \<longleftrightarrow> yc = 24" "unat (of_nat yc + 1 :: u16) = yc + 1"
    using u16_of_nat_eq_iff [of "yc + 1" 25] unat_u16_of_nat [of "yc + 1"] assms by (auto simp: add.commute)
  have x80: "of_nat xc + 1 = (80 :: u16) \<longleftrightarrow> xc + 1 = 80" "unat (of_nat xc + 1 :: u16) = xc + 1"
    using u16_of_nat_eq_iff [of "xc + 1" 80] unat_u16_of_nat [of "xc + 1"] assms by (auto simp: add.commute)
  have y: "(of_nat yc :: u16) < 25" "(of_nat yc :: u16) \<noteq> 25" "unat (of_nat yc :: u16) = yc" "unat (of_nat xc :: u16) = xc"
    using assms u16_of_nat_eq_iff [of yc 25] by (simp_all add: word_less_nat_alt)
  show ?thesis
  proof (cases "c = 10")
    case True
    then show ?thesis
      using scroll_25 [of "s\<lparr>cursor_x := 0, cursor_y := 25\<rparr>"] assms y25
      by (auto simp: write_Terminal_char_def setX_def setY_def getX_def getY_def next_row_def Let_def drawn_def)
  next
    case False
    let ?s = "WriteCharacter c 255 0 (of_nat xc) (of_nat yc) s"
    have cell: "screen_bytes (mem ?s) = (screen_bytes (mem s))[2 * (80 * yc + xc) := c, 2 * (80 * yc + xc) + 1 := attr s]"
      "drawn s ?s"
      using WriteCharacter_cell(1,2) [where tx = "of_nat xc" and ty = "of_nat yc" and c = c and s = s] assms
      by (simp_all only: y)
    have a: "attr ?s = attr s" using cell(2) by (simp add: drawn_def)
    show ?thesis
      using False cell a assms y25 x80 y last_line_25 [of ?s] drawn_trans [OF cell(2)]
      by (auto simp: write_Terminal_char_def next_row_def Let_def split: prod.splits)
  qed
qed

definition screen_wf :: "screen \<Rightarrow> bool" where
  "screen_wf t \<longleftrightarrow> (case t of (V, col, r) \<Rightarrow> length V = 4000 \<and> col < 80 \<and> r \<le> 24)"

lemma put_char_wf: "screen_wf t \<Longrightarrow> screen_wf (put_char a c t)"
  by (cases t) (auto simp: screen_wf_def next_row_def scroll_up_def Let_def)

lemma write_Terminal_loop_refines:
  assumes "screen_wf (abs_screen st)" "region buf n \<inter> region video 4000 = {}"
  shows "abs_screen (write_Terminal_loop n buf st)
         = fold (put_char (attr (snd (snd st)))) (bytes (mem (snd (snd st))) buf n) (abs_screen st) \<and>
     drawn (snd (snd st)) (snd (snd (write_Terminal_loop n buf st)))"
  using assms
proof (induction n arbitrary: buf st)
  case 0
  then show ?case by simp
next
  case (Suc n)
  obtain tx ty s where st: "st = (tx, ty, s)" by (cases st) auto
  let ?st = "write_Terminal_char (mem s buf) st"
  have "unat tx < 80" "unat ty \<le> 24" using Suc.prems(1) by (simp_all add: st screen_wf_def)
  from write_Terminal_char_refines [OF this, of "mem s buf" s]
  have step: "abs_screen ?st = put_char (attr s) (mem s buf) (abs_screen st)" "drawn s (snd (snd ?st))"
    by (simp_all add: st)
  have disj: "region (buf + 1) n \<inter> region video 4000 = {}"
    using Suc.prems(2) by (auto simp: region_Suc [of buf])
  have "bytes (mem (snd (snd ?st))) (buf + 1) n = bytes (mem s) (buf + 1) n"
    by (rule bytes_cong) (use disj step(2) in \<open>auto simp: drawn_def\<close>)
  moreover have "attr (snd (snd ?st)) = attr s" using step(2) by (simp add: drawn_def)
  moreover have "screen_wf (abs_screen ?st)" using Suc.prems(1) by (simp add: step(1) put_char_wf)
  note Suc.IH [OF this disj]
  ultimately show ?case
    using step drawn_trans [OF step(2)] by (simp add: st bytes_Suc)
qed

lemma write_Terminal_effect:
  assumes "unat (cursor_x s) < 80" "unat (cursor_y s) \<le> 24" "n < 2 ^ 31"
    and "region buf n \<inter> region video 4000 = {}"
  obtains s' where "write_Terminal buf (of_nat n) s = (0, s')"
    "abs_screen (cursor_x s', cursor_y s', s')
       = fold (put_char (attr s)) (bytes (mem s) buf n) (abs_screen (cursor_x s, cursor_y s, s))"
    "screen_wf (abs_screen (cursor_x s', cursor_y s', s'))" "drawn s s'"
proof -
  let ?st = "(cursor_x s, cursor_y s, s)"
  have wf: "screen_wf (abs_screen ?st)" using assms(1,2) by (simp add: screen_wf_def)
  obtain tx ty t where loop: "write_Terminal_loop n buf ?st = (tx, ty, t)" by (metis prod_cases3)
  note ref = write_Terminal_loop_refines [OF wf assms(4), unfolded loop]
  have "screen_wf (fold (put_char a) cs t')" if "screen_wf t'" for a cs t'
    using that by (induction cs arbitrary: t') (simp_all add: put_char_wf)
  with ref wf have wf': "screen_wf (abs_screen (tx, ty, t))" by simp
  have "cursor_y s \<noteq> 25" "cursor_y s \<noteq> 26" using assms(2) by auto
  moreover have "nat (sint (of_nat n :: i32)) = n" using assms(3) by (simp add: sint_u32_of_nat)
  ultimately have "write_Terminal buf (of_nat n) s = (0, setY ty (setX tx (fb_move_cursor tx ty t)))"
    by (simp add: write_Terminal_def getX_def getY_def loop)
  then show thesis
    by (rule that) (use ref wf' in \<open>simp_all add: setX_def setY_def drawn_def\<close>)
qed

section \<open>Properties\<close>

text \<open>
  C18: From a cursor on the screen, \<^verbatim>\<open>write_Terminal\<close> of \<open>n\<close> bytes that do not lie in the frame
  buffer returns 0 and does to the 4000 bytes of the screen and the cursor what the abstract
  terminal does with these bytes one after the other: characters go to the cursor's cell, a
  newline or the end of a row goes to the next row, and below the last row the screen scrolls.  The
  cursor ends on the screen, and no memory outside the screen changes.
\<close>

theorem write_Terminal_refines:
  assumes "unat (cursor_x s) < 80" "unat (cursor_y s) \<le> 24" "n < 2 ^ 31"
    and "region buf n \<inter> region video 4000 = {}"
  shows "\<exists>s'. write_Terminal buf (of_nat n) s = (0, s') \<and>
     abs_screen (cursor_x s', cursor_y s', s')
       = fold (put_char (attr s)) (bytes (mem s) buf n) (abs_screen (cursor_x s, cursor_y s, s)) \<and>
     screen_wf (abs_screen (cursor_x s', cursor_y s', s')) \<and>
     (\<forall>p. p \<notin> region video 4000 \<longrightarrow> mem s' p = mem s p)"
  by (rule write_Terminal_effect [OF assms]) (simp add: drawn_def)

definition reset_keyboard :: "u16 \<Rightarrow> u16 \<Rightarrow> keyboard" where
  "reset_keyboard cx cy =
     console.extend (reset_console 0 0) (keyboard.fields cx cy 0 0 0 0 0x410000 0 0 0 0 0 0)"

lemma reset_keyboard_simps [simp]:
  "cursor_x (reset_keyboard cx cy) = cx" "cursor_y (reset_keyboard cx cy) = cy"
  "mem (reset_keyboard cx cy) = (\<lambda>_. 0)" "buffer_Size (reset_keyboard cx cy) = 0"
  "keybuf (reset_keyboard cx cy) = 0x410000" "buffer_flag (reset_keyboard cx cy) = 0"
  by (simp_all add: reset_keyboard_def reset_console_def reset_rtc_def reset_machine_def
      rtc.defs machine.defs console.defs keyboard.defs)

theorem write_Terminal_refines_witness:
  "\<exists>s'. write_Terminal 0x1000 2 (reset_keyboard 79 24) = (0, s') \<and> cursor_x s' = 1 \<and> cursor_y s' = 24"
proof -
  have "region 0x1000 2 \<inter> region video 4000 = {}"
    unfolding video_def by (rule region_disjointI) simp_all
  from write_Terminal_refines [of "reset_keyboard 79 24" 2 "0x1000", OF _ _ _ this]
  show ?thesis
    by (auto simp: bytes_def upt_rec next_row_def Let_def word_unat_eq_iff)
qed

text \<open>
  \<^verbatim>\<open>scroll\<close>, called with the cursor on line 25, moves lines 1 to 24 up by one, blanks the last
  line in the terminal's colour, puts the cursor on it, and changes no memory outside the screen.
\<close>

theorem scroll_correct:
  assumes "cursor_y s = 25"
  shows "screen_bytes (mem (scroll s)) = drop 160 (screen_bytes (mem s)) @ blanks (attr s) 80 \<and>
     cursor_y (scroll s) = 24 \<and> cursor_x (scroll s) = cursor_x s \<and>
     {p. mem (scroll s) p \<noteq> mem s p} \<subseteq> region video 4000"
  using scroll_25 [OF assms] by (auto simp: scroll_up_def drawn_def)

theorem scroll_correct_witness: "cursor_y (scroll (reset_keyboard 7 25)) = 24"
  using scroll_correct [of "reset_keyboard 7 25"] by simp

end
