(* ===== verification/Keyboard.thy ===== *)
theory Keyboard
  imports Terminal
begin

text \<open>
  The keyboard handler and the line editor of \<^verbatim>\<open>keyboard.c\<close>: the scan code tables, \<^verbatim>\<open>getchar\<close> with
  one definition per case of its switch, \<^verbatim>\<open>getchar1\<close>, \<^verbatim>\<open>fill_buffer\<close> and \<^verbatim>\<open>read_Terminal\<close>.
  The cases F1 to F3 call the process layer; they are the parameter \<open>fkey\<close> of \<open>getchar\<close>
  and are given in theory \<open>Multiprocess\<close>.

  The handler is proved to refine an abstract line editor, whose state is the typed text, the
  cursor and the modifier keys; \<open>screen_edit\<close> is what a key does to the screen, given the state of this editor.
\<close>

section \<open>keyboard.c: the scan code tables\<close>

definition ascii :: "string \<Rightarrow> u8 list" where
  "ascii cs = map of_char cs"

definition scancode_table :: "u8 list \<Rightarrow> u8 list \<Rightarrow> u8 list \<Rightarrow> u8 list \<Rightarrow> u8 list" where
  "scancode_table row1 row2 row3 row4 =
     (let keys = [0, 27] @ row1 @ [8, 9] @ row2 @ [10, 0] @ row3 @ [0] @ row4 @ [0, 42, 0, 32]
                   @ replicate 16 0 @ [45, 0, 0, 0, 43]
      in keys @ replicate (128 - length keys) 0)"

definition kbdus :: "u8 list" where
  "kbdus = scancode_table (ascii ''1234567890-='') (ascii ''qwertyuiop[]'')
     (ascii ''asdfghjkl;'' @ [39, 96]) (92 # ascii ''zxcvbnm,./'')"

definition capitalCharacters :: "u8 list" where
  "capitalCharacters = scancode_table (ascii ''1234567890-='') (ascii ''QWERTYUIOP[]'')
     (ascii ''ASDFGHJKL;'' @ [39, 96]) (92 # ascii ''ZXCVBNM,./'')"

definition shiftCharacters :: "u8 list" where
  "shiftCharacters = scancode_table (ascii ''!@#$%^&*()_+'') (ascii ''QWERTYUIOP{}'')
     (ascii ''ASDFGHJKL:'' @ [34, 126]) (63 # ascii ''ZXCVBNM<>?'')"

definition shiftAndCaps :: "u8 list" where
  "shiftAndCaps = scancode_table (ascii ''!@#$%^&*()_+'') (ascii ''qwertyuiop{}'')
     (ascii ''asdfghjkl:'' @ [34, 126]) (92 # ascii ''zxcvbnm<>?'')"

section \<open>keyboard.c: the cases of getchar\<close>

text \<open>\<^verbatim>\<open>buffer[i] = c\<close>; the index may be \<open>BUFFER_SIZE\<close> and then writes the byte after the array.\<close>

definition set_buffer :: "u16 \<Rightarrow> u8 \<Rightarrow> 'a keyboard_scheme \<Rightarrow> 'a keyboard_scheme" where
  "set_buffer i c s = s\<lparr>mem := (mem s)(keybuf s + ucast i := c)\<rparr>"

definition key_enter :: "'a keyboard_scheme \<Rightarrow> 'a keyboard_scheme" where
  "key_enter s =
     (let s = s\<lparr>enter_flag := 1, cursorPointer := 0, cursor_x := 0, cursor_y := cursor_y s + 1\<rparr>;
          s = (if cursor_y s = 25 then scroll s else s);
          s = fb_move_cursor (cursor_x s) (cursor_y s) s
      in send_eoi 1 s)"

definition key_capslock :: "'a keyboard_scheme \<Rightarrow> 'a keyboard_scheme" where
  "key_capslock s = send_eoi 1 (s\<lparr>capsLockFlag := (if capsLockFlag s = 0 then 1 else 0)\<rparr>)"

text \<open>\<^verbatim>\<open>WriteCharacter(' ', BLACK, 0, x - 1, y); x--;\<close>\<close>

definition erase_left :: "'a keyboard_scheme \<Rightarrow> 'a keyboard_scheme" where
  "erase_left s =
     (let s = WriteCharacter 32 255 0 (cursor_x s - 1) (cursor_y s) s in s\<lparr>cursor_x := cursor_x s - 1\<rparr>)"

text \<open>\<^verbatim>\<open>y--; x = TERMINAL_WIDTH-1; WriteCharacter(' ', BLACK, 0, x, y);\<close>\<close>

definition erase_row_end :: "'a keyboard_scheme \<Rightarrow> 'a keyboard_scheme" where
  "erase_row_end s =
     (let s = s\<lparr>cursor_y := cursor_y s - 1, cursor_x := 79\<rparr>
      in WriteCharacter 32 255 0 (cursor_x s) (cursor_y s) s)"

definition move_and_eoi :: "'a keyboard_scheme \<Rightarrow> 'a keyboard_scheme" where
  "move_and_eoi s = send_eoi 1 (fb_move_cursor (cursor_x s) (cursor_y s) s)"

definition key_backspace :: "'a keyboard_scheme \<Rightarrow> 'a keyboard_scheme" where
  "key_backspace s =
     (if cursor_x s = 0 \<and> cursor_y s = 0 then move_and_eoi s
      else if buffer_Size s = 0 \<and> charactersOnScreen s \<noteq> 0
      then move_and_eoi (if cursor_x s > 0 then erase_left s else erase_row_end s)
      else if buffer_Size s > 0 \<and> tabbed s = 0
      then let s = set_buffer (buffer_Size s) 32 s;
               s = s\<lparr>buffer_Size := buffer_Size s - 1, cursorPointer := cursorPointer s - 1\<rparr>
           in move_and_eoi (if cursor_x s > 0 then erase_left s else erase_row_end s)
      else if buffer_Size s > 0 \<and> tabbed s = 1
      then let s = set_buffer (buffer_Size s) 32 s; s = set_buffer (buffer_Size s + 1) 32 s;
               s = set_buffer (buffer_Size s + 2) 32 s; s = set_buffer (buffer_Size s + 3) 32 s;
               s = s\<lparr>buffer_Size := buffer_Size s - 4\<rparr>
           in move_and_eoi
                (if cursor_x s > 0 then erase_left (erase_left (erase_left (erase_left s))) else s)
      else move_and_eoi
             (if cursor_y s > 0 \<and> buffer_Size s \<noteq> 0 then s\<lparr>cursor_y := cursor_y s - 1, cursor_x := 80\<rparr> else s))"

text \<open>Appending a character to the buffer and drawing it; then moving the cursor on.\<close>

definition store_char :: "u8 \<Rightarrow> 'a keyboard_scheme \<Rightarrow> 'a keyboard_scheme" where
  "store_char c s =
     (let s = set_buffer (buffer_Size s) c s;
          s = s\<lparr>buffer_Size := buffer_Size s + 1, cursorPointer := cursorPointer s + 1\<rparr>
      in WriteCharacter c 255 0 (cursor_x s) (cursor_y s) s)"

definition advance_cursor :: "'a keyboard_scheme \<Rightarrow> 'a keyboard_scheme" where
  "advance_cursor s =
     (let s = s\<lparr>cursor_x := cursor_x s + 1\<rparr>;
          s = (if cursor_x s = 80 \<and> cursor_y s < 24
               then s\<lparr>cursor_y := cursor_y s + 1, cursor_x := 0\<rparr> else s)
      in fb_move_cursor (cursor_x s) (cursor_y s) s)"

definition key_l :: "'a keyboard_scheme \<Rightarrow> 'a keyboard_scheme" where
  "key_l s =
     (if ctrlKeyHoldDown s = 1
      then let s = clear s;
               s = s\<lparr>cursor_x := 0, cursor_y := 0, buffer_Size := 0, cursorPointer := 0\<rparr>
           in send_eoi 1 (fb_move_cursor 0 0 s)
      else
        let c = (if capsLockFlag s = 1 \<and> shiftKeyHoldDown s = 1 then 108
                 else if capsLockFlag s = 1 \<and> shiftKeyHoldDown s = 0 then 76
                 else if capsLockFlag s = 0 \<and> shiftKeyHoldDown s = 1 then 76 else 108)
        in if buffer_Size s < 128 then send_eoi 1 (advance_cursor (store_char c s))
           else send_eoi 1 s)"

text \<open>The two guarded branches after the switch.\<close>

definition key_printable :: "u8 \<Rightarrow> 'a keyboard_scheme \<Rightarrow> 'a keyboard_scheme" where
  "key_printable scancode s =
     (if scancode AND 0x80 = 0 \<and> scancode > 0 \<and> scancode < 128 \<and> shiftKeyHoldDown s = 0 \<and>
         cursor_x s < 81 \<and> cursor_y s < 25 \<and> buffer_Size s < 128
      then if capsLockFlag s = 1
           then send_eoi 1 (advance_cursor (store_char (capitalCharacters ! unat scancode) s))
           else send_eoi 1 (advance_cursor (store_char (kbdus ! unat scancode) s))
      else if scancode AND 0x80 = 0 \<and> scancode > 0 \<and> scancode < 128 \<and> shiftKeyHoldDown s = 1 \<and>
         cursor_x s < 81 \<and> cursor_y s < 25 \<and> buffer_Size s < 128
      then if capsLockFlag s = 1
           then send_eoi 1 (advance_cursor (store_char (shiftAndCaps ! unat scancode) s))
           else send_eoi 1 (advance_cursor (store_char (shiftCharacters ! unat scancode) s))
      else send_eoi 1 s)"

text \<open>The cases that only acknowledge the interrupt: tab, the extension prefix, F4 to F12, the
  cursor block, the locks, print screen and the page keys.\<close>

definition ignored_keys :: "u8 list" where
  "ignored_keys = [0x0F, 0xE0, 0x49, 0x3E, 0x3F, 0x40, 0x41, 0x42, 0x43, 0x44, 0x57, 0x58, 0x4D,
     0x4B, 0x48, 0x50, 0x52, 0x53, 0x47, 0x4F, 0x46, 0x45, 0x37, 0x51]"

definition handle_scancode ::
  "(nat \<Rightarrow> 'a keyboard_scheme \<Rightarrow> 'a keyboard_scheme) \<Rightarrow> u8 \<Rightarrow> 'a keyboard_scheme \<Rightarrow> 'a keyboard_scheme" where
  "handle_scancode fkey scancode s =
     (if scancode = 0x1C then key_enter s
      else if scancode = 0x3A then key_capslock s
      else if scancode = 0x0E then key_backspace s
      else if scancode = 0x2A \<or> scancode = 0x36 then send_eoi 1 (s\<lparr>shiftKeyHoldDown := 1\<rparr>)
      else if scancode = 0xAA \<or> scancode = 0xB6 then send_eoi 1 (s\<lparr>shiftKeyHoldDown := 0\<rparr>)
      else if scancode = 0x1D then send_eoi 1 (s\<lparr>ctrlKeyHoldDown := 1\<rparr>)
      else if scancode = 0x9D then send_eoi 1 (s\<lparr>ctrlKeyHoldDown := 0\<rparr>)
      else if scancode = 0x26 then key_l s
      else if scancode = 0x38 then (send_eoi 1 s)\<lparr>altKeyFlag := 1\<rparr>
      else if scancode = 0xB8 then (send_eoi 1 s)\<lparr>altKeyFlag := 0\<rparr>
      else if scancode = 0x3B then fkey 0 s
      else if scancode = 0x3C then fkey 1 s
      else if scancode = 0x3D then fkey 2 s
      else if scancode \<in> set ignored_keys then send_eoi 1 s
      else key_printable scancode s)"

definition getchar ::
  "(nat \<Rightarrow> 'a keyboard_scheme \<Rightarrow> 'a keyboard_scheme) \<Rightarrow> device \<Rightarrow> 'a keyboard_scheme \<Rightarrow> 'a keyboard_scheme" where
  "getchar fkey dev s =
     (let s = cli s;
          (v, s) = inb dev 0x60 s;
          character1 = (ucast v :: u8)
      in if character1 \<noteq> 0 then handle_scancode fkey character1 s else send_eoi 1 s)"

section \<open>keyboard.c: the rest\<close>

definition getchar1 :: "u8 \<Rightarrow> 'a keyboard_scheme \<Rightarrow> 'a keyboard_scheme" where
  "getchar1 print s =
     (let s = cli s;
          s = (if print \<noteq> 0
               then let s = s\<lparr>buffer_Size := buffer_Size s + 1\<rparr>
                    in advance_cursor (WriteCharacter print 255 0 (cursor_x s) (cursor_y s) s)
               else s)
      in send_eoi 1 s)"

definition get_enter_flag :: "'a keyboard_scheme \<Rightarrow> u8" where
  "get_enter_flag s = enter_flag s"

text \<open>The copying loops read \<^verbatim>\<open>buffer\<close> upwards.\<close>

fun copy_buffer :: "nat \<Rightarrow> u32 \<Rightarrow> u32 \<Rightarrow> memory \<Rightarrow> memory" where
  "copy_buffer 0 src dst m = m"
| "copy_buffer (Suc k) src dst m = copy_buffer k (src + 1) (dst + 1) (m(dst := m src))"

fun clear_buffer :: "nat \<Rightarrow> u32 \<Rightarrow> memory \<Rightarrow> memory" where
  "clear_buffer 0 a m = m"
| "clear_buffer (Suc k) a m = clear_buffer k (a + 1) (m(a := 0))"

definition fill_buffer :: "u32 \<Rightarrow> 'a keyboard_scheme \<Rightarrow> 'a keyboard_scheme" where
  "fill_buffer newBuffer s = s\<lparr>mem := copy_buffer (unat (buffer_Size s)) (keybuf s) newBuffer (mem s)\<rparr>"

fun enter_spin ::
  "('a keyboard_scheme \<Rightarrow> 'a keyboard_scheme) list \<Rightarrow> 'a keyboard_scheme \<Rightarrow>
     ('a keyboard_scheme \<times> ('a keyboard_scheme \<Rightarrow> 'a keyboard_scheme) list) option" where
  "enter_spin handlers s =
     (if enter_flag s = 0
      then case handlers of [] \<Rightarrow> None | h # rest \<Rightarrow> enter_spin rest (h s)
      else Some (s, handlers))"

declare enter_spin.simps [simp del]

definition take_line :: "u32 \<Rightarrow> 'a keyboard_scheme \<Rightarrow> i32 \<times> 'a keyboard_scheme" where
  "take_line buf s =
     (let s = s\<lparr>enter_flag := 0\<rparr>;
          n = buffer_Size s;
          m = copy_buffer (unat n) (keybuf s) buf (mem s);
          m = m(buf + ucast n := 10);
          m = clear_buffer (unat n) (keybuf s) m
      in (ucast n + 1, s\<lparr>mem := m, buffer_Size := 0\<rparr>))"

definition read_Terminal ::
  "('a keyboard_scheme \<Rightarrow> 'a keyboard_scheme) list \<Rightarrow> u32 \<Rightarrow> 'a keyboard_scheme \<Rightarrow>
     (i32 \<times> 'a keyboard_scheme \<times> ('a keyboard_scheme \<Rightarrow> 'a keyboard_scheme) list) option" where
  "read_Terminal handlers buf s =
     (case enter_spin handlers (sti s) of
        None \<Rightarrow> None
      | Some (s, rest) \<Rightarrow> (case take_line buf s of (n, s) \<Rightarrow> Some (n, s, rest)))"

section \<open>The abstract line editor\<close>

record editor =
  typed :: "u8 list"
  col :: nat
  row :: nat
  caps :: bool
  shift :: bool
  ctrl :: bool

definition type_char :: "u8 \<Rightarrow> editor \<Rightarrow> editor" where
  "type_char c e =
     (let e = e\<lparr>typed := typed e @ [c]\<rparr>
      in if col e + 1 = 80 \<and> row e < 24 then e\<lparr>col := 0, row := row e + 1\<rparr> else e\<lparr>col := col e + 1\<rparr>)"

definition rub_out :: "editor \<Rightarrow> editor" where
  "rub_out e =
     (if typed e = [] \<or> (col e = 0 \<and> row e = 0) then e
      else let e = e\<lparr>typed := butlast (typed e)\<rparr>
           in if col e > 0 then e\<lparr>col := col e - 1\<rparr> else e\<lparr>row := row e - 1, col := 79\<rparr>)"

definition char_of_key :: "u8 \<Rightarrow> editor \<Rightarrow> u8" where
  "char_of_key k e =
     (if shift e then (if caps e then shiftAndCaps else shiftCharacters)
      else (if caps e then capitalCharacters else kbdus)) ! unat k"

definition edit :: "u8 \<Rightarrow> editor \<Rightarrow> editor" where
  "edit k e =
     (if k = 0x1C then e\<lparr>col := 0, row := min 24 (row e + 1)\<rparr>
      else if k = 0x3A then e\<lparr>caps := \<not> caps e\<rparr>
      else if k = 0x0E then rub_out e
      else if k = 0x2A \<or> k = 0x36 then e\<lparr>shift := True\<rparr>
      else if k = 0xAA \<or> k = 0xB6 then e\<lparr>shift := False\<rparr>
      else if k = 0x1D then e\<lparr>ctrl := True\<rparr>
      else if k = 0x9D then e\<lparr>ctrl := False\<rparr>
      else if k = 0x26 \<and> ctrl e then e\<lparr>typed := [], col := 0, row := 0\<rparr>
      else if k = 0x26 then (if length (typed e) < 128 then type_char (if caps e = shift e then 108 else 76) e else e)
      else if k = 0x38 \<or> k \<in> set ignored_keys \<or> k \<ge> 128 then e
      else if k > 0 \<and> col e \<le> 80 \<and> length (typed e) < 128 then type_char (char_of_key k e) e
      else e)"

definition abs_editor :: "'a keyboard_scheme \<Rightarrow> editor" where
  "abs_editor s = \<lparr>typed = bytes (mem s) (keybuf s) (unat (buffer_Size s)),
     col = unat (cursor_x s), row = unat (cursor_y s),
     caps = (capsLockFlag s = 1), shift = (shiftKeyHoldDown s = 1), ctrl = (ctrlKeyHoldDown s = 1)\<rparr>"

text \<open>
  What a key draws, given the line editor before it: a typed character in the cell of the cursor, a space in
  the cell a character is rubbed out from, a line more at the bottom for Enter, and a blank screen for
  control and \<^verbatim>\<open>l\<close>.  A cell past the screen is not part of it.
\<close>

definition put_cell :: "u8 \<Rightarrow> u8 \<Rightarrow> nat \<Rightarrow> nat \<Rightarrow> u8 list \<Rightarrow> u8 list" where
  "put_cell a c r x V = V[2 * (80 * r + x) := c, 2 * (80 * r + x) + 1 := a]"

definition screen_edit :: "u8 \<Rightarrow> u8 \<Rightarrow> editor \<Rightarrow> u8 list \<Rightarrow> u8 list" where
  "screen_edit a k e V =
     (let e' = edit k e in
      if k = 0x1C then (if row e = 24 then scroll_up a V else V)
      else if k = 0x26 \<and> ctrl e then concat (replicate 2000 [32, 7])
      else if length (typed e) < length (typed e') then put_cell a (last (typed e')) (row e) (col e) V
      else if length (typed e') < length (typed e) then put_cell a 32 (row e') (col e') V
      else V)"

text \<open>
  The invariant of the handler.  The column may run past the screen, since the key \<^verbatim>\<open>l\<close> is not
  guarded, but never by more than the length of the typed text; \<open>kbd_wf\<close>, one column wider, also
  holds while a backspace is under way.
\<close>

definition kbd_wf :: "'a keyboard_scheme \<Rightarrow> bool" where
  "kbd_wf s \<longleftrightarrow> buffer_Size s \<le> 128 \<and> unat (cursor_y s) \<le> 24 \<and>
     unat (cursor_x s) \<le> 81 + unat (buffer_Size s) \<and>
     capsLockFlag s \<in> {0, 1} \<and> shiftKeyHoldDown s \<in> {0, 1} \<and> tabbed s = 0 \<and> charactersOnScreen s = 0 \<and>
     region (keybuf s) 129 \<inter> region video 0x8000 = {}"

definition kbd_inv :: "'a keyboard_scheme \<Rightarrow> bool" where
  "kbd_inv s \<longleftrightarrow> kbd_wf s \<and> unat (cursor_x s) \<le> 80 + unat (buffer_Size s)"

section \<open>Facts on the handler's parts\<close>

lemma send_eoi_1: "send_eoi 1 s = s\<lparr>port_log := port_log s @ [Out 0x61 0x20]\<rparr>"
  by (simp add: send_eoi_def outb_def word_le_nat_alt)

lemma fb_move_cursor_eq:
  "fb_move_cursor r c s = s\<lparr>port_log := port_log (fb_move_cursor r c s)\<rparr>"
  by (simp add: fb_move_cursor_def outb_def Let_def)

lemma abs_editor_port_log [simp]: "abs_editor (s\<lparr>port_log := l\<rparr>) = abs_editor s"
  by (simp add: abs_editor_def)

lemma kbd_wf_port_log [simp]: "kbd_wf (s\<lparr>port_log := l\<rparr>) = kbd_wf s"
  by (simp add: kbd_wf_def)

lemma abs_editor_quiet [simp]:
  "abs_editor (send_eoi 1 s) = abs_editor s" "abs_editor (fb_move_cursor r c s) = abs_editor s"
  "abs_editor (move_and_eoi s) = abs_editor s"
  by (simp_all add: send_eoi_1 move_and_eoi_def) (metis fb_move_cursor_eq abs_editor_port_log)+

lemma kbd_wf_quiet [simp]:
  "kbd_wf (send_eoi 1 s) = kbd_wf s" "kbd_wf (fb_move_cursor r c s) = kbd_wf s"
  "kbd_wf (move_and_eoi s) = kbd_wf s"
  by (simp_all add: send_eoi_1 move_and_eoi_def) (metis fb_move_cursor_eq kbd_wf_port_log)+

text \<open>Drawing inside the frame buffer window does not touch the key buffer.\<close>

lemma abs_editor_mem:
  assumes "kbd_wf s" "\<And>p. p \<notin> region video 0x8000 \<Longrightarrow> m p = mem s p"
  shows "abs_editor (s\<lparr>mem := m\<rparr>) = abs_editor s" "kbd_wf (s\<lparr>mem := m\<rparr>)"
proof -
  have "unat (buffer_Size s) \<le> 129" using assms(1) by (simp add: kbd_wf_def word_le_nat_alt)
  then have "region (keybuf s) (unat (buffer_Size s)) \<inter> region video 0x8000 = {}"
    using assms(1) region_mono [of "unat (buffer_Size s)" 129 "keybuf s"] by (auto simp: kbd_wf_def)
  then have "bytes m (keybuf s) (unat (buffer_Size s)) = bytes (mem s) (keybuf s) (unat (buffer_Size s))"
    by (intro bytes_cong assms(2)) blast
  then show "abs_editor (s\<lparr>mem := m\<rparr>) = abs_editor s" by (simp add: abs_editor_def)
  show "kbd_wf (s\<lparr>mem := m\<rparr>)" using assms(1) by (simp add: kbd_wf_def)
qed

lemma WriteCharacter_quiet:
  assumes "kbd_wf s" "unat tx \<le> 300" "unat ty \<le> 24"
  shows "abs_editor (WriteCharacter c 255 0 tx ty s) = abs_editor s" "kbd_wf (WriteCharacter c 255 0 tx ty s)"
proof -
  let ?i = "2 * (80 * unat ty + unat tx)"
  have w: "WriteCharacter c 255 0 tx ty s = s\<lparr>mem := store_bytes (mem s) (video + of_nat ?i) [c, attr s]\<rparr>"
    using WriteCharacter_store [of "unat tx" "unat ty" c s] assms by simp
  have "region (video + of_nat ?i) (length [c, attr s]) \<subseteq> region video 0x8000"
    by (rule region_shift_subset) (use assms in simp)
  then have "store_bytes (mem s) (video + of_nat ?i) [c, attr s] p = mem s p" if "p \<notin> region video 0x8000" for p
    using that by (intro store_bytes_outside) blast
  then show "abs_editor (WriteCharacter c 255 0 tx ty s) = abs_editor s" "kbd_wf (WriteCharacter c 255 0 tx ty s)"
    unfolding w by (intro abs_editor_mem [OF assms(1)]; blast)+
qed

lemma WriteCharacter_fields [simp]:
  "cursor_x (WriteCharacter c f b tx ty s) = cursor_x s" "cursor_y (WriteCharacter c f b tx ty s) = cursor_y s"
  "buffer_Size (WriteCharacter c f b tx ty s) = buffer_Size s"
  by (simp_all add: WriteCharacter_def Let_def)

lemma kbd_wfD:
  assumes "kbd_wf s"
  shows "unat (buffer_Size s) \<le> 128" "unat (cursor_y s) \<le> 24" "unat (cursor_x s) \<le> 81 + unat (buffer_Size s)"
    "unat (cursor_x s) \<le> 300"
  using assms by (auto simp: kbd_wf_def word_le_nat_alt)

lemma cursor_move:
  assumes "kbd_wf s" "unat tx \<le> 81 + unat (buffer_Size s)" "unat ty \<le> 24"
  shows "kbd_wf (s\<lparr>cursor_x := tx, cursor_y := ty\<rparr>)"
    "abs_editor (s\<lparr>cursor_x := tx, cursor_y := ty\<rparr>) = (abs_editor s)\<lparr>col := unat tx, row := unat ty\<rparr>"
  using assms by (simp_all add: kbd_wf_def abs_editor_def)

lemma u16_minus_1: "(a :: u16) > 0 \<Longrightarrow> unat (a - 1) = unat a - 1"
  by (metis unat_minus_one word_greater_zero_iff)

lemma u16_plus_1: "unat (a :: u16) < 65535 \<Longrightarrow> unat (a + 1) = unat a + 1"
  by (simp add: unat_word_ariths)

lemma erase_left_quiet:
  assumes "kbd_wf s" "cursor_x s > 0"
  shows "abs_editor (erase_left s) = (abs_editor s)\<lparr>col := unat (cursor_x s) - 1\<rparr>" "kbd_wf (erase_left s)"
proof -
  let ?s = "WriteCharacter 32 255 0 (cursor_x s - 1) (cursor_y s) s"
  have x: "unat (cursor_x s - 1) = unat (cursor_x s) - 1" using assms(2) by (rule u16_minus_1)
  have w: "abs_editor ?s = abs_editor s" "kbd_wf ?s"
    using kbd_wfD [OF assms(1)] by (intro WriteCharacter_quiet [OF assms(1)]; simp add: x)+
  have e: "erase_left s = ?s\<lparr>cursor_x := cursor_x s - 1, cursor_y := cursor_y s\<rparr>"
    by (simp add: erase_left_def Let_def WriteCharacter_def)
  have le: "unat (cursor_x s - 1) \<le> 81 + unat (buffer_Size ?s)" "unat (cursor_y s) \<le> 24"
    using kbd_wfD [OF assms(1)] by (simp_all add: x)
  show "kbd_wf (erase_left s)" unfolding e by (rule cursor_move [OF w(2) le])
  show "abs_editor (erase_left s) = (abs_editor s)\<lparr>col := unat (cursor_x s) - 1\<rparr>"
    unfolding e cursor_move(2) [OF w(2) le] w(1) by (simp add: x abs_editor_def)
qed

lemma erase_row_end_quiet:
  assumes "kbd_wf s" "cursor_y s > 0"
  shows "abs_editor (erase_row_end s) = (abs_editor s)\<lparr>col := 79, row := unat (cursor_y s) - 1\<rparr>"
    "kbd_wf (erase_row_end s)"
proof -
  have y: "unat (cursor_y s - 1) = unat (cursor_y s) - 1" using assms(2) by (rule u16_minus_1)
  have le: "unat (79 :: u16) \<le> 81 + unat (buffer_Size s)" "unat (cursor_y s - 1) \<le> 24"
    using kbd_wfD [OF assms(1)] by (simp_all add: y)
  have e: "erase_row_end s = WriteCharacter 32 255 0 79 (cursor_y s - 1) (s\<lparr>cursor_x := 79, cursor_y := cursor_y s - 1\<rparr>)"
    by (simp add: erase_row_end_def WriteCharacter_def Let_def)
  note c = cursor_move [OF assms(1) le]
  note w = WriteCharacter_quiet [OF c(1) _ le(2), of 79]
  show "kbd_wf (erase_row_end s)" unfolding e by (rule w) simp
  have "abs_editor (erase_row_end s) = abs_editor (s\<lparr>cursor_x := 79, cursor_y := cursor_y s - 1\<rparr>)"
    unfolding e by (rule w) simp
  then show "abs_editor (erase_row_end s) = (abs_editor s)\<lparr>col := 79, row := unat (cursor_y s) - 1\<rparr>"
    by (simp only: c(2) y) simp
qed

text \<open>Changing the length of the typed text, with one byte of the buffer written at its end.\<close>

lemma bytes_write_end: "n < 2 ^ 32 \<Longrightarrow> bytes (m(a + of_nat n := c)) a (Suc n) = bytes m a n @ [c]"
proof -
  assume n: "n < 2 ^ 32"
  have "bytes (m(a + of_nat n := c)) a n = bytes m a n"
    by (rule nth_equalityI) (use n in \<open>auto simp: u32_of_nat_eq_iff\<close>)
  then show ?thesis
    using bytes_append [of "m(a + of_nat n := c)" a n 1] by (simp add: bytes_Suc)
qed

lemma append_buffer:
  assumes "kbd_wf s" "buffer_Size s < 128"
  shows "abs_editor ((set_buffer (buffer_Size s) c s)\<lparr>buffer_Size := buffer_Size s + 1, cursorPointer := cp\<rparr>)
       = (abs_editor s)\<lparr>typed := typed (abs_editor s) @ [c]\<rparr>"
    "kbd_wf ((set_buffer (buffer_Size s) c s)\<lparr>buffer_Size := buffer_Size s + 1, cursorPointer := cp\<rparr>)"
proof -
  have n: "unat (buffer_Size s) < 128" using assms(2) by (simp add: word_less_nat_alt)
  then have n1: "unat (buffer_Size s + 1) = Suc (unat (buffer_Size s))" using u16_plus_1 by simp
  have "ucast (buffer_Size s) = (of_nat (unat (buffer_Size s)) :: u32)" by simp
  then have "bytes ((mem s)(keybuf s + ucast (buffer_Size s) := c)) (keybuf s) (Suc (unat (buffer_Size s)))
      = bytes (mem s) (keybuf s) (unat (buffer_Size s)) @ [c]"
    using bytes_write_end [of "unat (buffer_Size s)" "mem s" "keybuf s" c] n by (simp only:) simp
  then show "abs_editor ((set_buffer (buffer_Size s) c s)\<lparr>buffer_Size := buffer_Size s + 1, cursorPointer := cp\<rparr>)
       = (abs_editor s)\<lparr>typed := typed (abs_editor s) @ [c]\<rparr>"
    by (simp add: abs_editor_def set_buffer_def n1)
  show "kbd_wf ((set_buffer (buffer_Size s) c s)\<lparr>buffer_Size := buffer_Size s + 1, cursorPointer := cp\<rparr>)"
    using assms(1) n by (auto simp: kbd_wf_def set_buffer_def n1 word_le_nat_alt)
qed

lemma drop_buffer:
  assumes "kbd_wf s" "buffer_Size s > 0" "unat (cursor_x s) \<le> 80 + unat (buffer_Size s)"
  shows "abs_editor ((set_buffer (buffer_Size s) c s)\<lparr>buffer_Size := buffer_Size s - 1, cursorPointer := cp\<rparr>)
       = (abs_editor s)\<lparr>typed := butlast (typed (abs_editor s))\<rparr>"
    "kbd_wf ((set_buffer (buffer_Size s) c s)\<lparr>buffer_Size := buffer_Size s - 1, cursorPointer := cp\<rparr>)"
proof -
  have n1: "unat (buffer_Size s - 1) = unat (buffer_Size s) - 1" using assms(2) by (rule u16_minus_1)
  have n: "unat (buffer_Size s) \<le> 128" by (rule kbd_wfD [OF assms(1)])
  have "bytes ((mem s)(keybuf s + ucast (buffer_Size s) := c)) (keybuf s) (unat (buffer_Size s) - 1)
      = butlast (bytes (mem s) (keybuf s) (unat (buffer_Size s)))"
  proof (rule nth_equalityI)
    fix i
    assume "i < length (bytes ((mem s)(keybuf s + ucast (buffer_Size s) := c)) (keybuf s) (unat (buffer_Size s) - 1))"
    then have i: "i < unat (buffer_Size s) - 1" by simp
    have "of_nat i \<noteq> (of_nat (unat (buffer_Size s)) :: u32)"
      using i n by (subst u32_of_nat_eq_iff) simp_all
    then have "keybuf s + of_nat i \<noteq> keybuf s + ucast (buffer_Size s)" by simp
    then show "bytes ((mem s)(keybuf s + ucast (buffer_Size s) := c)) (keybuf s) (unat (buffer_Size s) - 1) ! i
      = butlast (bytes (mem s) (keybuf s) (unat (buffer_Size s))) ! i"
      using i by (simp add: nth_butlast)
  qed simp
  then show "abs_editor ((set_buffer (buffer_Size s) c s)\<lparr>buffer_Size := buffer_Size s - 1, cursorPointer := cp\<rparr>)
       = (abs_editor s)\<lparr>typed := butlast (typed (abs_editor s))\<rparr>"
    by (simp add: abs_editor_def set_buffer_def n1)
  show "kbd_wf ((set_buffer (buffer_Size s) c s)\<lparr>buffer_Size := buffer_Size s - 1, cursorPointer := cp\<rparr>)"
    using assms n by (auto simp: kbd_wf_def set_buffer_def n1 word_le_nat_alt word_less_nat_alt)
qed

lemma quiet_fields [simp]:
  "cursor_x (send_eoi 1 s) = cursor_x s" "buffer_Size (send_eoi 1 s) = buffer_Size s"
  "cursor_x (move_and_eoi s) = cursor_x s" "buffer_Size (move_and_eoi s) = buffer_Size s"
  "buffer_Size (fb_move_cursor r c s) = buffer_Size s"
  by (simp_all add: send_eoi_1 move_and_eoi_def fb_move_cursor_def outb_def Let_def)

lemma advance_cursor_eq:
  fixes w :: "'a keyboard_scheme"
  defines "wrap \<equiv> cursor_x w + 1 = 80 \<and> cursor_y w < 24"
  defines "tx \<equiv> if wrap then 0 else cursor_x w + 1" and "ty \<equiv> if wrap then cursor_y w + 1 else cursor_y w"
  shows "advance_cursor w = fb_move_cursor tx ty (w\<lparr>cursor_x := tx, cursor_y := ty\<rparr>)"
proof (cases wrap)
  case True
  then have "w\<lparr>cursor_x := 80, cursor_y := cursor_y w + 1, cursor_x := 0\<rparr> = w\<lparr>cursor_x := 0, cursor_y := cursor_y w + 1\<rparr>"
    by simp
  with True show ?thesis
    by (auto simp: advance_cursor_def tx_def ty_def wrap_def Let_def intro: arg_cong)
next
  case False
  have "w\<lparr>cursor_x := cursor_x w + 1\<rparr> = w\<lparr>cursor_x := cursor_x w + 1, cursor_y := cursor_y w\<rparr>" by simp
  with False show ?thesis
    by (auto simp: advance_cursor_def tx_def ty_def wrap_def Let_def intro: arg_cong)
qed

lemma type_refines:
  assumes "kbd_wf s" "buffer_Size s < 128" "unat (cursor_x s) \<le> 80 + unat (buffer_Size s)"
  shows "abs_editor (advance_cursor (store_char c s)) = type_char c (abs_editor s)"
    "kbd_inv (advance_cursor (store_char c s))"
proof -
  let ?t = "(set_buffer (buffer_Size s) c s)\<lparr>buffer_Size := buffer_Size s + 1, cursorPointer := cursorPointer s + 1\<rparr>"
  let ?w = "WriteCharacter c 255 0 (cursor_x s) (cursor_y s) ?t"
  note t = append_buffer [OF assms(1,2), where c = c and cp = "cursorPointer s + 1"]
  note w = WriteCharacter_quiet [OF t(2) kbd_wfD(4,2) [OF assms(1)], where c = c]
  have sc: "store_char c s = ?w" by (simp add: store_char_def Let_def set_buffer_def)
  have f: "cursor_x ?w = cursor_x s" "cursor_y ?w = cursor_y s" "unat (buffer_Size ?w) = Suc (unat (buffer_Size s))"
    using assms(2) u16_plus_1 [of "buffer_Size s"] by (simp_all add: set_buffer_def word_less_nat_alt)
  have x1: "unat (cursor_x s + 1) = unat (cursor_x s) + 1" using kbd_wfD(4) [OF assms(1)] by (intro u16_plus_1) simp
  have y1: "unat (cursor_y s + 1) = unat (cursor_y s) + 1" using kbd_wfD(2) [OF assms(1)] by (intro u16_plus_1) simp
  have x80: "cursor_x s + 1 = 80 \<longleftrightarrow> unat (cursor_x s) + 1 = 80" by (simp add: word_unat_eq_iff x1 [simplified])
  have y24: "cursor_y s < 24 \<longleftrightarrow> unat (cursor_y s) < 24" by (simp add: word_less_nat_alt)
  define tx ty where "tx = (if cursor_x s + 1 = 80 \<and> cursor_y s < 24 then 0 else cursor_x s + 1)"
    and "ty = (if cursor_x s + 1 = 80 \<and> cursor_y s < 24 then cursor_y s + 1 else cursor_y s)"
  have adv: "advance_cursor (store_char c s) = fb_move_cursor tx ty (?w\<lparr>cursor_x := tx, cursor_y := ty\<rparr>)"
    unfolding sc tx_def ty_def by (subst advance_cursor_eq) (simp only: f)
  have le: "unat tx \<le> 80 + unat (buffer_Size ?w)" "unat tx \<le> 81 + unat (buffer_Size ?w)" "unat ty \<le> 24"
    unfolding f(3) using assms(3) kbd_wfD(2) [OF assms(1)] by (auto simp: tx_def ty_def x1 y1 y24)
  note move = cursor_move [OF w(2) le(2,3)]
  have pos: "unat tx = (if unat (cursor_x s) + 1 = 80 \<and> unat (cursor_y s) < 24 then 0 else unat (cursor_x s) + 1)"
    "unat ty = (if unat (cursor_x s) + 1 = 80 \<and> unat (cursor_y s) < 24 then unat (cursor_y s) + 1 else unat (cursor_y s))"
    by (simp_all add: tx_def ty_def x80 y24 x1 y1)
  have "abs_editor (advance_cursor (store_char c s)) =
      (abs_editor s)\<lparr>typed := typed (abs_editor s) @ [c], col := unat tx, row := unat ty\<rparr>"
    unfolding adv abs_editor_quiet move(2) w(1) t(1) ..
  then show "abs_editor (advance_cursor (store_char c s)) = type_char c (abs_editor s)"
    unfolding pos by (auto simp: type_char_def abs_editor_def Let_def)
  show "kbd_inv (advance_cursor (store_char c s))"
    unfolding adv using move(1) le(1) by (simp add: kbd_inv_def)
qed

lemma typed_empty: "typed (abs_editor s) = [] \<longleftrightarrow> buffer_Size s = 0"
  by (auto simp: abs_editor_def bytes_def unat_eq_0)

lemma length_typed: "length (typed (abs_editor s)) = unat (buffer_Size s)"
  by (simp add: abs_editor_def)

lemma key_backspace_refines:
  assumes "kbd_inv s"
  shows "abs_editor (key_backspace s) = rub_out (abs_editor s)" "kbd_inv (key_backspace s)"
proof -
  have wf: "kbd_wf s" and x: "unat (cursor_x s) \<le> 80 + unat (buffer_Size s)"
    using assms by (simp_all add: kbd_inv_def)
  have flags: "charactersOnScreen s = 0" "tabbed s = 0" using wf by (simp_all add: kbd_wf_def)
  have pos: "col (abs_editor s) = unat (cursor_x s)" "row (abs_editor s) = unat (cursor_y s)"
    by (simp_all add: abs_editor_def)
  have "abs_editor (key_backspace s) = rub_out (abs_editor s) \<and> kbd_inv (key_backspace s)"
  proof (cases "buffer_Size s = 0 \<or> cursor_x s = 0 \<and> cursor_y s = 0")
    case True
    then have "key_backspace s = move_and_eoi s" using flags by (auto simp: key_backspace_def)
    moreover have "rub_out (abs_editor s) = abs_editor s"
      using True by (auto simp: rub_out_def typed_empty pos)
    ultimately show ?thesis using assms by (simp add: kbd_inv_def)
  next
    case False
    let ?t = "(set_buffer (buffer_Size s) 32 s)\<lparr>buffer_Size := buffer_Size s - 1, cursorPointer := cursorPointer s - 1\<rparr>"
    have n: "buffer_Size s > 0" using False by (simp add: word_neq_0_conv)
    note t = drop_buffer [OF wf n x, where c = 32 and cp = "cursorPointer s - 1"]
    have tf: "cursor_x ?t = cursor_x s" "cursor_y ?t = cursor_y s" "unat (buffer_Size ?t) = unat (buffer_Size s) - 1"
      using u16_minus_1 [OF n] by (simp_all add: set_buffer_def)
    have kb: "key_backspace s = move_and_eoi (if cursor_x s > 0 then erase_left ?t else erase_row_end ?t)"
      using False n flags by (auto simp: key_backspace_def Let_def set_buffer_def)
    have ne: "typed (abs_editor s) \<noteq> []" using False by (simp add: typed_empty)
    show ?thesis
    proof (cases "cursor_x s > 0")
      case True
      have "abs_editor (erase_left ?t) = (abs_editor s)\<lparr>typed := butlast (typed (abs_editor s)), col := unat (cursor_x s) - 1\<rparr>"
        using erase_left_quiet(1) [OF t(2)] True by (simp only: tf t(1))
      moreover have "unat (cursor_x (erase_left ?t)) \<le> 80 + unat (buffer_Size (erase_left ?t))"
      proof -
        have "cursor_x (erase_left ?t) = cursor_x s - 1" "buffer_Size (erase_left ?t) = buffer_Size ?t"
          using tf by (simp_all add: erase_left_def Let_def)
        then show ?thesis using x u16_minus_1 [OF True] u16_minus_1 [OF n] n by (simp add: word_less_nat_alt)
      qed
      ultimately show ?thesis
        using True ne erase_left_quiet(2) [OF t(2)] tf kb pos
        by (auto simp: rub_out_def kbd_inv_def Let_def word_less_nat_alt unat_gt_0 unat_eq_0)
    next
      case x0: False
      with False have y: "cursor_y s > 0" by (auto simp: word_neq_0_conv)
      have "abs_editor (erase_row_end ?t) = (abs_editor s)\<lparr>typed := butlast (typed (abs_editor s)), col := 79, row := unat (cursor_y s) - 1\<rparr>"
        using erase_row_end_quiet(1) [OF t(2)] y by (simp only: tf t(1))
      moreover have "unat (cursor_x (erase_row_end ?t)) \<le> 80 + unat (buffer_Size (erase_row_end ?t))"
        by (simp add: erase_row_end_def Let_def)
      ultimately show ?thesis
        using x0 y ne erase_row_end_quiet(2) [OF t(2)] tf kb pos
        by (auto simp: rub_out_def kbd_inv_def Let_def word_less_nat_alt unat_gt_0 unat_eq_0)
    qed
  qed
  then show "abs_editor (key_backspace s) = rub_out (abs_editor s)" "kbd_inv (key_backspace s)" by blast+
qed

lemma scroll_eq:
  assumes "cursor_y s = 25"
  obtains m where "scroll s = s\<lparr>cursor_y := 24, mem := m\<rparr>" "\<And>p. p \<notin> region video 4000 \<Longrightarrow> m p = mem s p"
proof -
  have "scroll s = blank_line 80 0 24 ((s\<lparr>cursor_y := 24\<rparr>)\<lparr>mem := move_lines 25 0 (mem s)\<rparr>)"
    using assms by (simp add: scroll_def Let_def) (rule arg_cong [where f = "blank_line 80 0 24"], simp)
  then have "scroll s = s\<lparr>cursor_y := 24, mem := store_bytes (move_lines 25 0 (mem s)) (video + of_nat 3840) (blanks (attr s) 80)\<rparr>"
    using make_room(1) [where k = 25 and s = "s\<lparr>cursor_y := 24\<rparr>"] by simp
  then show thesis
    by (rule that) (use make_room(3) [where k = 25 and s = s] in simp)
qed

lemma screen_in_window: "p \<notin> region video 0x8000 \<Longrightarrow> p \<notin> region video 4000"
  using region_mono [of 4000 "0x8000" video] by auto

lemma key_enter_refines:
  assumes "kbd_inv s"
  shows "abs_editor (key_enter s) = (abs_editor s)\<lparr>col := 0, row := min 24 (row (abs_editor s) + 1)\<rparr>"
    "kbd_inv (key_enter s)"
proof -
  have wf: "kbd_wf s" using assms by (simp add: kbd_inv_def)
  note y = kbd_wfD(2) [OF wf]
  have r: "row (abs_editor s) = unat (cursor_y s)" by (simp add: abs_editor_def)
  let ?t = "s\<lparr>enter_flag := 1, cursorPointer := 0, cursor_x := 0, cursor_y := cursor_y s + 1\<rparr>"
  have y1: "unat (cursor_y s + 1) = unat (cursor_y s) + 1" using y by (intro u16_plus_1) simp
  have y25: "cursor_y s + 1 = 25 \<longleftrightarrow> unat (cursor_y s) = 24" by (simp add: word_unat_eq_iff y1 [simplified])
  have "abs_editor (key_enter s) = (abs_editor s)\<lparr>col := 0, row := min 24 (row (abs_editor s) + 1)\<rparr> \<and> kbd_inv (key_enter s)"
  proof (cases "unat (cursor_y s) = 24")
    case True
    then have "cursor_y ?t = 25" using y25 by simp
    from scroll_eq [OF this]
    obtain m where m: "scroll ?t = ?t\<lparr>cursor_y := 24, mem := m\<rparr>" "\<And>p. p \<notin> region video 4000 \<Longrightarrow> m p = mem ?t p"
      by blast
    let ?u = "s\<lparr>enter_flag := 1, cursorPointer := 0, cursor_x := 0, cursor_y := 24\<rparr>"
    have u: "kbd_wf ?u" "abs_editor ?u = (abs_editor s)\<lparr>col := 0, row := 24\<rparr>"
      using wf by (simp_all add: kbd_wf_def abs_editor_def)
    have mu: "m p = mem ?u p" if "p \<notin> region video 0x8000" for p
      using m(2) [OF screen_in_window [OF that]] by simp
    have "key_enter s = send_eoi 1 (fb_move_cursor 0 24 (?u\<lparr>mem := m\<rparr>))"
      using True y25 m(1) by (simp add: key_enter_def Let_def)
    with u abs_editor_mem [OF u(1) mu] True show ?thesis by (simp add: kbd_inv_def r)
  next
    case False
    then have "key_enter s = send_eoi 1 (fb_move_cursor 0 (cursor_y s + 1) ?t)"
      using y25 by (simp add: key_enter_def Let_def)
    moreover have "kbd_wf ?t" "abs_editor ?t = (abs_editor s)\<lparr>col := 0, row := unat (cursor_y s) + 1\<rparr>"
      using wf False y by (auto simp: kbd_wf_def abs_editor_def y1)
    ultimately show ?thesis using False y by (simp add: kbd_inv_def r)
  qed
  then show "abs_editor (key_enter s) = (abs_editor s)\<lparr>col := 0, row := min 24 (row (abs_editor s) + 1)\<rparr>"
    "kbd_inv (key_enter s)" by blast+
qed

lemma key_l_refines:
  assumes "kbd_inv s"
  shows "abs_editor (key_l s) = edit 0x26 (abs_editor s)" "kbd_inv (key_l s)"
proof -
  have wf: "kbd_wf s" and x: "unat (cursor_x s) \<le> 80 + unat (buffer_Size s)"
    and fl: "capsLockFlag s \<in> {0, 1}" "shiftKeyHoldDown s \<in> {0, 1}"
    using assms by (simp_all add: kbd_inv_def kbd_wf_def)
  have "abs_editor (key_l s) = edit 0x26 (abs_editor s) \<and> kbd_inv (key_l s)"
  proof (cases "ctrlKeyHoldDown s = 1")
    case True
    let ?u = "(clear s)\<lparr>cursor_x := 0, cursor_y := 0, buffer_Size := 0, cursorPointer := 0\<rparr>"
    have "kbd_inv ?u \<and> abs_editor ?u = (abs_editor s)\<lparr>typed := [], col := 0, row := 0\<rparr>"
      using wf by (simp add: clear_def kbd_inv_def kbd_wf_def abs_editor_def)
    moreover have "key_l s = send_eoi 1 (fb_move_cursor 0 0 ?u)" using True by (simp add: key_l_def Let_def)
    moreover have "ctrl (abs_editor s)" using True by (simp add: abs_editor_def)
    then have "edit 0x26 (abs_editor s) = (abs_editor s)\<lparr>typed := [], col := 0, row := 0\<rparr>" by (simp add: edit_def)
    ultimately show ?thesis by (simp add: kbd_inv_def)
  next
    case False
    let ?c = "if capsLockFlag s = 1 \<and> shiftKeyHoldDown s = 1 then 108
                 else if capsLockFlag s = 1 \<and> shiftKeyHoldDown s = 0 then 76
                 else if capsLockFlag s = 0 \<and> shiftKeyHoldDown s = 1 then 76 else (108 :: u8)"
    have c: "?c = (if caps (abs_editor s) = shift (abs_editor s) then 108 else 76)"
      using fl by (auto simp: abs_editor_def)
    show ?thesis
    proof (cases "buffer_Size s < 128")
      case True
      then have "key_l s = send_eoi 1 (advance_cursor (store_char ?c s))"
        using False by (simp only: key_l_def Let_def if_True if_False)
      moreover have "length (typed (abs_editor s)) < 128"
        using True by (simp add: length_typed word_less_nat_alt)
      ultimately show ?thesis
        using type_refines [OF wf True x, of ?c] False unfolding c
        by (simp add: edit_def kbd_inv_def) (simp add: abs_editor_def)
    next
      case nlt: False
      then have "\<not> length (typed (abs_editor s)) < 128" by (simp add: length_typed word_less_nat_alt)
      moreover have "\<not> ctrl (abs_editor s)" using False by (simp add: abs_editor_def)
      ultimately show ?thesis using False nlt assms by (simp add: key_l_def edit_def kbd_inv_def Let_def)
    qed
  qed
  then show "abs_editor (key_l s) = edit 0x26 (abs_editor s)" "kbd_inv (key_l s)" by blast+
qed

lemma key_printable_types:
  assumes "kbd_inv s"
  shows "key_printable k s =
      (if 0 < k \<and> k < 128 \<and> col (abs_editor s) \<le> 80 \<and> length (typed (abs_editor s)) < 128
       then send_eoi 1 (advance_cursor (store_char (char_of_key k (abs_editor s)) s)) else send_eoi 1 s)"
proof -
  have fl: "capsLockFlag s \<in> {0, 1}" "shiftKeyHoldDown s \<in> {0, 1}" and y: "cursor_y s < 25"
    using assms by (auto simp: kbd_inv_def kbd_wf_def word_less_nat_alt)
  have k: "k AND 0x80 = 0" if "k < 128"
  proof -
    have "k AND 127 = k" using that less_mask_eq [of k 7] by (simp add: mask_eq_exp_minus_1)
    then have "k AND 128 = k AND (127 AND 128)" by (metis and.assoc)
    then show ?thesis by simp
  qed
  let ?g = "0 < k \<and> k < 128 \<and> cursor_x s < 81 \<and> buffer_Size s < 128"
  have "(0 < k \<and> k < 128 \<and> col (abs_editor s) \<le> 80 \<and> length (typed (abs_editor s)) < 128) \<longleftrightarrow> ?g"
    by (auto simp: abs_editor_def length_typed word_less_nat_alt)
  moreover have "key_printable k s =
      (if ?g then send_eoi 1 (advance_cursor (store_char (char_of_key k (abs_editor s)) s)) else send_eoi 1 s)"
    using k fl y by (auto simp: key_printable_def char_of_key_def abs_editor_def)
  ultimately show ?thesis by simp
qed

lemma key_printable_refines:
  assumes "kbd_inv s"
  shows "abs_editor (key_printable k s) =
      (if 0 < k \<and> k < 128 \<and> col (abs_editor s) \<le> 80 \<and> length (typed (abs_editor s)) < 128
       then type_char (char_of_key k (abs_editor s)) (abs_editor s) else abs_editor s)"
    "kbd_inv (key_printable k s)"
proof -
  have wf: "kbd_wf s" and x: "unat (cursor_x s) \<le> 80 + unat (buffer_Size s)"
    using assms by (auto simp: kbd_inv_def)
  let ?g = "0 < k \<and> k < 128 \<and> col (abs_editor s) \<le> 80 \<and> length (typed (abs_editor s)) < 128"
  note c = key_printable_types [OF assms, of k]
  have "abs_editor (key_printable k s) =
      (if ?g then type_char (char_of_key k (abs_editor s)) (abs_editor s) else abs_editor s) \<and> kbd_inv (key_printable k s)"
  proof (cases ?g)
    case True
    then have "buffer_Size s < 128" by (simp add: length_typed word_less_nat_alt)
    from type_refines [OF wf this x, of "char_of_key k (abs_editor s)"] True show ?thesis
      unfolding c by (simp add: kbd_inv_def)
  next
    case False
    with assms show ?thesis unfolding c if_not_P [OF False] by (simp add: kbd_inv_def)
  qed
  then show "abs_editor (key_printable k s) =
      (if ?g then type_char (char_of_key k (abs_editor s)) (abs_editor s) else abs_editor s)"
    "kbd_inv (key_printable k s)" by blast+
qed

lemma modifier_refines:
  assumes "kbd_inv s"
  shows "abs_editor (key_capslock s) = (abs_editor s)\<lparr>caps := \<not> caps (abs_editor s)\<rparr>" "kbd_inv (key_capslock s)"
    "f \<in> {0, 1} \<Longrightarrow> abs_editor (s\<lparr>shiftKeyHoldDown := f\<rparr>) = (abs_editor s)\<lparr>shift := (f = 1)\<rparr>"
    "f \<in> {0, 1} \<Longrightarrow> kbd_inv (s\<lparr>shiftKeyHoldDown := f\<rparr>)"
    "abs_editor (s\<lparr>ctrlKeyHoldDown := f\<rparr>) = (abs_editor s)\<lparr>ctrl := (f = 1)\<rparr>" "kbd_inv (s\<lparr>ctrlKeyHoldDown := f\<rparr>)"
  using assms
  by (auto simp: abs_editor_def kbd_inv_def kbd_wf_def key_capslock_def send_eoi_1)

lemma kbd_inv_eoi [simp]: "kbd_inv (send_eoi 1 s) = kbd_inv s" "kbd_inv (s\<lparr>port_log := l\<rparr>) = kbd_inv s"
  by (simp_all add: kbd_inv_def)

lemma alt_quiet [simp]:
  "abs_editor (s\<lparr>altKeyFlag := f\<rparr>) = abs_editor s" "kbd_inv (s\<lparr>altKeyFlag := f\<rparr>) = kbd_inv s"
  by (simp_all add: abs_editor_def kbd_inv_def kbd_wf_def)

lemmas key_refines = key_enter_refines key_backspace_refines key_l_refines key_printable_refines modifier_refines

lemma handle_scancode_refines:
  assumes "kbd_inv s" "k \<notin> {0x3B, 0x3C, 0x3D}"
  shows "abs_editor (handle_scancode fkey k s) = edit k (abs_editor s)" "kbd_inv (handle_scancode fkey k s)"
proof -
  note r = key_refines [OF assms(1)]
  consider (special) "k \<in> {0x1C, 0x3A, 0x0E, 0x2A, 0x36, 0xAA, 0xB6, 0x1D, 0x9D, 0x26, 0x38, 0xB8}"
    | (ignored) "k \<in> set ignored_keys"
    | (other) "k \<notin> {0x1C, 0x3A, 0x0E, 0x2A, 0x36, 0xAA, 0xB6, 0x1D, 0x9D, 0x26, 0x38, 0xB8}" "k \<notin> set ignored_keys"
    by blast
  then have "abs_editor (handle_scancode fkey k s) = edit k (abs_editor s) \<and> kbd_inv (handle_scancode fkey k s)"
  proof cases
    case special
    then consider "k = 0x1C" | "k = 0x3A" | "k = 0x0E" | "k = 0x2A" | "k = 0x36" | "k = 0xAA" | "k = 0xB6"
      | "k = 0x1D" | "k = 0x9D" | "k = 0x26" | "k = 0x38" | "k = 0xB8" by blast
    then show ?thesis
    proof cases
      case 10
      with r(5,6) show ?thesis by (simp add: handle_scancode_def)
    qed (simp_all add: handle_scancode_def edit_def r assms(1))
  next
    case ignored
    then have "k \<notin> {0x1C, 0x3A, 0x0E, 0x2A, 0x36, 0xAA, 0xB6, 0x1D, 0x9D, 0x26, 0x38, 0xB8, 0x3B, 0x3C, 0x3D}"
      by (auto simp: ignored_keys_def)
    with ignored have "handle_scancode fkey k s = send_eoi 1 s \<and> edit k (abs_editor s) = abs_editor s"
      by (simp add: handle_scancode_def edit_def)
    with assms(1) show ?thesis by simp
  next
    case other
    then have "handle_scancode fkey k s = key_printable k s" using assms(2) by (simp add: handle_scancode_def)
    moreover have "edit k (abs_editor s) =
      (if 0 < k \<and> k < 128 \<and> col (abs_editor s) \<le> 80 \<and> length (typed (abs_editor s)) < 128
       then type_char (char_of_key k (abs_editor s)) (abs_editor s) else abs_editor s)"
      using other by (auto simp: edit_def)
    ultimately show ?thesis using key_printable_refines [OF assms(1), of k] by simp
  qed
  then show "abs_editor (handle_scancode fkey k s) = edit k (abs_editor s)" "kbd_inv (handle_scancode fkey k s)"
    by blast+
qed

section \<open>What a key draws\<close>

lemma screen_quiet [simp]:
  "screen_bytes (mem (send_eoi n s)) = screen_bytes (mem s)" "attr (send_eoi n s) = attr s"
  "screen_bytes (mem (fb_move_cursor r cl s)) = screen_bytes (mem s)" "attr (s\<lparr>port_log := l\<rparr>) = attr s"
  "screen_bytes (mem (move_and_eoi s)) = screen_bytes (mem s)" "attr (move_and_eoi s) = attr s"
  "attr (s\<lparr>buffer_Size := n'\<rparr>) = attr s" "attr (s\<lparr>cursorPointer := cp\<rparr>) = attr s" "attr (s\<lparr>enter_flag := f\<rparr>) = attr s"
  "attr (WriteCharacter c fc bc tx ty s) = attr s" "attr (set_buffer i b s) = attr s" "attr (clear s) = attr s"
  "attr (s\<lparr>eflags_if := i'\<rparr>) = attr s" "attr (s\<lparr>altKeyFlag := g\<rparr>) = attr s" "attr (s\<lparr>capsLockFlag := g\<rparr>) = attr s"
  "attr (s\<lparr>shiftKeyHoldDown := g\<rparr>) = attr s" "attr (s\<lparr>ctrlKeyHoldDown := g\<rparr>) = attr s"
  by (simp_all add: send_eoi_def fb_move_cursor_def move_and_eoi_def outb_def attr_def WriteCharacter_def set_buffer_def
      clear_def Let_def)

lemma screen_mem_cong: "(\<And>p. p \<in> region video 4000 \<Longrightarrow> m p = m' p) \<Longrightarrow> screen_bytes m = screen_bytes m'"
  unfolding screen_bytes_def by (rule bytes_cong)

lemma screen_store_past:
  assumes "4000 \<le> i" "i + length bs \<le> 65536"
  shows "screen_bytes (store_bytes m (video + of_nat i) bs) = screen_bytes m"
proof (rule nth_equalityI)
  fix j
  assume "j < length (screen_bytes (store_bytes m (video + of_nat i) bs))"
  then have j: "j < 4000" by simp
  have "unat (of_nat j - of_nat i :: u32) = (if i \<le> j then j - i else 2 ^ 32 - (i - j))"
    using j assms by (intro unat_of_nat_diff) simp_all
  then show "screen_bytes (store_bytes m (video + of_nat i) bs) ! j = screen_bytes m ! j"
    using j assms by (auto simp: screen_bytes_def store_bytes_apply)
qed simp

lemma WriteCharacter_screen:
  assumes "unat tx \<le> 300" "unat ty \<le> 24"
  shows "screen_bytes (mem (WriteCharacter c 255 0 tx ty s)) = put_cell (attr s) c (unat ty) (unat tx) (screen_bytes (mem s))"
proof -
  let ?i = "80 * unat ty + unat tx"
  have w: "WriteCharacter c 255 0 tx ty s = s\<lparr>mem := store_bytes (mem s) (video + of_nat (2 * ?i)) [c, attr s]\<rparr>"
    using WriteCharacter_store [of "unat tx" "unat ty" c s] assms by simp
  show ?thesis
  proof (cases "?i < 2000")
    case True
    then have "2 * ?i + 1 < 4000" by simp
    from screen_store_cell [OF this, of "mem s" c "attr s"] show ?thesis unfolding w put_cell_def by simp
  next
    case False
    have "screen_bytes (store_bytes (mem s) (video + of_nat (2 * ?i)) [c, attr s]) = screen_bytes (mem s)"
      using False assms by (intro screen_store_past) simp_all
    moreover have "put_cell (attr s) c (unat ty) (unat tx) (screen_bytes (mem s)) = screen_bytes (mem s)"
      using False by (simp add: put_cell_def list_update_beyond)
    ultimately show ?thesis by (simp add: w)
  qed
qed

lemma set_buffer_screen:
  assumes "kbd_wf s" "i \<le> 128"
  shows "screen_bytes (mem (set_buffer i c s)) = screen_bytes (mem s)"
proof (rule screen_mem_cong)
  fix p assume p: "p \<in> region video 4000"
  have "keybuf s + ucast i \<in> region (keybuf s) 129"
    unfolding region_def using assms(2) by (intro image_eqI [of _ _ "unat i"]) (simp_all add: word_le_nat_alt)
  moreover have "p \<in> region video 0x8000" using p region_mono [of 4000 "0x8000" video] by auto
  ultimately have "p \<noteq> keybuf s + ucast i" using assms(1) by (auto simp: kbd_wf_def)
  then show "mem (set_buffer i c s) p = mem s p" by (simp add: set_buffer_def)
qed

lemma type_screen:
  assumes "kbd_wf s" "buffer_Size s < 128"
  shows "screen_bytes (mem (advance_cursor (store_char c s)))
      = put_cell (attr s) c (row (abs_editor s)) (col (abs_editor s)) (screen_bytes (mem s))"
    "attr (advance_cursor (store_char c s)) = attr s"
proof -
  have "screen_bytes (mem (set_buffer (buffer_Size s) c s)) = screen_bytes (mem s)"
    using assms by (intro set_buffer_screen) simp_all
  then have "screen_bytes (mem (store_char c s)) = put_cell (attr s) c (row (abs_editor s)) (col (abs_editor s)) (screen_bytes (mem s))"
    using kbd_wfD(2,4) [OF assms(1)] by (simp add: store_char_def Let_def WriteCharacter_screen set_buffer_def abs_editor_def)
  then show "screen_bytes (mem (advance_cursor (store_char c s)))
      = put_cell (attr s) c (row (abs_editor s)) (col (abs_editor s)) (screen_bytes (mem s))"
    by (simp add: advance_cursor_eq)
  show "attr (advance_cursor (store_char c s)) = attr s" by (simp add: advance_cursor_eq store_char_def Let_def)
qed

lemma key_backspace_screen:
  assumes "kbd_inv s"
  shows "screen_bytes (mem (key_backspace s)) =
      (let e' = rub_out (abs_editor s) in
       if length (typed e') < length (typed (abs_editor s)) then put_cell (attr s) 32 (row e') (col e') (screen_bytes (mem s))
       else screen_bytes (mem s))"
    "attr (key_backspace s) = attr s"
proof -
  have wf: "kbd_wf s" using assms by (simp add: kbd_inv_def)
  have flags: "charactersOnScreen s = 0" "tabbed s = 0" using wf by (simp_all add: kbd_wf_def)
  have pos: "col (abs_editor s) = unat (cursor_x s)" "row (abs_editor s) = unat (cursor_y s)" by (simp_all add: abs_editor_def)
  have "screen_bytes (mem (key_backspace s)) =
      (let e' = rub_out (abs_editor s) in
       if length (typed e') < length (typed (abs_editor s)) then put_cell (attr s) 32 (row e') (col e') (screen_bytes (mem s))
       else screen_bytes (mem s)) \<and> attr (key_backspace s) = attr s"
  proof (cases "buffer_Size s = 0 \<or> cursor_x s = 0 \<and> cursor_y s = 0")
    case True
    then have "key_backspace s = move_and_eoi s" using flags by (auto simp: key_backspace_def)
    moreover have "rub_out (abs_editor s) = abs_editor s" using True by (auto simp: rub_out_def typed_empty pos)
    ultimately show ?thesis by simp
  next
    case False
    let ?t = "(set_buffer (buffer_Size s) 32 s)\<lparr>buffer_Size := buffer_Size s - 1, cursorPointer := cursorPointer s - 1\<rparr>"
    have n: "buffer_Size s > 0" using False by (simp add: word_neq_0_conv)
    have t: "screen_bytes (mem ?t) = screen_bytes (mem s)" "attr ?t = attr s" "cursor_x ?t = cursor_x s" "cursor_y ?t = cursor_y s"
      using set_buffer_screen [OF wf, of "buffer_Size s" 32] wf by (simp_all add: kbd_wf_def) (simp_all add: set_buffer_def)
    have kb: "key_backspace s = move_and_eoi (if cursor_x s > 0 then erase_left ?t else erase_row_end ?t)"
      using False n flags by (auto simp: key_backspace_def Let_def set_buffer_def)
    have ne: "typed (abs_editor s) \<noteq> []" using False by (simp add: typed_empty)
    show ?thesis
    proof (cases "cursor_x s > 0")
      case True
      have x: "unat (cursor_x s - 1) = unat (cursor_x s) - 1" using True by (rule u16_minus_1)
      have "rub_out (abs_editor s) = (abs_editor s)\<lparr>typed := butlast (typed (abs_editor s)), col := unat (cursor_x s) - 1\<rparr>"
        using ne unat_gt_0 [of "cursor_x s"] True by (simp add: rub_out_def pos Let_def word_neq_0_conv)
      then show ?thesis
        using True ne t kbd_wfD(2,4) [OF wf] unfolding kb
        by (simp add: erase_left_def Let_def WriteCharacter_screen x pos)
    next
      case x0: False
      then have y: "cursor_y s > 0" using False by (auto simp: word_neq_0_conv)
      have y1: "unat (cursor_y s - 1) = unat (cursor_y s) - 1" using y by (rule u16_minus_1)
      have "rub_out (abs_editor s) = (abs_editor s)\<lparr>typed := butlast (typed (abs_editor s)), row := unat (cursor_y s) - 1, col := 79\<rparr>"
        using ne x0 y by (auto simp: rub_out_def pos Let_def unat_gt_0 word_less_nat_alt unat_eq_0)
      then show ?thesis
        using x0 ne t kbd_wfD(2) [OF wf] unfolding kb
        by (simp add: erase_row_end_def Let_def WriteCharacter_screen y1 pos)
    qed
  qed
  then show "screen_bytes (mem (key_backspace s)) =
      (let e' = rub_out (abs_editor s) in
       if length (typed e') < length (typed (abs_editor s)) then put_cell (attr s) 32 (row e') (col e') (screen_bytes (mem s))
       else screen_bytes (mem s))" "attr (key_backspace s) = attr s" by blast+
qed

lemma key_enter_screen:
  assumes "kbd_inv s"
  shows "screen_bytes (mem (key_enter s))
      = (if row (abs_editor s) = 24 then scroll_up (attr s) (screen_bytes (mem s)) else screen_bytes (mem s))"
    "attr (key_enter s) = attr s"
proof -
  let ?t = "s\<lparr>enter_flag := 1, cursorPointer := 0, cursor_x := 0, cursor_y := cursor_y s + 1\<rparr>"
  have y: "unat (cursor_y s) \<le> 24" using assms kbd_wfD(2) by (auto simp: kbd_inv_def)
  have y1: "unat (cursor_y s + 1) = unat (cursor_y s) + 1" using y by (intro u16_plus_1) simp
  have y25: "cursor_y s + 1 = 25 \<longleftrightarrow> row (abs_editor s) = 24" by (simp add: word_unat_eq_iff y1 [simplified] abs_editor_def)
  have "cursor_y ?t = 25 \<Longrightarrow> screen_bytes (mem (scroll ?t)) = scroll_up (attr s) (screen_bytes (mem s)) \<and> attr (scroll ?t) = attr s"
    using scroll_25 [of ?t] by (auto simp: drawn_def)
  then show "screen_bytes (mem (key_enter s))
      = (if row (abs_editor s) = 24 then scroll_up (attr s) (screen_bytes (mem s)) else screen_bytes (mem s))"
    "attr (key_enter s) = attr s"
    using y25 by (auto simp: key_enter_def Let_def)
qed

lemma key_l_screen:
  assumes "kbd_inv s"
  shows "screen_bytes (mem (key_l s)) = screen_edit (attr s) 0x26 (abs_editor s) (screen_bytes (mem s))"
    "attr (key_l s) = attr s"
proof -
  have wf: "kbd_wf s" and fl: "capsLockFlag s \<in> {0, 1}" "shiftKeyHoldDown s \<in> {0, 1}"
    using assms by (simp_all add: kbd_inv_def kbd_wf_def)
  have ctrl: "ctrl (abs_editor s) \<longleftrightarrow> ctrlKeyHoldDown s = 1" by (simp add: abs_editor_def)
  have "screen_bytes (mem (key_l s)) = screen_edit (attr s) 0x26 (abs_editor s) (screen_bytes (mem s)) \<and> attr (key_l s) = attr s"
  proof (cases "ctrlKeyHoldDown s = 1 \<or> \<not> buffer_Size s < 128")
    case True
    have "screen_bytes (mem (clear s)) = concat (replicate 2000 [32, 7])"
      using bytes_store_bytes [of "concat (replicate 2000 [32, 7])" "mem s" video] by (simp add: clear_store screen_bytes_def)
    moreover have "\<not> length (typed (abs_editor s)) < 128 \<longleftrightarrow> \<not> buffer_Size s < 128" by (simp add: length_typed word_less_nat_alt)
    ultimately show ?thesis using True ctrl by (auto simp: key_l_def screen_edit_def edit_def Let_def)
  next
    case False
    define c where "c = (if caps (abs_editor s) = shift (abs_editor s) then 108 else (76 :: u8))"
    have "key_l s = send_eoi 1 (advance_cursor (store_char c s))"
      using False fl by (auto simp: key_l_def c_def abs_editor_def Let_def)
    moreover have "edit 0x26 (abs_editor s) = type_char c (abs_editor s)"
      using False ctrl by (simp add: edit_def c_def length_typed word_less_nat_alt)
    ultimately show ?thesis
      using False ctrl type_screen [OF wf, of c] by (simp add: screen_edit_def type_char_def Let_def)
  qed
  then show "screen_bytes (mem (key_l s)) = screen_edit (attr s) 0x26 (abs_editor s) (screen_bytes (mem s))"
    "attr (key_l s) = attr s" by blast+
qed

lemma key_printable_screen:
  fixes k :: u8
  assumes "kbd_inv s"
  defines "typing \<equiv> 0 < k \<and> k < 128 \<and> col (abs_editor s) \<le> 80 \<and> length (typed (abs_editor s)) < 128"
  shows "screen_bytes (mem (key_printable k s)) =
      (if typing then put_cell (attr s) (char_of_key k (abs_editor s)) (row (abs_editor s)) (col (abs_editor s)) (screen_bytes (mem s))
       else screen_bytes (mem s))"
    "attr (key_printable k s) = attr s"
proof -
  have wf: "kbd_wf s" using assms by (simp add: kbd_inv_def)
  have "key_printable k s = (if typing then send_eoi 1 (advance_cursor (store_char (char_of_key k (abs_editor s)) s)) else send_eoi 1 s)"
    unfolding typing_def by (rule key_printable_types [OF assms(1)])
  moreover have "typing \<Longrightarrow> buffer_Size s < 128" by (simp add: typing_def length_typed word_less_nat_alt)
  ultimately show "screen_bytes (mem (key_printable k s)) =
      (if typing then put_cell (attr s) (char_of_key k (abs_editor s)) (row (abs_editor s)) (col (abs_editor s)) (screen_bytes (mem s))
       else screen_bytes (mem s))" "attr (key_printable k s) = attr s"
    using type_screen [OF wf] by simp_all
qed

lemma length_rub_out: "\<not> length (typed e) < length (typed (rub_out e))"
  by (auto simp: rub_out_def Let_def)

lemmas key_screens = key_enter_screen key_backspace_screen key_l_screen key_printable_screen

lemma handle_scancode_screen:
  assumes "kbd_inv s" "k \<notin> {0x3B, 0x3C, 0x3D}"
  shows "screen_bytes (mem (handle_scancode fkey k s)) = screen_edit (attr s) k (abs_editor s) (screen_bytes (mem s)) \<and>
     attr (handle_scancode fkey k s) = attr s"
proof -
  note r = key_screens [OF assms(1)]
  consider (special) "k \<in> {0x1C, 0x3A, 0x0E, 0x2A, 0x36, 0xAA, 0xB6, 0x1D, 0x9D, 0x26, 0x38, 0xB8}"
    | (ignored) "k \<in> set ignored_keys"
    | (other) "k \<notin> {0x1C, 0x3A, 0x0E, 0x2A, 0x36, 0xAA, 0xB6, 0x1D, 0x9D, 0x26, 0x38, 0xB8}" "k \<notin> set ignored_keys"
    by blast
  then show ?thesis
  proof cases
    case special
    then consider "k = 0x1C" | "k = 0x3A" | "k = 0x0E" | "k = 0x2A" | "k = 0x36" | "k = 0xAA" | "k = 0xB6"
      | "k = 0x1D" | "k = 0x9D" | "k = 0x26" | "k = 0x38" | "k = 0xB8" by blast
    then show ?thesis
    proof cases
      case 3
      then show ?thesis using r(3,4) by (simp add: handle_scancode_def screen_edit_def edit_def length_rub_out Let_def)
    next
      case 10
      with r(5,6) show ?thesis by (simp add: handle_scancode_def)
    qed (simp_all add: handle_scancode_def screen_edit_def edit_def r key_capslock_def)
  next
    case ignored
    then have "k \<notin> {0x1C, 0x3A, 0x0E, 0x2A, 0x36, 0xAA, 0xB6, 0x1D, 0x9D, 0x26, 0x38, 0xB8, 0x3B, 0x3C, 0x3D}"
      by (auto simp: ignored_keys_def)
    with ignored show ?thesis by (simp add: handle_scancode_def screen_edit_def edit_def)
  next
    case other
    then have "handle_scancode fkey k s = key_printable k s" using assms(2) by (simp add: handle_scancode_def)
    moreover have "edit k (abs_editor s) =
      (if 0 < k \<and> k < 128 \<and> col (abs_editor s) \<le> 80 \<and> length (typed (abs_editor s)) < 128
       then type_char (char_of_key k (abs_editor s)) (abs_editor s) else abs_editor s)"
      using other by (auto simp: edit_def)
    ultimately show ?thesis using r(7,8) [of k] other by (simp add: screen_edit_def type_char_def Let_def)
  qed
qed

section \<open>A keyboard interrupt\<close>

text \<open>An interrupt with scan code \<open>k\<close>: the handler with a controller that answers \<open>k\<close>.\<close>

definition key_interrupt ::
  "(nat \<Rightarrow> 'a keyboard_scheme \<Rightarrow> 'a keyboard_scheme) \<Rightarrow> u8 \<Rightarrow> 'a keyboard_scheme \<Rightarrow> 'a keyboard_scheme" where
  "key_interrupt fkey k = getchar fkey (\<lambda>_ _. k)"

lemma getchar_eq:
  "getchar fkey dev s =
     (let k = dev (port_log s) 0x60; t = s\<lparr>eflags_if := False, port_log := port_log s @ [In 0x60]\<rparr>
      in if k \<noteq> 0 then handle_scancode fkey k t else send_eoi 1 t)"
proof -
  have "s\<lparr>eflags_if := False, port_log := l\<rparr> = (cli s)\<lparr>port_log := l\<rparr>" for l by (simp add: cli_def)
  then show ?thesis by (simp add: getchar_def inb_def cli_def Let_def)
qed

lemma editor_quiet [simp]:
  "abs_editor (s\<lparr>eflags_if := b\<rparr>) = abs_editor s" "kbd_inv (s\<lparr>eflags_if := b\<rparr>) = kbd_inv s"
  by (simp_all add: abs_editor_def kbd_inv_def kbd_wf_def)

lemma edit_0 [simp]: "edit 0 e = e"
  by (simp add: edit_def ignored_keys_def)

lemma getchar_refines_editor:
  assumes "kbd_inv s" "dev (port_log s) 0x60 \<notin> {0x3B, 0x3C, 0x3D}"
  shows "abs_editor (getchar fkey dev s) = edit (dev (port_log s) 0x60) (abs_editor s)"
    "kbd_inv (getchar fkey dev s)"
  using handle_scancode_refines [of "s\<lparr>eflags_if := False, port_log := port_log s @ [In 0x60]\<rparr>" "dev (port_log s) 0x60" fkey] assms
  by (simp_all add: getchar_eq Let_def)

lemma getchar_screen:
  assumes "kbd_inv s" "dev (port_log s) 0x60 \<notin> {0x3B, 0x3C, 0x3D}"
  shows "screen_bytes (mem (getchar fkey dev s)) = screen_edit (attr s) (dev (port_log s) 0x60) (abs_editor s) (screen_bytes (mem s))"
    "attr (getchar fkey dev s) = attr s"
  using handle_scancode_screen [of "s\<lparr>eflags_if := False, port_log := port_log s @ [In 0x60]\<rparr>" "dev (port_log s) 0x60" fkey] assms
  by (auto simp: getchar_eq Let_def screen_edit_def)

text \<open>No key but Enter sets the flag, and none moves the buffer.\<close>

lemma part_frame [simp]:
  "enter_flag (WriteCharacter c f b tx ty s) = enter_flag s" "keybuf (WriteCharacter c f b tx ty s) = keybuf s"
  "enter_flag (fb_move_cursor r cl s) = enter_flag s" "keybuf (fb_move_cursor r cl s) = keybuf s"
  "enter_flag (send_eoi n s) = enter_flag s" "keybuf (send_eoi n s) = keybuf s"
  "enter_flag (clear s) = enter_flag s" "keybuf (clear s) = keybuf s"
  "enter_flag (set_buffer i c s) = enter_flag s" "keybuf (set_buffer i c s) = keybuf s"
  by (simp_all add: WriteCharacter_def fb_move_cursor_def send_eoi_def outb_def clear_def set_buffer_def Let_def)

lemma frame_store [simp]:
  "enter_flag (advance_cursor (store_char c s)) = enter_flag s" "keybuf (advance_cursor (store_char c s)) = keybuf s"
  by (simp_all add: advance_cursor_def store_char_def Let_def)

lemma frame_erase [simp]:
  "enter_flag (erase_left s) = enter_flag s" "keybuf (erase_left s) = keybuf s"
  "enter_flag (erase_row_end s) = enter_flag s" "keybuf (erase_row_end s) = keybuf s"
  "enter_flag (move_and_eoi s) = enter_flag s" "keybuf (move_and_eoi s) = keybuf s"
  by (simp_all add: erase_left_def erase_row_end_def move_and_eoi_def Let_def)

lemma frame_keys [simp]:
  "enter_flag (key_backspace s) = enter_flag s" "keybuf (key_backspace s) = keybuf s"
  "enter_flag (key_l s) = enter_flag s" "keybuf (key_l s) = keybuf s"
  "enter_flag (key_printable k s) = enter_flag s" "keybuf (key_printable k s) = keybuf s"
  "enter_flag (key_capslock s) = enter_flag s" "keybuf (key_capslock s) = keybuf s"
  by (simp_all add: key_backspace_def key_l_def key_printable_def key_capslock_def Let_def)

lemma key_interrupt_frame:
  assumes "k \<notin> {0x3B, 0x3C, 0x3D, 0x1C}"
  shows "enter_flag (key_interrupt fkey k s) = enter_flag s" "keybuf (key_interrupt fkey k s) = keybuf s"
  using assms by (simp_all add: key_interrupt_def getchar_eq Let_def handle_scancode_def)

lemma frame_blank_line [simp]:
  "enter_flag (blank_line k j r s) = enter_flag s" "keybuf (blank_line k j r s) = keybuf s"
  by (induction k arbitrary: j s) simp_all

lemma key_interrupt_enter:
  "enter_flag (key_interrupt fkey 0x1C s) = 1" "keybuf (key_interrupt fkey 0x1C s) = keybuf s"
  by (simp_all add: key_interrupt_def getchar_eq Let_def handle_scancode_def key_enter_def scroll_def)

section \<open>Reading a line\<close>

lemma copy_buffer_bottom: "copy_buffer k src dst m = memcpy_bottom k m src dst"
  by (induction k arbitrary: src dst m) simp_all

lemma clear_buffer_outside: "p \<notin> region a k \<Longrightarrow> clear_buffer k a m p = m p"
  by (induction k arbitrary: a m) (simp_all add: region_Suc)

lemma take_line_correct:
  assumes "buffer_Size s \<le> 128" "region buf 129 \<inter> region (keybuf s) 129 = {}"
  defines "l \<equiv> typed (abs_editor s)"
  shows "fst (take_line buf s) = of_nat (length l + 1) \<and>
     bytes (mem (snd (take_line buf s))) buf (length l + 1) = l @ [10] \<and>
     buffer_Size (snd (take_line buf s)) = 0 \<and> enter_flag (snd (take_line buf s)) = 0"
proof -
  define n where "n = unat (buffer_Size s)"
  have n: "n \<le> 128" "ucast (buffer_Size s) = (of_nat n :: u32)" "length l = n"
    using assms(1) by (simp_all add: n_def word_le_nat_alt l_def length_typed)
  have sub: "region buf i \<subseteq> region buf 129" "region (keybuf s) n \<subseteq> region (keybuf s) 129" if "i \<le> 129" for i
    using region_mono [OF that] region_mono [of n 129] n(1) by auto
  have "region buf n \<inter> region (keybuf s) n = {}"
    using assms(2) sub [of n] n(1) by auto
  then have copy: "copy_buffer n (keybuf s) buf (mem s) = store_bytes (mem s) buf l"
    using n(1) by (simp add: copy_buffer_bottom memcpy_bottom_store l_def abs_editor_def n_def)
  have app: "(store_bytes (mem s) buf l)(buf + of_nat n := 10) = store_bytes (mem s) buf (l @ [10])"
    using n(3) by (simp add: store_bytes_append)
  have m: "mem (snd (take_line buf s)) = clear_buffer n (keybuf s) (store_bytes (mem s) buf (l @ [10]))"
    unfolding app [symmetric] copy [symmetric] by (simp add: take_line_def Let_def n(2) n_def [symmetric])
  have "bytes (mem (snd (take_line buf s))) buf (length l + 1) = bytes (store_bytes (mem s) buf (l @ [10])) buf (length l + 1)"
    unfolding m using assms(2) sub [of "length l + 1"] n(1,3) by (intro bytes_cong clear_buffer_outside) auto
  also have "\<dots> = l @ [10]"
    using bytes_store_bytes [of "l @ [10]" "mem s" buf] n(1,3) by simp
  finally show ?thesis
    using n by (simp add: take_line_def Let_def)
qed

lemma enter_spin_keys:
  assumes "set ks \<inter> {0x3B, 0x3C, 0x3D, 0x1C} = {}"
  shows "enter_flag s = 0 \<Longrightarrow> kbd_inv s \<Longrightarrow>
     \<exists>t. enter_spin (map (key_interrupt fkey) (ks @ [0x1C]) @ rest) s = Some (t, rest) \<and> kbd_inv t \<and>
         abs_editor t = edit 0x1C (fold edit ks (abs_editor s)) \<and> keybuf t = keybuf s"
  using assms
proof (induction ks arbitrary: s)
  case Nil
  let ?t = "key_interrupt fkey 0x1C s"
  have "abs_editor ?t = edit 0x1C (abs_editor s)" "kbd_inv ?t"
    unfolding key_interrupt_def using getchar_refines_editor [OF Nil(2), of "\<lambda>_ _. 0x1C" fkey] by simp_all
  then show ?case
    using Nil key_interrupt_enter [of fkey s]
    by (simp add: enter_spin.simps [of _ s] enter_spin.simps [of _ ?t])
next
  case (Cons k ks)
  let ?t = "key_interrupt fkey k s"
  have k: "k \<notin> {0x3B, 0x3C, 0x3D, 0x1C}" using Cons.prems(3) by auto
  then have t: "abs_editor ?t = edit k (abs_editor s)" "kbd_inv ?t"
    unfolding key_interrupt_def using getchar_refines_editor [OF Cons.prems(2), of "\<lambda>_ _. k" fkey] by simp_all
  with Cons.IH [of ?t] Cons.prems key_interrupt_frame [OF k, of fkey s] show ?case
    by (simp add: enter_spin.simps [of _ s])
qed

lemma kbd_inv_sti [simp]: "kbd_inv (sti s) = kbd_inv s" "abs_editor (sti s) = abs_editor s"
  "enter_flag (sti s) = enter_flag s" "keybuf (sti s) = keybuf s"
  by (simp_all add: sti_def)

section \<open>Properties\<close>

text \<open>
  C16: Under the handler's invariant, a keyboard interrupt with any scan code but those of F1 to F3
  does to the typed text, the cursor and the modifiers what the abstract line editor does, changes the
  screen as the editor shows it (the typed character in the cell of the cursor, the erased one blank, a
  line more at the bottom, or all blank), and keeps the invariant and the colour.
\<close>

theorem getchar_refines:
  assumes "kbd_inv s" "k = dev (port_log s) 0x60" "k \<notin> {0x3B, 0x3C, 0x3D}"
  shows "abs_editor (getchar fkey dev s) = edit k (abs_editor s) \<and>
    screen_bytes (mem (getchar fkey dev s)) = screen_edit (attr s) k (abs_editor s) (screen_bytes (mem s)) \<and>
    attr (getchar fkey dev s) = attr s \<and> kbd_inv (getchar fkey dev s)"
  using getchar_refines_editor [OF assms(1)] getchar_screen [OF assms(1)] assms(2,3) by simp

lemma reset_keyboard_inv: "kbd_inv (reset_keyboard 0 0)"
proof -
  have "region 0x410000 129 \<inter> region video 0x8000 = {}"
    unfolding video_def by (rule region_disjointI) simp_all
  then show ?thesis
    by (simp add: kbd_inv_def kbd_wf_def reset_keyboard_def keyboard.defs reset_console_def console.defs)
qed

lemma edit_a: "typed (edit 0x1E (abs_editor (reset_keyboard 0 0))) = [97]"
proof -
  have e: "abs_editor (reset_keyboard 0 0) =
      \<lparr>typed = [], col = 0, row = 0, caps = False, shift = False, ctrl = False\<rparr>"
    by (simp add: abs_editor_def reset_keyboard_def keyboard.defs reset_console_def console.defs)
  have "kbdus ! 0x1E = 97" by (simp add: kbdus_def scancode_table_def ascii_def)
  then show ?thesis
    unfolding e by (simp add: edit_def ignored_keys_def char_of_key_def type_char_def)
qed

theorem getchar_refines_witness:
  "typed (abs_editor (getchar (\<lambda>_ s. s) (\<lambda>_ _. 0x1E) (reset_keyboard 0 0))) = [97] \<and>
   take 4 (screen_bytes (mem (getchar (\<lambda>_ s. s) (\<lambda>_ _. 0x1E) (reset_keyboard 0 0)))) = [97, 2, 0, 0] \<and>
   kbd_inv (getchar (\<lambda>_ s. s) (\<lambda>_ _. 0x1E) (reset_keyboard 0 0))"
proof -
  have s: "typed (abs_editor (reset_keyboard 0 0)) = []" "row (abs_editor (reset_keyboard 0 0)) = 0"
    "col (abs_editor (reset_keyboard 0 0)) = 0" "attr (reset_keyboard 0 0) = 2"
    "bytes (mem (reset_keyboard 0 0)) video 4 = [0, 0, 0, 0]"
    by (simp_all add: abs_editor_def reset_keyboard_def keyboard.defs reset_console_def console.defs attr_def bytes_def upt_rec
        reset_rtc_def rtc.defs reset_machine_def machine.defs)
  moreover have "take 4 (screen_bytes m) = bytes m video 4" for m
    by (rule nth_equalityI) (simp_all add: screen_bytes_def)
  ultimately have s4: "take 4 (screen_bytes (mem (reset_keyboard 0 0))) = [0, 0, 0, 0]" by simp
  have "take 4 (put_cell 2 97 0 0 V) = [97, 2, 0, 0]" if "take 4 V = [0, 0, 0, 0]" for V
    using that by (simp add: put_cell_def take_update_swap)
  from this [OF s4] s(1-4) edit_a show ?thesis
    using getchar_refines [OF reset_keyboard_inv, of "0x1E" "\<lambda>_ _. 0x1E" "\<lambda>_ s. s"] by (simp add: screen_edit_def Let_def)
qed

text \<open>
  C25: \<^verbatim>\<open>read_Terminal\<close> waits for Enter and gives the caller the edited line: when the keys \<open>ks\<close>
  (none of Enter and F1 to F3) and then Enter arrive while it waits, the bytes it leaves at
  \<open>buf\<close> are the text the abstract editor has after \<open>ks\<close> followed by a newline, the returned
  count is their number, and the line is empty again.  Without Enter it does not return.
\<close>

theorem read_Terminal_line:
  assumes "kbd_inv s" "enter_flag s = 0" "set ks \<inter> {0x3B, 0x3C, 0x3D, 0x1C} = {}"
    and "region buf 129 \<inter> region (keybuf s) 129 = {}"
  shows "let line = typed (fold edit ks (abs_editor s)) in
     (\<exists>t. read_Terminal (map (key_interrupt fkey) (ks @ [0x1C]) @ rest) buf s
            = Some (of_nat (length line + 1), t, rest) \<and>
          bytes (mem t) buf (length line + 1) = line @ [10] \<and> typed (abs_editor t) = [] \<and> enter_flag t = 0) \<and>
     read_Terminal (map (key_interrupt fkey) ks) buf s = None"
proof -
  obtain t where t: "enter_spin (map (key_interrupt fkey) (ks @ [0x1C]) @ rest) (sti s) = Some (t, rest)"
    "kbd_inv t" "abs_editor t = edit 0x1C (fold edit ks (abs_editor s))" "keybuf t = keybuf s"
    using enter_spin_keys [OF assms(3), of "sti s" fkey rest] assms(1,2) by auto
  have line: "typed (abs_editor t) = typed (fold edit ks (abs_editor s))" by (simp add: t(3) edit_def)
  have "buffer_Size t \<le> 128" using t(2) by (simp add: kbd_inv_def kbd_wf_def)
  from take_line_correct [OF this, of buf] t(1,4) line assms(4)
  have "\<exists>t. read_Terminal (map (key_interrupt fkey) (ks @ [0x1C]) @ rest) buf s
            = Some (of_nat (length (typed (fold edit ks (abs_editor s))) + 1), t, rest) \<and>
          bytes (mem t) buf (length (typed (fold edit ks (abs_editor s))) + 1) = typed (fold edit ks (abs_editor s)) @ [10] \<and>
          typed (abs_editor t) = [] \<and> enter_flag t = 0"
    by (cases "take_line buf t") (auto simp: read_Terminal_def typed_empty)
  moreover have "enter_flag s' = 0 \<Longrightarrow> enter_spin (map (key_interrupt fkey) ks) s' = None" for s'
    using assms(3)
  proof (induction ks arbitrary: s')
    case (Cons k ks)
    then show ?case using key_interrupt_frame(1) [of k fkey s'] by (simp add: enter_spin.simps [of _ s'])
  qed (simp add: enter_spin.simps)
  then have "read_Terminal (map (key_interrupt fkey) ks) buf s = None"
    using assms(2) by (simp add: read_Terminal_def)
  ultimately show ?thesis by (simp add: Let_def)
qed

theorem read_Terminal_line_witness:
  "\<exists>t. read_Terminal (map (key_interrupt (\<lambda>_ s. s)) [0x1E, 0x1C]) 0x420000 (reset_keyboard 0 0) = Some (2, t, []) \<and>
     bytes (mem t) 0x420000 2 = [97, 10]"
proof -
  have r: "region 0x420000 129 \<inter> region (keybuf (reset_keyboard 0 0)) 129 = {}"
    unfolding reset_keyboard_simps by (rule region_disjointI) simp_all
  have f: "enter_flag (reset_keyboard 0 0) = 0" by (simp add: reset_keyboard_def keyboard.defs reset_console_def console.defs)
  have k: "set [0x1E :: u8] \<inter> {0x3B, 0x3C, 0x3D, 0x1C} = {}" by simp
  have "length [97 :: u8] + 1 = 2" by simp
  with read_Terminal_line [OF reset_keyboard_inv f k r, of "\<lambda>_ s. s" "[]"] show ?thesis
    unfolding Let_def fold_simps edit_a by (simp only: append_Nil append_Cons list.map of_nat_numeral append_Nil2) blast
qed

end
