(* ===== verification/Paging.thy ===== *)
theory Paging
  imports Keyboard
begin

text \<open>
  The page tables of \<^verbatim>\<open>Paging.c\<close> and the page-directory updates of \<^verbatim>\<open>syscalls.c\<close>.  The tables are
  arrays of 1024 entries; where the linker put the three page tables is the fields \<open>..._at\<close>.
  \<open>translate\<close> is the two-level walk of the processor (4 KB and 4 MB pages), a specification.

  The kernel sees one flat memory.  The only virtual range whose frame it changes while running is
  the 4 MB program window at 128 MB; the contents of the frames not mapped there are kept in
  \<open>frames\<close>, and \<open>map_window\<close> is the effect of loading another entry 32 and flushing the TLB.
\<close>

record paging = keyboard +
  page_directory :: "u32 list"
  page_table :: "u32 list"
  page_table_vidmap :: "u32 list"
  page_table_terminals :: "u32 list"
  page_table_at :: u32
  page_table_vidmap_at :: u32
  page_table_terminals_at :: u32
  frames :: "u32 \<Rightarrow> memory"
  esp0 :: u32

section \<open>Paging.c\<close>

fun init_paging_loop :: "nat \<Rightarrow> nat \<Rightarrow> 'a paging_scheme \<Rightarrow> 'a paging_scheme" where
  "init_paging_loop 0 i s = s"
| "init_paging_loop (Suc k) i s =
     (let s = s\<lparr>page_directory := (page_directory s)[i := 0x80], page_table := (page_table s)[i := 0]\<rparr>;
          s = (if i = 0 then s\<lparr>page_directory := (page_directory s)[0 := page_table_at s OR 1]\<rparr> else s);
          s = (if i = 1
               then s\<lparr>page_directory := (page_directory s)[1 := 0x400000 OR 0x80 OR 0x100 OR 1]\<rparr> else s)
      in init_paging_loop k (i + 1) s)"

definition init_paging :: "'a paging_scheme \<Rightarrow> 'a paging_scheme" where
  "init_paging s =
     (let s = init_paging_loop 1024 0 s
      in s\<lparr>page_table := (page_table s)[0xB8000 div 0x1000 := 3 OR 0xB8000]\<rparr>)"

section \<open>The program window\<close>

text \<open>\<^verbatim>\<open>(EIGHT_MB + pid * FOUR_MB) | SIZE_BIT | USER_BIT | READ_WRITE_BIT | PRESENT_BIT\<close>\<close>

definition process_entry :: "u32 \<Rightarrow> u32" where
  "process_entry pid = (0x800000 + pid * 0x400000) OR 0x80 OR 0x4 OR 0x2 OR 0x1"

definition in_window :: "u32 \<Rightarrow> bool" where
  "in_window p \<longleftrightarrow> drop_bit 22 p = 32"

definition frame_of :: "u32 \<Rightarrow> u32" where
  "frame_of entry = entry AND 0xFFC00000"

text \<open>
  Loading \<open>entry\<close> into slot 32 of the directory: the bytes of the window go back to the frame
  mapped so far, and the bytes of the new frame appear.
\<close>

definition map_window :: "u32 \<Rightarrow> 'a paging_scheme \<Rightarrow> 'a paging_scheme" where
  "map_window entry s =
     (let old = page_directory s ! 32;
          fr = (if bit old 0
                then (frames s)(frame_of old := (\<lambda>p. if in_window p then mem s p else frames s (frame_of old) p))
                else frames s)
      in s\<lparr>frames := fr,
           mem := (\<lambda>p. if in_window p then fr (frame_of entry) p else mem s p),
           page_directory := (page_directory s)[32 := entry]\<rparr>)"

section \<open>Address translation\<close>

datatype access = Kernel_Access | User_Access

definition table_at :: "'a paging_scheme \<Rightarrow> u32 \<Rightarrow> u32 list option" where
  "table_at s a =
     (if a = page_table_at s then Some (page_table s)
      else if a = page_table_vidmap_at s then Some (page_table_vidmap s)
      else if a = page_table_terminals_at s then Some (page_table_terminals s)
      else None)"

definition entry_allows :: "access \<Rightarrow> u32 \<Rightarrow> bool" where
  "entry_allows acc e \<longleftrightarrow> bit e 0 \<and> (acc = User_Access \<longrightarrow> bit e 2)"

definition translate :: "access \<Rightarrow> 'a paging_scheme \<Rightarrow> u32 \<Rightarrow> u32 option" where
  "translate acc s v =
     (let pde = page_directory s ! unat (drop_bit 22 v) in
      if \<not> entry_allows acc pde then None
      else if bit pde 7 then Some ((pde AND 0xFFC00000) + (v AND 0x3FFFFF))
      else case table_at s (pde AND 0xFFFFF000) of
             None \<Rightarrow> None
           | Some pt \<Rightarrow>
               let pte = pt ! unat (drop_bit 12 v AND 0x3FF) in
               if \<not> entry_allows acc pte then None
               else Some ((pte AND 0xFFFFF000) + (v AND 0xFFF)))"

definition tables_wf :: "'a paging_scheme \<Rightarrow> bool" where
  "tables_wf s \<longleftrightarrow>
     length (page_directory s) = 1024 \<and> length (page_table s) = 1024 \<and>
     length (page_table_vidmap s) = 1024 \<and> length (page_table_terminals s) = 1024 \<and>
     page_table_at s AND 0xFFF = 0 \<and> page_table_vidmap_at s AND 0xFFF = 0 \<and>
     page_table_terminals_at s AND 0xFFF = 0 \<and>
     distinct [page_table_at s, page_table_vidmap_at s, page_table_terminals_at s]"

section \<open>The tables after init\_paging\<close>

lemma init_paging_loop_tables:
  "i + k = 1024 \<Longrightarrow> 2 \<le> i \<Longrightarrow> length (page_directory s) = 1024 \<Longrightarrow> length (page_table s) = 1024 \<Longrightarrow>
   (let t = init_paging_loop k i s in
     page_directory t = take i (page_directory s) @ replicate k 0x80 \<and>
     page_table t = take i (page_table s) @ replicate k 0 \<and>
     page_table_at t = page_table_at s \<and> page_table_vidmap_at t = page_table_vidmap_at s \<and>
     page_table_terminals_at t = page_table_terminals_at s \<and>
     page_table_vidmap t = page_table_vidmap s \<and> page_table_terminals t = page_table_terminals s)"
proof (induction k arbitrary: i s)
  case 0
  then show ?case by (simp add: Let_def)
next
  case (Suc k)
  then have i: "i < 1024" "i \<noteq> 0" "i \<noteq> 1" by simp_all
  let ?s = "s\<lparr>page_directory := (page_directory s)[i := 0x80], page_table := (page_table s)[i := 0]\<rparr>"
  have "take (i + 1) (xs[i := x]) @ replicate k x = take i xs @ replicate (Suc k) x" if "length xs = 1024" for xs and x :: u32
    using i(1) that by (simp add: take_Suc_conv_app_nth replicate_append_same)
  with Suc.IH [of "i + 1" ?s] Suc.prems i show ?case by (simp add: Let_def)
qed

lemma two_heads: "length xs = 1024 \<Longrightarrow> \<exists>a b ys. xs = a # b # ys \<and> length ys = 1022"
  by (cases xs; cases "tl xs") auto

lemma init_paging_start:
  assumes "page_directory s = a # b # pd" "page_table s = c # d # pt"
  shows "init_paging_loop (Suc (Suc k)) 0 s = init_paging_loop k 2
    (s\<lparr>page_table := 0 # 0 # pt, page_directory := (page_table_at s OR 1) # 0x400181 # pd\<rparr>)"
  using assms by (simp add: Let_def numeral_2_eq_2)

lemma init_paging_tables:
  assumes "tables_wf s"
  shows "page_directory (init_paging s) = (page_table_at s OR 1) # 0x400181 # replicate 1022 0x80"
    and "page_table (init_paging s) = (replicate 1024 0)[184 := 0xB8003]"
    and "page_table_at (init_paging s) = page_table_at s"
proof -
  have len: "length (page_directory s) = 1024" "length (page_table s) = 1024"
    using assms by (simp_all add: tables_wf_def)
  obtain a b pd where pd: "page_directory s = a # b # pd" "length pd = 1022" using two_heads [OF len(1)] by blast
  obtain c d pt where pt: "page_table s = c # d # pt" "length pt = 1022" using two_heads [OF len(2)] by blast
  let ?t = "s\<lparr>page_table := 0 # 0 # pt, page_directory := (page_table_at s OR 1) # 0x400181 # pd\<rparr>"
  have n: "(1024 :: nat) = Suc (Suc 1022)" by simp
  have start: "init_paging_loop 1024 0 s = init_paging_loop 1022 2 ?t"
    unfolding n by (rule init_paging_start [OF pd(1) pt(1)])
  have zeros: "0 # 0 # replicate 1022 0 = replicate 1024 (0 :: u32)"
    by (simp only: n replicate_Suc)
  note loop = init_paging_loop_tables [of 2 1022 ?t, unfolded Let_def]
  show "page_directory (init_paging s) = (page_table_at s OR 1) # 0x400181 # replicate 1022 0x80"
    "page_table (init_paging s) = (replicate 1024 0)[184 := 0xB8003]"
    "page_table_at (init_paging s) = page_table_at s"
    using loop pd(2) pt(2) by (simp_all add: init_paging_def Let_def start zeros [symmetric])
qed

section \<open>Words and pages\<close>

lemma page_split:
  fixes v :: u32
  shows "push_bit 12 (drop_bit 12 v) + (v AND 0xFFF) = v" "push_bit 22 (drop_bit 22 v) + (v AND 0x3FFFFF) = v"
proof -
  have m: "(0xFFF :: u32) = mask 12" "(0x3FFFFF :: u32) = mask 22" by (simp_all add: mask_eq_exp_minus_1)
  show "push_bit 12 (drop_bit 12 v) + (v AND 0xFFF) = v" "push_bit 22 (drop_bit 22 v) + (v AND 0x3FFFFF) = v"
    unfolding m using bits_ident [of 12 v] bits_ident [of 22 v] by (simp_all add: take_bit_eq_mask)
qed

lemma aligned_entry:
  fixes a :: u32
  assumes "a AND 0xFFF = 0"
  shows "(a OR 1) AND 0xFFFFF000 = a" "bit (a OR 1) 0" "\<not> bit (a OR 1) 7" "\<not> bit (a OR 1) 2"
    "(a OR 4 OR 2 OR 1) AND 0xFFFFF000 = a" "bit (a OR 4 OR 2 OR 1) 0" "\<not> bit (a OR 4 OR 2 OR 1) 7"
    "bit (a OR 4 OR 2 OR 1) 2"
proof -
  have m: "(0xFFF :: u32) = mask 12" "(0xFFFFF000 :: u32) = NOT (mask 12)" by (simp_all add: mask_eq_exp_minus_1)
  have low: "\<not> bit a i" if "i < 12" for i
  proof
    assume "bit a i"
    with that have "bit (a AND mask 12) i" by (simp add: bit_simps)
    with assms show False by (simp add: m)
  qed
  then show "bit (a OR 1) 0" "\<not> bit (a OR 1) 7" "\<not> bit (a OR 1) 2" "bit (a OR 4 OR 2 OR 1) 0" "\<not> bit (a OR 4 OR 2 OR 1) 7"
    "bit (a OR 4 OR 2 OR 1) 2"
    by (simp_all add: bit_simps)
  have "a AND NOT (mask 12) = a" by (rule bit_word_eqI) (use low in \<open>auto simp: bit_simps not_less [symmetric]\<close>)
  then have "a AND 0xFFFFF000 = a" by (simp only: m)
  then show "(a OR 1) AND 0xFFFFF000 = a" "(a OR 4 OR 2 OR 1) AND 0xFFFFF000 = a"
    by (simp_all add: bit.conj_disj_distrib2)
qed

lemma unat_drop_bit_div: "unat (drop_bit n (v :: u32)) = unat v div 2 ^ n"
  unfolding unat_drop_bit_eq by (rule drop_bit_eq_div)

lemma drop_22_bound: "unat (drop_bit 22 (v :: u32)) < 1024"
  unfolding unat_drop_bit_div by (simp add: less_mult_imp_div_less)

lemma same_page: "drop_bit 12 (v :: u32) = k \<Longrightarrow> v = push_bit 12 k + (v AND 0xFFF)"
  using page_split(1) [of v] by simp

lemma page_index: "drop_bit 22 (v :: u32) = 0 \<Longrightarrow> drop_bit 12 v AND 0x3FF = drop_bit 12 v"
proof -
  assume "drop_bit 22 v = 0"
  then have hi: "\<not> bit v (22 + i)" for i by (metis bit_drop_bit_eq bit_0_eq bot_apply comp_apply bot_bool_def)
  have "(0x3FF :: u32) = mask 10" by (simp add: mask_eq_exp_minus_1)
  moreover have "drop_bit 12 v AND mask 10 = drop_bit 12 v"
  proof (rule bit_word_eqI)
    fix i
    show "bit (drop_bit 12 v AND mask 10) i = bit (drop_bit 12 v) i"
      using hi [of "i - 10"] by (cases "i < 10") (auto simp: bit_simps)
  qed
  ultimately show ?thesis by simp
qed

section \<open>Switching the window\<close>

lemma pid_cases:
  assumes "pid < 6"
  obtains "pid = 0" | "pid = 1" | "pid = 2" | "pid = 3" | "pid = 4" | "pid = (5 :: nat)"
  using assms by linarith

lemma process_entry_bits:
  assumes "pid < 6"
  shows "bit (process_entry (of_nat pid)) 0" "bit (process_entry (of_nat pid)) 2" "bit (process_entry (of_nat pid)) 7"
    "frame_of (process_entry (of_nat pid)) = 0x800000 + of_nat pid * 0x400000"
  using assms by (cases rule: pid_cases; simp add: process_entry_def frame_of_def bit_simps)+

lemma frames_distinct:
  assumes "p < 6" "q < 6" "p \<noteq> q"
  shows "frame_of (process_entry (of_nat p)) \<noteq> frame_of (process_entry (of_nat q))"
proof -
  have "0x800000 + of_nat k * 0x400000 = (of_nat (0x800000 + k * 0x400000) :: u32)" for k by simp
  then show ?thesis
    using u32_of_nat_eq_iff [of "0x800000 + p * 0x400000" "0x800000 + q * 0x400000"] assms
    by (simp only: process_entry_bits) simp
qed

lemma map_window_mem:
  "mem (map_window e s) p =
     (if \<not> in_window p then mem s p
      else if bit (page_directory s ! 32) 0 \<and> frame_of (page_directory s ! 32) = frame_of e then mem s p
      else frames s (frame_of e) p)"
  by (simp add: map_window_def Let_def)

lemma map_window_frames:
  "frames (map_window e s) f p =
     (if bit (page_directory s ! 32) 0 \<and> f = frame_of (page_directory s ! 32) \<and> in_window p then mem s p
      else frames s f p)"
  by (simp add: map_window_def Let_def)

lemma map_window_directory [simp]: "page_directory (map_window e s) = (page_directory s)[32 := e]"
  by (simp add: map_window_def Let_def)

section \<open>The walk after a change of one slot and of one table\<close>

text \<open>The slots of the directory that make the walk read the table at address \<open>a\<close>.\<close>

definition names_table :: "u32 \<Rightarrow> u32 \<Rightarrow> bool" where
  "names_table a e \<longleftrightarrow> bit e 0 \<and> \<not> bit e 7 \<and> e AND 0xFFFFF000 = a"

lemma translate_other_slot:
  assumes "unat (drop_bit 22 v) \<noteq> k" "page_directory t = (page_directory s)[k := e]"
    and "\<And>a. names_table a (page_directory s ! unat (drop_bit 22 v)) \<Longrightarrow> table_at t a = table_at s a"
  shows "translate acc t v = translate acc s v"
proof -
  let ?e = "page_directory s ! unat (drop_bit 22 v)"
  have e: "page_directory t ! unat (drop_bit 22 v) = ?e" using assms(1,2) by simp
  show ?thesis
  proof (cases "entry_allows acc ?e \<and> \<not> bit ?e 7")
    case True
    then have "names_table (?e AND 0xFFFFF000) ?e" by (simp add: names_table_def entry_allows_def)
    from assms(3) [OF this] show ?thesis by (simp add: translate_def e Let_def)
  qed (auto simp: translate_def e Let_def)
qed

lemma translate_small_page:
  assumes "page_directory s ! unat (drop_bit 22 v) = a OR 4 OR 2 OR 1" "a AND 0xFFF = 0" "table_at s a = Some pt"
    and "pt ! unat (drop_bit 12 v AND 0x3FF) = e" "bit e 0" "bit e 2"
  shows "translate acc s v = Some ((e AND 0xFFFFF000) + (v AND 0xFFF))"
  unfolding translate_def assms(1) Let_def
  using aligned_entry [OF assms(2)] assms(3-6) by (simp add: entry_allows_def)

lemma init_paging_loop_frame:
  "init_paging_loop k i s =
     s\<lparr>page_directory := page_directory (init_paging_loop k i s), page_table := page_table (init_paging_loop k i s)\<rparr>"
proof (induction k arbitrary: i s)
  case (Suc k)
  show ?case unfolding init_paging_loop.simps Let_def by (subst Suc.IH) simp
qed simp

lemma init_paging_frame:
  "init_paging s = s\<lparr>page_directory := page_directory (init_paging s), page_table := page_table (init_paging s)\<rparr>"
  unfolding init_paging_def Let_def by (subst init_paging_loop_frame) simp

lemma init_paging_walk:
  assumes "tables_wf s"
  shows "translate Kernel_Access (init_paging s) v =
      (if drop_bit 12 v = 0xB8 \<or> drop_bit 22 v = 1 then Some v else None) \<and>
    translate User_Access (init_paging s) v = None"
proof -
  note t = init_paging_tables [OF assms]
  have al: "page_table_at s AND 0xFFF = 0" using assms by (simp add: tables_wf_def)
  note e = aligned_entry [OF al]
  have tab: "table_at (init_paging s) (page_table_at s) = Some ((replicate 1024 0)[184 := 0xB8003])"
    by (simp add: table_at_def t)
  consider (low) "drop_bit 22 v = 0" | (kernel) "drop_bit 22 v = 1" | (other) "drop_bit 22 v \<noteq> 0" "drop_bit 22 v \<noteq> 1"
    by blast
  then show ?thesis
  proof cases
    case low
    then have ix: "drop_bit 12 v AND 0x3FF = drop_bit 12 v" by (rule page_index)
    from low have "unat v div 2 ^ 22 = 0" unfolding unat_drop_bit_div [symmetric] by simp
    then have lt: "unat (drop_bit 12 v) < 1024" unfolding unat_drop_bit_div by (simp add: less_mult_imp_div_less)
    have pde: "page_directory (init_paging s) ! unat (drop_bit 22 v) = page_table_at s OR 1"
      unfolding low t by simp
    have pte: "(replicate 1024 0)[184 := 0xB8003] ! unat (drop_bit 12 v) = (if drop_bit 12 v = 0xB8 then 0xB8003 else (0 :: u32))"
      using lt by (simp add: nth_list_update word_unat_eq_iff)
    have "\<not> entry_allows User_Access (page_table_at s OR 1)" "entry_allows Kernel_Access (page_table_at s OR 1)"
      using e by (simp_all add: entry_allows_def)
    moreover have "push_bit 12 0xB8 + (v AND 0xFFF) = v" if "drop_bit 12 v = 0xB8"
      using same_page [OF that] by simp
    ultimately show ?thesis
      using low unfolding translate_def pde Let_def e(1) tab ix option.case pte
      by (simp add: e entry_allows_def)
  next
    case kernel
    then show ?thesis
      using page_split(2) [of v] by (simp add: translate_def t entry_allows_def Let_def)
  next
    case other
    then have "unat (drop_bit 22 v) \<noteq> 0" "unat (drop_bit 22 v) \<noteq> 1" by (auto simp: word_unat_eq_iff)
    then have "page_directory (init_paging s) ! unat (drop_bit 22 v) = 0x80"
      using drop_22_bound [of v] by (simp add: t nth_Cons' )
    moreover have "drop_bit 12 v \<noteq> 0xB8"
    proof
      assume "drop_bit 12 v = 0xB8"
      then have "drop_bit 10 (drop_bit 12 v) = drop_bit 10 0xB8" by (simp only:)
      then show False using other(1) by simp
    qed
    ultimately show ?thesis
      using other unfolding translate_def Let_def by (simp add: entry_allows_def)
  qed
qed

section \<open>Properties\<close>

text \<open>
  After \<^verbatim>\<open>init_paging\<close> exactly two ranges translate, each to itself and for the kernel only: the
  page of the frame buffer at 0xB8000 and the 4 MB of the kernel at 0x400000.
\<close>

theorem init_paging_translate:
  assumes "tables_wf s"
  shows "translate Kernel_Access (init_paging s) v =
      (if drop_bit 12 v = 0xB8 \<or> drop_bit 22 v = 1 then Some v else None) \<and>
    translate User_Access (init_paging s) v = None"
  using assms by (rule init_paging_walk)

definition reset_paging :: paging where
  "reset_paging = keyboard.extend (reset_keyboard 0 0)
     (paging.fields (replicate 1024 0) (replicate 1024 0) (replicate 1024 0) (replicate 1024 0)
        0x420000 0x421000 0x422000 (\<lambda>_ _. 0) 0)"

lemma reset_paging_wf: "tables_wf reset_paging"
  by (simp add: tables_wf_def reset_paging_def paging.defs keyboard.defs)

theorem init_paging_translate_witness:
  "translate Kernel_Access (init_paging reset_paging) 0xB8123 = Some 0xB8123 \<and>
   translate Kernel_Access (init_paging reset_paging) 0x8000000 = None"
  using init_paging_translate [OF reset_paging_wf, of "0xB8123"] init_paging_translate [OF reset_paging_wf, of "0x8000000"]
  by simp

text \<open>
  C24: With the entry of process \<open>pid\<close> in slot 32, the program window at 128 MB translates for user
  and kernel to the 4 MB frame at 8 MB plus 4 MB for each lower process number; the frames of two
  processes have no address in common.
\<close>

theorem process_window_translate:
  assumes "pid < 6" "in_window v" "length (page_directory s) = 1024"
  shows "translate acc (map_window (process_entry (of_nat pid)) s) v
       = Some (0x800000 + of_nat pid * 0x400000 + (v AND 0x3FFFFF)) \<and>
     (\<forall>q w. q < 6 \<and> in_window w \<and>
        translate acc (map_window (process_entry (of_nat q)) s) w = translate acc (map_window (process_entry (of_nat pid)) s) v
        \<longrightarrow> q = pid)"
proof -
  have tr: "translate acc (map_window (process_entry (of_nat q)) s) w
       = Some (frame_of (process_entry (of_nat q)) + (w AND 0x3FFFFF))" if "q < 6" "in_window w" for q w
  proof -
    have "page_directory (map_window (process_entry (of_nat q)) s) ! unat (drop_bit 22 w) = process_entry (of_nat q)"
      using that(2) assms(3) by (simp add: in_window_def)
    then show ?thesis
      unfolding translate_def Let_def
      using process_entry_bits(1-3) [OF that(1)] by (simp add: entry_allows_def frame_of_def)
  qed
  have "q = pid" if "q < 6" "frame_of (process_entry (of_nat q)) + (w AND 0x3FFFFF) = frame_of (process_entry (of_nat pid)) + (v AND 0x3FFFFF)"
    for q and w
  proof -
    have top: "(frame_of e + (u AND 0x3FFFFF)) AND 0xFFC00000 = frame_of e" for e u
    proof -
      have "frame_of e AND (u AND 0x3FFFFF) = 0"
        unfolding frame_of_def by (simp add: and.left_commute and.assoc)
      then have "frame_of e + (u AND 0x3FFFFF) = frame_of e OR (u AND 0x3FFFFF)" by (rule disjunctive_add_eq_or)
      then show ?thesis by (simp add: frame_of_def bit.conj_disj_distrib2 and.assoc)
    qed
    from that(2) have "frame_of (process_entry (of_nat q)) = frame_of (process_entry (of_nat pid))" by (metis top)
    with frames_distinct [OF that(1) assms(1)] show ?thesis by blast
  qed
  with tr [OF assms(1,2)] tr assms(1) show ?thesis by (auto simp: process_entry_bits)
qed

theorem process_window_translate_witness:
  "translate User_Access (map_window (process_entry 1) reset_paging) 0x08048000 = Some 0xC48000"
  using process_window_translate [of 1 "0x08048000" reset_paging User_Access]
  by (simp add: in_window_def reset_paging_def paging.defs keyboard.defs)

text \<open>
  C17: While another process is mapped, nothing that happens in the window reaches the first
  process: after switching from \<open>p\<close> to \<open>q\<close>, any change of memory and switching back, the window
  again holds what it held, and the rest of memory is kept.
\<close>

theorem window_isolation:
  assumes "p < 6" "q < 6" "p \<noteq> q" "length (page_directory s) = 1024"
    and "page_directory s ! 32 = process_entry (of_nat p)"
  shows "mem (map_window (process_entry (of_nat p)) ((map_window (process_entry (of_nat q)) s)\<lparr>mem := m\<rparr>))
       = (\<lambda>a. if in_window a then mem s a else m a)"
  using assms frames_distinct [OF assms(1-3)] process_entry_bits(1) [OF assms(1)] process_entry_bits(1) [OF assms(2)]
  by (auto simp: map_window_mem map_window_frames)

theorem window_isolation_witness:
  "let s = reset_paging\<lparr>page_directory := (replicate 1024 0)[32 := process_entry 0], mem := (\<lambda>_. 7)\<rparr>
   in mem (map_window (process_entry 0) ((map_window (process_entry 1) s)\<lparr>mem := (\<lambda>_. 9)\<rparr>)) 0x08048000 = 7"
  using window_isolation [of 0 1 "reset_paging\<lparr>page_directory := (replicate 1024 0)[32 := process_entry 0], mem := (\<lambda>_. 7)\<rparr>" "\<lambda>_. 9"]
  by (simp add: Let_def in_window_def)

end
