(* ===== verification/Process.thy ===== *)
theory Process
  imports Paging File_Sys
begin

text \<open>
  Processes: the control blocks of \<^verbatim>\<open>syscalls.h\<close> and the part of \<^verbatim>\<open>syscalls.c\<close> that creates and
  ends them.  \<^verbatim>\<open>PCB_array\<close> points to six blocks; here it is the list of the blocks, and a pointer to a
  block is its index.  An access through a NULL pointer or past the six pointers is \<open>None\<close>.

  \<^verbatim>\<open>sys_call_execute\<close> ends by entering the program and \<^verbatim>\<open>sys_call_halt\<close> by returning through the
  stack frame that \<^verbatim>\<open>sys_call_execute\<close> saved, so their results are control transfers.  The saved
  frame is the pair of stack registers, which are parameters of \<^verbatim>\<open>sys_call_execute\<close>; its local arrays
  lie in memory at the addresses of a \<open>locals\<close> record.
\<close>

section \<open>syscalls.h, multiprocess.h: the data\<close>

datatype device_ptr = NULL | RTC_DEV | DIR_DEV | FILE_DEV | STDIN | STDOUT

record file_block =
  file_op_table_ptr :: device_ptr
  fb_inode :: i32
  file_position :: i32
  fb_flags :: i32

record PCB =
  file_array :: "file_block list"
  process_id :: i32
  pcb_flag :: u8
  parent_PCB :: "nat option"
  pcb_esp :: u32
  pcb_ebp :: u32
  parent_ESP0 :: u32
  command_global :: "u8 list"
  isActive :: u8
  terminalNumber :: u8

record multiterminal =
  saved_keyboard_buffer :: u32
  cur_buffer_Size :: u16
  video_mem_hist :: u32
  execute_status :: u8
  pos_x :: u16
  pos_y :: u16
  mt_esp :: u32
  mt_ebp :: u32
  mt_esp0 :: u32
  mt_PID :: i32
  mt_PPID :: i32

record kernel = paging +
  PCB_array :: "PCB list"
  parent_process_ID :: u8
  current_process_ID :: u8
  three_term_buf :: "multiterminal list"
  nxt_term :: u8
  bootmebb :: u32
  read_directory_index :: u8

section \<open>Access to the control blocks\<close>

definition get_PCB :: "u8 \<Rightarrow> 'a kernel_scheme \<Rightarrow> PCB option" where
  "get_PCB i s = (if unat i < length (PCB_array s) then Some (PCB_array s ! unat i) else None)"

definition update_PCB :: "u8 \<Rightarrow> (PCB \<Rightarrow> PCB) \<Rightarrow> 'a kernel_scheme \<Rightarrow> 'a kernel_scheme" where
  "update_PCB i f s = s\<lparr>PCB_array := (PCB_array s)[unat i := f (PCB_array s ! unat i)]\<rparr>"

text \<open>The first free entry of a table, searched upwards.\<close>

fun first_free :: "('e \<Rightarrow> bool) \<Rightarrow> nat \<Rightarrow> 'e list \<Rightarrow> nat option" where
  "first_free free i [] = None"
| "first_free free i (e # es) = (if free e then Some i else first_free free (i + 1) es)"

section \<open>syscalls.c: processes\<close>

definition init_PCB_array :: "'a kernel_scheme \<Rightarrow> 'a kernel_scheme" where
  "init_PCB_array s =
     s\<lparr>PCB_array := map (\<lambda>p. p\<lparr>pcb_flag := 0, isActive := 0, terminalNumber := -1\<rparr>) (PCB_array s)\<rparr>"

definition closed_block :: file_block where
  "closed_block = \<lparr>file_op_table_ptr = NULL, fb_inode = -1, file_position = -1, fb_flags = 0\<rparr>"

definition halt_to_parent :: "nat \<Rightarrow> 'a kernel_scheme \<Rightarrow> 'a kernel_scheme option" where
  "halt_to_parent q s =
     (if q < length (PCB_array s)
      then let c = current_process_ID s;
               s = s\<lparr>PCB_array := (PCB_array s)[q := (PCB_array s ! q)\<lparr>isActive := 1\<rparr>]\<rparr>;
               s = update_PCB c (\<lambda>p. p\<lparr>isActive := 0, pcb_flag := 0, terminalNumber := -1\<rparr>) s;
               s = s\<lparr>parent_process_ID := ucast (process_id (PCB_array s ! q))\<rparr>;
               s = update_PCB c (\<lambda>p. p\<lparr>parent_PCB := None, pcb_esp := 0, pcb_ebp := 0\<rparr>) s
           in Some (s\<lparr>current_process_ID := ucast (process_id (PCB_array s ! q))\<rparr>)
      else None)"

datatype 's transfer =
    Returned i32 's
  | Enter_User u32 u32 's
  | Return_Through u32 u32 u32 's

definition sys_call_halt :: "u8 \<Rightarrow> 'a kernel_scheme \<Rightarrow> 'a kernel_scheme transfer option" where
  "sys_call_halt status s =
     do {
       parent \<leftarrow> get_PCB (parent_process_ID s) s;
       cur \<leftarrow> get_PCB (current_process_ID s) s;
       let s = s\<lparr>esp0 := parent_ESP0 cur\<rparr>;
       let s = update_PCB (current_process_ID s) (\<lambda>p. p\<lparr>file_array := map (\<lambda>_. closed_block) (file_array p)\<rparr>) s;
       s \<leftarrow> (case parent_PCB cur of
               None \<Rightarrow> None
             | Some q \<Rightarrow>
                 if q = unat (current_process_ID s)
                 then Some (update_PCB (current_process_ID s) (\<lambda>p. p\<lparr>pcb_flag := 0\<rparr>) s)
                 else halt_to_parent q s);
       let s = map_window (process_entry (ucast (current_process_ID s))) s;
       Some (Return_Through (ucast status) (pcb_esp parent) (pcb_ebp parent) s)
     }"

section \<open>syscalls.c: sys\_call\_execute\<close>

record exec_locals =
  word1 :: u32
  word2 :: u32
  exec_buf :: u32
  exec_dentry :: u32
  exec_message :: u32

text \<open>The loop that leaves the index of the last space in \<open>idx\<close>, and the split of the command.\<close>

fun last_space :: "nat \<Rightarrow> u32 \<Rightarrow> u32 \<Rightarrow> memory \<Rightarrow> u32 \<Rightarrow> u32" where
  "last_space 0 i idx m command = idx"
| "last_space (Suc k) i idx m command =
     last_space k (i + 1) (if m (command + i) = 32 then i else idx) m command"

definition split_command :: "exec_locals \<Rightarrow> u32 \<Rightarrow> u32 \<Rightarrow> memory \<Rightarrow> memory" where
  "split_command L command len m =
     (let idx = last_space (unat len) 0 0 m command;
          idx = (if idx = 0 then len else idx);
          m = copy_buffer (unat idx) command (word1 L) m;
          m = m(word1 L + idx := 0)
      in if idx = len - 1 then m(word2 L + 1 := 0) else m)"

text \<open>
  \<^verbatim>\<open>command_global[pid][i] = v\<close>: the array is the last but two members of the block, so an index
  past its 240 bytes writes \<^verbatim>\<open>isActive\<close>, then \<^verbatim>\<open>terminalNumber\<close>, then two bytes of padding, and then
  leaves the block.
\<close>

definition set_command :: "nat \<Rightarrow> u8 \<Rightarrow> PCB \<Rightarrow> PCB option" where
  "set_command o' v p =
     (if o' < 240 then Some (p\<lparr>command_global := (command_global p)[o' := v]\<rparr>)
      else if o' = 240 then Some (p\<lparr>isActive := v\<rparr>)
      else if o' = 241 then Some (p\<lparr>terminalNumber := v\<rparr>)
      else if o' < 244 then Some p
      else None)"

fun store_command :: "u8 list \<Rightarrow> nat \<Rightarrow> PCB \<Rightarrow> PCB option" where
  "store_command [] o' p = Some p"
| "store_command (v # vs) o' p = Option.bind (set_command o' v p) (store_command vs (o' + 1))"

definition set_name :: "u8 list \<Rightarrow> 'a kernel_scheme \<Rightarrow> 'a kernel_scheme option" where
  "set_name name s =
     do {
       p \<leftarrow> get_PCB (current_process_ID s) s;
       let base = 40 * unat (current_process_ID s);
       p \<leftarrow> store_command (replicate 40 0) base p;
       p \<leftarrow> store_command name base p;
       Some (update_PCB (current_process_ID s) (\<lambda>_. p) s)
     }"

definition stdin_block :: file_block where
  "stdin_block = \<lparr>file_op_table_ptr = STDIN, fb_inode = -1, file_position = 0, fb_flags = 1\<rparr>"

definition stdout_block :: file_block where
  "stdout_block = \<lparr>file_op_table_ptr = STDOUT, fb_inode = -1, file_position = 0, fb_flags = 1\<rparr>"

definition free_block :: file_block where
  "free_block = \<lparr>file_op_table_ptr = NULL, fb_inode = -1, file_position = 0, fb_flags = 0\<rparr>"

definition initial_file_array :: "file_block list" where
  "initial_file_array = stdin_block # stdout_block # replicate 6 free_block"

text \<open>Claiming the first free block: it gets its index as number and becomes the current process.\<close>

definition claim_PCB :: "'a kernel_scheme \<Rightarrow> 'a kernel_scheme option" where
  "claim_PCB s =
     (case first_free (\<lambda>p. pcb_flag p = 0) 0 (PCB_array s) of
        None \<Rightarrow> None
      | Some i \<Rightarrow>
          Some ((update_PCB (of_nat i) (\<lambda>p. p\<lparr>process_id := of_nat i, pcb_flag := 1\<rparr>) s)
                  \<lparr>current_process_ID := of_nat i\<rparr>))"

text \<open>The file array and the parent of the new process.\<close>

definition init_process :: "'a kernel_scheme \<Rightarrow> 'a kernel_scheme" where
  "init_process s =
     (let c = current_process_ID s;
          s = update_PCB c (\<lambda>p. p\<lparr>file_array := initial_file_array\<rparr>) s
      in if c \<noteq> 0
         then (update_PCB c (\<lambda>p. p\<lparr>parent_PCB := Some (unat (parent_process_ID s))\<rparr>) s)\<lparr>parent_process_ID := c\<rparr>
         else update_PCB c (\<lambda>p. p\<lparr>parent_PCB := Some (unat c)\<rparr>) s)"

text \<open>The first program of a terminal has itself as parent; any other one takes over its parent's terminal.\<close>

definition attach_terminal :: "'a kernel_scheme \<Rightarrow> 'a kernel_scheme option" where
  "attach_terminal s =
     (let c = current_process_ID s; t = unat (nxt_term s) in
      if t < length (three_term_buf s)
      then
        let s = (if execute_status (three_term_buf s ! t) = 0
                 then (update_PCB c (\<lambda>p. p\<lparr>parent_PCB := Some (unat c), isActive := 1, terminalNumber := nxt_term s\<rparr>) s)
                        \<lparr>three_term_buf := (three_term_buf s)[t := (three_term_buf s ! t)\<lparr>execute_status := 1\<rparr>]\<rparr>
                 else s)
        in case parent_PCB (PCB_array s ! unat c) of
             None \<Rightarrow> None
           | Some q \<Rightarrow>
               if q = unat c then Some s
               else if q < length (PCB_array s)
               then let s = s\<lparr>PCB_array := (PCB_array s)[q := (PCB_array s ! q)\<lparr>isActive := 0\<rparr>]\<rparr>
                    in Some (update_PCB c (\<lambda>p. p\<lparr>isActive := 1, terminalNumber := terminalNumber (PCB_array s ! q)\<rparr>) s)
               else None
      else None)"

definition entry_point :: "u32 \<Rightarrow> memory \<Rightarrow> u32" where
  "entry_point buf m =
     (let word3 = 0 OR ucast (m (buf + 27)); word3 = push_bit 8 word3 OR ucast (m (buf + 26));
          word3 = push_bit 8 word3 OR ucast (m (buf + 25))
      in push_bit 8 word3 OR ucast (m (buf + 24)))"

definition kernel_stack :: "u8 \<Rightarrow> u32" where
  "kernel_stack pid = 0x800000 - 0x2000 - 0x2000 * ucast pid - 4"

text \<open>The last part: the stack pointers, and the transfer to the program.\<close>

definition enter_program :: "u32 \<Rightarrow> u32 \<Rightarrow> u32 \<Rightarrow> 'a kernel_scheme \<Rightarrow> 'a kernel_scheme transfer" where
  "enter_program buf cur_esp cur_ebp s =
     (let c = current_process_ID s;
          s = update_PCB c (\<lambda>p. p\<lparr>parent_ESP0 := esp0 s\<rparr>) s;
          s = s\<lparr>esp0 := kernel_stack c\<rparr>;
          s = update_PCB c (\<lambda>p. p\<lparr>pcb_esp := cur_esp, pcb_ebp := cur_ebp\<rparr>) s
      in Enter_User (entry_point buf (mem s)) (0x8000000 + 0x400000 - 4) s)"

text \<open>Paging, loading and starting, once a block has been claimed.\<close>

definition start_process ::
  "exec_locals \<Rightarrow> u32 \<Rightarrow> u32 \<Rightarrow> 'a kernel_scheme \<Rightarrow> 'a kernel_scheme transfer option" where
  "start_process L cur_esp cur_ebp s =
     (let s = init_process s;
          s = map_window (process_entry (ucast (current_process_ID s))) s;
          inode' = inode_num (mem s) (exec_dentry L);
          size' = b_length (mem s) (inode_address (bootmebb s) inode');
          (m, r) = read_data (mem s) (bootmebb s) inode' 0 0x08048000 size';
          s = s\<lparr>mem := m\<rparr>
      in if r = -1 then Some (Returned (-1) s)
         else map_option (enter_program (exec_buf L) cur_esp cur_ebp) (attach_terminal s))"

text \<open>A message built in a local array at \<open>a\<close>, with or without a terminating zero, and written out.\<close>

definition say :: "u32 \<Rightarrow> u8 list \<Rightarrow> nat \<Rightarrow> 'a kernel_scheme \<Rightarrow> 'a kernel_scheme" where
  "say a chars n s = snd (write_Terminal a (of_nat n) (s\<lparr>mem := store_bytes (mem s) a chars\<rparr>))"

definition magic_ok :: "memory \<Rightarrow> u32 \<Rightarrow> bool" where
  "magic_ok m buf \<longleftrightarrow> m buf = 0x7F \<and> m (buf + 1) = 0x45 \<and> m (buf + 2) = 0x4C \<and> m (buf + 3) = 0x46"

definition too_many :: "u8 list" where
  "too_many = ascii ''You greedy little boy. You exceeded max number of processes'' @ [10]"

text \<open>From the search for a block on.\<close>

definition create_process ::
  "exec_locals \<Rightarrow> u32 \<Rightarrow> u32 \<Rightarrow> u8 list \<Rightarrow> 'a kernel_scheme \<Rightarrow> 'a kernel_scheme transfer option" where
  "create_process L cur_esp cur_ebp name s =
     (case claim_PCB s of
        None \<Rightarrow>
          (case set_name name s of
             None \<Rightarrow> None
           | Some s \<Rightarrow> Some (Returned 0 (say (exec_message L) (too_many @ [0]) (length too_many) s)))
      | Some s \<Rightarrow>
          (case set_name name s of
             None \<Rightarrow> None
           | Some s \<Rightarrow> start_process L cur_esp cur_ebp s))"

definition sys_call_execute ::
  "exec_locals \<Rightarrow> u32 \<Rightarrow> u32 \<Rightarrow> u32 \<Rightarrow> 'a kernel_scheme \<Rightarrow> 'a kernel_scheme transfer option" where
  "sys_call_execute L cur_esp cur_ebp command s =
     (case strlen (mem s) command of
        None \<Rightarrow> None
      | Some len \<Rightarrow>
          let s = s\<lparr>mem := split_command L command len (mem s)\<rparr>;
              (m, r) = read_dentry_by_name (mem s) (bootmebb s) (word1 L) (exec_dentry L);
              s = s\<lparr>mem := m\<rparr>
          in if r = -1 then Some (Returned (-1) s)
             else
               let (m, r) = read_data (mem s) (bootmebb s) (inode_num (mem s) (exec_dentry L)) 0 (exec_buf L) 40;
                   s = s\<lparr>mem := m\<rparr>
               in if r = -1 then Some (Returned (-1) (say (exec_message L) (ascii ''Read data died'') 14 s))
                  else if \<not> magic_ok (mem s) (exec_buf L) then Some (Returned (-1) s)
                  else create_process L cur_esp cur_ebp (bytes (mem s) command (unat len)) s)"

section \<open>Frames\<close>

text \<open>The screen routines do not touch what a state has beyond the keyboard's record.\<close>

lemma more_WriteCharacter [simp]: "keyboard.more (WriteCharacter c f b tx ty s) = keyboard.more s"
  by (simp add: WriteCharacter_def Let_def)

lemma more_fb_move_cursor [simp]: "keyboard.more (fb_move_cursor r c s) = keyboard.more s"
  by (simp add: fb_move_cursor_def outb_def Let_def)

lemma more_blank_line [simp]: "keyboard.more (blank_line k j r s) = keyboard.more s"
  by (induction k arbitrary: j s) simp_all

lemma more_scroll [simp]: "keyboard.more (scroll s) = keyboard.more s"
  by (simp add: scroll_def Let_def)

lemma more_last_line [simp]: "keyboard.more (snd (last_line ty s)) = keyboard.more s"
  by (simp add: last_line_def Let_def)

lemma more_last_lineD: "last_line ty s = (ty', s') \<Longrightarrow> keyboard.more s' = keyboard.more s"
  by (metis more_last_line snd_conv)

lemma more_write_char [simp]: "keyboard.more (snd (snd (write_Terminal_char c st))) = keyboard.more (snd (snd st))"
  by (cases st) (auto simp: write_Terminal_char_def Let_def setX_def setY_def split: prod.splits dest!: more_last_lineD)

lemma more_write_loop [simp]: "keyboard.more (snd (snd (write_Terminal_loop k buf st))) = keyboard.more (snd (snd st))"
  by (induction k arbitrary: buf st) simp_all

lemma more_write_Terminal [simp]: "keyboard.more (snd (write_Terminal buf n s)) = keyboard.more s"
proof -
  obtain ty t where l: "(if (if getY s = 26 then getY s - 1 else getY s) = 25
      then last_line (if getY s = 26 then getY s - 1 else getY s) s
      else (if getY s = 26 then getY s - 1 else getY s, s)) = (ty, t)" by fastforce
  then have t: "keyboard.more t = keyboard.more s" by (auto split: if_splits dest: more_last_lineD)
  obtain tx' ty' t' where loop: "write_Terminal_loop (nat (sint n)) buf (getX s, ty, t) = (tx', ty', t')"
    by (metis prod_cases3)
  from more_write_loop [of "nat (sint n)" buf "(getX s, ty, t)"] have "keyboard.more t' = keyboard.more t"
    unfolding loop by simp
  then show ?thesis
    unfolding write_Terminal_def Let_def l by (simp add: loop t setX_def setY_def)
qed

text \<open>What the process operations look at.\<close>

definition process_view :: "'a kernel_scheme \<Rightarrow> PCB list \<times> u8 \<times> u8 \<times> multiterminal list \<times> u8 \<times> u32 list \<times> u32" where
  "process_view s = (PCB_array s, parent_process_ID s, current_process_ID s, three_term_buf s, nxt_term s,
     page_directory s, esp0 s)"

lemma more_eq_view: "keyboard.more s = keyboard.more t \<Longrightarrow> process_view s = process_view t"
  by (cases s; cases t) (simp add: process_view_def)

lemma view_say [simp]: "process_view (say a cs n s) = process_view s"
  unfolding say_def by (rule more_eq_view) simp

lemma view_mem [simp]: "process_view (s\<lparr>mem := m\<rparr>) = process_view s"
  by (simp add: process_view_def)

lemma view_eqD:
  assumes "process_view s = process_view t"
  shows "PCB_array s = PCB_array t" "parent_process_ID s = parent_process_ID t"
    "current_process_ID s = current_process_ID t" "three_term_buf s = three_term_buf t"
    "nxt_term s = nxt_term t" "page_directory s = page_directory t" "esp0 s = esp0 t"
  using assms by (simp_all add: process_view_def)

lemma update_PCB_fields [simp]:
  "PCB_array (update_PCB i f s) = (PCB_array s)[unat i := f (PCB_array s ! unat i)]"
  "parent_process_ID (update_PCB i f s) = parent_process_ID s"
  "current_process_ID (update_PCB i f s) = current_process_ID s"
  "three_term_buf (update_PCB i f s) = three_term_buf s" "nxt_term (update_PCB i f s) = nxt_term s"
  "page_directory (update_PCB i f s) = page_directory s" "esp0 (update_PCB i f s) = esp0 s"
  "mem (update_PCB i f s) = mem s" "bootmebb (update_PCB i f s) = bootmebb s" "frames (update_PCB i f s) = frames s"
  by (simp_all add: update_PCB_def)

lemma map_window_fields [simp]:
  "PCB_array (map_window e s) = PCB_array s" "parent_process_ID (map_window e s) = parent_process_ID s"
  "current_process_ID (map_window e s) = current_process_ID s"
  "three_term_buf (map_window e s) = three_term_buf s" "nxt_term (map_window e s) = nxt_term s"
  "esp0 (map_window e s) = esp0 s" "bootmebb (map_window e s) = bootmebb s"
  by (simp_all add: map_window_def Let_def)

section \<open>The slot table\<close>

lemma first_free_Some:
  "first_free free i es = Some k \<longleftrightarrow>
     i \<le> k \<and> k < i + length es \<and> free (es ! (k - i)) \<and> (\<forall>j < k - i. \<not> free (es ! j))"
proof (induction es arbitrary: i)
  case (Cons e es)
  show ?case
  proof (cases "free e")
    case True
    then show ?thesis by (auto simp: nth_Cons split: nat.splits)
  next
    case False
    have "(\<forall>j < k - i. \<not> free ((e # es) ! j)) \<longleftrightarrow> (\<forall>j < k - (i + 1). \<not> free (es ! j))" if lt: "i < k"
    proof -
      obtain d where "k - i = Suc d" "k - (i + 1) = d" using lt by (cases "k - i") auto
      then show ?thesis using False by (auto simp: nth_Cons split: nat.splits)
    qed
    with False Cons.IH [of "i + 1"] show ?thesis
      by (cases "i < k") (auto simp: nth_Cons' Suc_diff_Suc not_less)
  qed
qed simp

lemma first_free_None: "first_free free i es = None \<longleftrightarrow> (\<forall>e \<in> set es. \<not> free e)"
  by (induction es arbitrary: i) auto

text \<open>
  The contract of a table of slots, of which the kernel has two kinds: the process table and the
  file array of a process.
\<close>

locale slot_table =
  fixes alloc :: "'t \<Rightarrow> nat option" and used :: "'t \<Rightarrow> nat \<Rightarrow> bool" and slots :: "'t \<Rightarrow> nat set"
    and claim :: "nat \<Rightarrow> 't \<Rightarrow> 't" and release :: "nat \<Rightarrow> 't \<Rightarrow> 't"
  assumes alloc_Some: "alloc t = Some k \<Longrightarrow> k \<in> slots t \<and> \<not> used t k \<and> (\<forall>j \<in> slots t. j < k \<longrightarrow> used t j)"
    and alloc_None: "alloc t = None \<Longrightarrow> j \<in> slots t \<Longrightarrow> used t j"
    and slots_claim: "slots (claim k t) = slots t" and slots_release: "slots (release k t) = slots t"
    and used_claim: "k \<in> slots t \<Longrightarrow> used (claim k t) j \<longleftrightarrow> j = k \<or> used t j"
    and used_release: "k \<in> slots t \<Longrightarrow> used (release k t) j \<longleftrightarrow> j \<noteq> k \<and> used t j"
    and finite_slots: "finite (slots t)"
begin

definition in_use :: "'t \<Rightarrow> nat set" where
  "in_use t = {j \<in> slots t. used t j}"

lemma alloc_iff: "alloc t = Some k \<longleftrightarrow> k \<in> slots t \<and> \<not> used t k \<and> (\<forall>j \<in> slots t. j < k \<longrightarrow> used t j)"
proof
  assume k: "k \<in> slots t \<and> \<not> used t k \<and> (\<forall>j \<in> slots t. j < k \<longrightarrow> used t j)"
  then obtain i where i: "alloc t = Some i" using alloc_None by (cases "alloc t") auto
  from alloc_Some [OF i] k have "i = k" by (metis linorder_neqE_nat)
  with i show "alloc t = Some k" by simp
qed (rule alloc_Some)

lemma alloc_full: "alloc t = None \<longleftrightarrow> in_use t = slots t"
proof (cases "alloc t")
  case None
  with alloc_None [OF None] show ?thesis by (auto simp: in_use_def)
next
  case (Some k)
  with alloc_Some [OF Some] show ?thesis by (auto simp: in_use_def)
qed

lemma claim_alloc: "alloc t = Some k \<Longrightarrow> in_use (claim k t) = insert k (in_use t) \<and> k \<notin> in_use t"
  using alloc_Some [of t k] by (auto simp: in_use_def slots_claim used_claim)

lemma count_claim: "alloc t = Some k \<Longrightarrow> card (in_use (claim k t)) = Suc (card (in_use t))"
  using claim_alloc [of t k] finite_slots by (simp add: in_use_def)

lemma release_claim: "alloc t = Some k \<Longrightarrow> in_use (release k (claim k t)) = in_use t \<and> alloc (release k (claim k t)) = Some k"
proof -
  assume "alloc t = Some k"
  from alloc_Some [OF this] have k: "k \<in> slots t" "\<not> used t k" "\<forall>j \<in> slots t. j < k \<longrightarrow> used t j" by simp_all
  then have "used (release k (claim k t)) j \<longleftrightarrow> used t j" for j
    by (auto simp: used_release used_claim slots_claim)
  then show ?thesis
    using k unfolding alloc_iff by (simp add: in_use_def slots_claim slots_release)
qed

end

definition pcb_used :: "PCB list \<Rightarrow> nat \<Rightarrow> bool" where
  "pcb_used ps i \<longleftrightarrow> pcb_flag (ps ! i) \<noteq> 0"

definition pcb_alloc :: "PCB list \<Rightarrow> nat option" where
  "pcb_alloc ps = first_free (\<lambda>p. pcb_flag p = 0) 0 ps"

definition pcb_claim :: "nat \<Rightarrow> PCB list \<Rightarrow> PCB list" where
  "pcb_claim i ps = ps[i := (ps ! i)\<lparr>process_id := of_nat i, pcb_flag := 1\<rparr>]"

definition pcb_release :: "nat \<Rightarrow> PCB list \<Rightarrow> PCB list" where
  "pcb_release i ps = ps[i := (ps ! i)\<lparr>pcb_flag := 0\<rparr>]"

interpretation pcbs: slot_table pcb_alloc pcb_used "\<lambda>ps. {..<length ps}" pcb_claim pcb_release
proof unfold_locales
  fix ps :: "PCB list" and k j :: nat
  show "pcb_alloc ps = Some k \<Longrightarrow> k \<in> {..<length ps} \<and> \<not> pcb_used ps k \<and> (\<forall>j \<in> {..<length ps}. j < k \<longrightarrow> pcb_used ps j)"
    unfolding pcb_alloc_def pcb_used_def first_free_Some by (metis add_0 diff_zero lessThan_iff)
  show "pcb_alloc ps = None \<Longrightarrow> j \<in> {..<length ps} \<Longrightarrow> pcb_used ps j"
    unfolding pcb_alloc_def pcb_used_def first_free_None by (metis lessThan_iff nth_mem)
  show "{..<length (pcb_claim k ps)} = {..<length ps}" by (simp add: pcb_claim_def)
  show "{..<length (pcb_release k ps)} = {..<length ps}" by (simp add: pcb_release_def)
  show "k \<in> {..<length ps} \<Longrightarrow> pcb_used (pcb_claim k ps) j \<longleftrightarrow> j = k \<or> pcb_used ps j"
    by (simp add: pcb_used_def pcb_claim_def nth_list_update)
  show "k \<in> {..<length ps} \<Longrightarrow> pcb_used (pcb_release k ps) j \<longleftrightarrow> j \<noteq> k \<and> pcb_used ps j"
    by (simp add: pcb_used_def pcb_release_def nth_list_update)
  show "finite {..<length ps}" by simp
qed

section \<open>Creating a process\<close>

lemma set_command_fields:
  "set_command i v p = Some p' \<Longrightarrow>
     p' = p\<lparr>command_global := command_global p', isActive := isActive p', terminalNumber := terminalNumber p'\<rparr>"
  by (cases p) (auto simp: set_command_def split: if_splits)

lemma store_command_fields:
  "store_command vs i p = Some p' \<Longrightarrow>
     p' = p\<lparr>command_global := command_global p', isActive := isActive p', terminalNumber := terminalNumber p'\<rparr>"
proof (induction vs arbitrary: i p)
  case Nil
  then show ?case by simp
next
  case (Cons v vs)
  then obtain q where q: "set_command i v p = Some q" "store_command vs (i + 1) q = Some p'"
    by (auto simp: bind_eq_Some_conv)
  from set_command_fields [OF q(1)] Cons.IH [OF q(2)] show ?case
    by (cases p; cases q; cases p') auto
qed

lemma claim_PCB_Some:
  assumes "claim_PCB s = Some t"
  obtains k where "pcb_alloc (PCB_array s) = Some k"
    "t = (update_PCB (of_nat k) (\<lambda>p. p\<lparr>process_id := of_nat k, pcb_flag := 1\<rparr>) s)\<lparr>current_process_ID := of_nat k\<rparr>"
  using assms by (auto simp: claim_PCB_def pcb_alloc_def split: option.splits)

lemma list_update_again: "p \<noteq> k \<Longrightarrow> xs[k := a, p := b, k := c] = xs[p := b, k := c]"
  by (simp add: list_update_swap)

lemma unat_slot [simp]: "k < 256 \<Longrightarrow> unat (of_nat k :: u8) = k"
  by (simp add: unat_of_nat)

lemma set_name_view:
  assumes "set_name name s = Some t"
  obtains q a b d where "unat (current_process_ID s) < length (PCB_array s)"
    "t = update_PCB (current_process_ID s) (\<lambda>_. q) s"
    "q = (PCB_array s ! unat (current_process_ID s))\<lparr>command_global := a, isActive := b, terminalNumber := d\<rparr>"
proof -
  let ?c = "current_process_ID s"
  obtain p q where q: "get_PCB ?c s = Some p" "t = update_PCB ?c (\<lambda>_. q) s"
    and "Option.bind (store_command (replicate 40 0) (40 * unat ?c) p) (store_command name (40 * unat ?c)) = Some q"
    using assms by (auto simp: set_name_def Let_def bind_eq_Some_conv)
  then obtain p' where "store_command (replicate 40 0) (40 * unat ?c) p = Some p'" "store_command name (40 * unat ?c) p' = Some q"
    by (auto simp: bind_eq_Some_conv)
  from store_command_fields [OF this(1)] store_command_fields [OF this(2)]
  have "q = p\<lparr>command_global := command_global q, isActive := isActive q, terminalNumber := terminalNumber q\<rparr>"
    by (cases p; cases p'; cases q) simp
  with q show thesis
    by (intro that [where q = q and a = "command_global q" and b = "isActive q" and d = "terminalNumber q"]) (auto simp: get_PCB_def split: if_splits)
qed

text \<open>What a block looks like between its claim and the start of the program.\<close>

lemma claimed_block:
  assumes "claim_PCB s = Some t" "set_name name t = Some u" "length (PCB_array s) = 6"
  obtains k q where "pcb_alloc (PCB_array s) = Some k" "PCB_array u = (PCB_array s)[k := q]"
    "process_id q = of_nat k" "pcb_flag q = 1" "current_process_ID u = of_nat k"
    "parent_process_ID u = parent_process_ID s" "three_term_buf u = three_term_buf s" "nxt_term u = nxt_term s"
    "page_directory u = page_directory s" "esp0 u = esp0 s" "mem u = mem s" "frames u = frames s" "bootmebb u = bootmebb s"
proof -
  from claim_PCB_Some [OF assms(1)] obtain k where k: "pcb_alloc (PCB_array s) = Some k"
    and t: "t = (update_PCB (of_nat k) (\<lambda>p. p\<lparr>process_id := of_nat k, pcb_flag := 1\<rparr>) s)\<lparr>current_process_ID := of_nat k\<rparr>" .
  from k pcbs.alloc_iff assms(3) have k6: "k < 6" by auto
  from set_name_view [OF assms(2)] obtain q a b d where u: "u = update_PCB (current_process_ID t) (\<lambda>_. q) t"
    and q: "q = (PCB_array t ! unat (current_process_ID t))\<lparr>command_global := a, isActive := b, terminalNumber := d\<rparr>" .
  have c: "unat (current_process_ID t) = k" using k6 by (simp add: t)
  have kt: "PCB_array t = (PCB_array s)[k := (PCB_array s ! k)\<lparr>process_id := of_nat k, pcb_flag := 1\<rparr>]"
    using k6 by (simp add: t)
  then have "PCB_array t ! k = (PCB_array s ! k)\<lparr>process_id := of_nat k, pcb_flag := 1\<rparr>"
    using k6 assms(3) by simp
  with q have "process_id q = of_nat k" "pcb_flag q = 1" unfolding c by simp_all
  moreover have "PCB_array u = (PCB_array s)[k := q]" by (simp add: u c kt)
  ultimately show thesis by (intro that [of k q] k) (simp_all add: u t)
qed

lemma init_process_child:
  assumes "current_process_ID s = of_nat k" "0 < k" "k < length (PCB_array s)" "length (PCB_array s) = 6"
  shows "PCB_array (init_process s) = (PCB_array s)[k := (PCB_array s ! k)
           \<lparr>file_array := initial_file_array, parent_PCB := Some (unat (parent_process_ID s))\<rparr>]"
    "parent_process_ID (init_process s) = of_nat k" "current_process_ID (init_process s) = of_nat k"
    "three_term_buf (init_process s) = three_term_buf s" "nxt_term (init_process s) = nxt_term s"
    "page_directory (init_process s) = page_directory s" "esp0 (init_process s) = esp0 s"
    "mem (init_process s) = mem s" "frames (init_process s) = frames s" "bootmebb (init_process s) = bootmebb s"
proof -
  have "unat (of_nat k :: u8) \<noteq> 0" using assms by simp
  then have "(of_nat k :: u8) \<noteq> 0" by auto
  then show "PCB_array (init_process s) = (PCB_array s)[k := (PCB_array s ! k)
           \<lparr>file_array := initial_file_array, parent_PCB := Some (unat (parent_process_ID s))\<rparr>]"
    "parent_process_ID (init_process s) = of_nat k" "current_process_ID (init_process s) = of_nat k"
    "three_term_buf (init_process s) = three_term_buf s" "nxt_term (init_process s) = nxt_term s"
    "page_directory (init_process s) = page_directory s" "esp0 (init_process s) = esp0 s"
    "mem (init_process s) = mem s" "frames (init_process s) = frames s" "bootmebb (init_process s) = bootmebb s"
    using assms by (simp_all add: init_process_def Let_def)
qed

lemma attach_child:
  assumes "attach_terminal s = Some t" "current_process_ID s = of_nat k" "k < 6" "length (PCB_array s) = 6"
    "execute_status (three_term_buf s ! unat (nxt_term s)) \<noteq> 0" "parent_PCB (PCB_array s ! k) = Some p" "p \<noteq> k"
  shows "p < 6" "PCB_array t = (PCB_array s)
      [p := (PCB_array s ! p)\<lparr>isActive := 0\<rparr>,
       k := (PCB_array s ! k)\<lparr>isActive := 1, terminalNumber := terminalNumber (PCB_array s ! p)\<rparr>]"
    "parent_process_ID t = parent_process_ID s" "current_process_ID t = of_nat k"
    "three_term_buf t = three_term_buf s" "nxt_term t = nxt_term s" "page_directory t = page_directory s"
    "esp0 t = esp0 s" "frames t = frames s" "mem t = mem s"
  using assms by (auto simp: attach_terminal_def Let_def split: if_splits)

text \<open>The block of a process that has just been started, and what starting it changes.\<close>

definition child_block :: "nat \<Rightarrow> nat \<Rightarrow> u32 \<Rightarrow> u32 \<Rightarrow> u32 \<Rightarrow> u8 \<Rightarrow> PCB \<Rightarrow> bool" where
  "child_block k p esp' ebp' e0 term q \<longleftrightarrow>
     file_array q = initial_file_array \<and> process_id q = of_nat k \<and> pcb_flag q = 1 \<and> parent_PCB q = Some p \<and>
     pcb_esp q = esp' \<and> pcb_ebp q = ebp' \<and> parent_ESP0 q = e0 \<and> isActive q = 1 \<and> terminalNumber q = term"

lemma start_child:
  assumes "start_process L esp' ebp' s = Some (Enter_User eip usp u)"
    "current_process_ID s = of_nat k" "0 < k" "k < 6" "length (PCB_array s) = 6"
    "execute_status (three_term_buf s ! unat (nxt_term s)) \<noteq> 0"
    "process_id (PCB_array s ! k) = of_nat k" "pcb_flag (PCB_array s ! k) = 1" "unat (parent_process_ID s) \<noteq> k"
  obtains q where "unat (parent_process_ID s) < 6"
    "PCB_array u = (PCB_array s)[unat (parent_process_ID s) := (PCB_array s ! unat (parent_process_ID s))\<lparr>isActive := 0\<rparr>, k := q]"
    "child_block k (unat (parent_process_ID s)) esp' ebp' (esp0 s)
       (terminalNumber (PCB_array s ! unat (parent_process_ID s))) q"
    "parent_process_ID u = of_nat k" "current_process_ID u = of_nat k" "three_term_buf u = three_term_buf s"
    "nxt_term u = nxt_term s" "page_directory u = (page_directory s)[32 := process_entry (of_nat k)]"
    "esp0 u = kernel_stack (of_nat k)" "frames u = frames (map_window (process_entry (of_nat k)) s)"
proof -
  let ?p = "unat (parent_process_ID s)"
  have uk: "(ucast (of_nat k :: u8) :: u32) = of_nat k" by (rule pid_cases [OF assms(4)]) simp_all
  define i where "i = init_process s"
  note init = init_process_child [OF assms(2,3) _ assms(5), unfolded assms(5), OF assms(4), folded i_def]
  define w where "w = map_window (process_entry (of_nat k)) i"
  obtain m t where t: "attach_terminal (w\<lparr>mem := m\<rparr>) = Some t" "enter_program (exec_buf L) esp' ebp' t = Enter_User eip usp u"
    using assms(1) unfolding start_process_def Let_def i_def [symmetric] init(3) uk w_def [symmetric]
    by (auto split: prod.splits if_splits)
  have w: "PCB_array w ! k = (PCB_array s ! k)\<lparr>file_array := initial_file_array, parent_PCB := Some ?p\<rparr>"
    using assms(4,5) by (simp add: w_def init)
  have t': "PCB_array t = (PCB_array w)[?p := (PCB_array w ! ?p)\<lparr>isActive := 0\<rparr>,
       k := (PCB_array w ! k)\<lparr>isActive := 1, terminalNumber := terminalNumber (PCB_array w ! ?p)\<rparr>]"
    "?p < 6" "parent_process_ID t = of_nat k" "current_process_ID t = of_nat k" "three_term_buf t = three_term_buf s"
    "nxt_term t = nxt_term s" "page_directory t = page_directory w" "esp0 t = esp0 s" "frames t = frames w"
    using attach_child [OF t(1), of k ?p] w assms by (simp_all add: init w_def)
  have u: "u = update_PCB (of_nat k) (\<lambda>p. p\<lparr>pcb_esp := esp', pcb_ebp := ebp'\<rparr>)
     ((update_PCB (of_nat k) (\<lambda>p. p\<lparr>parent_ESP0 := esp0 t\<rparr>) t)\<lparr>esp0 := kernel_stack (of_nat k)\<rparr>)"
    using t(2) by (simp add: enter_program_def Let_def t')
  have fr: "frames w = frames (map_window (process_entry (of_nat k)) s)"
    by (simp add: w_def map_window_def Let_def init cong: if_cong)
  define x where "x = (PCB_array s ! k)\<lparr>file_array := initial_file_array, parent_PCB := Some ?p\<rparr>"
  define q where "q = x\<lparr>isActive := 1, terminalNumber := terminalNumber (PCB_array s ! ?p),
    parent_ESP0 := esp0 s, pcb_esp := esp', pcb_ebp := ebp'\<rparr>"
  have ws: "PCB_array w = (PCB_array s)[k := x]" "(PCB_array s)[k := x] ! k = x"
    "(PCB_array s)[k := x] ! ?p = PCB_array s ! ?p"
    using assms by (simp_all add: w_def init x_def)
  have "PCB_array t = (PCB_array s)[?p := (PCB_array s ! ?p)\<lparr>isActive := 0\<rparr>,
      k := x\<lparr>isActive := 1, terminalNumber := terminalNumber (PCB_array s ! ?p)\<rparr>]"
    unfolding t'(1) ws using assms by (simp add: list_update_again)
  then have "PCB_array u = (PCB_array s)[?p := (PCB_array s ! ?p)\<lparr>isActive := 0\<rparr>, k := q]"
    using assms t'(8) by (simp add: u q_def)
  moreover have "child_block k ?p esp' ebp' (esp0 s) (terminalNumber (PCB_array s ! ?p)) q"
    using assms by (simp add: child_block_def q_def x_def)
  moreover have "page_directory u = (page_directory s)[32 := process_entry (of_nat k)]" by (simp add: u t' w_def init)
  ultimately show thesis using t' by (intro that [of q]) (simp_all add: u fr)
qed

section \<open>Ending a process\<close>

lemma halt_child:
  assumes "current_process_ID s = of_nat k" "parent_process_ID s = of_nat k" "k < 6" "length (PCB_array s) = 6"
    and child: "PCB_array s ! k = b" "parent_PCB b = Some p" "p \<noteq> k" "p < 6"
    and par: "process_id (PCB_array s ! p) = of_nat p"
  shows "\<exists>v b'. sys_call_halt status s = Some (Return_Through (ucast status) (pcb_esp b) (pcb_ebp b) v) \<and>
      PCB_array v = (PCB_array s)[p := (PCB_array s ! p)\<lparr>isActive := 1\<rparr>, k := b'] \<and> pcb_flag b' = 0 \<and>
      parent_process_ID v = of_nat p \<and> current_process_ID v = of_nat p \<and> esp0 v = parent_ESP0 b \<and>
      page_directory v = (page_directory s)[32 := process_entry (of_nat p)] \<and>
      mem v = mem (map_window (process_entry (of_nat p)) s) \<and> three_term_buf v = three_term_buf s \<and> nxt_term v = nxt_term s"
proof -
  define c where "c = b\<lparr>file_array := map (\<lambda>_. closed_block) (file_array b)\<rparr>"
  define s1 where "s1 = update_PCB (of_nat k) (\<lambda>p. p\<lparr>file_array := map (\<lambda>_. closed_block) (file_array p)\<rparr>)
    (s\<lparr>esp0 := parent_ESP0 b\<rparr>)"
  have s1: "PCB_array s1 = (PCB_array s)[k := c]" "PCB_array s1 ! p = PCB_array s ! p" "current_process_ID s1 = of_nat k"
    "length (PCB_array s1) = 6"
    using assms by (simp_all add: s1_def c_def)
  define b' where "b' = c\<lparr>isActive := 0, pcb_flag := 0, terminalNumber := -1, parent_PCB := None, pcb_esp := 0, pcb_ebp := 0\<rparr>"
  obtain s2 where s2: "halt_to_parent p s1 = Some s2"
    "PCB_array s2 = (PCB_array s)[k := c, p := (PCB_array s ! p)\<lparr>isActive := 1\<rparr>, k := b']"
    "parent_process_ID s2 = of_nat p" "current_process_ID s2 = of_nat p" "esp0 s2 = parent_ESP0 b"
    "page_directory s2 = page_directory s" "mem s2 = mem s" "frames s2 = frames s"
    "three_term_buf s2 = three_term_buf s" "nxt_term s2 = nxt_term s"
  proof
    let ?s2 = "the (halt_to_parent p s1)"
    show "halt_to_parent p s1 = Some ?s2" using child s1 by (simp add: halt_to_parent_def Let_def)
    show "PCB_array ?s2 = (PCB_array s)[k := c, p := (PCB_array s ! p)\<lparr>isActive := 1\<rparr>, k := b']"
      using child s1 assms(3,4) by (simp add: halt_to_parent_def Let_def b'_def)
    have pp: "(ucast (of_nat p :: i32) :: u8) = of_nat p" by (rule pid_cases [OF child(4)]) simp_all
    show "parent_process_ID ?s2 = of_nat p" "current_process_ID ?s2 = of_nat p"
      using child s1 assms(3,4) by (simp_all add: halt_to_parent_def Let_def par pp)
  qed (use child s1 in \<open>simp_all add: halt_to_parent_def Let_def\<close>; simp add: s1_def)+
  have uk: "(ucast (of_nat p :: u8) :: u32) = of_nat p" by (rule pid_cases [OF child(4)]) simp_all
  have "PCB_array s2 = (PCB_array s)[p := (PCB_array s ! p)\<lparr>isActive := 1\<rparr>, k := b']"
    unfolding s2(2) using child by (simp add: list_update_again)
  moreover have "sys_call_halt status s = Some (Return_Through (ucast status) (pcb_esp b) (pcb_ebp b)
      (map_window (process_entry (of_nat p)) s2))"
    using assms s2(1) by (simp add: sys_call_halt_def get_PCB_def Let_def s1_def [symmetric] s1(3) s2(4) uk)
  moreover have "mem (map_window (process_entry (of_nat p)) s2) = mem (map_window (process_entry (of_nat p)) s)"
    by (simp add: map_window_def Let_def s2 cong: if_cong)
  moreover have "pcb_flag b' = 0" by (simp add: b'_def)
  ultimately show ?thesis using s2 by (intro exI [of _ "map_window (process_entry (of_nat p)) s2"] exI [of _ b']) simp
qed

section \<open>A process and its parent\<close>

text \<open>
  What a running child leaves alone, as seen from its parent: its own block up to the open files, the
  blocks of the others, the process numbers, the mapping of its window and the parent's frame \<open>f\<close>.
  It may write all of memory and open and close files.
\<close>

definition child_ran :: "u32 \<Rightarrow> 'a kernel_scheme \<Rightarrow> 'a kernel_scheme \<Rightarrow> bool" where
  "child_ran f u u' \<longleftrightarrow>
     (let c = unat (current_process_ID u) in
      (PCB_array u')[c := (PCB_array u' ! c)\<lparr>file_array := file_array (PCB_array u ! c)\<rparr>] = PCB_array u \<and>
      current_process_ID u' = current_process_ID u \<and> parent_process_ID u' = parent_process_ID u \<and>
      page_directory u' ! 32 = page_directory u ! 32 \<and> length (page_directory u') = length (page_directory u) \<and>
      frames u' f = frames u f)"

text \<open>A process that runs, seen from the kernel: process \<open>p\<close> is the current one and its window is mapped.\<close>

definition running :: "nat \<Rightarrow> 'a kernel_scheme \<Rightarrow> bool" where
  "running p s \<longleftrightarrow>
     length (PCB_array s) = 6 \<and> length (page_directory s) = 1024 \<and> p < 6 \<and> parent_process_ID s = of_nat p \<and>
     process_id (PCB_array s ! p) = of_nat p \<and> pcb_flag (PCB_array s ! p) \<noteq> 0 \<and>
     page_directory s ! 32 = process_entry (of_nat p)"

lemma create_started:
  assumes "create_process L esp' ebp' name s = Some (Enter_User eip usp u)"
  obtains t w where "claim_PCB s = Some t" "set_name name t = Some w" "start_process L esp' ebp' w = Some (Enter_User eip usp u)"
  using assms by (auto simp: create_process_def split: option.splits)

lemma window_restored:
  assumes "page_directory s ! 32 = process_entry (of_nat p)" "p < 6" "k < 6" "p \<noteq> k"
    and "page_directory u' ! 32 = process_entry (of_nat k)" "in_window a"
    and "frames u' (frame_of (process_entry (of_nat p)))
       = frames (map_window (process_entry (of_nat k)) s) (frame_of (process_entry (of_nat p)))"
  shows "mem (map_window (process_entry (of_nat p)) u') a = mem s a"
  using assms frames_distinct [of p k] process_entry_bits(1) [of p] by (simp add: map_window_mem map_window_frames)

lemma restored_blocks:
  assumes "xs[k := (xs ! k)\<lparr>file_array := fs\<rparr>] = (ys[p := x, k := q] :: PCB list)" "k < 6" "length ys = 6" "p \<noteq> k" "p < 6"
  shows "length xs = 6" "\<And>j. j \<noteq> k \<Longrightarrow> xs ! j = (ys[p := x]) ! j" "(xs ! k)\<lparr>file_array := fs\<rparr> = q"
proof -
  from assms have "length (xs[k := (xs ! k)\<lparr>file_array := fs\<rparr>]) = 6" by simp
  then show len: "length xs = 6" by simp
  have eq: "xs[k := (xs ! k)\<lparr>file_array := fs\<rparr>] ! j = (ys[p := x, k := q]) ! j" for j by (simp add: assms(1))
  from eq [of k] len assms(2-) show "(xs ! k)\<lparr>file_array := fs\<rparr> = q" by simp
  show "xs ! j = (ys[p := x]) ! j" if "j \<noteq> k" for j using eq [of j] that by simp
qed

text \<open>What executing a program leaves: the parent set aside, a block for the child, and the child's window.\<close>

lemma child_created:
  assumes run: "running p s" and others: "pcb_flag (PCB_array s ! 0) \<noteq> 0"
    and shell: "execute_status (three_term_buf s ! unat (nxt_term s)) \<noteq> 0"
    and exec: "create_process L esp' ebp' name s = Some (Enter_User eip usp u)"
  obtains k b where "pcb_alloc (PCB_array s) = Some k" "k < 6" "p < 6" "p \<noteq> k"
    "PCB_array u = (PCB_array s)[p := (PCB_array s ! p)\<lparr>isActive := 0\<rparr>, k := b]"
    "child_block k p esp' ebp' (esp0 s) (terminalNumber (PCB_array s ! p)) b"
    "parent_process_ID u = of_nat k" "current_process_ID u = of_nat k"
    "page_directory u = (page_directory s)[32 := process_entry (of_nat k)]"
    "frames u = frames (map_window (process_entry (of_nat k)) s)"
proof -
  obtain t w where t: "claim_PCB s = Some t" "set_name name t = Some w"
    and start: "start_process L esp' ebp' w = Some (Enter_User eip usp u)" using create_started [OF exec] .
  note run = run [unfolded running_def]
  from claimed_block [OF t] run obtain k q where k: "pcb_alloc (PCB_array s) = Some k" and w: "PCB_array w = (PCB_array s)[k := q]"
    "process_id q = of_nat k" "pcb_flag q = 1" "current_process_ID w = of_nat k" "parent_process_ID w = of_nat p"
    "three_term_buf w = three_term_buf s" "nxt_term w = nxt_term s" "page_directory w = page_directory s"
    "esp0 w = esp0 s" "mem w = mem s" "frames w = frames s"
    by metis
  from k have "k < 6 \<and> pcb_flag (PCB_array s ! k) = 0" using run by (simp add: pcbs.alloc_iff pcb_used_def)
  with run others have k6: "k < 6" "p < 6" "p \<noteq> k" "k \<noteq> p" "0 < k" by (auto intro: gr0I)
  have up: "unat (of_nat p :: u8) = p" using run by simp
  have pw: "PCB_array w ! p = PCB_array s ! p" "PCB_array w ! k = q" "length (PCB_array w) = 6"
    using k6 run by (simp_all add: w)
  obtain b where u: "PCB_array u = (PCB_array w)[p := (PCB_array s ! p)\<lparr>isActive := 0\<rparr>, k := b]"
    "child_block k p esp' ebp' (esp0 s) (terminalNumber (PCB_array s ! p)) b"
    "parent_process_ID u = of_nat k" "current_process_ID u = of_nat k"
    "page_directory u = (page_directory s)[32 := process_entry (of_nat k)]"
    "frames u = frames (map_window (process_entry (of_nat k)) w)"
    by (rule start_child [OF start w(4) k6(5,1) pw(3)])
      (use shell k6 pw w in \<open>simp_all add: up\<close>)
  have fw: "frames (map_window (process_entry (of_nat k)) w) = frames (map_window (process_entry (of_nat k)) s)"
    by (simp add: map_window_def Let_def w cong: if_cong)
  have "PCB_array u = (PCB_array s)[p := (PCB_array s ! p)\<lparr>isActive := 0\<rparr>, k := b]"
    unfolding u(1) w(1) by (simp add: list_update_swap [OF k6(3)])
  then show thesis by (rule that [OF k k6(1-3) _ u(2-6) [unfolded fw]])
qed

section \<open>A small kernel state\<close>

definition blank_PCB :: PCB where
  "blank_PCB = \<lparr>file_array = replicate 8 closed_block, process_id = 0, pcb_flag = 0, parent_PCB = None, pcb_esp = 0,
     pcb_ebp = 0, parent_ESP0 = 0, command_global = replicate 240 0, isActive = 0, terminalNumber = -1\<rparr>"

definition blank_terminal :: multiterminal where
  "blank_terminal = \<lparr>saved_keyboard_buffer = 0, cur_buffer_Size = 0, video_mem_hist = 0, execute_status = 0, pos_x = 0,
     pos_y = 0, mt_esp = 0, mt_ebp = 0, mt_esp0 = 0, mt_PID = 0, mt_PPID = 0\<rparr>"

definition reset_kernel :: kernel where
  "reset_kernel = paging.extend reset_paging
     \<lparr>PCB_array = replicate 6 blank_PCB, parent_process_ID = 0, current_process_ID = 0,
      three_term_buf = replicate 3 blank_terminal, nxt_term = 0, bootmebb = 0x400000, read_directory_index = 0\<rparr>"

definition shell_kernel :: kernel where
  "shell_kernel = reset_kernel
     \<lparr>mem := small_image, page_directory := (replicate 1024 0)[32 := process_entry 0],
      PCB_array := (replicate 6 blank_PCB)[0 := blank_PCB\<lparr>pcb_flag := 1, parent_PCB := Some 0, isActive := 1, terminalNumber := 0\<rparr>],
      three_term_buf := (replicate 3 blank_terminal)[0 := blank_terminal\<lparr>execute_status := 1\<rparr>]\<rparr>"

definition some_locals :: exec_locals where
  "some_locals = \<lparr>word1 = 0x910000, word2 = 0x920000, exec_buf = 0x930000, exec_dentry = 0x940000, exec_message = 0x950000\<rparr>"

lemma reset_kernel_fields [simp]:
  "PCB_array reset_kernel = replicate 6 blank_PCB" "parent_process_ID reset_kernel = 0"
  "current_process_ID reset_kernel = 0" "three_term_buf reset_kernel = replicate 3 blank_terminal"
  "nxt_term reset_kernel = 0" "bootmebb reset_kernel = 0x400000" "page_directory reset_kernel = replicate 1024 0"
  by (simp_all add: reset_kernel_def kernel.defs reset_paging_def paging.defs keyboard.defs)

lemma shell_kernel_running: "running 0 shell_kernel"
  by (simp add: running_def shell_kernel_def blank_PCB_def)

lemma shell_kernel_free: "pcb_alloc (PCB_array shell_kernel) = Some 1"
  by (simp add: pcb_alloc_def shell_kernel_def blank_PCB_def first_free_Some)

lemma read_five:
  assumes "\<And>a. \<not> in_window a \<Longrightarrow> m a = small_image a"
  shows "snd (read_data m 0x400000 0 0 0x8048000 5) = 5"
proof -
  have [simp]: "num_inodes m 0x400000 = 1" "data_blocks m 0x400000 = 1"
    "b_length m 0x401000 = 5" "in_table m 0x401000 0 = 0"
    by (simp_all add: num_inodes_def data_blocks_def b_length_def in_table_def load32_def assms in_window_def small_image_def)
  show ?thesis
    by (simp add: read_data_def Let_def inode_address_def read_remaining_def read_full_blocks.simps read_block_eq)
qed


lemma store_command_room: "i + length vs \<le> 244 \<Longrightarrow> \<exists>q. store_command vs i p = Some q"
proof (induction vs arbitrary: i p)
  case (Cons v vs)
  then have "\<exists>q. set_command i v p = Some q" by (simp add: set_command_def)
  with Cons show ?case by fastforce
qed simp

lemma set_name_room:
  assumes "unat (current_process_ID s) < 6" "length (PCB_array s) = 6" "40 * unat (current_process_ID s) + length name \<le> 244"
  shows "\<exists>t. set_name name s = Some t"
proof -
  let ?b = "40 * unat (current_process_ID s)"
  obtain p where p: "get_PCB (current_process_ID s) s = Some p" using assms by (simp add: get_PCB_def)
  obtain q where q: "store_command (replicate 40 0) ?b p = Some q" using store_command_room [of ?b "replicate 40 0" p] assms by auto
  obtain r where "store_command name ?b q = Some r" using store_command_room [of ?b name q] assms by auto
  with p q show ?thesis by (simp add: set_name_def Let_def)
qed

lemma attach_room:
  assumes "current_process_ID s = of_nat k" "k < 6" "length (PCB_array s) = 6"
    "unat (nxt_term s) < length (three_term_buf s)" "parent_PCB (PCB_array s ! k) = Some p" "p < 6"
  shows "\<exists>t. attach_terminal s = Some t"
  using assms by (auto simp: attach_terminal_def Let_def)

lemma start_process_enters:
  assumes "current_process_ID s = of_nat k" "0 < k" "k < 6" "length (PCB_array s) = 6"
    "unat (nxt_term s) < length (three_term_buf s)" "unat (parent_process_ID s) < 6" "unat (parent_process_ID s) \<noteq> k"
    "\<And>m. (\<And>a. \<not> in_window a \<Longrightarrow> m a = mem s a) \<Longrightarrow>
       snd (read_data m (bootmebb s) (inode_num m (exec_dentry L)) 0 0x08048000
         (b_length m (inode_address (bootmebb s) (inode_num m (exec_dentry L))))) \<noteq> -1"
  shows "\<exists>eip usp u. start_process L esp' ebp' s = Some (Enter_User eip usp u)"
proof -
  define i where "i = init_process s"
  note init = init_process_child [OF assms(1,2) _ assms(4), unfolded assms(4), OF assms(3), folded i_def]
  define w where "w = map_window (process_entry (ucast (current_process_ID i))) i"
  have mw: "mem w a = mem s a" if "\<not> in_window a" for a using that by (simp add: w_def map_window_mem init)
  obtain m r where mr: "read_data (mem w) (bootmebb w) (inode_num (mem w) (exec_dentry L)) 0 0x08048000
      (b_length (mem w) (inode_address (bootmebb w) (inode_num (mem w) (exec_dentry L)))) = (m, r)" by fastforce
  with assms(8) [OF mw] have r: "r \<noteq> -1" by (simp add: w_def init)
  have "PCB_array w ! k = (PCB_array s ! k)\<lparr>file_array := initial_file_array, parent_PCB := Some (unat (parent_process_ID s))\<rparr>"
    using assms(3,4) by (simp add: w_def init)
  then obtain t where "attach_terminal (w\<lparr>mem := m\<rparr>) = Some t"
    using attach_room [of "w\<lparr>mem := m\<rparr>" k "unat (parent_process_ID s)"] assms(3-6) by (auto simp: w_def init)
  with mr r show ?thesis
    unfolding start_process_def Let_def i_def [symmetric] w_def [symmetric] by (simp add: enter_program_def Let_def)
qed

lemma shell_child_created:
  obtains eip usp u where
    "create_process some_locals 0x7FBF00 0x7FBF20 (ascii ''ls'') shell_kernel = Some (Enter_User eip usp u)"
proof -
  obtain t where t: "claim_PCB shell_kernel = Some t" "current_process_ID t = 1" "length (PCB_array t) = 6"
    using shell_kernel_free by (simp add: claim_PCB_def pcb_alloc_def shell_kernel_def)
  then obtain w where w: "set_name (ascii ''ls'') t = Some w"
    using set_name_room [of t "ascii ''ls''"] by (auto simp: ascii_def)
  obtain k q where "pcb_alloc (PCB_array shell_kernel) = Some k" "PCB_array w = (PCB_array shell_kernel)[k := q]"
    "current_process_ID w = of_nat k" "parent_process_ID w = 0" "three_term_buf w = three_term_buf shell_kernel" "nxt_term w = 0"
    "mem w = small_image" "bootmebb w = 0x400000"
    by (rule claimed_block [OF t(1) w]) (simp_all add: shell_kernel_def)
  with shell_kernel_free have w': "current_process_ID w = of_nat 1" "length (PCB_array w) = 6" "parent_process_ID w = 0"
    "length (three_term_buf w) = 3" "nxt_term w = 0" "mem w = small_image" "bootmebb w = 0x400000"
    by (simp_all add: shell_kernel_def)
  have "snd (read_data m 0x400000 (inode_num m (exec_dentry some_locals)) 0 0x08048000
         (b_length m (inode_address 0x400000 (inode_num m (exec_dentry some_locals))))) \<noteq> -1"
    if "\<And>a. \<not> in_window a \<Longrightarrow> m a = small_image a" for m
  proof -
    have "inode_num m (exec_dentry some_locals) = 0" "b_length m 0x401000 = 5"
      by (simp_all add: inode_num_def b_length_def load32_def that in_window_def small_image_def some_locals_def)
    then show ?thesis using read_five [OF that] by (simp add: inode_address_def)
  qed
  with start_process_enters [OF w'(1), where L = some_locals and esp' = "0x7FBF00" and ebp' = "0x7FBF20"] w' obtain eip usp u where
    "start_process some_locals 0x7FBF00 0x7FBF20 w = Some (Enter_User eip usp u)" by auto
  with t w show thesis by (intro that) (simp add: create_process_def)
qed

section \<open>Properties\<close>

text \<open>
  C1: \<^verbatim>\<open>sys_call_halt\<close> undoes \<^verbatim>\<open>sys_call_execute\<close>.  When the running process \<open>p\<close> starts a program in
  its terminal and that child, whatever it did to memory and to its open files, halts, then control
  returns through the frame that execute saved with the status as value; the current and the parent
  process, the kernel stack pointer and the mapping of the window are those of \<open>p\<close> again, the bytes
  of the window are what they were when the child was created, the block of the child is the first
  free one again and all other blocks are unchanged except that \<open>p\<close> is marked active.
\<close>

theorem halt_undoes_execute:
  assumes run: "running p s" and others: "pcb_flag (PCB_array s ! 0) \<noteq> 0"
    and shell: "execute_status (three_term_buf s ! unat (nxt_term s)) \<noteq> 0"
    and exec: "create_process L esp' ebp' name s = Some (Enter_User eip usp u)"
    and child: "child_ran (frame_of (process_entry (of_nat p))) u u'"
  shows "\<exists>v k. sys_call_halt status u' = Some (Return_Through (ucast status) esp' ebp' v) \<and>
      current_process_ID v = of_nat p \<and> parent_process_ID v = of_nat p \<and> esp0 v = esp0 s \<and>
      page_directory v ! 32 = page_directory s ! 32 \<and> (\<forall>a. in_window a \<longrightarrow> mem v a = mem s a) \<and>
      pcb_alloc (PCB_array s) = Some k \<and> pcb_flag (PCB_array v ! k) = 0 \<and>
      (\<forall>j < 6. j \<noteq> k \<longrightarrow> PCB_array v ! j = (if j = p then (PCB_array s ! j)\<lparr>isActive := 1\<rparr> else PCB_array s ! j))"
proof -
  note run' = run [unfolded running_def]
  obtain k b where k: "pcb_alloc (PCB_array s) = Some k" "k < 6" "p < 6" "p \<noteq> k"
    and u: "PCB_array u = (PCB_array s)[p := (PCB_array s ! p)\<lparr>isActive := 0\<rparr>, k := b]"
    "child_block k p esp' ebp' (esp0 s) (terminalNumber (PCB_array s ! p)) b"
    "parent_process_ID u = of_nat k" "current_process_ID u = of_nat k"
    "page_directory u = (page_directory s)[32 := process_entry (of_nat k)]"
    "frames u = frames (map_window (process_entry (of_nat k)) s)"
    by (rule child_created [OF run others shell exec])
  have "unat (of_nat k :: u8) = k" using k by simp
  note child = child [unfolded child_ran_def Let_def u(4) this]
  define fs where "fs = file_array (PCB_array u ! k)"
  have blocks: "(PCB_array u')[k := (PCB_array u' ! k)\<lparr>file_array := fs\<rparr>]
      = (PCB_array s)[p := (PCB_array s ! p)\<lparr>isActive := 0\<rparr>, k := b]"
    using child unfolding fs_def u(1) by simp
  have len: "length (PCB_array s) = 6" using run' by simp
  note u' = restored_blocks [OF blocks k(2) len k(4,3)]
  from u'(3) u(2) have b: "parent_PCB (PCB_array u' ! k) = Some p" "pcb_esp (PCB_array u' ! k) = esp'"
    "pcb_ebp (PCB_array u' ! k) = ebp'" "parent_ESP0 (PCB_array u' ! k) = esp0 s"
    by (auto simp: child_block_def)
  have upar: "PCB_array u' ! p = (PCB_array s ! p)\<lparr>isActive := 0\<rparr>" using u'(2) [of p] k len by simp
  obtain v b' where v: "sys_call_halt status u' = Some (Return_Through (ucast status) esp' ebp' v)"
    "PCB_array v = (PCB_array u')[p := (PCB_array u' ! p)\<lparr>isActive := 1\<rparr>, k := b']" "pcb_flag b' = 0"
    "parent_process_ID v = of_nat p" "current_process_ID v = of_nat p" "esp0 v = esp0 s"
    "page_directory v = (page_directory u')[32 := process_entry (of_nat p)]"
    "mem v = mem (map_window (process_entry (of_nat p)) u')"
    using halt_child [of u' k _ p status] child u(3,4) k u'(1) b run' upar by auto
  have "mem v a = mem s a" if "in_window a" for a
    unfolding v(8) using window_restored [of s p k u' a] run' k child u(5,6) that by simp
  moreover have "PCB_array v ! j = (if j = p then (PCB_array s ! j)\<lparr>isActive := 1\<rparr> else PCB_array s ! j)" if "j < 6" "j \<noteq> k" for j
    using that u'(1,2) k len upar by (auto simp: v(2) nth_list_update)
  moreover have "pcb_flag (PCB_array v ! k) = 0" using v(3) k u'(1) by (simp add: v(2))
  moreover have "page_directory v ! 32 = page_directory s ! 32" using child u(5) run' by (simp add: v(7))
  ultimately show ?thesis using v k by blast
qed

theorem halt_undoes_execute_witness:
  "\<exists>eip usp u v. create_process some_locals 0x7FBF00 0x7FBF20 (ascii ''ls'') shell_kernel = Some (Enter_User eip usp u) \<and>
     sys_call_halt 3 (u\<lparr>mem := (\<lambda>_. 7)\<rparr>) = Some (Return_Through 3 0x7FBF00 0x7FBF20 v) \<and>
     pcb_flag (PCB_array v ! 1) = 0 \<and> (\<forall>a. in_window a \<longrightarrow> mem v a = small_image a)"
proof -
  obtain eip usp u where u: "create_process some_locals 0x7FBF00 0x7FBF20 (ascii ''ls'') shell_kernel = Some (Enter_User eip usp u)"
    by (rule shell_child_created)
  have ran: "child_ran (frame_of (process_entry (of_nat 0))) u (u\<lparr>mem := (\<lambda>_. 7)\<rparr>)"
    by (simp add: child_ran_def Let_def)
  from halt_undoes_execute [OF shell_kernel_running _ _ u ran, of 3] obtain v k where
    "sys_call_halt 3 (u\<lparr>mem := (\<lambda>_. 7)\<rparr>) = Some (Return_Through 3 0x7FBF00 0x7FBF20 v)"
    "\<forall>a. in_window a \<longrightarrow> mem v a = small_image a" "pcb_alloc (PCB_array shell_kernel) = Some k" "pcb_flag (PCB_array v ! k) = 0"
    by (auto simp: shell_kernel_def)
  with shell_kernel_free u show ?thesis by auto
qed

end
