(* ===== verification/Execute.thy ===== *)
theory Execute
  imports Process
begin

text \<open>
  The checks that \<^verbatim>\<open>sys_call_execute\<close> makes before it claims a process: what the split of the command
  leaves as program name, which commands are refused and leave the processes alone, and what the window and
  the registers hold when a program is entered.
\<close>

lemma u32_not_minus_1: "n < 4294967295 \<Longrightarrow> (of_nat n :: u32) \<noteq> -1"
proof
  assume "n < 4294967295" "(of_nat n :: u32) = -1"
  then have "unat (of_nat n :: u32) = unat (-1 :: u32)" "n < 4294967295" by simp_all
  then show False by (simp add: unsigned_minus_1_eq_mask mask_eq_exp_minus_1 del: of_nat_unat)
qed

section \<open>The name of the program\<close>

text \<open>The position of the last space, and the part of a command that is looked up as program.\<close>

fun last_idx :: "u8 list \<Rightarrow> nat option" where
  "last_idx [] = None"
| "last_idx (c # cs) =
     (case last_idx cs of Some j \<Rightarrow> Some (Suc j) | None \<Rightarrow> if c = 32 then Some 0 else None)"

definition program_name :: "u8 list \<Rightarrow> u8 list" where
  "program_name cs = (case last_idx cs of Some (Suc j) \<Rightarrow> take (Suc j) cs | _ \<Rightarrow> cs)"

lemma last_idx_less: "last_idx cs = Some j \<Longrightarrow> j < length cs"
  by (induction cs arbitrary: j) (auto split: option.splits if_splits)

lemma last_space_last_idx:
  "last_space k i idx m command =
     (case last_idx (bytes m (command + i) k) of None \<Rightarrow> idx | Some j \<Rightarrow> i + of_nat j)"
proof (induction k arbitrary: i idx)
  case (Suc k)
  have "command + i + 1 = command + (i + 1)" by (simp add: add.assoc)
  then show ?case
    using Suc.IH [of "i + 1" "if m (command + i) = 32 then i else idx"]
    by (auto simp: bytes_Suc add.assoc split: option.splits)
qed simp

lemma length_program_name: "length (program_name cs) \<le> length cs"
  by (auto simp: program_name_def split: option.splits nat.splits)

lemma program_name_take: "take (length (program_name cs)) cs = program_name cs"
  unfolding program_name_def by (auto simp: min_def split: option.splits nat.splits)

text \<open>Where the split ends the name: at the last space, or at the end when there is none or it comes first.\<close>

lemma split_end:
  assumes cs: "bytes m command (length cs) = cs" and len: "length cs < 4096"
  defines "idx \<equiv> last_space (length cs) 0 0 m command"
  shows "(if idx = 0 then of_nat (length cs) else idx) = (of_nat (length (program_name cs)) :: u32)"
proof -
  have idx: "idx = (case last_idx cs of None \<Rightarrow> 0 | Some j \<Rightarrow> of_nat j)"
    using last_space_last_idx [of "length cs" 0 0 m command] cs by (simp add: idx_def split: option.splits)
  show ?thesis
  proof (cases "last_idx cs")
    case None
    then show ?thesis using idx by (simp add: program_name_def)
  next
    case (Some j)
    from last_idx_less [OF Some] len have j: "j < length cs" "j < 2 ^ 32" by simp_all
    have "idx = of_nat j" using idx Some by simp
    moreover have "idx = 0 \<longleftrightarrow> j = 0" using u32_of_nat_eq_iff [of j 0] j(2) calculation by simp
    ultimately show ?thesis using Some j(1) by (cases j) (simp_all add: program_name_def min_def del: of_nat_Suc)
  qed
qed

lemma split_command_name:
  assumes cmd: "cstring m command cs" and len: "length cs < 4096"
    and sep: "region (word1 L) (length cs + 1) \<inter> region command (length cs + 1) = {}"
    and sep2: "word2 L + 1 \<notin> region (word1 L) (length cs + 1)"
  defines "m' \<equiv> split_command L command (of_nat (length cs)) m"
  shows "cstring m' (word1 L) (program_name cs)"
    and "p \<notin> region (word1 L) (length cs + 1) \<Longrightarrow> p \<noteq> word2 L + 1 \<Longrightarrow> m' p = m p"
proof -
  define n where "n = length (program_name cs)"
  have n: "n \<le> length cs" by (simp add: n_def length_program_name)
  have cs: "bytes m command (length cs) = cs" using cmd by (simp add: cstring_def)
  have ul: "unat (of_nat (length cs) :: u32) = length cs" using len by simp
  note fin = split_end [OF cs len, folded n_def]
  have take: "take n cs = program_name cs" unfolding n_def by (rule program_name_take)
  define m1 where "m1 = store_bytes m (word1 L) (program_name cs @ [0])"
  have "region (word1 L) n \<inter> region command n = {}"
    using sep region_mono [of n "length cs + 1"] n by (meson disjoint_iff le_add1 order_trans subset_iff)
  then have "copy_buffer n command (word1 L) m = store_bytes m (word1 L) (bytes m command n)"
    using n len by (simp add: copy_buffer_bottom memcpy_bottom_store)
  also have "bytes m command n = take n (bytes m command (length cs))"
    using n by (intro nth_equalityI) simp_all
  finally have copy: "copy_buffer n command (word1 L) m = store_bytes m (word1 L) (program_name cs)"
    using cs take by simp
  have un: "unat (of_nat n :: u32) = n" using n len by simp
  have m1: "(copy_buffer n command (word1 L) m)(word1 L + of_nat n := 0) = m1"
    unfolding copy m1_def by (simp add: store_bytes_append n_def)
  have "m' = m1 \<or> m' = m1(word2 L + 1 := 0)"
    unfolding m'_def split_command_def Let_def ul fin un m1 by simp
  then have m': "m' p = m1 p" if "p \<noteq> word2 L + 1" for p using that by auto
  have sub: "region (word1 L) (n + 1) \<subseteq> region (word1 L) (length cs + 1)" using n by (intro region_mono) simp
  have l1: "length (program_name cs @ [0]) = n + 1" by (simp add: n_def)
  have "0 \<notin> set (program_name cs)"
    unfolding take [symmetric] using cmd by (auto simp: cstring_def dest: in_set_takeD)
  moreover have "bytes m1 (word1 L) (n + 1) = program_name cs @ [0]"
    unfolding m1_def l1 [symmetric] using n len by (intro bytes_store_bytes) (simp add: n_def)
  then have "bytes m1 (word1 L) n @ [m1 (word1 L + of_nat n)] = program_name cs @ [0]"
    unfolding bytes_append by (simp add: bytes_Suc)
  ultimately have "cstring m1 (word1 L) (program_name cs)"
    using n len by (simp add: cstring_def n_def [symmetric])
  then show "cstring m' (word1 L) (program_name cs)"
  proof (rule cstring_cong)
    fix p assume "p \<in> region (word1 L) (Suc (length (program_name cs)))"
    then have "p \<in> region (word1 L) (length cs + 1)" using sub by (auto simp: n_def)
    then show "m' p = m1 p" using sep2 by (intro m') blast
  qed
  show "m' p = m p" if "p \<notin> region (word1 L) (length cs + 1)" "p \<noteq> word2 L + 1"
  proof -
    have "p \<notin> region (word1 L) (length (program_name cs @ [0]))" using that(1) sub unfolding l1 by blast
    then show ?thesis using m' [OF that(2)] by (simp add: m1_def store_bytes_outside)
  qed
qed

section \<open>Where the local arrays lie\<close>

text \<open>The local arrays of \<^verbatim>\<open>sys_call_execute\<close> are apart from the command and from the file system image.\<close>

definition locals_apart :: "exec_locals \<Rightarrow> u32 \<Rightarrow> nat \<Rightarrow> u32 \<Rightarrow> memory \<Rightarrow> bool" where
  "locals_apart L command n boot m \<longleftrightarrow>
     region (word1 L) (n + 1) \<inter> region command (n + 1) = {} \<and>
     word2 L + 1 \<notin> region (word1 L) (n + 1) \<and>
     region (word1 L) (n + 1) \<inter> image_region m boot = {} \<and> word2 L + 1 \<notin> image_region m boot \<and>
     region (exec_dentry L) 64 \<inter> image_region m boot = {} \<and>
     region (exec_buf L) 40 \<inter> image_region m boot = {} \<and>
     region (exec_dentry L) 64 \<inter> region command (n + 1) = {} \<and> region (exec_buf L) 40 \<inter> region command (n + 1) = {} \<and>
     word2 L + 1 \<notin> region command (n + 1) \<and>
     region (exec_buf L) 40 \<inter> region (exec_dentry L) 64 = {}"

lemma boot_in_image: "region boot 4096 \<subseteq> image_region m boot"
  unfolding image_region_def by (rule region_mono) (simp add: image_size_def)

lemma lookup_agrees:
  assumes "image_agrees boot m m'"
  shows "lookup_name m' boot nm = lookup_name m boot nm" "\<And>k. k < 63 \<Longrightarrow> inode_num m' (d_table_entry boot (of_nat k)) = inode_num m (d_table_entry boot (of_nat k))"
proof -
  have b: "\<And>p. p \<in> region boot 4096 \<Longrightarrow> m' p = m p" using assms boot_in_image by (auto simp: image_agrees_def)
  have "entry_name m' boot i = entry_name m boot i" if "i < 63" for i
    unfolding entry_name_def by (rule entry_cprefix_cong) (use b that in auto)
  then show "lookup_name m' boot nm = lookup_name m boot nm"
    unfolding lookup_name_def by (intro find_cong) auto
  show "inode_num m' (d_table_entry boot (of_nat k)) = inode_num m (d_table_entry boot (of_nat k))" if "k < 63" for k
    unfolding inode_num_def
    by (rule load32_cong) (use b d_table_entry_region [OF that, of boot] region_shift_subset [of 36 4 64 "d_table_entry boot (of_nat k)"] in auto)
qed

lemma split_command_agrees:
  assumes "cstring m command cs" "length cs < 4096" "locals_apart L command (length cs) boot m"
  shows "image_agrees boot m (split_command L command (of_nat (length cs)) m)"
  using split_command_name(2) [OF assms(1,2), of L] assms(3)
  unfolding image_agrees_def locals_apart_def by (metis disjoint_iff)

section \<open>The checks\<close>

text \<open>The bytes of the file that the checks look at, and what a found file leads to.\<close>

definition elf_magic :: "u8 list" where
  "elf_magic = [0x7F, 0x45, 0x4C, 0x46]"

lemma bytes_4_eq: "bytes m a 4 = [m a, m (a + 1), m (a + 2), m (a + 3)]"
  by (simp add: bytes_def upt_rec)

lemma magic_ok_elf: "magic_ok m buf \<longleftrightarrow> bytes m buf 4 = elf_magic"
  by (auto simp: magic_ok_def elf_magic_def bytes_4_eq)

text \<open>The name is looked up: its directory entry lies in the local block.\<close>

lemma name_looked_up:
  assumes cmd: "cstring (mem s) command cs" "length cs < 4096"
    and apart: "locals_apart L command (length cs) (bootmebb s) (mem s)"
    and found: "lookup_name (mem s) (bootmebb s) (take 32 (program_name cs)) = Some k"
  obtains m where "read_dentry_by_name (split_command L command (of_nat (length cs)) (mem s)) (bootmebb s) (word1 L) (exec_dentry L) = (m, 0)"
    "image_agrees (bootmebb s) (mem s) m"
    "inode_num m (exec_dentry L) = inode_num (mem s) (d_table_entry (bootmebb s) (of_nat k))"
    "\<And>p. p \<notin> region (word1 L) (length cs + 1) \<Longrightarrow> p \<noteq> word2 L + 1 \<Longrightarrow> p \<notin> region (exec_dentry L) 64 \<Longrightarrow> m p = mem s p"
proof -
  let ?b = "bootmebb s"
  define m1 where "m1 = split_command L command (of_nat (length cs)) (mem s)"
  from apart have sep: "region (word1 L) (length cs + 1) \<inter> region command (length cs + 1) = {}"
    "word2 L + 1 \<notin> region (word1 L) (length cs + 1)" by (simp_all add: locals_apart_def)
  note split = split_command_name [OF cmd sep, folded m1_def]
  have ag1: "image_agrees ?b (mem s) m1" unfolding m1_def using cmd apart by (rule split_command_agrees)
  have name: "cprefix m1 (word1 L) 32 = take 32 (program_name cs)" using split(1) by (rule cprefix_cstring)
  have k63: "k < 63" using found by (simp add: lookup_name_Some)
  define m2 where "m2 = memcpy m1 (exec_dentry L) (d_table_entry ?b (of_nat k)) 64"
  have rd: "read_dentry_by_name m1 ?b (word1 L) (exec_dentry L) = (m2, 0)"
    using lookup_agrees(1) [OF ag1] found name by (simp add: read_dentry_by_name_lookup m2_def)
  have "region (exec_dentry L) 64 \<inter> region (d_table_entry ?b (of_nat k)) 64 = {}"
    using apart d_table_entry_region [OF k63, of ?b] boot_in_image [of ?b "mem s"] unfolding locals_apart_def by blast
  note dentry = dentry_copied [OF this, where m = m1, folded m2_def]
  show thesis
  proof (rule that [OF rd [unfolded m1_def]])
    show "image_agrees ?b (mem s) m2"
      using ag1 dentry(4) apart unfolding image_agrees_def locals_apart_def by (metis disjoint_iff)
    show "inode_num m2 (exec_dentry L) = inode_num (mem s) (d_table_entry ?b (of_nat k))"
      using dentry(3) lookup_agrees(2) [OF ag1 k63] by simp
    show "m2 p = mem s p" if "p \<notin> region (word1 L) (length cs + 1)" "p \<noteq> word2 L + 1" "p \<notin> region (exec_dentry L) 64" for p
      using that dentry(4) [of p] split(2) [of p] by simp
  qed
qed

text \<open>The first 40 bytes of the program are read into the local buffer.\<close>

lemma header_read:
  assumes ag: "image_agrees boot m0 m" and wf: "file_wf m0 boot inode"
    and apart: "region buf 40 \<inter> image_region m0 boot = {}"
  defines "fc \<equiv> file_content m0 boot inode"
  defines "m' \<equiv> store_bytes m buf (take 40 fc)"
  shows "read_data m boot inode 0 buf 40 = (m', of_nat (min 40 (length fc)))" "image_agrees boot m0 m'"
    "bytes m' buf (min 40 (length fc)) = take 40 fc" "\<And>p. p \<notin> region buf 40 \<Longrightarrow> m' p = m p"
proof -
  note file2 = image_agrees_file [OF ag wf] image_agrees_counts(3) [OF ag]
  have len_fc: "length fc = file_size m0 boot inode" by (simp add: fc_def file_content_def)
  show "read_data m boot inode 0 buf 40 = (m', of_nat (min 40 (length fc)))"
    using read_data_content [OF file2(1), of 0 40 buf] apart region_mono [of "min 40 (file_size m0 boot inode)" 40 buf]
    by (simp add: file2 m'_def fc_def [symmetric] len_fc) blast
  show out: "m' p = m p" if "p \<notin> region buf 40" for p
    unfolding m'_def using that region_mono [of "length (take 40 fc)" 40 buf] by (intro store_bytes_outside) auto
  show "image_agrees boot m0 m'" using ag out apart unfolding image_agrees_def by (metis disjoint_iff)
  show "bytes m' buf (min 40 (length fc)) = take 40 fc"
    unfolding m'_def using bytes_store_bytes [of "take 40 fc" m buf] by (simp add: min.commute)
qed

lemma execute_checked:
  assumes cmd: "cstring (mem s) command cs" "length cs < 4096"
    and apart: "locals_apart L command (length cs) (bootmebb s) (mem s)"
    and found: "lookup_name (mem s) (bootmebb s) (take 32 (program_name cs)) = Some k"
    and inode: "inode = inode_num (mem s) (d_table_entry (bootmebb s) (of_nat k))"
    and wf: "file_wf (mem s) (bootmebb s) inode"
  defines "fc \<equiv> file_content (mem s) (bootmebb s) inode"
  obtains m where "image_agrees (bootmebb s) (mem s) m" "inode_num m (exec_dentry L) = inode"
    "bytes m (exec_buf L) (min 40 (length fc)) = take 40 fc"
    "\<And>p. p \<notin> region (word1 L) (length cs + 1) \<Longrightarrow> p \<noteq> word2 L + 1 \<Longrightarrow> p \<notin> region (exec_dentry L) 64 \<Longrightarrow>
        p \<notin> region (exec_buf L) 40 \<Longrightarrow> m p = mem s p"
    "sys_call_execute L esp' ebp' command s =
       (if magic_ok m (exec_buf L) then create_process L esp' ebp' cs (s\<lparr>mem := m\<rparr>)
        else Some (Returned (-1) (s\<lparr>mem := m\<rparr>)))"
proof -
  let ?b = "bootmebb s"
  obtain m2 where m2: "read_dentry_by_name (split_command L command (of_nat (length cs)) (mem s)) ?b (word1 L) (exec_dentry L) = (m2, 0)"
    "image_agrees ?b (mem s) m2" "inode_num m2 (exec_dentry L) = inode"
    "\<And>p. p \<notin> region (word1 L) (length cs + 1) \<Longrightarrow> p \<noteq> word2 L + 1 \<Longrightarrow> p \<notin> region (exec_dentry L) 64 \<Longrightarrow> m2 p = mem s p"
    by (rule name_looked_up [OF cmd apart found, folded inode]) blast
  define m where "m = store_bytes m2 (exec_buf L) (take 40 fc)"
  have "region (exec_buf L) 40 \<inter> image_region (mem s) ?b = {}" using apart by (simp add: locals_apart_def)
  note h = header_read [OF m2(2) wf this, folded fc_def, folded m_def]
  have "inode_num m (exec_dentry L) = inode_num m2 (exec_dentry L)"
    unfolding inode_num_def
  proof (rule load32_cong, rule h(4))
    fix p assume "p \<in> region (exec_dentry L + 36) 4"
    then have "p \<in> region (exec_dentry L) 64" using region_shift_subset [of 36 4 64 "exec_dentry L"] by auto
    then show "p \<notin> region (exec_buf L) 40" using apart unfolding locals_apart_def by blast
  qed
  then have ino: "inode_num m (exec_dentry L) = inode" using m2(3) by simp
  have unchanged: "m p = mem s p"
    if "p \<notin> region (word1 L) (length cs + 1)" "p \<noteq> word2 L + 1" "p \<notin> region (exec_dentry L) 64" "p \<notin> region (exec_buf L) 40" for p
    using that h(4) [of p] m2(4) [of p] by simp
  have "bytes m command (length cs) = bytes (mem s) command (length cs)"
  proof (rule bytes_cong)
    fix p assume "p \<in> region command (length cs)"
    then have "p \<in> region command (length cs + 1)" using region_mono [of "length cs" "length cs + 1" command] by auto
    then show "m p = mem s p" using apart unfolding locals_apart_def by (intro unchanged) blast+
  qed
  then have "bytes m command (length cs) = cs" using cmd(1) by (simp add: cstring_def)
  moreover have "(of_nat (min 40 (length fc)) :: i32) \<noteq> -1" by (rule u32_not_minus_1) simp
  ultimately have "sys_call_execute L esp' ebp' command s =
       (if magic_ok m (exec_buf L) then create_process L esp' ebp' cs (s\<lparr>mem := m\<rparr>)
        else Some (Returned (-1) (s\<lparr>mem := m\<rparr>)))"
    using strlen_cstring [OF cmd(1)] m2(1,3) h(1) cmd(2) by (simp add: sys_call_execute_def Let_def)
  then show thesis using h(2,3) ino unchanged by (intro that)
qed

section \<open>Loading\<close>

lemma load_area_in_window:
  assumes "n \<le> 0x3B8000" "p \<in> region 0x08048000 n"
  shows "in_window p"
proof -
  obtain i where i: "i < n" "p = 0x08048000 + of_nat i" using assms(2) by (auto simp: region_def)
  then have "p = of_nat (0x08048000 + i)" by simp
  moreover have "0x08048000 + i < 2 ^ 32" using i(1) assms(1) by simp
  ultimately have "unat p = 0x08048000 + i" by (simp only: unat_u32_of_nat)
  then have "unat (drop_bit 22 p) = 32" using i(1) assms(1) by (simp add: unat_drop_bit_div div_nat_eqI)
  then show ?thesis unfolding in_window_def by (intro unsigned_word_eqI) simp
qed

definition elf_entry :: "u8 list \<Rightarrow> u32" where
  "elf_entry fc = push_bit 24 (ucast (fc ! 27)) OR push_bit 16 (ucast (fc ! 26)) OR push_bit 8 (ucast (fc ! 25)) OR ucast (fc ! 24)"

lemma entry_point_elf:
  assumes "bytes m buf (min 40 (length fc)) = take 40 fc" "28 \<le> length fc"
  shows "entry_point buf m = elf_entry fc"
proof -
  have "m (buf + of_nat i) = fc ! i" if "i < 28" for i
  proof -
    have "bytes m buf (min 40 (length fc)) ! i = m (buf + of_nat i)" using that assms(2) by (intro bytes_nth) simp
    then show ?thesis using that assms by simp
  qed
  from this [of 24] this [of 25] this [of 26] this [of 27] show ?thesis
    by (simp add: entry_point_def elf_entry_def Let_def push_bit_or or.assoc)
qed

lemma attach_keeps:
  "attach_terminal s = Some t \<Longrightarrow>
     mem t = mem s \<and> current_process_ID t = current_process_ID s \<and> page_directory t = page_directory s \<and> frames t = frames s"
  by (auto simp: attach_terminal_def Let_def split: if_splits option.splits)

lemma start_process_loads:
  assumes cur: "current_process_ID s = of_nat k" "0 < k" "k < 6" "length (PCB_array s) = 6"
    and par: "unat (nxt_term s) < length (three_term_buf s)" "unat (parent_process_ID s) < 6"
    and wf: "file_wf (mem s) (bootmebb s) inode" "inode_num (mem s) (exec_dentry L) = inode"
    and out: "\<And>q. q \<in> image_region (mem s) (bootmebb s) \<Longrightarrow> \<not> in_window q"
      "\<And>q. q \<in> region (exec_dentry L) 64 \<Longrightarrow> \<not> in_window q"
  defines "fc \<equiv> file_content (mem s) (bootmebb s) inode"
  assumes small: "length fc \<le> 0x3B8000"
  obtains t where "start_process L esp' ebp' s = Some (enter_program (exec_buf L) esp' ebp' t)"
    "mem t = store_bytes (mem (map_window (process_entry (of_nat k)) s)) 0x08048000 fc" "current_process_ID t = of_nat k"
    "page_directory t = (page_directory s)[32 := process_entry (of_nat k)]"
    "frames t = frames (map_window (process_entry (of_nat k)) s)"
proof -
  let ?b = "bootmebb s" and ?e = "process_entry (of_nat k)"
  define i where "i = init_process s"
  note init = init_process_child [OF cur(1,2) _ cur(4), unfolded cur(4), OF cur(3), folded i_def]
  have uk: "(ucast (of_nat k :: u8) :: u32) = of_nat k" by (rule pid_cases [OF cur(3)]) simp_all
  define w where "w = map_window ?e i"
  have mw: "mem w = mem (map_window ?e s)" by (simp add: w_def map_window_def Let_def init cong: if_cong)
  have same: "mem w q = mem s q" if "\<not> in_window q" for q using that by (simp add: mw map_window_mem)
  then have ag: "image_agrees ?b (mem s) (mem w)" using out(1) by (simp add: image_agrees_def)
  note img = image_agrees_file [OF ag wf(1)]
  have ino: "inode_num (mem w) (exec_dentry L) = inode"
    unfolding wf(2) [symmetric] inode_num_def
    by (rule load32_cong) (use same out(2) region_shift_subset [of 36 4 64 "exec_dentry L"] in auto)
  have len: "length fc = file_size (mem s) ?b inode" by (simp add: fc_def file_content_def)
  let ?n = "b_length (mem w) (inode_address ?b inode)"
  have n: "unat ?n = length fc" using img(3) len by (simp add: file_size_def)
  have "region 0x08048000 (length fc) \<inter> image_region (mem w) ?b = {}"
    using load_area_in_window [OF small] out(1) image_agrees_counts(3) [OF ag] by auto
  then have rd: "read_data (mem w) ?b inode 0 0x08048000 ?n = (store_bytes (mem w) 0x08048000 fc, of_nat (length fc))"
    using read_data_content [OF img(1), of 0 ?n "0x08048000"] file_size_small [OF wf(1)] n len img by (simp add: fc_def)
  have "(of_nat (length fc) :: i32) \<noteq> -1" by (rule u32_not_minus_1) (use small in simp)
  moreover have "PCB_array w ! k = (PCB_array s ! k)\<lparr>file_array := initial_file_array, parent_PCB := Some (unat (parent_process_ID s))\<rparr>"
    using cur by (simp add: w_def init)
  then obtain t where t: "attach_terminal (w\<lparr>mem := store_bytes (mem w) 0x08048000 fc\<rparr>) = Some t"
    using attach_room [of "w\<lparr>mem := store_bytes (mem w) 0x08048000 fc\<rparr>" k "unat (parent_process_ID s)"] cur par
    by (auto simp: w_def init)
  ultimately have "start_process L esp' ebp' s = Some (enter_program (exec_buf L) esp' ebp' t)"
    unfolding start_process_def Let_def i_def [symmetric] init(3) uk w_def [symmetric] ino
    using rd by (simp add: w_def init)
  moreover have "mem t = store_bytes (mem w) 0x08048000 fc" "current_process_ID t = current_process_ID w"
    "page_directory t = page_directory w" "frames t = frames w"
    using attach_keeps [OF t] by simp_all
  moreover have "current_process_ID w = of_nat k" "page_directory w = (page_directory s)[32 := ?e]" by (simp_all add: w_def init)
  moreover have "frames w = frames (map_window ?e s)" by (simp add: w_def map_window_def Let_def init cong: if_cong)
  ultimately show thesis by (intro that [of t]) (simp_all only: mw)
qed

text \<open>From the checks on: the process is created and its program loaded.\<close>

lemma program_created:
  assumes run: "running p s"
    and wf: "file_wf (mem s) (bootmebb s) inode" "inode_num (mem s) (exec_dentry L) = inode"
    and out: "\<And>q. q \<in> image_region (mem s) (bootmebb s) \<union> region (exec_dentry L) 64 \<union> region (exec_buf L) 40 \<Longrightarrow> \<not> in_window q"
  defines "fc \<equiv> file_content (mem s) (bootmebb s) inode"
  assumes buf: "bytes (mem s) (exec_buf L) (min 40 (length fc)) = take 40 fc"
    and size: "28 \<le> length fc" "length fc \<le> 0x3B8000"
    and slot: "pcb_alloc (PCB_array s) = Some k" "0 < k" "40 * k + length cs \<le> 244"
    and shell: "unat (nxt_term s) < length (three_term_buf s)"
  shows "\<exists>u. create_process L esp' ebp' cs s = Some (Enter_User (elf_entry fc) 0x083FFFFC u) \<and>
      bytes (mem u) 0x08048000 (length fc) = fc \<and> current_process_ID u = of_nat k \<and>
      page_directory u ! 32 = process_entry (of_nat k) \<and> esp0 u = kernel_stack (of_nat k) \<and>
      (\<forall>a. in_window a \<longrightarrow> frames u (frame_of (process_entry (of_nat p))) a = mem s a)"
proof -
  note run = run [unfolded running_def]
  have k: "k < 6" "pcb_flag (PCB_array s ! k) = 0" using slot(1) run by (simp_all add: pcbs.alloc_iff pcb_used_def)
  with run have pk: "p \<noteq> k" "p < 6" by auto
  have free: "first_free (\<lambda>q. pcb_flag q = 0) 0 (PCB_array s) = Some k" using slot(1) by (simp add: pcb_alloc_def)
  then obtain t where t: "claim_PCB s = Some t" "current_process_ID t = of_nat k" "length (PCB_array t) = 6"
    using run by (simp add: claim_PCB_def)
  then obtain w where w: "set_name cs t = Some w" using set_name_room [of t cs] slot(3) k by auto
  obtain q where w': "current_process_ID w = of_nat k" "PCB_array w = (PCB_array s)[k := q]" "parent_process_ID w = of_nat p"
    "three_term_buf w = three_term_buf s" "nxt_term w = nxt_term s" "mem w = mem s" "bootmebb w = bootmebb s"
    "page_directory w = page_directory s" "frames w = frames s"
    using claimed_block [OF t(1) w] run slot(1) by (metis option.inject)
  have len: "length (PCB_array w) = 6" using w'(2) run by simp
  obtain v where v: "start_process L esp' ebp' w = Some (enter_program (exec_buf L) esp' ebp' v)"
    "mem v = store_bytes (mem (map_window (process_entry (of_nat k)) w)) 0x08048000 fc" "current_process_ID v = of_nat k"
    "page_directory v = (page_directory w)[32 := process_entry (of_nat k)]"
    "frames v = frames (map_window (process_entry (of_nat k)) w)"
    by (rule start_process_loads [OF w'(1) slot(2) k(1) len, of inode L esp' ebp'])
      (use shell pk wf out size(2) in \<open>simp_all add: w' fc_def\<close>)
  have "bytes (mem v) (exec_buf L) (min 40 (length fc)) = bytes (mem s) (exec_buf L) (min 40 (length fc))"
  proof (rule bytes_cong)
    fix q assume "q \<in> region (exec_buf L) (min 40 (length fc))"
    then have "\<not> in_window q" using region_mono [of "min 40 (length fc)" 40 "exec_buf L"] by (intro out) auto
    moreover from this have "q \<notin> region 0x08048000 (length fc)" using load_area_in_window [OF size(2)] by blast
    ultimately show "mem v q = mem s q" by (simp add: v(2) store_bytes_outside map_window_mem w')
  qed
  then have "entry_point (exec_buf L) (mem v) = elf_entry fc" using buf size(1) by (intro entry_point_elf) simp_all
  moreover have "bytes (mem v) 0x08048000 (length fc) = fc"
    unfolding v(2) using size(2) by (intro bytes_store_bytes) simp
  moreover have "page_directory v ! 32 = process_entry (of_nat k)" using run by (simp add: v(4) w')
  moreover have "frames v (frame_of (process_entry (of_nat p))) a = mem s a" if "in_window a" for a
    using that run process_entry_bits(1) [OF pk(2)] by (simp add: v(5) map_window_frames w')
  ultimately show ?thesis
    using t(1) w v(1,3) by (simp add: create_process_def enter_program_def Let_def)
qed

section \<open>An image with one program\<close>

definition elf_image :: memory where
  "elf_image = (\<lambda>a. if 0x402004 \<le> a \<and> a < 0x403000 then ucast a else 0)
     (0x400000 := 1, 0x400004 := 1, 0x400008 := 1, 0x400040 := 97, 0x400060 := 2, 0x401000 := 40,
      0x402000 := 0x7F, 0x402001 := 0x45, 0x402002 := 0x4C, 0x402003 := 0x46, 0x900000 := 97, 0x900010 := 98)"

definition elf_kernel :: kernel where
  "elf_kernel = shell_kernel\<lparr>mem := elf_image\<rparr>"

lemma elf_kernel_fields [simp]:
  "mem elf_kernel = elf_image" "bootmebb elf_kernel = 0x400000" "PCB_array elf_kernel = PCB_array shell_kernel"
  "nxt_term elf_kernel = 0" "length (three_term_buf elf_kernel) = 3"
  by (simp_all add: elf_kernel_def shell_kernel_def)

lemma elf_kernel_running: "running 0 elf_kernel"
  using shell_kernel_running by (simp add: running_def elf_kernel_def)

lemma elf_image_counters:
  "num_inodes elf_image 0x400000 = 1" "data_blocks elf_image 0x400000 = 1"
  "file_size elf_image 0x400000 0 = 40" "in_table elf_image 0x401000 0 = 0"
  by (simp_all add: num_inodes_def data_blocks_def file_size_def b_length_def in_table_def
      inode_address_def load32_def elf_image_def)

lemma elf_image_size: "image_size elf_image 0x400000 = 12288"
  by (simp add: image_size_def elf_image_counters)

lemma elf_image_wf: "file_wf elf_image 0x400000 0"
proof -
  have "in_table elf_image (inode_address 0x400000 0) (of_nat b) < data_blocks elf_image 0x400000" if "4096 * b < 40" for b
  proof -
    from that have "b = 0" by simp
    then show ?thesis by (simp add: inode_address_def elf_image_counters)
  qed
  then show ?thesis by (simp add: file_wf_def elf_image_size elf_image_counters)
qed

definition elf_file :: "u8 list" where
  "elf_file = elf_magic @ map of_nat [4..<40]"

lemma elf_file_facts: "length elf_file = 40" "take 4 elf_file = elf_magic" "elf_entry elf_file = 0x1B1A1918"
  by (simp_all add: elf_file_def elf_magic_def elf_entry_def nth_append)

lemma elf_image_content: "file_content elf_image 0x400000 0 = elf_file"
proof -
  have "file_content elf_image 0x400000 0 = map (\<lambda>j. elf_image (0x402000 + of_nat j)) [0..<40]"
    unfolding file_content_def elf_image_counters
    by (rule map_cong) (auto simp: file_byte_address_def datablock_address_def elf_image_counters inode_address_def)
  also have "\<dots> = elf_file"
    by (simp add: upt_rec elf_image_def elf_magic_def elf_file_def)
  finally show ?thesis .
qed

lemma low_not_in_window: "p \<in> region a n \<Longrightarrow> unat a + n \<le> 0x8000000 \<Longrightarrow> \<not> in_window p"
proof
  assume "p \<in> region a n" and le: "unat a + n \<le> 0x8000000" and win: "in_window p"
  then obtain i where i: "i < n" "p = a + of_nat i" by (auto simp: region_def)
  then have "p = of_nat (unat a + i)" by simp
  moreover have "unat a + i < 2 ^ 32" using i(1) le by simp
  ultimately have "unat p = unat a + i" by (simp only: unat_u32_of_nat)
  then have "unat p < 0x8000000" using i(1) le by simp
  moreover have "unat (drop_bit 22 p) = 32" using win by (simp add: in_window_def)
  ultimately show False by (simp add: unat_drop_bit_div)
qed

lemma elf_locals_apart:
  assumes "command = 0x900000 \<or> command = 0x900010"
  shows "locals_apart some_locals command (Suc 0) 0x400000 elf_image"
  using assms unfolding locals_apart_def image_region_def elf_image_size some_locals_def
  by (elim disjE) (simp_all add: region_iff, (intro conjI region_disjointI; simp)+)

lemma elf_entries:
  assumes "i < 63"
  shows "entry_name elf_image 0x400000 i = (if i = 0 then [97] else [])"
proof (cases "i = 0")
  case True
  then show ?thesis by (simp add: entry_name_def d_table_entry_def cprefix_def bytes_def elf_image_def upt_rec)
next
  case False
  have "elf_image (of_nat (0x400040 + 64 * i)) = 0"
  proof -
    let ?a = "of_nat (0x400040 + 64 * i) :: u32"
    have u: "unat ?a = 0x400040 + 64 * i" using assms by (intro unat_u32_of_nat) simp
    have ne: "?a \<noteq> c" if "unat c \<noteq> 0x400040 + 64 * i" for c using that u by auto
    have "?a < 0x402004" using u assms by (simp add: word_less_nat_alt)
    moreover have "?a \<noteq> 0x400000" "?a \<noteq> 0x400004" "?a \<noteq> 0x400008" "?a \<noteq> 0x400040" "?a \<noteq> 0x400060" "?a \<noteq> 0x401000"
      "?a \<noteq> 0x402000" "?a \<noteq> 0x402001" "?a \<noteq> 0x402002" "?a \<noteq> 0x402003" "?a \<noteq> 0x900000" "?a \<noteq> 0x900010"
      by (rule ne, use False assms in simp)+
    ultimately show ?thesis unfolding elf_image_def fun_upd_apply by (simp only: if_False if_True not_le [symmetric] simp_thms)
  qed
  moreover have "d_table_entry 0x400000 (of_nat i) = of_nat (0x400040 + 64 * i)" by (simp add: d_table_entry_def)
  ultimately have "elf_image (d_table_entry 0x400000 (of_nat i)) = 0" by simp
  then show ?thesis using False cprefix_Suc [of elf_image "d_table_entry 0x400000 (of_nat i)" 31] by (simp add: entry_name_def)
qed

lemma elf_lookup:
  "lookup_name elf_image 0x400000 [97] = Some 0" "lookup_name elf_image 0x400000 [98] = None"
  by (simp_all add: lookup_name_Some lookup_name_None elf_entries)

lemma elf_commands:
  "cstring elf_image 0x900000 [97]" "program_name [97] = [97]" "cstring elf_image 0x900010 [98]" "program_name [98] = [98]"
  by (simp_all add: cstring_def bytes_def elf_image_def program_name_def)

section \<open>Properties\<close>

text \<open>
  C27: A command whose program name (the command up to its last space, cut at 32 characters) is not in the
  directory is refused: \<^verbatim>\<open>sys_call_execute\<close> returns -1, and the process table, the process numbers, the
  terminals, the page directory and the kernel stack pointer are unchanged.
\<close>

theorem execute_unknown_program:
  assumes "cstring (mem s) command cs" "length cs < 4096"
    and "locals_apart L command (length cs) (bootmebb s) (mem s)"
    and "lookup_name (mem s) (bootmebb s) (take 32 (program_name cs)) = None"
  shows "\<exists>t. sys_call_execute L esp' ebp' command s = Some (Returned (-1) t) \<and> process_view t = process_view s"
proof -
  let ?m = "split_command L command (of_nat (length cs)) (mem s)"
  from assms(3) have sep: "region (word1 L) (length cs + 1) \<inter> region command (length cs + 1) = {}"
    "word2 L + 1 \<notin> region (word1 L) (length cs + 1)" by (simp_all add: locals_apart_def)
  have "cprefix ?m (word1 L) 32 = take 32 (program_name cs)"
    using split_command_name(1) [OF assms(1,2) sep] by (rule cprefix_cstring)
  then have "read_dentry_by_name ?m (bootmebb s) (word1 L) (exec_dentry L) = (?m, -1)"
    using lookup_agrees(1) [OF split_command_agrees [OF assms(1-3)]] assms(4) by (simp add: read_dentry_by_name_lookup)
  with strlen_cstring [OF assms(1)] show ?thesis by (simp add: sys_call_execute_def Let_def)
qed

theorem execute_unknown_program_witness:
  "\<exists>t. sys_call_execute some_locals 1 2 0x900010 elf_kernel = Some (Returned (-1) t) \<and> process_view t = process_view elf_kernel"
  by (rule execute_unknown_program [where cs = "[98]"]) (simp_all add: elf_commands elf_lookup elf_locals_apart)

text \<open>
  C2: A command that names an ELF file of the directory is executed when a process and its name fit:
  control passes to the entry point stored in bytes 24 to 27 of the file with the stack at the end of the
  window; the lowest free process \<open>k\<close> is the current one, the window is mapped to its frame and holds the whole
  file from 0x08048000 on, its kernel stack is set up, and the frame of the process \<open>p\<close> that ran before
  still holds every byte that \<open>p\<close> saw in the window.
\<close>

theorem execute_starts_program:
  assumes run: "running p s" and cmd: "cstring (mem s) command cs"
    and apart: "locals_apart L command (length cs) (bootmebb s) (mem s)"
    and out: "\<And>q. q \<in> image_region (mem s) (bootmebb s) \<union> region (exec_dentry L) 64 \<union> region (exec_buf L) 40 \<union>
        region (word1 L) (length cs + 1) \<union> {word2 L + 1} \<Longrightarrow> \<not> in_window q"
    and found: "lookup_name (mem s) (bootmebb s) (take 32 (program_name cs)) = Some d"
    and wf: "file_wf (mem s) (bootmebb s) (inode_num (mem s) (d_table_entry (bootmebb s) (of_nat d)))"
    and fc: "fc = file_content (mem s) (bootmebb s) (inode_num (mem s) (d_table_entry (bootmebb s) (of_nat d)))"
    and elf: "take 4 fc = elf_magic" "28 \<le> length fc" "length fc \<le> 0x3B8000"
    and slot: "pcb_alloc (PCB_array s) = Some k" "0 < k" "40 * k + length cs \<le> 244"
    and shell: "unat (nxt_term s) < length (three_term_buf s)"
  shows "\<exists>u. sys_call_execute L esp' ebp' command s = Some (Enter_User (elf_entry fc) 0x083FFFFC u) \<and>
      bytes (mem u) 0x08048000 (length fc) = fc \<and> current_process_ID u = of_nat k \<and>
      page_directory u ! 32 = process_entry (of_nat k) \<and> esp0 u = kernel_stack (of_nat k) \<and>
      (\<forall>a. in_window a \<longrightarrow> frames u (frame_of (process_entry (of_nat p))) a = mem s a)"
proof -
  let ?b = "bootmebb s" and ?i = "inode_num (mem s) (d_table_entry (bootmebb s) (of_nat d))"
  have len: "length cs < 4096" using slot(3) by simp
  obtain m where ag: "image_agrees ?b (mem s) m" and ino: "inode_num m (exec_dentry L) = ?i"
    and buf: "bytes m (exec_buf L) (min 40 (length fc)) = take 40 fc"
    and same: "\<And>q. q \<notin> region (word1 L) (length cs + 1) \<Longrightarrow> q \<noteq> word2 L + 1 \<Longrightarrow> q \<notin> region (exec_dentry L) 64 \<Longrightarrow>
        q \<notin> region (exec_buf L) 40 \<Longrightarrow> m q = mem s q"
    and exec: "sys_call_execute L esp' ebp' command s =
       (if magic_ok m (exec_buf L) then create_process L esp' ebp' cs (s\<lparr>mem := m\<rparr>)
        else Some (Returned (-1) (s\<lparr>mem := m\<rparr>)))"
    by (rule execute_checked [OF cmd len apart found refl wf, of esp' ebp', folded fc]) blast
  note img = image_agrees_file [OF ag wf] image_agrees_counts(3) [OF ag]
  have "bytes m (exec_buf L) 4 = take 4 (bytes m (exec_buf L) (min 40 (length fc)))"
    using elf(2) by (intro nth_equalityI) simp_all
  then have magic: "magic_ok m (exec_buf L)" using elf(1) buf by (simp add: magic_ok_elf)
  have fc': "file_content m ?b ?i = fc" using img fc by simp
  have "m a = mem s a" if "in_window a" for a using out that by (intro same) blast+
  moreover have "running p (s\<lparr>mem := m\<rparr>)" using run by (simp add: running_def)
  from program_created [OF this, of ?i L k cs esp' ebp'] calculation show ?thesis
    using img ino out buf elf slot shell exec magic by (simp add: fc')
qed

theorem execute_starts_program_witness:
  "\<exists>u. sys_call_execute some_locals 1 2 0x900000 elf_kernel = Some (Enter_User 0x1B1A1918 0x083FFFFC u) \<and>
     bytes (mem u) 0x08048000 40 = elf_file \<and> current_process_ID u = 1 \<and>
     page_directory u ! 32 = 0xC00087 \<and> esp0 u = 0x7FBFFC \<and>
     (\<forall>a. in_window a \<longrightarrow> frames u 0x800000 a = elf_image a)"
proof -
  have ino: "inode_num elf_image (d_table_entry 0x400000 (of_nat 0)) = 0"
    by (simp add: inode_num_def load32_def d_table_entry_def elf_image_def)
  have out: "\<not> in_window q" if "q \<in> image_region elf_image 0x400000 \<union> region (exec_dentry some_locals) 64 \<union> region (exec_buf some_locals) 40 \<union>
      region (word1 some_locals) (length [97 :: u8] + 1) \<union> {word2 some_locals + 1}" for q
    using that low_not_in_window [of q "0x400000" 12288] low_not_in_window [of q "0x940000" 64] low_not_in_window [of q "0x930000" 40]
      low_not_in_window [of q "0x910000" "Suc (Suc 0)"]
    by (auto simp: in_window_def [of "0x920001"] image_region_def elf_image_size some_locals_def)
  show ?thesis
    using execute_starts_program [OF elf_kernel_running, where command = "0x900000" and cs = "[97]" and L = some_locals and d = 0
        and fc = elf_file and k = 1 and esp' = 1 and ebp' = 2] out ino
    by (simp add: elf_commands elf_lookup elf_locals_apart elf_image_wf elf_image_content elf_file_facts shell_kernel_free
        process_entry_def frame_of_def kernel_stack_def bit_simps)
qed

end
