(* ===== verification/Syscalls.thy ===== *)
theory Syscalls
  imports Execute
begin

text \<open>
  The remaining system calls of \<^verbatim>\<open>syscalls.c\<close>, with \<^verbatim>\<open>file_read\<close> of \<^verbatim>\<open>file_sys.c\<close>, which needs the
  control blocks.  A call through a table of operations goes to the function the table holds; the
  tables of the five devices are filled before they are used, so an operation is a value of type
  \<open>operation\<close>, and the zero entries and the NULL table are \<open>None\<close>: the call does not return.

  The reads that wait take the list of interrupt handlers that run meanwhile, as in the theories
  \<open>RTC\<close> and \<open>Keyboard\<close>.
\<close>

section \<open>file\_sys.c: initialize\_boot and file\_read\<close>

definition initialize_boot :: "u32 \<Rightarrow> 'a kernel_scheme \<Rightarrow> 'a kernel_scheme" where
  "initialize_boot booter s = s\<lparr>bootmebb := booter\<rparr>"

definition current_file :: "i32 \<Rightarrow> 'a kernel_scheme \<Rightarrow> file_block" where
  "current_file fd s = file_array (PCB_array s ! unat (current_process_ID s)) ! unat fd"

definition update_file :: "i32 \<Rightarrow> (file_block \<Rightarrow> file_block) \<Rightarrow> 'a kernel_scheme \<Rightarrow> 'a kernel_scheme" where
  "update_file fd f s =
     update_PCB (current_process_ID s)
       (\<lambda>p. p\<lparr>file_array := (file_array p)[unat fd := f (file_array p ! unat fd)]\<rparr>) s"

definition file_read :: "i32 \<Rightarrow> u32 \<Rightarrow> i32 \<Rightarrow> 'a kernel_scheme \<Rightarrow> i32 \<times> 'a kernel_scheme" where
  "file_read fd buf nbytes s =
     (let inode = fb_inode (current_file fd s);
          file_pos = file_position (current_file fd s)
      in if file_pos \<ge> b_length (mem s) (inode_address (bootmebb s) inode) then (0, s)
         else let (m, temp_value) = read_data (mem s) (bootmebb s) inode file_pos buf nbytes;
                  s = s\<lparr>mem := m\<rparr>
              in (temp_value, update_file fd (\<lambda>b. b\<lparr>file_position := file_position b + temp_value\<rparr>) s))"

section \<open>syscalls.c: the operation tables\<close>

datatype operation =
    Op_RTC_Read | Op_RTC_Write | Op_read_directory | Op_write_directory | Op_file_read | Op_file_write
  | Op_read_Terminal | Op_write_Terminal

fun dev_read :: "device_ptr \<Rightarrow> operation option" where
  "dev_read RTC_DEV = Some Op_RTC_Read"
| "dev_read DIR_DEV = Some Op_read_directory"
| "dev_read FILE_DEV = Some Op_file_read"
| "dev_read STDIN = Some Op_read_Terminal"
| "dev_read STDOUT = None"
| "dev_read NULL = None"

fun dev_write :: "device_ptr \<Rightarrow> operation option" where
  "dev_write RTC_DEV = Some Op_RTC_Write"
| "dev_write DIR_DEV = Some Op_write_directory"
| "dev_write FILE_DEV = Some Op_file_write"
| "dev_write STDIN = None"
| "dev_write STDOUT = Some Op_write_Terminal"
| "dev_write NULL = None"

text \<open>The close operations: what the call returns.\<close>

fun dev_close :: "device_ptr \<Rightarrow> i32 option" where
  "dev_close RTC_DEV = Some RTC_Close"
| "dev_close DIR_DEV = Some close_directory"
| "dev_close FILE_DEV = Some file_close"
| "dev_close STDIN = Some close_Terminal"
| "dev_close STDOUT = Some close_Terminal"
| "dev_close NULL = None"

text \<open>The condition that guards \<^verbatim>\<open>read\<close> (\<open>reserved = 1\<close>) and \<^verbatim>\<open>write\<close> (\<open>reserved = 0\<close>).\<close>

definition bad_fd :: "i32 \<Rightarrow> i32 \<Rightarrow> 'a kernel_scheme \<Rightarrow> bool" where
  "bad_fd reserved fd s \<longleftrightarrow> fd = reserved \<or> sint fd > 7 \<or> sint fd < 0 \<or> fb_flags (current_file fd s) = 0"

section \<open>syscalls.c: read, write, open, close\<close>

text \<open>\<open>dentry\<close> is the address of the local entry of \<^verbatim>\<open>read_directory\<close> and of \<^verbatim>\<open>sys_call_open\<close>.\<close>

definition call_read ::
  "operation \<Rightarrow> u32 \<Rightarrow> ('a kernel_scheme \<Rightarrow> 'a kernel_scheme) list \<Rightarrow> i32 \<Rightarrow> u32 \<Rightarrow> i32 \<Rightarrow> 'a kernel_scheme \<Rightarrow>
     (i32 \<times> 'a kernel_scheme \<times> ('a kernel_scheme \<Rightarrow> 'a kernel_scheme) list) option" where
  "call_read op dentry handlers fd buf nbytes s =
     (case op of
        Op_RTC_Read \<Rightarrow> RTC_Read handlers s
      | Op_read_Terminal \<Rightarrow> read_Terminal handlers buf s
      | Op_read_directory \<Rightarrow>
          (case read_directory (mem s) (bootmebb s) dentry (read_directory_index s) buf of
             None \<Rightarrow> None
           | Some (m, idx, n) \<Rightarrow> Some (n, s\<lparr>mem := m, read_directory_index := idx\<rparr>, handlers))
      | Op_file_read \<Rightarrow> (case file_read fd buf nbytes s of (n, s) \<Rightarrow> Some (n, s, handlers))
      | _ \<Rightarrow> None)"

definition sys_call_read ::
  "u32 \<Rightarrow> ('a kernel_scheme \<Rightarrow> 'a kernel_scheme) list \<Rightarrow> i32 \<Rightarrow> u32 \<Rightarrow> i32 \<Rightarrow> 'a kernel_scheme \<Rightarrow>
     (i32 \<times> 'a kernel_scheme \<times> ('a kernel_scheme \<Rightarrow> 'a kernel_scheme) list) option" where
  "sys_call_read dentry handlers fd buf nbytes s =
     (if bad_fd 1 fd s then Some (-1, s, handlers)
      else case dev_read (file_op_table_ptr (current_file fd s)) of
             None \<Rightarrow> None
           | Some op \<Rightarrow> call_read op dentry handlers fd buf nbytes s)"

definition call_write ::
  "operation \<Rightarrow> device \<Rightarrow> u32 \<Rightarrow> i32 \<Rightarrow> 'a kernel_scheme \<Rightarrow> (i32 \<times> 'a kernel_scheme) option" where
  "call_write op dev buf nbytes s =
     (case op of
        Op_RTC_Write \<Rightarrow> RTC_Write dev s
      | Op_write_Terminal \<Rightarrow> Some (write_Terminal buf nbytes s)
      | Op_write_directory \<Rightarrow> Some (write_directory, s)
      | Op_file_write \<Rightarrow> Some (file_write, s)
      | _ \<Rightarrow> None)"

definition sys_call_write :: "device \<Rightarrow> i32 \<Rightarrow> u32 \<Rightarrow> i32 \<Rightarrow> 'a kernel_scheme \<Rightarrow> (i32 \<times> 'a kernel_scheme) option" where
  "sys_call_write dev fd buf nbytes s =
     (if bad_fd 0 fd s then Some (-1, s)
      else case dev_write (file_op_table_ptr (current_file fd s)) of
             None \<Rightarrow> None
           | Some op \<Rightarrow> call_write op dev buf nbytes s)"

text \<open>The table chosen by the type of the file; no table for a type that is none of the three.\<close>

definition device_of_type :: "u32 \<Rightarrow> device_ptr option" where
  "device_of_type t = (if t = 0 then Some RTC_DEV else if t = 1 then Some DIR_DEV else if t = 2 then Some FILE_DEV else None)"

definition sys_call_open :: "u32 \<Rightarrow> u32 \<Rightarrow> 'a kernel_scheme \<Rightarrow> (i32 \<times> 'a kernel_scheme) option" where
  "sys_call_open currfile filename s =
     (case strlen (mem s) filename of
        None \<Rightarrow> None
      | Some len \<Rightarrow>
          if len = 0 then Some (-1, s)
          else
            let (m, r) = read_dentry_by_name (mem s) (bootmebb s) filename currfile;
                s = s\<lparr>mem := m\<rparr>
            in if r = -1 then Some (-1, s)
               else
                 let type_of_file = file_type (mem s) currfile;
                     fs = file_array (PCB_array s ! unat (current_process_ID s))
                 in case first_free (\<lambda>b. fb_flags b = 0) 2 (drop 2 fs) of
                      None \<Rightarrow> Some (-1, s)
                    | Some i \<Rightarrow>
                        let s = update_file (of_nat i)
                                  (\<lambda>b. b\<lparr>fb_inode := inode_num (mem s) currfile, file_position := 0, fb_flags := 1\<rparr>) s
                        in case device_of_type type_of_file of
                             Some d \<Rightarrow> Some (of_nat i, update_file (of_nat i) (\<lambda>b. b\<lparr>file_op_table_ptr := d\<rparr>) s)
                           | None \<Rightarrow> Some (-1, s))"

definition sys_call_close :: "i32 \<Rightarrow> 'a kernel_scheme \<Rightarrow> (i32 \<times> 'a kernel_scheme) option" where
  "sys_call_close fd s =
     (if sint fd < 2 \<or> sint fd > 7 then Some (-1, s)
      else if fb_flags (current_file fd s) = 1
      then let s = update_file fd (\<lambda>b. b\<lparr>fb_flags := 0\<rparr>) s
           in case dev_close (file_op_table_ptr (current_file fd s)) of None \<Rightarrow> None | Some _ \<Rightarrow> Some (0, s)
      else Some (-1, s))"

section \<open>syscalls.c: getargs\<close>

text \<open>
  \<^verbatim>\<open>strlen(command_global[pid])\<close>: the row of the process and, when it holds no zero, what follows it
  in the block.  \<open>None\<close> when there is no zero up to the end of the block's last member.
\<close>

definition command_text :: "'a kernel_scheme \<Rightarrow> u8 list" where
  "command_text s =
     (let p = PCB_array s ! unat (current_process_ID s)
      in drop (40 * unat (current_process_ID s)) (command_global p @ [isActive p, terminalNumber p]))"

definition command_strlen :: "'a kernel_scheme \<Rightarrow> nat option" where
  "command_strlen s = (if 0 \<in> set (command_text s) then Some (length (takeWhile (\<lambda>b. b \<noteq> 0) (command_text s))) else None)"

text \<open>The index of the first space, and 0 when there is none.\<close>

fun first_space :: "nat \<Rightarrow> u8 list \<Rightarrow> nat" where
  "first_space i [] = 0"
| "first_space i (c # cs) = (if c = 32 then i else first_space (i + 1) cs)"

text \<open>The first loop, which clears both buffers, and the last one, which asks \<^verbatim>\<open>strlen\<close> in each round.\<close>

fun clear_both :: "nat \<Rightarrow> u32 \<Rightarrow> u32 \<Rightarrow> memory \<Rightarrow> memory" where
  "clear_both 0 buf words m = m"
| "clear_both (Suc k) buf words m = clear_both k (buf + 1) (words + 1) (m(buf := 0, words := 0))"

partial_function (option) copy_words :: "u32 \<Rightarrow> u32 \<Rightarrow> u32 \<Rightarrow> memory \<Rightarrow> memory option" where
  "copy_words i words buf m =
     (case strlen m words of
        None \<Rightarrow> None
      | Some l \<Rightarrow> if i < l then copy_words (i + 1) words buf (m(buf + i := m (words + i))) else Some m)"

definition sys_call_getargs :: "u32 \<Rightarrow> u32 \<Rightarrow> i32 \<Rightarrow> 'a kernel_scheme \<Rightarrow> (i32 \<times> 'a kernel_scheme) option" where
  "sys_call_getargs words buf nbytes s =
     (if sint nbytes \<le> 0 \<or> buf = 0 then Some (-1, s)
      else
        let s = s\<lparr>mem := clear_both 40 buf words (mem s)\<rparr>
        in case command_strlen s of
             None \<Rightarrow> None
           | Some len \<Rightarrow>
               let cmd = command_text s; idx = first_space 0 (take len cmd)
               in if idx = 0 then Some (-1, s)
                  else
                    let m = store_bytes (mem s) words (drop (idx + 1) (take len cmd));
                        m = m(words + of_nat (len - idx) := 0)
                    in case copy_words 0 words buf m of
                         None \<Rightarrow> None
                       | Some m \<Rightarrow>
                           (case strlen m words of
                              None \<Rightarrow> None
                            | Some l \<Rightarrow> Some (0, s\<lparr>mem := m(buf + l := 0)\<rparr>)))"

section \<open>syscalls.c: vidmap\<close>

definition sys_call_vidmap :: "u32 \<Rightarrow> 'a kernel_scheme \<Rightarrow> i32 \<times> 'a kernel_scheme" where
  "sys_call_vidmap screen_start s =
     (if screen_start < 0x8000000 \<or> screen_start > 0x8400000 then (-1, s)
      else
        let s = s\<lparr>mem := store32 (mem s) screen_start 0x9000000\<rparr>;
            temp_screen_start = load32 (mem s) screen_start;
            page_directory_index_vidmap = (ucast (drop_bit 22 temp_screen_start) :: u8);
            s = s\<lparr>page_table_vidmap := (page_table_vidmap s)[0 := 0xb8000 OR 0x4 OR 0x2 OR 0x1]\<rparr>
        in (0, s\<lparr>page_directory :=
                 (page_directory s)[unat page_directory_index_vidmap := page_table_vidmap_at s OR 0x4 OR 0x2 OR 0x1]\<rparr>))"

section \<open>syscalls.c: the signal stubs\<close>

text \<open>\<open>msg\<close> is the address of the string literal.\<close>

definition sys_call_set_handler ::
  "(u8 \<Rightarrow> u32) \<Rightarrow> u32 \<Rightarrow> i32 \<Rightarrow> u32 \<Rightarrow> 'a kernel_scheme \<Rightarrow> (i32 \<times> 'a kernel_scheme) option" where
  "sys_call_set_handler conv msg signum handler_address s = map_option (\<lambda>(_, s). (0, s)) (printf conv msg 0 s)"

definition sys_call_sigreturn :: "(u8 \<Rightarrow> u32) \<Rightarrow> u32 \<Rightarrow> 'a kernel_scheme \<Rightarrow> (i32 \<times> 'a kernel_scheme) option" where
  "sys_call_sigreturn conv msg s = map_option (\<lambda>(_, s). (0, s)) (printf conv msg 0 s)"

section \<open>syscalls.c: looking up processes\<close>

text \<open>The search shared by \<^verbatim>\<open>get_esp\<close>, \<^verbatim>\<open>get_ebp\<close> and \<^verbatim>\<open>get_current_process_ID\<close>.\<close>

fun active_on :: "u8 \<Rightarrow> PCB list \<Rightarrow> PCB option" where
  "active_on term [] = None"
| "active_on term (p # ps) = (if terminalNumber p = term \<and> isActive p = 1 then Some p else active_on term ps)"

definition get_esp :: "u8 \<Rightarrow> 'a kernel_scheme \<Rightarrow> u32" where
  "get_esp term s = (case active_on term (PCB_array s) of Some p \<Rightarrow> pcb_esp p | None \<Rightarrow> 69)"

definition get_ebp :: "u8 \<Rightarrow> 'a kernel_scheme \<Rightarrow> u32" where
  "get_ebp term s = (case active_on term (PCB_array s) of Some p \<Rightarrow> pcb_ebp p | None \<Rightarrow> 69)"

definition get_current_process_ID :: "u8 \<Rightarrow> 'a kernel_scheme \<Rightarrow> i32" where
  "get_current_process_ID term s = (case active_on term (PCB_array s) of Some p \<Rightarrow> process_id p | None \<Rightarrow> 69)"

definition get_esp_fuck :: "u8 \<Rightarrow> 'a kernel_scheme \<Rightarrow> u32 option" where
  "get_esp_fuck process_ID s = map_option pcb_esp (get_PCB process_ID s)"

definition get_ebp_bitch :: "u8 \<Rightarrow> 'a kernel_scheme \<Rightarrow> u32 option" where
  "get_ebp_bitch process_ID s = map_option pcb_ebp (get_PCB process_ID s)"

definition set_current_process_ID :: "i32 \<Rightarrow> 'a kernel_scheme \<Rightarrow> 'a kernel_scheme" where
  "set_current_process_ID new_PID s = s\<lparr>current_process_ID := ucast new_PID\<rparr>"

definition get_current_process_ID_without_term :: "'a kernel_scheme \<Rightarrow> i32" where
  "get_current_process_ID_without_term s = ucast (current_process_ID s)"

definition set_parent_process_ID :: "i32 \<Rightarrow> 'a kernel_scheme \<Rightarrow> 'a kernel_scheme" where
  "set_parent_process_ID new_PID s = s\<lparr>parent_process_ID := ucast new_PID\<rparr>"

definition get_parent_process_ID :: "'a kernel_scheme \<Rightarrow> i32" where
  "get_parent_process_ID s = ucast (parent_process_ID s)"

definition is_PCB_array_full :: "'a kernel_scheme \<Rightarrow> i32" where
  "is_PCB_array_full s = (if length (filter (\<lambda>p. pcb_flag p = 1) (PCB_array s)) = 6 then 1 else 0)"

end
