(* ===== verification/Vidmap.thy ===== *)
theory Vidmap
  imports Syscalls
begin

text \<open>
  \<^verbatim>\<open>sys_call_vidmap\<close>: what the page tables translate after the call, in terms of the two-level
  walk of the theory \<open>Paging\<close>.
\<close>

lemma vidmap_page: "drop_bit 12 (v :: u32) = 0x9000 \<Longrightarrow> drop_bit 22 v = 36"
proof -
  assume "drop_bit 12 v = 0x9000"
  then have "drop_bit 10 (drop_bit 12 v) = drop_bit 10 0x9000" by (simp only:)
  then show ?thesis by simp
qed

section \<open>Properties\<close>

text \<open>
  C19: \<^verbatim>\<open>sys_call_vidmap\<close> refuses a pointer outside the program window.  Otherwise the pointer it
  writes is 0x9000000, and the page there translates, for the program too, to the frame buffer; the
  other 4 MB regions translate as before.  (The upper limit of the check is one byte too high: the
  pointer 0x8400000, just after the window, is accepted.)
\<close>

theorem vidmap_correct:
  assumes "tables_wf s"
    and "\<And>k. k < 1024 \<Longrightarrow> k \<noteq> 36 \<Longrightarrow> \<not> names_table (page_table_vidmap_at s) (page_directory s ! k)"
  shows "case sys_call_vidmap screen_start s of (r, t) \<Rightarrow>
     if screen_start < 0x8000000 \<or> 0x8400000 < screen_start then r = -1 \<and> t = s
     else r = 0 \<and> load32 (mem t) screen_start = 0x9000000 \<and>
       (\<forall>acc v. drop_bit 12 v = 0x9000 \<longrightarrow> translate acc t v = Some (0xB8000 + (v AND 0xFFF))) \<and>
       (\<forall>acc v. drop_bit 22 v \<noteq> 36 \<longrightarrow> translate acc t v = translate acc s v)"
proof (cases "screen_start < 0x8000000 \<or> 0x8400000 < screen_start")
  case True
  then show ?thesis by (simp add: sys_call_vidmap_def)
next
  case False
  define t where "t = snd (sys_call_vidmap screen_start s)"
  let ?a = "page_table_vidmap_at s"
  have t: "page_directory t = (page_directory s)[36 := ?a OR 4 OR 2 OR 1]"
    "page_table_vidmap t = (page_table_vidmap s)[0 := 0xB8007]" "page_table t = page_table s"
    "page_table_terminals t = page_table_terminals s" "page_table_at t = page_table_at s"
    "page_table_vidmap_at t = ?a" "page_table_terminals_at t = page_table_terminals_at s"
    "mem t = store32 (mem s) screen_start 0x9000000"
    using False by (simp_all add: t_def sys_call_vidmap_def Let_def)
  have "sys_call_vidmap screen_start s = (0, t)" using False by (simp add: t_def sys_call_vidmap_def Let_def)
  moreover have "translate acc t v = Some (0xB8000 + (v AND 0xFFF))" if v: "drop_bit 12 v = 0x9000" for acc v
  proof -
    have "page_directory t ! unat (drop_bit 22 v) = ?a OR 4 OR 2 OR 1"
      using vidmap_page [OF v] assms(1) by (simp add: t tables_wf_def)
    moreover have "page_table_vidmap t ! unat (drop_bit 12 v AND 0x3FF) = 0xB8007"
      using v assms(1) by (simp add: t tables_wf_def)
    moreover have "table_at t ?a = Some (page_table_vidmap t)" "?a AND 0xFFF = 0"
      using assms(1) by (auto simp: table_at_def t tables_wf_def)
    ultimately show ?thesis using translate_small_page [of t v ?a "page_table_vidmap t" "0xB8007" acc] by simp
  qed
  moreover have "translate acc t v = translate acc s v" if v: "drop_bit 22 v \<noteq> 36" for acc v
  proof (rule translate_other_slot [OF _ t(1)])
    show k: "unat (drop_bit 22 v) \<noteq> 36" using v by (auto simp: word_unat_eq_iff)
    show "table_at t a = table_at s a" if "names_table a (page_directory s ! unat (drop_bit 22 v))" for a
      using that assms(2) [OF drop_22_bound k] by (auto simp: table_at_def t)
  qed
  ultimately show ?thesis using False by (simp add: t)
qed

theorem vidmap_correct_witness:
  "translate User_Access (snd (sys_call_vidmap 0x8048000 shell_kernel)) 0x9000123 = Some 0xB8123"
proof -
  have wf: "tables_wf shell_kernel"
    by (simp add: shell_kernel_def reset_kernel_def tables_wf_def kernel.defs reset_paging_def paging.defs keyboard.defs)
  have "\<not> names_table a (page_directory shell_kernel ! k)" if "k < 1024" for a k
    using that process_entry_bits(3) [of 0] by (cases "k = 32") (simp_all add: shell_kernel_def names_table_def)
  with wf show ?thesis
    using vidmap_correct [of shell_kernel "0x8048000"] by (auto split: prod.splits)
qed

end
