(* ===== verification/Open_Files.thy ===== *)
theory Open_Files
  imports Syscalls
begin

text \<open>
  The open files of the processes: the file array as a table of slots, and the invariant that makes calls through the
  operation tables safe and that each call keeps, \<^verbatim>\<open>open\<close> only for files of the three known types.
\<close>

section \<open>File arrays as slot tables\<close>

definition fd_alloc :: "file_block list \<Rightarrow> nat option" where
  "fd_alloc fs = first_free (\<lambda>b. fb_flags b = 0) 2 (drop 2 fs)"

definition fd_used :: "file_block list \<Rightarrow> nat \<Rightarrow> bool" where
  "fd_used fs i \<longleftrightarrow> fb_flags (fs ! i) \<noteq> 0"

definition fd_claim :: "nat \<Rightarrow> file_block list \<Rightarrow> file_block list" where
  "fd_claim i fs = fs[i := (fs ! i)\<lparr>fb_flags := 1\<rparr>]"

definition fd_release :: "nat \<Rightarrow> file_block list \<Rightarrow> file_block list" where
  "fd_release i fs = fs[i := (fs ! i)\<lparr>fb_flags := 0\<rparr>]"

lemma nth_drop_2:
  assumes "2 \<le> j" "j < length fs"
  shows "drop 2 fs ! (j - 2) = fs ! j"
proof -
  have "drop 2 fs ! (j - 2) = fs ! (2 + (j - 2))" using assms by (intro nth_drop) simp
  also have "2 + (j - 2) = j" using assms(1) by (rule le_add_diff_inverse)
  finally show ?thesis .
qed

interpretation fds: slot_table fd_alloc fd_used "\<lambda>fs. {2..<length fs}" fd_claim fd_release
proof unfold_locales
  fix fs :: "file_block list" and k j :: nat
  show "k \<in> {2..<length fs} \<and> \<not> fd_used fs k \<and> (\<forall>j \<in> {2..<length fs}. j < k \<longrightarrow> fd_used fs j)" if "fd_alloc fs = Some k"
  proof -
    from that have k: "2 \<le> k" "k < 2 + length (drop 2 fs)" "fb_flags (drop 2 fs ! (k - 2)) = 0"
      and below: "\<forall>j < k - 2. fb_flags (drop 2 fs ! j) \<noteq> 0"
      by (simp_all add: fd_alloc_def first_free_Some)
    from k have "k < length fs" by (simp split: if_splits)
    moreover have "fd_used fs j" if "2 \<le> j" "j < k" for j
    proof -
      have "Suc (Suc (j - 2)) = j" "j - 2 < k - 2" using that by simp_all
      then show ?thesis using below [rule_format, of "j - 2"] that \<open>k < length fs\<close> by (simp add: fd_used_def)
    qed
    moreover have "fs ! k = drop 2 fs ! (k - 2)" using nth_drop_2 [OF k(1) \<open>k < length fs\<close>] by (rule sym)
    ultimately show ?thesis using k by (simp add: fd_used_def)
  qed
  show "fd_used fs j" if "fd_alloc fs = None" "j \<in> {2..<length fs}"
  proof -
    from that have "\<forall>b \<in> set (drop 2 fs). fb_flags b \<noteq> 0" by (simp add: fd_alloc_def first_free_None)
    moreover have "fs ! j \<in> set (drop 2 fs)"
      using that(2) nth_drop_2 [of j fs] nth_mem [of "j - 2" "drop 2 fs"] by (simp del: nth_drop) (metis diff_less_mono)
    ultimately show ?thesis by (simp add: fd_used_def)
  qed
  show "{2..<length (fd_claim k fs)} = {2..<length fs}" by (simp add: fd_claim_def)
  show "{2..<length (fd_release k fs)} = {2..<length fs}" by (simp add: fd_release_def)
  show "k \<in> {2..<length fs} \<Longrightarrow> fd_used (fd_claim k fs) j \<longleftrightarrow> j = k \<or> fd_used fs j"
    by (simp add: fd_used_def fd_claim_def nth_list_update)
  show "k \<in> {2..<length fs} \<Longrightarrow> fd_used (fd_release k fs) j \<longleftrightarrow> j \<noteq> k \<and> fd_used fs j"
    by (simp add: fd_used_def fd_release_def nth_list_update)
  show "finite {2..<length fs}" by simp
qed

section \<open>The invariant of the open files\<close>

definition fd_ok :: "file_block list \<Rightarrow> bool" where
  "fd_ok fs \<longleftrightarrow> length fs = 8 \<and>
     (\<forall>i < 8. fb_flags (fs ! i) = 0 \<or>
        fb_flags (fs ! i) = 1 \<and> file_op_table_ptr (fs ! i) \<noteq> NULL \<and>
        (file_op_table_ptr (fs ! i) = STDIN \<longrightarrow> i = 0) \<and> (file_op_table_ptr (fs ! i) = STDOUT \<longrightarrow> i = 1))"

definition kernel_inv :: "'a kernel_scheme \<Rightarrow> bool" where
  "kernel_inv s \<longleftrightarrow>
     length (PCB_array s) = 6 \<and> unat (current_process_ID s) < 6 \<and> unat (parent_process_ID s) < 6 \<and>
     (\<forall>p \<in> set (PCB_array s). fd_ok (file_array p) \<and> unat (process_id p) < 6)"

lemma fd_ok_initial: "fd_ok initial_file_array"
  unfolding fd_ok_def initial_file_array_def stdin_block_def stdout_block_def free_block_def
  by (auto simp: nth_Cons split: nat.splits)

lemma fd_ok_update:
  assumes "fd_ok fs" "i < 8" "2 \<le> i"
    and "fb_flags b = 0 \<or> fb_flags b = 1 \<and> file_op_table_ptr b \<noteq> NULL \<and> file_op_table_ptr b \<noteq> STDIN \<and> file_op_table_ptr b \<noteq> STDOUT"
  shows "fd_ok (fs[i := b])"
  using assms unfolding fd_ok_def by (auto simp: nth_list_update)

lemma fd_ok_position: "fd_ok fs \<Longrightarrow> i < 8 \<Longrightarrow> fd_ok (fs[i := (fs ! i)\<lparr>file_position := n\<rparr>])"
  unfolding fd_ok_def by (auto simp: nth_list_update)

lemma kernel_inv_view:
  assumes "PCB_array t = PCB_array s" "current_process_ID t = current_process_ID s" "parent_process_ID t = parent_process_ID s"
  shows "kernel_inv t \<longleftrightarrow> kernel_inv s"
  using assms by (simp add: kernel_inv_def)

lemma kernel_inv_update:
  assumes "kernel_inv s" "\<And>p. fd_ok (file_array p) \<Longrightarrow> unat (process_id p) < 6 \<Longrightarrow> fd_ok (file_array (f p)) \<and> unat (process_id (f p)) < 6"
  shows "kernel_inv (update_PCB c f s)"
proof (cases "unat c < 6")
  case True
  with assms show ?thesis
    unfolding kernel_inv_def by (auto dest!: set_update_subset_insert [THEN subsetD])
next
  case False
  with assms(1) show ?thesis by (simp add: kernel_inv_def list_update_beyond)
qed

lemma kernel_inv_update_file:
  assumes "kernel_inv s" "\<And>fs. fd_ok fs \<Longrightarrow> fd_ok (fs[unat fd := f (fs ! unat fd)])"
  shows "kernel_inv (update_file fd f s)"
  unfolding update_file_def by (rule kernel_inv_update [OF assms(1)]) (simp add: assms(2))

lemma current_file_ok:
  assumes "kernel_inv s"
  shows "fd_ok (file_array (PCB_array s ! unat (current_process_ID s)))"
  using assms by (simp add: kernel_inv_def)

text \<open>A descriptor that passes the guards is below 8.\<close>

lemma sint_bounds:
  assumes "\<not> sint fd > 7" "\<not> sint fd < 0"
  shows "unat (fd :: i32) < 8" "sint fd = int (unat fd)"
proof -
  define n where "n = nat (sint fd)"
  have n: "sint fd = int n" "n < 8" using assms by (simp_all add: n_def)
  have "fd = of_int (sint fd)" by simp
  then have "fd = of_nat n" unfolding n(1) by simp
  moreover from this n(2) have "unat fd = n" by simp
  ultimately show "unat fd < 8" "sint fd = int (unat fd)" using n by simp_all
qed

lemma file_read_inv:
  assumes inv: "kernel_inv s" and fd: "unat fd < 8" and r: "file_read fd buf n s = (r, t)"
  shows "kernel_inv t"
proof (cases "file_position (current_file fd s) \<ge> b_length (mem s) (inode_address (bootmebb s) (fb_inode (current_file fd s)))")
  case False
  with r obtain m v where "t = update_file fd (\<lambda>b. b\<lparr>file_position := file_position b + v\<rparr>) (s\<lparr>mem := m\<rparr>)"
    by (auto simp: file_read_def Let_def split: prod.splits)
  moreover have "kernel_inv (s\<lparr>mem := m\<rparr>)" using inv by (simp add: kernel_inv_def)
  ultimately show ?thesis using fd fd_ok_position by (auto intro: kernel_inv_update_file)
qed (use r inv in \<open>simp add: file_read_def\<close>)

lemma sys_call_close_inv:
  assumes inv: "kernel_inv s" and r: "sys_call_close fd s = Some (r, t)"
  shows "kernel_inv t"
proof -
  have "kernel_inv (update_file fd (\<lambda>b. b\<lparr>fb_flags := 0\<rparr>) s)" if "\<not> sint fd < 2" "\<not> sint fd > 7"
  proof (rule kernel_inv_update_file [OF inv])
    from that have b: "unat fd < 8" "2 \<le> unat fd" using sint_bounds [of fd] by linarith+
    show "fd_ok (fs[unat fd := (fs ! unat fd)\<lparr>fb_flags := 0\<rparr>])" if "fd_ok fs" for fs
      using that b by (intro fd_ok_update) simp_all
  qed
  with r inv show ?thesis by (auto simp: sys_call_close_def Let_def split: if_splits option.splits)
qed

lemma device_of_type_known: "t \<le> 2 \<Longrightarrow> \<exists>d. device_of_type t = Some d \<and> d \<in> {RTC_DEV, DIR_DEV, FILE_DEV}"
proof -
  assume "t \<le> 2"
  define n where "n = unat t"
  have "n < 3" using \<open>t \<le> 2\<close> by (simp add: n_def word_le_nat_alt)
  then consider "n = 0" | "n = 1" | "n = 2" by linarith
  moreover have "t = of_nat n" unfolding n_def by simp
  ultimately consider "t = 0" | "t = 1" | "t = 2" by cases simp_all
  then show ?thesis by cases (simp_all add: device_of_type_def)
qed

text \<open>Opening, once the name has been found: the lowest free descriptor is set up.\<close>

definition opened :: "nat \<Rightarrow> device_ptr \<Rightarrow> u32 \<Rightarrow> 'a kernel_scheme \<Rightarrow> 'a kernel_scheme" where
  "opened i d inode s =
     update_file (of_nat i) (\<lambda>b. b\<lparr>fb_inode := inode, file_position := 0, fb_flags := 1, file_op_table_ptr := d\<rparr>) s"

lemma unat_fd [simp]: "i < 4294967296 \<Longrightarrow> unat (of_nat i :: i32) = i"
  by simp

lemma update_file_twice:
  assumes "unat (current_process_ID s) < length (PCB_array s)"
    "unat fd < length (file_array (PCB_array s ! unat (current_process_ID s)))"
  shows "update_file fd g (update_file fd f s) = update_file fd (\<lambda>b. g (f b)) s"
  using assms by (simp add: update_file_def update_PCB_def)

lemma sys_call_open_result:
  assumes len: "strlen (mem s) filename = Some l"
    and apart: "region currfile 64 \<inter> region (bootmebb s) 4096 = {}"
    and files: "unat (current_process_ID s) < length (PCB_array s)"
      "length (file_array (PCB_array s ! unat (current_process_ID s))) = 8"
  shows "sys_call_open currfile filename s =
     (case lookup_name (mem s) (bootmebb s) (cprefix (mem s) filename 32) of
        Some k \<Rightarrow>
          if l = 0 then Some (-1, s)
          else
            let e = d_table_entry (bootmebb s) (of_nat k);
                s' = s\<lparr>mem := memcpy (mem s) currfile e 64\<rparr>
            in case fd_alloc (file_array (PCB_array s ! unat (current_process_ID s))) of
                 None \<Rightarrow> Some (-1, s')
               | Some i \<Rightarrow>
                   (case device_of_type (file_type (mem s) e) of
                      Some d \<Rightarrow> Some (of_nat i, opened i d (inode_num (mem s) e) s')
                    | None \<Rightarrow> Some (-1, update_file (of_nat i)
                        (\<lambda>b. b\<lparr>fb_inode := inode_num (mem s) e, file_position := 0, fb_flags := 1\<rparr>) s'))
      | None \<Rightarrow> Some (-1, s))"
proof (cases "lookup_name (mem s) (bootmebb s) (cprefix (mem s) filename 32)")
  case None
  then have "read_dentry_by_name (mem s) (bootmebb s) filename currfile = (mem s, -1)"
    by (simp add: read_dentry_by_name_lookup)
  with None len show ?thesis by (simp add: sys_call_open_def Let_def)
next
  case (Some k)
  let ?e = "d_table_entry (bootmebb s) (of_nat k)" and ?fs = "file_array (PCB_array s ! unat (current_process_ID s))"
  define m where "m = memcpy (mem s) currfile ?e 64"
  have rd: "read_dentry_by_name (mem s) (bootmebb s) filename currfile = (m, 0)"
    using Some by (simp add: read_dentry_by_name_lookup m_def)
  have "k < 63" using Some by (simp add: lookup_name_Some)
  then have "region currfile 64 \<inter> region ?e 64 = {}" using apart d_table_entry_region [of k "bootmebb s"] by blast
  note copied = dentry_copied [OF this, where m = "mem s", folded m_def]
  show ?thesis
  proof (cases "fd_alloc ?fs")
    case None
    then show ?thesis using Some len rd by (simp add: sys_call_open_def Let_def fd_alloc_def m_def)
  next
    case (Some i)
    then have "i < 8" using files by (simp add: fds.alloc_iff)
    with \<open>lookup_name _ _ _ = Some k\<close> Some len rd files copied(2,3) show ?thesis
      by (simp add: sys_call_open_def Let_def fd_alloc_def [symmetric] opened_def update_file_twice m_def [symmetric] split: option.split)
  qed
qed

section \<open>What leaves the processes alone\<close>

definition pcb_view :: "'a kernel_scheme \<Rightarrow> PCB list \<times> u8 \<times> u8 \<times> multiterminal list" where
  "pcb_view s = (PCB_array s, current_process_ID s, parent_process_ID s, three_term_buf s)"

lemma pcb_view_machine: "machine.more s = machine.more t \<Longrightarrow> pcb_view s = pcb_view t"
  by (cases s; cases t) (simp add: pcb_view_def)

lemma pcb_view_keyboard: "keyboard.more s = keyboard.more t \<Longrightarrow> pcb_view s = pcb_view t"
  by (cases s; cases t) (simp add: pcb_view_def)

lemma kernel_inv_pcb_view: "pcb_view t = pcb_view s \<Longrightarrow> kernel_inv t \<longleftrightarrow> kernel_inv s"
  by (simp add: pcb_view_def kernel_inv_def)

lemma pcb_view_ports [simp]:
  "pcb_view (outb d p s) = pcb_view s" "pcb_view (snd (inb dev p s)) = pcb_view s"
  "pcb_view (cli s) = pcb_view s" "pcb_view (sti s) = pcb_view s"
  by (simp_all add: pcb_view_def port_simps)

lemma pcb_view_fields [simp]:
  "pcb_view (s\<lparr>mem := m\<rparr>) = pcb_view s" "pcb_view (s\<lparr>RTC_iflag := f\<rparr>) = pcb_view s"
  "pcb_view (s\<lparr>read_directory_index := d\<rparr>) = pcb_view s" "pcb_view (s\<lparr>enter_flag := e\<rparr>) = pcb_view s"
  "pcb_view (s\<lparr>buffer_Size := b\<rparr>) = pcb_view s"
  by (simp_all add: pcb_view_def)

lemma pcb_view_RTC_set_frequency: "RTC_set_frequency dev f s = Some (r, t) \<Longrightarrow> pcb_view t = pcb_view s"
  unfolding RTC_set_frequency_def by (auto simp: Let_def pcb_view_def port_simps split: option.splits prod.splits if_splits)

lemma sys_call_write_view: "sys_call_write dev fd buf n s = Some (r, t) \<Longrightarrow> pcb_view t = pcb_view s"
proof -
  have "pcb_view (snd (write_Terminal buf n s)) = pcb_view s" by (rule pcb_view_keyboard) simp
  then show "sys_call_write dev fd buf n s = Some (r, t) \<Longrightarrow> pcb_view t = pcb_view s"
    by (auto simp: sys_call_write_def call_write_def RTC_Write_def dest: pcb_view_RTC_set_frequency
        split: if_splits option.splits operation.splits)
qed

section \<open>The invariant through open, execute and halt\<close>

lemma sys_call_open_inv:
  assumes inv: "kernel_inv s"
    and types: "\<And>k. lookup_name (mem s) (bootmebb s) (cprefix (mem s) filename 32) = Some k \<Longrightarrow>
      file_type (mem s) (d_table_entry (bootmebb s) (of_nat k)) \<le> 2"
    and apart: "region currfile 64 \<inter> region (bootmebb s) 4096 = {}"
    and r: "sys_call_open currfile filename s = Some (v, t)"
  shows "kernel_inv t"
proof -
  let ?fs = "file_array (PCB_array s ! unat (current_process_ID s))"
  have files: "unat (current_process_ID s) < length (PCB_array s)" "length ?fs = 8"
    using inv current_file_ok [OF inv] by (simp_all add: kernel_inv_def fd_ok_def)
  obtain l where l: "strlen (mem s) filename = Some l" using r by (auto simp: sys_call_open_def split: option.splits)
  have mem: "kernel_inv (s\<lparr>mem := m\<rparr>)" for m using inv by (simp add: kernel_inv_def)
  note res = r [unfolded sys_call_open_result [OF l apart files]]
  show ?thesis
  proof (cases "lookup_name (mem s) (bootmebb s) (cprefix (mem s) filename 32)")
    case (Some k)
    with types obtain d where d: "device_of_type (file_type (mem s) (d_table_entry (bootmebb s) (of_nat k))) = Some d"
      "d \<in> {RTC_DEV, DIR_DEV, FILE_DEV}" using device_of_type_known by blast
    have "kernel_inv (opened i d e (s\<lparr>mem := m\<rparr>))" if "fd_alloc ?fs = Some i" for i e m
      unfolding opened_def
    proof (rule kernel_inv_update_file [OF mem])
      from that files have "2 \<le> i" "i < 8" by (simp_all add: fds.alloc_iff)
      then show "fd_ok (fs[unat (of_nat i :: i32) := (fs ! unat (of_nat i :: i32))
          \<lparr>fb_inode := e, file_position := 0, fb_flags := 1, file_op_table_ptr := d\<rparr>])" if "fd_ok fs" for fs
        using that d(2) by (intro fd_ok_update) auto
    qed
    with res Some d(1) mem inv show ?thesis by (auto simp: Let_def split: if_splits option.splits)
  qed (use res inv in simp)
qed

fun transfer_state :: "'s transfer \<Rightarrow> 's" where
  "transfer_state (Returned r t) = t"
| "transfer_state (Enter_User eip usp t) = t"
| "transfer_state (Return_Through r e b t) = t"

lemma kernel_inv_map_window [simp]: "kernel_inv (map_window e s) \<longleftrightarrow> kernel_inv s"
  by (rule kernel_inv_view) simp_all

lemma kernel_inv_mem [simp]: "kernel_inv (s\<lparr>mem := m\<rparr>) \<longleftrightarrow> kernel_inv s"
  by (rule kernel_inv_view) simp_all

lemma kernel_inv_say [simp]: "kernel_inv (say a cs n s) \<longleftrightarrow> kernel_inv s"
  by (rule kernel_inv_view) (rule view_eqD [OF view_say])+

lemma set_name_inv:
  assumes "kernel_inv s" "set_name name s = Some t"
  shows "kernel_inv t"
proof -
  obtain q a b d where q: "unat (current_process_ID s) < length (PCB_array s)"
    "t = update_PCB (current_process_ID s) (\<lambda>_. q) s"
    "q = (PCB_array s ! unat (current_process_ID s))\<lparr>command_global := a, isActive := b, terminalNumber := d\<rparr>"
    by (rule set_name_view [OF assms(2)])
  have "PCB_array s ! unat (current_process_ID s) \<in> set (PCB_array s)" using q(1) by simp
  then have "fd_ok (file_array q) \<and> unat (process_id q) < 6" using assms(1) unfolding q(3) by (simp add: kernel_inv_def)
  then show ?thesis unfolding q(2) using assms(1) by (intro kernel_inv_update) simp_all
qed

lemma claim_PCB_inv:
  assumes "kernel_inv s" "claim_PCB s = Some t"
  shows "kernel_inv t"
proof -
  from claim_PCB_Some [OF assms(2)] obtain k where k: "pcb_alloc (PCB_array s) = Some k"
    and t: "t = (update_PCB (of_nat k) (\<lambda>p. p\<lparr>process_id := of_nat k, pcb_flag := 1\<rparr>) s)\<lparr>current_process_ID := of_nat k\<rparr>" .
  have k6: "k < 6" using k assms(1) by (simp add: pcbs.alloc_iff kernel_inv_def)
  have "kernel_inv (update_PCB (of_nat k) (\<lambda>p. p\<lparr>process_id := of_nat k, pcb_flag := 1\<rparr>) s)"
    using assms(1) k6 by (intro kernel_inv_update) simp_all
  with k6 show ?thesis by (simp add: t kernel_inv_def)
qed

lemma init_process_inv: "kernel_inv s \<Longrightarrow> kernel_inv (init_process s)"
proof -
  assume inv: "kernel_inv s"
  have a: "kernel_inv (update_PCB c (\<lambda>p. p\<lparr>file_array := initial_file_array\<rparr>) s)" for c
    using inv fd_ok_initial by (intro kernel_inv_update) simp_all
  have b: "kernel_inv (update_PCB c (\<lambda>p. p\<lparr>parent_PCB := q\<rparr>) (update_PCB c (\<lambda>p. p\<lparr>file_array := initial_file_array\<rparr>) s))" for c q
    by (rule kernel_inv_update [OF a]) simp
  then show ?thesis
    using b [of "current_process_ID s"] inv by (auto simp: init_process_def Let_def kernel_inv_def)
qed

lemma kernel_inv_block:
  assumes "kernel_inv s" "q < length (PCB_array s)" "file_array (f (PCB_array s ! q)) = file_array (PCB_array s ! q)"
    "process_id (f (PCB_array s ! q)) = process_id (PCB_array s ! q)"
  shows "kernel_inv (s\<lparr>PCB_array := (PCB_array s)[q := f (PCB_array s ! q)]\<rparr>)"
  using assms nth_mem [OF assms(2)] unfolding kernel_inv_def by (auto dest!: set_update_subset_insert [THEN subsetD])

lemma kernel_inv_same [simp]:
  "kernel_inv (s\<lparr>three_term_buf := tt\<rparr>) \<longleftrightarrow> kernel_inv s" "kernel_inv (s\<lparr>esp0 := e\<rparr>) \<longleftrightarrow> kernel_inv s"
  by (simp_all add: kernel_inv_def)

lemma attach_terminal_inv:
  assumes "kernel_inv s" "attach_terminal s = Some t"
  shows "kernel_inv t"
proof -
  define c where "c = current_process_ID s"
  define s1 where "s1 = (if execute_status (three_term_buf s ! unat (nxt_term s)) = 0
                 then (update_PCB c (\<lambda>p. p\<lparr>parent_PCB := Some (unat c), isActive := 1, terminalNumber := nxt_term s\<rparr>) s)
                        \<lparr>three_term_buf := (three_term_buf s)[unat (nxt_term s) := (three_term_buf s ! unat (nxt_term s))\<lparr>execute_status := 1\<rparr>]\<rparr>
                 else s)"
  have "kernel_inv (update_PCB c (\<lambda>p. p\<lparr>parent_PCB := Some (unat c), isActive := 1, terminalNumber := nxt_term s\<rparr>) s)"
    by (rule kernel_inv_update [OF assms(1)]) simp
  then have s1: "kernel_inv s1" using assms(1) by (simp add: s1_def)
  let ?idle = "\<lambda>q. s1\<lparr>PCB_array := (PCB_array s1)[q := (PCB_array s1 ! q)\<lparr>isActive := 0\<rparr>]\<rparr>"
  have e: "(case parent_PCB (PCB_array s1 ! unat c) of None \<Rightarrow> None
      | Some q \<Rightarrow> if q = unat c then Some s1
          else if q < length (PCB_array s1)
          then Some (update_PCB c (\<lambda>p. p\<lparr>isActive := 1, terminalNumber := terminalNumber (PCB_array (?idle q) ! q)\<rparr>) (?idle q))
          else None) = Some t"
    using assms(2) unfolding attach_terminal_def Let_def c_def [symmetric] s1_def [symmetric] by (simp only: option.distinct split: if_splits)
  then obtain q where q: "parent_PCB (PCB_array s1 ! unat c) = Some q" by (cases "parent_PCB (PCB_array s1 ! unat c)") simp_all
  show ?thesis
  proof (cases "q = unat c")
    case True
    with e q s1 show ?thesis by simp
  next
    case False
    with e q have lt: "q < length (PCB_array s1)" by (simp only: option.case if_False option.distinct split: if_splits)
    with e q False have t: "t = update_PCB c (\<lambda>p. p\<lparr>isActive := 1, terminalNumber := terminalNumber (PCB_array (?idle q) ! q)\<rparr>) (?idle q)"
      by (simp only: option.case if_False if_True option.inject)
    have "kernel_inv (?idle q)" using kernel_inv_block [OF s1 lt, of "\<lambda>p. p\<lparr>isActive := 0\<rparr>"] by simp
    then show ?thesis unfolding t by (rule kernel_inv_update) simp
  qed
qed

lemma sys_call_execute_inv:
  assumes inv: "kernel_inv s" and r: "sys_call_execute L e b command s = Some tr"
  shows "kernel_inv (transfer_state tr)"
proof -
  have enter: "kernel_inv (transfer_state (enter_program buf e b t))" if "kernel_inv t" for buf and t :: "'a kernel_scheme"
  proof -
    have "kernel_inv (update_PCB c (\<lambda>p. p\<lparr>parent_ESP0 := e0\<rparr>) t)" for c e0 by (rule kernel_inv_update [OF that]) simp
    then show ?thesis
      unfolding enter_program_def Let_def transfer_state.simps by (intro kernel_inv_update) simp_all
  qed
  have start: "kernel_inv (transfer_state tr)" if "kernel_inv t" "start_process L e b t = Some tr" for t :: "'a kernel_scheme" and tr
  proof -
    have "kernel_inv (map_window en ((init_process t)))" for en using that(1) by (simp add: init_process_inv)
    then show ?thesis
      using that(2) by (auto simp: start_process_def Let_def intro!: enter
          dest!: attach_terminal_inv [rotated] split: prod.splits if_splits)
  qed
  have create: "kernel_inv (transfer_state tr)" if "kernel_inv t" "create_process L e b name t = Some tr" for t :: "'a kernel_scheme" and tr name
  proof (cases "claim_PCB t")
    case None
    with that show ?thesis by (auto simp: create_process_def dest: set_name_inv [OF that(1)] split: option.splits)
  next
    note given = that
    case (Some u)
    from claim_PCB_inv [OF that(1) Some] have u: "kernel_inv u" .
    obtain v where "set_name name u = Some v" "start_process L e b v = Some tr"
      using given(2) Some by (auto simp: create_process_def split: option.splits)
    with start set_name_inv [OF u] show ?thesis by blast
  qed
  show ?thesis
    using r inv by (auto simp: sys_call_execute_def Let_def dest: create [rotated] split: option.splits prod.splits if_splits)
qed

lemma sys_call_halt_inv:
  assumes inv: "kernel_inv s" and r: "sys_call_halt status s = Some tr"
  shows "kernel_inv (transfer_state tr)"
proof -
  have small: "unat (ucast (v :: i32) :: u8) < 6" if "unat v < 6" for v
    using that by (simp add: unsigned_ucast_eq take_bit_eq_mod)
  have closed: "kernel_inv (update_PCB c (\<lambda>p. p\<lparr>file_array := map (\<lambda>_. closed_block) (file_array p)\<rparr>) t)"
    if "kernel_inv t" for c and t :: "'a kernel_scheme"
    by (rule kernel_inv_update [OF that]) (simp add: fd_ok_def closed_block_def)
  have parent: "kernel_inv u" if "kernel_inv t" "halt_to_parent q t = Some u" for t u :: "'a kernel_scheme" and q
  proof -
    from that(2) have q: "q < length (PCB_array t)" by (simp add: halt_to_parent_def split: if_splits)
    define c where "c = current_process_ID t"
    define t1 where "t1 = t\<lparr>PCB_array := (PCB_array t)[q := (PCB_array t ! q)\<lparr>isActive := 1\<rparr>]\<rparr>"
    have t1: "kernel_inv t1" unfolding t1_def using kernel_inv_block [OF that(1) q, of "\<lambda>p. p\<lparr>isActive := 1\<rparr>"] by simp
    define t2 where "t2 = update_PCB c (\<lambda>p. p\<lparr>isActive := 0, pcb_flag := 0, terminalNumber := -1\<rparr>) t1"
    have t2: "kernel_inv t2" unfolding t2_def by (rule kernel_inv_update [OF t1]) simp
    have q2: "q < length (PCB_array t2)" using q by (simp add: t2_def t1_def)
    define t3 where "t3 = t2\<lparr>parent_process_ID := ucast (process_id (PCB_array t2 ! q))\<rparr>"
    have t3: "kernel_inv t3" using t2 small nth_mem [OF q2] by (simp add: t3_def kernel_inv_def)
    define t4 where "t4 = update_PCB c (\<lambda>p. p\<lparr>parent_PCB := None, pcb_esp := 0, pcb_ebp := 0\<rparr>) t3"
    have t4: "kernel_inv t4" unfolding t4_def by (rule kernel_inv_update [OF t3]) simp
    have q4: "q < length (PCB_array t4)" using q2 by (simp add: t4_def t3_def)
    have "u = t4\<lparr>current_process_ID := ucast (process_id (PCB_array t4 ! q))\<rparr>"
      using that(2) q unfolding t4_def t3_def t2_def t1_def c_def by (simp add: halt_to_parent_def Let_def)
    then show ?thesis using t4 small nth_mem [OF q4] by (simp add: kernel_inv_def)
  qed
  have self: "kernel_inv (update_PCB c (\<lambda>p. p\<lparr>pcb_flag := 0\<rparr>) t)" if "kernel_inv t" for c and t :: "'a kernel_scheme"
    by (rule kernel_inv_update [OF that]) simp
  define c where "c = current_process_ID s"
  obtain par cur q where cur: "get_PCB (parent_process_ID s) s = Some par" "get_PCB c s = Some cur" "parent_PCB cur = Some q"
    using r by (auto simp: sys_call_halt_def Let_def bind_eq_Some_conv c_def split: option.splits)
  define s1 where "s1 = update_PCB c (\<lambda>p. p\<lparr>file_array := map (\<lambda>_. closed_block) (file_array p)\<rparr>) (s\<lparr>esp0 := parent_ESP0 cur\<rparr>)"
  have s1: "kernel_inv s1" unfolding s1_def using inv by (intro closed) simp
  obtain u where u: "(if q = unat c then Some (update_PCB c (\<lambda>p. p\<lparr>pcb_flag := 0\<rparr>) s1) else halt_to_parent q s1) = Some u"
    "transfer_state tr = map_window (process_entry (ucast (current_process_ID u))) u"
    using r cur by (auto simp: sys_call_halt_def Let_def bind_eq_Some_conv c_def s1_def split: if_splits)
  from u(1) have "kernel_inv u" using parent [OF s1] self [OF s1] by (auto split: if_splits)
  then show ?thesis by (simp add: u(2))
qed

section \<open>No calls through missing tables\<close>

lemma fd_ok_nth:
  assumes "fd_ok fs" "i < 8" "fb_flags (fs ! i) \<noteq> 0"
  shows "file_op_table_ptr (fs ! i) \<noteq> NULL" "file_op_table_ptr (fs ! i) = STDIN \<Longrightarrow> i = 0"
    "file_op_table_ptr (fs ! i) = STDOUT \<Longrightarrow> i = 1"
  using assms by (auto simp: fd_ok_def)

lemma RTC_Write_returns: "\<exists>r t. RTC_Write dev s = Some (r, t)"
proof -
  have "RTC_rate 1024 0 = Some (0 + of_nat 10)" by (rule RTC_rate_power) simp_all
  then show ?thesis by (auto simp: RTC_Write_def RTC_set_frequency_def Let_def split: prod.splits option.splits)
qed

lemma no_null_calls:
  assumes inv: "kernel_inv s"
  shows "\<not> bad_fd 1 fd s \<Longrightarrow> dev_read (file_op_table_ptr (current_file fd s)) \<noteq> None"
    and "sys_call_write dev fd buf n s \<noteq> None" and "sys_call_close fd s \<noteq> None"
proof -
  let ?fs = "file_array (PCB_array s ! unat (current_process_ID s))"
  note ok = fd_ok_nth [OF current_file_ok [OF inv]]
  have guard: "unat fd < 8 \<and> fb_flags (current_file fd s) \<noteq> 0 \<and> fd \<noteq> r" if "\<not> bad_fd r fd s" for r
    using that sint_bounds [of fd] by (simp add: bad_fd_def)
  show "dev_read (file_op_table_ptr (current_file fd s)) \<noteq> None" if "\<not> bad_fd 1 fd s"
  proof -
    have "unat fd \<noteq> 1" using guard [OF that] by (metis unat_1 unsigned_word_eqI)
    with guard [OF that] ok [of "unat fd"] show ?thesis
      by (cases "file_op_table_ptr (current_file fd s)") (auto simp: current_file_def)
  qed
  have "dev_write (file_op_table_ptr (current_file fd s)) \<noteq> None" if "\<not> bad_fd 0 fd s"
  proof -
    have "unat fd \<noteq> 0" using guard [OF that] by (metis unat_0 unsigned_word_eqI)
    with guard [OF that] ok [of "unat fd"] show ?thesis
      by (cases "file_op_table_ptr (current_file fd s)") (auto simp: current_file_def)
  qed
  then show "sys_call_write dev fd buf n s \<noteq> None"
    using RTC_Write_returns [of dev s]
    by (cases "file_op_table_ptr (current_file fd s)") (auto simp: sys_call_write_def call_write_def)
  have "file_op_table_ptr (current_file fd s) \<noteq> NULL" if "\<not> sint fd < 2" "\<not> sint fd > 7" "fb_flags (current_file fd s) = 1"
  proof -
    have "unat fd < 8" using that sint_bounds [of fd] by simp
    then show ?thesis using ok(1) [of "unat fd"] that(3) by (simp add: current_file_def)
  qed
  moreover have "file_op_table_ptr (current_file fd (update_file fd (\<lambda>b. b\<lparr>fb_flags := 0\<rparr>) s)) = file_op_table_ptr (current_file fd s)"
    if "\<not> sint fd < 2" "\<not> sint fd > 7"
  proof -
    have "unat fd < 8" using that sint_bounds [of fd] by simp
    moreover have "length ?fs = 8" using current_file_ok [OF inv] by (simp add: fd_ok_def)
    moreover have "unat (current_process_ID s) < length (PCB_array s)" using inv by (simp add: kernel_inv_def)
    ultimately show ?thesis by (simp add: current_file_def update_file_def)
  qed
  ultimately show "sys_call_close fd s \<noteq> None"
    by (cases "file_op_table_ptr (current_file fd s)") (auto simp: sys_call_close_def Let_def)
qed

lemma shell_kernel_inv: "kernel_inv shell_kernel"
proof -
  have "fd_ok (replicate 8 closed_block)" by (simp add: fd_ok_def closed_block_def)
  then show ?thesis
    unfolding kernel_inv_def shell_kernel_def blank_PCB_def
    by (auto dest!: set_update_subset_insert [THEN subsetD])
qed

section \<open>Properties\<close>

text \<open>
  C28: A directory entry whose type is none of the three breaks the invariant: opening it returns -1, but the
  lowest free descriptor stays taken, with no operations when it was never open before, and closing it
  calls through a NULL table.
\<close>

theorem open_unknown_type_leaks:
  assumes "cstring (mem s) filename cs" "cs \<noteq> []"
    and "unat (current_process_ID s) < length (PCB_array s)"
      "length (file_array (PCB_array s ! unat (current_process_ID s))) = 8"
    and "region currfile 64 \<inter> region (bootmebb s) 4096 = {}"
    and "lookup_name (mem s) (bootmebb s) (take 32 cs) = Some k" "file_type (mem s) (d_table_entry (bootmebb s) (of_nat k)) > 2"
    and "fd_alloc (file_array (PCB_array s ! unat (current_process_ID s))) = Some i"
    and "file_op_table_ptr (current_file (of_nat i) s) = NULL"
  shows "\<exists>t. sys_call_open currfile filename s = Some (-1, t) \<and> fb_flags (current_file (of_nat i) t) = 1 \<and>
     sys_call_close (of_nat i) t = None"
proof -
  let ?e = "d_table_entry (bootmebb s) (of_nat k)"
  define s' where "s' = s\<lparr>mem := memcpy (mem s) currfile ?e 64\<rparr>"
  define t where "t = update_file (of_nat i) (\<lambda>b. b\<lparr>fb_inode := inode_num (mem s) ?e, file_position := 0, fb_flags := 1\<rparr>) s'"
  have i: "2 \<le> i" "i < 8" using assms(4,8) by (simp_all add: fds.alloc_iff)
  have "device_of_type (file_type (mem s) ?e) = None" using assms(7) by (auto simp: device_of_type_def)
  with sys_call_open_result [OF strlen_cstring [OF assms(1)] assms(5,3,4)] cprefix_cstring [OF assms(1)] assms(6,8)
  have op: "sys_call_open currfile filename s = Some (-1, t)"
    using assms(2) cstring_length [OF assms(1)] u32_of_nat_eq_iff [of "length cs" 0]
    by (simp add: Let_def s'_def t_def)
  have cur: "unat (current_process_ID s') < length (PCB_array s')"
    "unat (of_nat i :: i32) < length (file_array (PCB_array s' ! unat (current_process_ID s')))"
    "file_op_table_ptr (current_file (of_nat i) s') = NULL"
    using assms(3,4,9) i by (simp_all add: s'_def current_file_def)
  have ct: "fb_flags (current_file (of_nat i) t) = 1"
    using cur by (simp add: t_def current_file_def update_file_def)
  have "update_file (of_nat i) (\<lambda>b. b\<lparr>fb_flags := 0\<rparr>) t
      = update_file (of_nat i) (\<lambda>b. b\<lparr>fb_inode := inode_num (mem s) ?e, file_position := 0, fb_flags := 0\<rparr>) s'"
    unfolding t_def using cur by (simp add: update_file_twice)
  then have "file_op_table_ptr (current_file (of_nat i) (update_file (of_nat i) (\<lambda>b. b\<lparr>fb_flags := 0\<rparr>) t)) = NULL"
    using cur by (simp add: current_file_def update_file_def)
  moreover have "sint (of_nat i :: i32) = int i" using i by (intro sint_u32_of_nat) simp
  ultimately have "sys_call_close (of_nat i) t = None"
    using ct i by (simp add: sys_call_close_def Let_def)
  with op ct show ?thesis by blast
qed

theorem open_unknown_type_leaks_witness:
  "\<exists>t. sys_call_open 0x940000 0x900000 (elf_kernel\<lparr>mem := elf_image(0x400060 := 7)\<rparr>) = Some (-1, t) \<and>
     sys_call_close 2 t = None"
proof -
  let ?m = "elf_image(0x400060 := 7)"
  have "cstring ?m 0x900000 [97]" by (simp add: cstring_def bytes_def elf_image_def)
  moreover have "entry_name ?m 0x400000 0 = [97]"
    by (simp add: entry_name_def d_table_entry_def cprefix_def bytes_def elf_image_def upt_rec)
  then have "lookup_name ?m 0x400000 (take 32 [97]) = Some 0" by (simp add: lookup_name_Some)
  moreover have "file_type ?m (d_table_entry 0x400000 (of_nat 0)) > 2"
    by (simp add: file_type_def load32_def d_table_entry_def elf_image_def)
  moreover have cur: "current_process_ID elf_kernel = 0" "length (PCB_array shell_kernel) = 6"
    "file_array (PCB_array shell_kernel ! 0) = replicate 8 closed_block"
    by (simp_all add: elf_kernel_def shell_kernel_def blank_PCB_def)
  moreover have "fd_alloc (replicate 8 closed_block) = Some 2"
    unfolding fds.alloc_iff by (simp add: fd_used_def closed_block_def)
  moreover have "region 0x940000 64 \<inter> region 0x400000 4096 = {}" by (rule region_disjointI; simp)
  ultimately show ?thesis
    using open_unknown_type_leaks [of "elf_kernel\<lparr>mem := ?m\<rparr>" "0x900000" "[97]" "0x940000" 0 2]
    by (auto simp: current_file_def closed_block_def)
qed

end
