(* ===== verification/Read_File.thy ===== *)
theory Read_File
  imports Open_Files
begin

text \<open>
  Files read to their end through the system calls: the contract of a sequential file as a locale, and
  an open descriptor of the kernel as its interpretation.
\<close>

section \<open>Sequential files\<close>

text \<open>Reading until an answer is empty, at most \<open>k\<close> times: the data and the last state.\<close>

fun drain :: "('s \<Rightarrow> u8 list \<times> 's) \<Rightarrow> nat \<Rightarrow> 's \<Rightarrow> u8 list \<times> 's" where
  "drain rd 0 s = ([], s)"
| "drain rd (Suc k) s =
     (case rd s of (d, s') \<Rightarrow> if d = [] then ([], s') else (case drain rd k s' of (ds, t) \<Rightarrow> (d @ ds, t)))"

locale sequential_file =
  fixes rd :: "'s \<Rightarrow> u8 list \<times> 's" and inv :: "'s \<Rightarrow> bool" and rest :: "'s \<Rightarrow> u8 list" and chunk :: nat
  assumes chunk_pos: "inv s \<Longrightarrow> 0 < chunk"
    and rd_inv: "inv s \<Longrightarrow> inv (snd (rd s))"
    and rd_data: "inv s \<Longrightarrow> fst (rd s) = take chunk (rest s)"
    and rd_rest: "inv s \<Longrightarrow> rest (snd (rd s)) = drop chunk (rest s)"
begin

lemma drain_all:
  "inv s \<Longrightarrow> length (rest s) \<le> k * chunk \<Longrightarrow>
     fst (drain rd k s) = rest s \<and> rest (snd (drain rd k s)) = [] \<and> inv (snd (drain rd k s))"
proof (induction k arbitrary: s)
  case (Suc k)
  obtain d s' where rd: "rd s = (d, s')" by fastforce
  note laws = rd_inv [OF Suc.prems(1)] rd_data [OF Suc.prems(1)] rd_rest [OF Suc.prems(1)]
  show ?case
  proof (cases "d = []")
    case True
    with laws rd chunk_pos [OF Suc.prems(1)] have "rest s = []" by simp
    with True laws rd show ?thesis by simp
  next
    case False
    have "length (rest s') \<le> k * chunk" using laws rd Suc.prems(2) by simp
    with Suc.IH [of s'] laws rd False show ?thesis by (auto simp: split_beta)
  qed
qed simp

end

section \<open>Reading an open file\<close>

definition read_call ::
  "u32 \<Rightarrow> ('a kernel_scheme \<Rightarrow> 'a kernel_scheme) list \<Rightarrow> i32 \<Rightarrow> u32 \<Rightarrow> i32 \<Rightarrow> 'a kernel_scheme \<Rightarrow> u8 list \<times> 'a kernel_scheme" where
  "read_call dentry hs fd buf n s =
     (case sys_call_read dentry hs fd buf n s of
        None \<Rightarrow> ([], s)
      | Some (r, t, _) \<Rightarrow> (bytes (mem t) buf (unat r), t))"

text \<open>Descriptor \<open>fd\<close> of the current process is open on a regular file, and the buffer fits.\<close>

definition readable :: "i32 \<Rightarrow> u32 \<Rightarrow> i32 \<Rightarrow> 'a kernel_scheme \<Rightarrow> bool" where
  "readable fd buf n s \<longleftrightarrow>
     unat (current_process_ID s) < length (PCB_array s) \<and>
     length (file_array (PCB_array s ! unat (current_process_ID s))) = 8 \<and>
     unat fd < 8 \<and> fd \<noteq> 1 \<and> fb_flags (current_file fd s) = 1 \<and> file_op_table_ptr (current_file fd s) = FILE_DEV \<and>
     file_wf (mem s) (bootmebb s) (fb_inode (current_file fd s)) \<and>
     unat (file_position (current_file fd s)) \<le> file_size (mem s) (bootmebb s) (fb_inode (current_file fd s)) \<and>
     0 < n \<and> file_size (mem s) (bootmebb s) (fb_inode (current_file fd s)) + unat n < 2 ^ 31 \<and>
     region buf (unat n) \<inter> image_region (mem s) (bootmebb s) = {}"

definition unread :: "i32 \<Rightarrow> 'a kernel_scheme \<Rightarrow> u8 list" where
  "unread fd s =
     drop (unat (file_position (current_file fd s))) (file_content (mem s) (bootmebb s) (fb_inode (current_file fd s)))"

lemma current_update_file:
  assumes "unat (current_process_ID s) < length (PCB_array s)"
    "unat fd < length (file_array (PCB_array s ! unat (current_process_ID s)))"
  shows "current_file fd (update_file fd f s) = f (current_file fd s)"
  using assms by (simp add: current_file_def update_file_def)

lemma update_file_fields [simp]:
  "mem (update_file fd f s) = mem s" "bootmebb (update_file fd f s) = bootmebb s"
  "current_process_ID (update_file fd f s) = current_process_ID s"
  "length (PCB_array (update_file fd f s)) = length (PCB_array s)"
  by (simp_all add: update_file_def)

lemma length_file_array_update:
  "length (file_array (PCB_array (update_file fd f s) ! i)) = length (file_array (PCB_array s ! i))"
  by (cases "unat (current_process_ID s) < length (PCB_array s)"; cases "i = unat (current_process_ID s)")
    (auto simp: update_file_def list_update_beyond)

lemma current_file_mem [simp]: "current_file fd (s\<lparr>mem := m\<rparr>) = current_file fd s"
  by (simp add: current_file_def)

text \<open>Nothing changes when all but memory off the image stays as it is.\<close>

lemma readable_cong:
  assumes same: "pcb_view t = pcb_view s" "bootmebb t = bootmebb s"
    and ag: "image_agrees (bootmebb s) (mem s) (mem t)" and ok: "readable fd buf n s"
  shows "readable fd buf n t" "unread fd t = unread fd s"
proof -
  have cf: "PCB_array t = PCB_array s" "current_process_ID t = current_process_ID s" "current_file fd t = current_file fd s"
    using same(1) by (simp_all add: pcb_view_def current_file_def)
  have wf: "file_wf (mem s) (bootmebb s) (fb_inode (current_file fd s))" using ok by (simp add: readable_def)
  note img = image_agrees_file [OF ag wf] image_agrees_counts(3) [OF ag]
  show "readable fd buf n t" using ok img by (simp add: readable_def cf same(2))
  show "unread fd t = unread fd s" using img by (simp add: unread_def cf same(2))
qed

lemma readable_advance:
  assumes ok: "readable fd buf n s"
    and pos: "unat (f (current_file fd s)) \<le> file_size (mem s) (bootmebb s) (fb_inode (current_file fd s))"
  shows "readable fd buf n (update_file fd (\<lambda>b. b\<lparr>file_position := f b\<rparr>) s)"
proof -
  have "current_file fd (update_file fd (\<lambda>b. b\<lparr>file_position := f b\<rparr>) s) = (current_file fd s)\<lparr>file_position := f (current_file fd s)\<rparr>"
    using ok by (subst current_update_file) (simp_all add: readable_def)
  then show ?thesis
    using ok pos unfolding readable_def by (intro conjI) (simp_all only: update_file_fields length_file_array_update, simp_all)
qed

text \<open>The state after a read that answers \<open>d\<close>.\<close>

definition after_read :: "i32 \<Rightarrow> u32 \<Rightarrow> u8 list \<Rightarrow> 'a kernel_scheme \<Rightarrow> 'a kernel_scheme" where
  "after_read fd buf d s =
     update_file fd (\<lambda>b. b\<lparr>file_position := file_position b + of_nat (length d)\<rparr>) (s\<lparr>mem := store_bytes (mem s) buf d\<rparr>)"

lemma after_read_Nil [simp]: "after_read fd buf [] s = s"
  by (simp add: after_read_def update_file_def update_PCB_def)

lemma unread_small:
  assumes "readable fd buf n s"
  shows "length (take (unat n) (unread fd s)) < 2 ^ 31"
    "unat (file_position (current_file fd s)) + length (take (unat n) (unread fd s)) < 2 ^ 31"
  using assms by (auto simp: readable_def unread_def file_content_def)

lemma sys_call_read_file:
  assumes ok: "readable fd buf n s"
  defines "d \<equiv> take (unat n) (unread fd s)"
  shows "sys_call_read dentry hs fd buf n s = Some (of_nat (length d), after_read fd buf d s, hs)"
proof -
  let ?f = "current_file fd s" and ?b = "bootmebb s"
  let ?i = "fb_inode ?f" and ?pos = "unat (file_position ?f)"
  let ?size = "file_size (mem s) ?b ?i" and ?c = "file_content (mem s) ?b ?i"
  note ok' = ok [unfolded readable_def]
  have len: "length ?c = ?size" by (simp add: file_content_def)
  have sfd: "sint fd = int (unat fd)" using ok' by (intro sint_small) simp
  have "unat fd < 8" using ok' by blast
  then have guard: "\<not> sint fd > 7" "\<not> sint fd < 0" unfolding sfd by linarith+
  have call: "sys_call_read dentry hs fd buf n s = (case file_read fd buf n s of (r, t) \<Rightarrow> Some (r, t, hs))"
    using ok' guard by (simp add: sys_call_read_def bad_fd_def call_read_def)
  show ?thesis
  proof (cases "?pos < ?size")
    case False
    then have eof: "file_read fd buf n s = (0, s)"
      by (simp add: file_read_def file_size_def word_le_nat_alt not_less)
    with False len have "d = []" by (simp add: d_def unread_def)
    with eof call show ?thesis by simp
  next
    case True
    have v: "length d = min (unat n) (?size - ?pos)" by (simp add: d_def unread_def len min.commute)
    have "region buf (length d) \<inter> image_region (mem s) ?b = {}"
      using ok' region_mono [of "length d" "unat n" buf] by (auto simp: v)
    moreover have "0 < unat n" using ok' by (simp add: word_less_nat_alt)
    ultimately have "read_data (mem s) ?b ?i (file_position ?f) buf n = (store_bytes (mem s) buf d, of_nat (length d))"
      using read_data_content [of "mem s" ?b ?i "file_position ?f" n buf] ok' True by (simp add: v) (simp add: d_def unread_def)
    with True call show ?thesis
      by (simp add: file_read_def after_read_def file_size_def word_le_nat_alt not_le)
  qed
qed

lemma after_read_readable:
  assumes ok: "readable fd buf n s"
  defines "d \<equiv> take (unat n) (unread fd s)"
  shows "readable fd buf n (after_read fd buf d s)" "unread fd (after_read fd buf d s) = drop (unat n) (unread fd s)"
    "image_agrees (bootmebb s) (mem s) (store_bytes (mem s) buf d)"
proof -
  let ?f = "current_file fd s"
  let ?s = "s\<lparr>mem := store_bytes (mem s) buf d\<rparr>" and ?t = "after_read fd buf d s"
  note small = unread_small [OF ok, folded d_def]
  have "region buf (length d) \<subseteq> region buf (unat n)" by (rule region_mono) (simp add: d_def)
  then show ag: "image_agrees (bootmebb s) (mem s) (store_bytes (mem s) buf d)"
    unfolding image_agrees_def using ok by (intro ballI store_bytes_outside) (auto simp: readable_def)
  then have ok': "readable fd buf n ?s" and un: "unread fd ?s = unread fd s"
    using readable_cong [OF _ _ _ ok, of ?s] by simp_all
  have cf: "current_file fd ?t = ?f\<lparr>file_position := file_position ?f + of_nat (length d)\<rparr>"
    unfolding after_read_def using ok by (subst current_update_file) (simp_all add: readable_def)
  have pos: "unat (file_position ?f + of_nat (length d)) = unat (file_position ?f) + length d"
    using small by (simp add: unat_word_ariths)
  let ?c = "file_content (mem ?s) (bootmebb s) (fb_inode ?f)"
  have len: "length ?c = file_size (mem ?s) (bootmebb s) (fb_inode ?f)" by (simp add: file_content_def)
  have "length d = min (unat n) (length (unread fd ?s))" unfolding un by (simp add: d_def min.commute)
  then have d: "length d = min (unat n) (length ?c - unat (file_position ?f))" by (simp add: unread_def)
  show "readable fd buf n ?t"
    unfolding after_read_def
  proof (rule readable_advance [OF ok'])
    have "unat (file_position ?f) \<le> length ?c" unfolding len using ok' by (simp add: readable_def)
    then show "unat (file_position (current_file fd ?s) + of_nat (length d))
        \<le> file_size (mem ?s) (bootmebb ?s) (fb_inode (current_file fd ?s))"
      using pos d len by simp
  qed
  have "unread fd ?t = drop (unat (file_position ?f) + length d) ?c"
    by (simp add: unread_def cf pos) (simp add: after_read_def)
  also have "\<dots> = drop (unat n) (unread fd ?s)"
    using d by (cases "unat n \<le> length ?c - unat (file_position ?f)") (simp_all add: unread_def add.commute)
  finally show "unread fd ?t = drop (unat n) (unread fd s)" unfolding un .
qed

lemma read_call_step:
  assumes ok: "readable fd buf n s"
  obtains t where "read_call dentry hs fd buf n s = (take (unat n) (unread fd s), t)"
    "unread fd t = drop (unat n) (unread fd s)" "readable fd buf n t"
proof -
  let ?d = "take (unat n) (unread fd s)"
  note small = unread_small(1) [OF ok]
  have "bytes (mem (after_read fd buf ?d s)) buf (unat (of_nat (length ?d) :: i32)) = ?d"
    using bytes_store_bytes [of ?d "mem s" buf] small by (simp add: after_read_def)
  with sys_call_read_file [OF ok, of dentry hs] after_read_readable [OF ok] show thesis
    by (intro that [of "after_read fd buf ?d s"]) (simp_all add: read_call_def)
qed

interpretation reads: sequential_file "read_call dentry hs fd buf n" "readable fd buf n" "unread fd" "unat n" for dentry hs fd buf n
proof unfold_locales
  fix s :: "'a kernel_scheme"
  assume ok: "readable fd buf n s"
  then show "0 < unat n" by (simp add: readable_def word_less_nat_alt)
  obtain t where "read_call dentry hs fd buf n s = (take (unat n) (unread fd s), t)"
    "unread fd t = drop (unat n) (unread fd s)" "readable fd buf n t" by (rule read_call_step [OF ok])
  then show "readable fd buf n (snd (read_call dentry hs fd buf n s))"
    "fst (read_call dentry hs fd buf n s) = take (unat n) (unread fd s)"
    "unread fd (snd (read_call dentry hs fd buf n s)) = drop (unat n) (unread fd s)" by simp_all
qed

section \<open>Opening a regular file\<close>

lemma open_regular_file:
  assumes name: "cstring (mem s) filename cs" "cs \<noteq> []"
    and cur: "unat (current_process_ID s) < length (PCB_array s)"
      "length (file_array (PCB_array s ! unat (current_process_ID s))) = 8"
    and apart: "region currfile 64 \<inter> image_region (mem s) (bootmebb s) = {}"
    and found: "lookup_name (mem s) (bootmebb s) (take 32 cs) = Some k" "e = d_table_entry (bootmebb s) (of_nat k)"
      "file_type (mem s) e = 2"
    and wf: "file_wf (mem s) (bootmebb s) (inode_num (mem s) e)"
    and fc: "fc = file_content (mem s) (bootmebb s) (inode_num (mem s) e)"
    and slot: "fd_alloc (file_array (PCB_array s ! unat (current_process_ID s))) = Some i"
    and buf: "0 < n" "length fc + unat n < 2 ^ 31" "region buf (unat n) \<inter> image_region (mem s) (bootmebb s) = {}"
  defines "s' \<equiv> s\<lparr>mem := memcpy (mem s) currfile e 64\<rparr>"
  defines "t \<equiv> opened i FILE_DEV (inode_num (mem s) e) s'"
  shows "sys_call_open currfile filename s = Some (of_nat i, t)" "readable (of_nat i) buf n t" "unread (of_nat i) t = fc"
    "image_agrees (bootmebb s) (mem s) (mem s')"
proof -
  let ?b = "bootmebb s" and ?inode = "inode_num (mem s) e"
  have "region currfile 64 \<inter> region ?b 4096 = {}" using apart boot_in_image [of ?b "mem s"] by blast
  from sys_call_open_result [OF strlen_cstring [OF name(1)] this cur] cprefix_cstring [OF name(1)] found slot
  show "sys_call_open currfile filename s = Some (of_nat i, t)"
    using name cstring_length [OF name(1)] u32_of_nat_eq_iff [of "length cs" 0]
    by (simp add: Let_def device_of_type_def s'_def t_def)
  from found(1) have "region e 64 \<subseteq> region ?b 4096" unfolding found(2) by (intro d_table_entry_region) (simp add: lookup_name_Some)
  then have "region currfile 64 \<inter> region e 64 = {}" using apart boot_in_image [of ?b "mem s"] by blast
  from dentry_copied(4) [OF this] show ag: "image_agrees ?b (mem s) (mem s')"
    using apart by (auto simp: image_agrees_def s'_def)
  note img = image_agrees_file [OF ag wf] image_agrees_counts(3) [OF ag]
  have i: "2 \<le> i" "i < 8" using slot cur by (simp_all add: fds.alloc_iff)
  have cf: "current_file (of_nat i) t =
      (current_file (of_nat i) s')\<lparr>fb_inode := ?inode, file_position := 0, fb_flags := 1, file_op_table_ptr := FILE_DEV\<rparr>"
    unfolding t_def opened_def using cur i by (subst current_update_file) (simp_all add: s'_def)
  have ne: "(of_nat i :: i32) \<noteq> 1" using u32_of_nat_eq_iff [of i 1] i by simp
  have len: "length fc = file_size (mem s) ?b ?inode" by (simp add: fc file_content_def)
  show ok: "readable (of_nat i) buf n t"
    unfolding readable_def cf using cur i ne img buf len
    by (simp add: t_def opened_def s'_def length_file_array_update)
  show un: "unread (of_nat i) t = fc" unfolding unread_def cf fc using img(2) by (simp add: t_def opened_def s'_def)
qed

section \<open>Properties\<close>

text \<open>
  C4: Opening a regular file by name returns the lowest free descriptor, and reading from it in pieces of any
  size until nothing is left yields exactly the content of the file; closing it then succeeds and frees it.
\<close>

theorem open_read_close:
  assumes name: "cstring (mem s) filename cs" "cs \<noteq> []"
    and cur: "unat (current_process_ID s) < length (PCB_array s)"
      "length (file_array (PCB_array s ! unat (current_process_ID s))) = 8"
    and apart: "region currfile 64 \<inter> image_region (mem s) (bootmebb s) = {}"
    and found: "lookup_name (mem s) (bootmebb s) (take 32 cs) = Some k" "e = d_table_entry (bootmebb s) (of_nat k)"
      "file_type (mem s) e = 2"
    and wf: "file_wf (mem s) (bootmebb s) (inode_num (mem s) e)"
    and fc: "fc = file_content (mem s) (bootmebb s) (inode_num (mem s) e)"
    and slot: "fd_alloc (file_array (PCB_array s ! unat (current_process_ID s))) = Some i"
    and buf: "0 < n" "length fc + unat n < 2 ^ 31" "region buf (unat n) \<inter> image_region (mem s) (bootmebb s) = {}"
    and rounds: "length fc \<le> m * unat n"
  shows "\<exists>t u. sys_call_open currfile filename s = Some (of_nat i, t) \<and>
      drain (read_call dentry hs (of_nat i) buf n) m t = (fc, u) \<and>
      (\<exists>v. sys_call_close (of_nat i) u = Some (0, v) \<and> fb_flags (current_file (of_nat i) v) = 0)"
proof -
  note op = open_regular_file [OF name cur apart found wf fc slot buf]
  define t where "t = opened i FILE_DEV (inode_num (mem s) e) (s\<lparr>mem := memcpy (mem s) currfile e 64\<rparr>)"
  note open' = op(1) [folded t_def] and ok = op(2) [folded t_def] and un = op(3) [folded t_def]
  have i: "2 \<le> i" "i < 8" using slot cur by (simp_all add: fds.alloc_iff)
  obtain u where u: "drain (read_call dentry hs (of_nat i) buf n) m t = (fc, u)" "readable (of_nat i) buf n u"
    using reads.drain_all [OF ok, of m dentry hs] rounds un by (cases "drain (read_call dentry hs (of_nat i) buf n) m t") auto
  define v where "v = update_file (of_nat i) (\<lambda>b. b\<lparr>fb_flags := 0\<rparr>) u"
  have cv: "current_file (of_nat i) v = (current_file (of_nat i) u)\<lparr>fb_flags := 0\<rparr>"
    unfolding v_def using u(2) by (subst current_update_file) (simp_all add: readable_def)
  have si: "sint (of_nat i :: i32) = int i" using i by (intro sint_u32_of_nat) simp
  have "sys_call_close (of_nat i) u = Some (0, v)"
    using u(2) i cv by (simp add: sys_call_close_def si v_def [symmetric] readable_def Let_def)
  with open' u(1) cv show ?thesis by auto
qed

theorem open_read_close_witness:
  "\<exists>t u. sys_call_open 0x940000 0x900000 elf_kernel = Some (2, t) \<and>
     drain (read_call 0x940000 [] 2 0x960000 16) 3 t = (elf_file, u)"
proof -
  have t: "file_type elf_image (d_table_entry 0x400000 0) = 2" "inode_num elf_image (d_table_entry 0x400000 0) = 0"
    by (simp_all add: file_type_def inode_num_def load32_def d_table_entry_def elf_image_def)
  have cur: "current_process_ID elf_kernel = 0" "length (PCB_array shell_kernel) = 6"
    "file_array (PCB_array shell_kernel ! 0) = replicate 8 closed_block"
    by (simp_all add: elf_kernel_def shell_kernel_def blank_PCB_def)
  have al: "fd_alloc (replicate 8 closed_block) = Some 2"
    unfolding fds.alloc_iff by (simp add: fd_used_def closed_block_def)
  have "region 0x940000 64 \<inter> image_region elf_image 0x400000 = {}" "region 0x960000 16 \<inter> image_region elf_image 0x400000 = {}"
    unfolding image_region_def elf_image_size by (rule region_disjointI; simp)+
  then show ?thesis
    using open_read_close [of elf_kernel "0x900000" "[97]" "0x940000" 0 "d_table_entry 0x400000 (of_nat 0)" elf_file 2 16 "0x960000" 3 "0x940000" "[]"]
      elf_commands elf_lookup elf_image_wf elf_image_content elf_file_facts(1) t cur al
    by auto
qed

end
