(* ===== verification/Arguments.thy ===== *)
theory Arguments
  imports Open_Files
begin

text \<open>
  \<^verbatim>\<open>sys_call_getargs\<close>: what \<^verbatim>\<open>sys_call_execute\<close> stores in \<^verbatim>\<open>command_global\<close> and what a program
  gets back of it.
\<close>

section \<open>The stored command\<close>

lemma store_command_row:
  "length (command_global p) = 240 \<Longrightarrow> i + length vs \<le> 240 \<Longrightarrow>
     store_command vs i p =
       Some (p\<lparr>command_global := take i (command_global p) @ vs @ drop (i + length vs) (command_global p)\<rparr>)"
proof (induction vs arbitrary: i p)
  case Nil
  then show ?case by simp
next
  case (Cons v vs)
  let ?g = "command_global p"
  have "set_command i v p = Some (p\<lparr>command_global := ?g[i := v]\<rparr>)" using Cons.prems by (simp add: set_command_def)
  moreover have "take (i + 1) (?g[i := v]) = take i ?g @ [v]" using Cons.prems by (simp add: take_Suc_conv_app_nth)
  moreover have "drop (i + 1 + length vs) (?g[i := v]) = drop (i + length (v # vs)) ?g" by simp
  ultimately show ?case using Cons.IH [of "p\<lparr>command_global := ?g[i := v]\<rparr>" "i + 1"] Cons.prems by simp
qed

lemma set_name_command:
  assumes "set_name cs s = Some t" "unat (current_process_ID s) < 6" "length cs < 40" "0 \<notin> set cs"
    and "length (command_global (PCB_array s ! unat (current_process_ID s))) = 240"
  shows "command_strlen t = Some (length cs)" "take (length cs) (command_text t) = cs"
proof -
  let ?c = "unat (current_process_ID s)"
  define b where "b = 40 * ?c"
  have b: "b + 40 \<le> 240" using assms(2) by (simp add: b_def)
  obtain p q r where p: "get_PCB (current_process_ID s) s = Some p" and q: "store_command (replicate 40 0) b p = Some q"
    and r: "store_command cs b q = Some r" and t: "t = update_PCB (current_process_ID s) (\<lambda>_. r) s"
    using assms(1) by (auto simp: set_name_def Let_def bind_eq_Some_conv b_def)
  have lt: "?c < length (PCB_array s)" "p = PCB_array s ! ?c" using p by (auto simp: get_PCB_def split: if_splits)
  let ?g = "command_global p"
  have g: "length ?g = 240" using assms(5) lt by simp
  have q': "q = p\<lparr>command_global := take b ?g @ replicate 40 0 @ drop (b + 40) ?g\<rparr>"
    using store_command_row [OF g, of b "replicate 40 0"] q b by simp
  have gq: "length (command_global q) = 240" using g b by (simp add: q')
  have "r = q\<lparr>command_global := take b (command_global q) @ cs @ drop (b + length cs) (command_global q)\<rparr>"
    using store_command_row [OF gq, of b cs] r b assms(3) by simp
  then have r': "command_global r = take b ?g @ cs @ replicate (40 - length cs) 0 @ drop (b + 40) ?g"
    using g b assms(3) by (simp add: q')
  have "command_text t = cs @ replicate (40 - length cs) 0 @ drop (b + 40) ?g @ [isActive r, terminalNumber r]"
    using lt g b by (simp add: command_text_def t b_def [symmetric] r' Let_def)
  moreover obtain k where "40 - length cs = Suc k" using assms(3) by (metis Suc_diff_Suc)
  ultimately obtain rest where row: "command_text t = cs @ 0 # rest" by auto
  have "takeWhile (\<lambda>b. b \<noteq> 0) (cs @ 0 # rest) = cs" using assms(4) by (subst takeWhile_append2) auto
  then show "command_strlen t = Some (length cs)" "take (length cs) (command_text t) = cs"
    by (simp_all add: command_strlen_def row)
qed

section \<open>The buffers\<close>

lemma clear_both_outside:
  "p \<notin> region buf k \<Longrightarrow> p \<notin> region words k \<Longrightarrow> clear_both k buf words m p = m p"
  by (induction k arbitrary: buf words m) (simp_all add: region_Suc)

lemma clear_both_zero:
  "p \<in> region buf k \<union> region words k \<Longrightarrow> clear_both k buf words m p = 0"
proof (induction k arbitrary: buf words m)
  case (Suc k)
  show ?case
  proof (cases "p \<in> region (buf + 1) k \<union> region (words + 1) k")
    case False
    with Suc.prems have "p = buf \<or> p = words" by (auto simp: region_Suc)
    with False show ?thesis by (auto simp: clear_both_outside)
  qed (use Suc.IH in simp)
qed simp

lemma copy_words_string:
  assumes "region buf (length xs) \<inter> region words (Suc (length xs)) = {}"
  shows "cstring m words xs \<Longrightarrow> i \<le> length xs \<Longrightarrow>
     copy_words (of_nat i) words buf m = Some (store_bytes m (buf + of_nat i) (drop i xs))"
proof (induction "length xs - i" arbitrary: i m)
  case 0
  then have "i = length xs" by simp
  with 0 strlen_cstring [of m words xs] show ?case by (simp add: copy_words.simps)
next
  case (Suc k)
  then have i: "i < length xs" by simp
  have len: "length xs < 2 ^ 32" using Suc.prems(1) by (simp add: cstring_def)
  have lt: "(of_nat i :: u32) < of_nat (length xs)" using i len by (simp add: word_less_nat_alt)
  let ?m = "m(buf + of_nat i := xs ! i)"
  have "buf + of_nat i \<notin> region words (Suc (length xs))" using assms i by blast
  then have cs: "cstring ?m words xs" by (intro cstring_cong [OF Suc.prems(1)]) auto
  have "copy_words (of_nat i) words buf m = copy_words (of_nat (Suc i)) words buf ?m"
    using strlen_cstring [OF Suc.prems(1)] lt cstring_nth [OF Suc.prems(1) i]
    by (subst copy_words.simps) (simp add: add.commute)
  also have "\<dots> = Some (store_bytes ?m (buf + of_nat (Suc i)) (drop (Suc i) xs))"
    using Suc.hyps(2) i by (intro Suc.hyps(1) cs) simp_all
  also have "store_bytes ?m (buf + of_nat (Suc i)) (drop (Suc i) xs) = store_bytes m (buf + of_nat i) (drop i xs)"
    using i by (simp add: Cons_nth_drop_Suc [symmetric] add.assoc add.commute [of 1])
  finally show ?case .
qed

lemma first_space_split: "32 \<notin> set prog \<Longrightarrow> first_space i (prog @ 32 # args) = i + length prog"
  by (induction prog arbitrary: i) auto

lemma first_space_none: "32 \<notin> set cs \<Longrightarrow> first_space i cs = 0"
  by (induction cs arbitrary: i) auto

text \<open>The command of the running process.\<close>

definition has_command :: "u8 list \<Rightarrow> 'a kernel_scheme \<Rightarrow> bool" where
  "has_command cs s \<longleftrightarrow>
     command_strlen s = Some (length cs) \<and> take (length cs) (command_text s) = cs \<and> length cs < 40 \<and> 0 \<notin> set cs"

lemma has_command_mem [simp]: "has_command cs (s\<lparr>mem := m\<rparr>) \<longleftrightarrow> has_command cs s"
  by (simp add: has_command_def command_strlen_def command_text_def)

text \<open>The arguments in the local array, and then in the buffer.\<close>

definition words_memory :: "u32 \<Rightarrow> u8 list \<Rightarrow> memory \<Rightarrow> memory" where
  "words_memory words args m = (store_bytes m words args)(words + of_nat (length args + 1) := 0)"

lemma words_memory_string:
  assumes zero: "\<And>p. p \<in> region words 40 \<Longrightarrow> m p = 0" and args: "length args < 38" "0 \<notin> set args"
  shows "cstring (words_memory words args m) words args"
proof -
  let ?ws = "store_bytes m words args"
  have "words + of_nat (length args) \<in> region words 40" using args(1) by (intro in_regionI) simp
  moreover have "words + of_nat (length args) \<notin> region words (length args)"
    using args(1) by (simp add: region_iff)
  ultimately have "?ws (words + of_nat (length args)) = 0" by (simp add: store_bytes_outside zero)
  then have "cstring ?ws words args" using args bytes_store_bytes [of args m words] by (simp add: cstring_def)
  then show ?thesis
  proof (rule cstring_cong)
    fix p assume "p \<in> region words (Suc (length args))"
    then have "p \<noteq> words + of_nat (length args + 1)" using args(1) by (auto simp: region_iff simp del: of_nat_Suc of_nat_add)
    then show "words_memory words args m p = ?ws p" by (simp add: words_memory_def)
  qed
qed

lemma words_returned:
  assumes ws: "cstring m words args" and args: "length args < 38"
    and apart: "region buf 40 \<inter> region words 41 = {}"
  shows "copy_words 0 words buf m = Some (store_bytes m buf args)"
    "strlen (store_bytes m buf args) words = Some (of_nat (length args))"
    "cstring ((store_bytes m buf args)(buf + of_nat (length args) := 0)) buf args"
proof -
  let ?m = "store_bytes m buf args"
  have apart': "region buf (Suc (length args)) \<inter> region words (Suc (length args)) = {}"
    using apart region_mono [of "Suc (length args)" 40 buf] region_mono [of "Suc (length args)" 41 words] args by auto
  show "copy_words 0 words buf m = Some ?m"
    using copy_words_string [OF _ ws, of buf 0] apart' region_mono [of "length args" "Suc (length args)" buf] by auto
  have "cstring ?m words args"
    by (rule cstring_cong [OF ws], rule store_bytes_outside)
      (use apart' region_mono [of "length args" "Suc (length args)" buf] in auto)
  then show "strlen ?m words = Some (of_nat (length args))" by (rule strlen_cstring)
  have eq: "?m(buf + of_nat (length args) := 0) = store_bytes m buf (args @ [0])" by (simp add: store_bytes_append)
  show "cstring (?m(buf + of_nat (length args) := 0)) buf args"
    unfolding eq by (rule cstring_store_bytes) (use ws args in \<open>simp_all add: cstring_def\<close>)
qed

lemma words_outside:
  assumes args: "length args < 38" and p: "p \<notin> region buf 40" "p \<notin> region words 40"
  shows "((store_bytes (words_memory words args m) buf args)(buf + of_nat (length args) := 0)) p = m p"
proof -
  have ins: "region buf (length args) \<subseteq> region buf 40" "region words (length args) \<subseteq> region words 40"
    using args by (intro region_mono; simp)+
  have at: "words + of_nat (length args + 1) \<in> region words 40" "buf + of_nat (length args) \<in> region buf 40"
    using args by (intro in_regionI; simp)+
  then have ne: "p \<noteq> words + of_nat (length args + 1)" "p \<noteq> buf + of_nat (length args)" using p by metis+
  have out: "p \<notin> region buf (length args)" "p \<notin> region words (length args)" using ins p by auto
  have "words_memory words args m p = m p"
    using ne(1) out(2) by (simp add: words_memory_def store_bytes_outside del: of_nat_Suc of_nat_add)
  then show ?thesis using ne(2) out(1) by (simp add: store_bytes_outside)
qed

lemma getargs_effect:
  assumes "has_command (prog @ 32 # args) s" "32 \<notin> set prog" and ne: "prog \<noteq> []"
    and buf: "buf \<noteq> 0" "0 < sint n" "region buf 40 \<inter> region words 41 = {}"
  obtains m where "sys_call_getargs words buf n s = Some (0, s\<lparr>mem := m\<rparr>)" "cstring m buf args"
    "\<And>p. p \<notin> region buf 40 \<Longrightarrow> p \<notin> region words 41 \<Longrightarrow> m p = mem s p"
proof -
  define cs where "cs = prog @ 32 # args"
  let ?m = "clear_both 40 buf words (mem s)"
  have cmd: "length cs < 40" "0 \<notin> set cs" using assms(1) by (simp_all add: has_command_def cs_def)
  have same: "command_strlen (s\<lparr>mem := ?m\<rparr>) = Some (length cs)" "take (length cs) (command_text (s\<lparr>mem := ?m\<rparr>)) = cs"
    using assms(1) has_command_mem [where cs = cs and s = s and m = ?m] by (simp_all add: has_command_def cs_def)
  have no: "32 \<notin> set prog" by fact
  have idx: "first_space 0 cs = length prog" using cs_def first_space_split [OF no, of 0 args] by simp
  have short: "length args < 38" "0 \<notin> set args" using cs_def cmd ne by (cases prog; auto)+
  define m2 where "m2 = words_memory words args ?m"
  have "cstring m2 words args" unfolding m2_def by (rule words_memory_string [OF _ short]) (simp add: clear_both_zero)
  note ret = words_returned [OF this short(1) buf(3)]
  define m4 where "m4 = (store_bytes m2 buf args)(buf + of_nat (length args) := 0)"
  have "drop (length prog + 1) cs = args" "length cs - length prog = length args + 1" using cs_def by simp_all
  then have "sys_call_getargs words buf n s = Some (0, s\<lparr>mem := m4\<rparr>)"
    using buf same idx ne ret(1,2) by (simp add: sys_call_getargs_def Let_def m2_def words_memory_def m4_def)
  moreover have "cstring m4 buf args" using ret(3) by (simp add: m4_def)
  moreover have "m4 p = mem s p" if "p \<notin> region buf 40" "p \<notin> region words 41" for p
  proof -
    have w: "p \<notin> region words 40" using that(2) region_mono [of 40 41 words] by auto
    have "m4 p = ?m p" unfolding m4_def m2_def by (rule words_outside [OF short(1) that(1) w])
    also have "\<dots> = mem s p" using that(1) w by (rule clear_both_outside)
    finally show ?thesis .
  qed
  ultimately show thesis using that by blast
qed

lemma getargs_no_space:
  assumes "has_command cs s" "\<not> (32 \<in> set cs \<and> hd cs \<noteq> 32)" and buf: "buf \<noteq> 0" "0 < sint n"
  shows "sys_call_getargs words buf n s = Some (-1, s\<lparr>mem := clear_both 40 buf words (mem s)\<rparr>)"
proof -
  have "first_space 0 cs = 0"
  proof (cases "32 \<in> set cs")
    case True
    with assms(2) show ?thesis by (cases cs) auto
  qed (simp add: first_space_none)
  moreover have "has_command cs (s\<lparr>mem := clear_both 40 buf words (mem s)\<rparr>)" using assms(1) by simp
  ultimately show ?thesis using buf by (simp add: sys_call_getargs_def Let_def has_command_def)
qed

section \<open>Properties\<close>

text \<open>
  C20: A program that asks for its arguments gets what follows the first space of the command that
  \<^verbatim>\<open>sys_call_execute\<close> stored for it, as a string, and the answer -1 when there is no space.
\<close>

theorem getargs_of_command:
  assumes stored: "set_name cs s = Some t"
    and cmd: "unat (current_process_ID s) < 6" "length cs < 40" "0 \<notin> set cs"
      "length (command_global (PCB_array s ! unat (current_process_ID s))) = 240"
    and buf: "buf \<noteq> 0" "0 < sint n" "region buf 40 \<inter> region words 41 = {}"
  shows "case sys_call_getargs words buf n t of None \<Rightarrow> False
    | Some (r, u) \<Rightarrow>
        if 32 \<in> set cs \<and> hd cs \<noteq> 32 then r = 0 \<and> cstring (mem u) buf (tl (dropWhile (\<lambda>b. b \<noteq> 32) cs)) else r = -1"
proof -
  have has: "has_command cs t" using set_name_command [OF stored cmd] cmd by (simp add: has_command_def)
  show ?thesis
  proof (cases "32 \<in> set cs \<and> hd cs \<noteq> 32")
    case False
    with getargs_no_space [OF has False buf(1,2)] show ?thesis by simp
  next
    case True
    define prog args where "prog = takeWhile (\<lambda>b. b \<noteq> 32) cs" and "args = tl (dropWhile (\<lambda>b. b \<noteq> 32) cs)"
    have "dropWhile (\<lambda>b. b \<noteq> 32) cs \<noteq> []" using True by (simp add: dropWhile_eq_Nil_conv)
    then have "dropWhile (\<lambda>b. b \<noteq> 32) cs = 32 # args"
      using hd_dropWhile [of "\<lambda>b. b \<noteq> 32" cs] by (cases "dropWhile (\<lambda>b. b \<noteq> 32) cs") (auto simp: args_def)
    then have cs: "cs = prog @ 32 # args" unfolding prog_def by (metis takeWhile_dropWhile_id)
    have no: "32 \<notin> set prog" unfolding prog_def by (auto dest: set_takeWhileD)
    have ne: "prog \<noteq> []" using True cs by (cases prog) auto
    obtain m where "sys_call_getargs words buf n t = Some (0, t\<lparr>mem := m\<rparr>)" "cstring m buf args"
      by (rule getargs_effect [OF has [unfolded cs] no ne buf])
    then show ?thesis using True by (simp add: args_def)
  qed
qed

definition args_kernel :: kernel where
  "args_kernel = the (set_name (ascii ''cat a'') shell_kernel)"

theorem getargs_of_command_witness:
  "\<exists>u. sys_call_getargs 0x930000 0x8100000 40 args_kernel = Some (0, u) \<and> cstring (mem u) 0x8100000 (ascii ''a'')"
proof -
  have c: "unat (current_process_ID shell_kernel) < 6" "length (PCB_array shell_kernel) = 6"
    "length (command_global (PCB_array shell_kernel ! unat (current_process_ID shell_kernel))) = 240"
    by (simp_all add: shell_kernel_def blank_PCB_def)
  have cs: "length (ascii ''cat a'') < 40" "0 \<notin> set (ascii ''cat a'')" by (simp_all add: ascii_def)
  obtain t where t: "set_name (ascii ''cat a'') shell_kernel = Some t"
    using set_name_room [of shell_kernel "ascii ''cat a''"] c cs by auto
  have apart: "region 0x8100000 40 \<inter> region 0x930000 41 = {}" by (rule region_disjointI) simp_all
  have args: "32 \<in> set (ascii ''cat a'') \<and> hd (ascii ''cat a'') \<noteq> 32"
    "tl (dropWhile (\<lambda>b. b \<noteq> 32) (ascii ''cat a'')) = ascii ''a''"
    by (simp_all add: ascii_def)
  from getargs_of_command [OF t c(1) cs c(3) _ _ apart, of 40]
  show ?thesis unfolding args if_P [OF args(1)] by (auto simp: args_kernel_def t split: option.splits)
qed

end
