(* ===== verification/Multiprocess.thy ===== *)
theory Multiprocess
  imports Syscalls
begin

text \<open>
  The three terminals: \<^verbatim>\<open>multiprocess.c\<close> and the keys F1 to F3 of \<^verbatim>\<open>keyboard.c\<close>.  The saved video
  memory and the saved keyboard buffer of a terminal lie in memory, at the addresses of its record.

  \<^verbatim>\<open>switch_terminal\<close> ends by taking the stack registers saved for the other terminal and returning
  through that frame (\<open>Resume_Terminal\<close>), or by entering a program of the other terminal
  (\<open>Into\<close>).  The stack registers at the place where they are read are parameters.
\<close>

section \<open>multiprocess.c\<close>

definition get_terminal :: "u8 \<Rightarrow> 'a kernel_scheme \<Rightarrow> multiterminal option" where
  "get_terminal i s = (if unat i < length (three_term_buf s) then Some (three_term_buf s ! unat i) else None)"

definition update_terminal :: "u8 \<Rightarrow> (multiterminal \<Rightarrow> multiterminal) \<Rightarrow> 'a kernel_scheme \<Rightarrow> 'a kernel_scheme" where
  "update_terminal i f s = s\<lparr>three_term_buf := (three_term_buf s)[unat i := f (three_term_buf s ! unat i)]\<rparr>"

text \<open>The loop that starts a shell again whenever the call returns with an answer for which \<open>again\<close> holds.\<close>

partial_function (option) shell_loop ::
  "(i32 \<Rightarrow> bool) \<Rightarrow> exec_locals \<Rightarrow> u32 \<Rightarrow> u32 \<Rightarrow> u32 \<Rightarrow> 'a kernel_scheme \<Rightarrow> 'a kernel_scheme transfer option" where
  "shell_loop again L cur_esp cur_ebp execute_command s =
     Option.bind (sys_call_execute L cur_esp cur_ebp execute_command s) (\<lambda>r.
       case r of
         Returned check s \<Rightarrow>
           if again check
           then shell_loop again L cur_esp cur_ebp execute_command (setY 0 (setX 0 (clear s)))
           else Some (Returned check s)
       | Enter_User eip usp s \<Rightarrow> Some (Enter_User eip usp s)
       | Return_Through v e b s \<Rightarrow> Some (Return_Through v e b s))"

definition terminal_page :: "u8 \<Rightarrow> u32" where
  "terminal_page terminal_number = 0xBA000 + ucast terminal_number * 0x1000"

text \<open>The terminal's page in the tables, and its record.\<close>

definition new_terminal :: "u8 \<Rightarrow> 'a kernel_scheme \<Rightarrow> 'a kernel_scheme" where
  "new_terminal terminal_number s =
     (let phys_addr = terminal_page terminal_number;
          s = s\<lparr>page_table_terminals :=
                (page_table_terminals s)[unat (drop_bit 12 phys_addr) := phys_addr OR 0x4 OR 0x2 OR 0x1]\<rparr>;
          s = s\<lparr>page_directory := (page_directory s)[0x25 := page_table_terminals_at s OR 0x4 OR 0x2 OR 0x1]\<rparr>;
          page_loc = push_bit 22 0x25 OR phys_addr
      in update_terminal terminal_number
           (\<lambda>t. t\<lparr>video_mem_hist := page_loc, cur_buffer_Size := 0, execute_status := 0, pos_x := 0, pos_y := 0\<rparr>) s)"

definition multi_terminal_init ::
  "exec_locals \<Rightarrow> u32 \<Rightarrow> u32 \<Rightarrow> u32 \<Rightarrow> u8 \<Rightarrow> 'a kernel_scheme \<Rightarrow> 'a kernel_scheme transfer option" where
  "multi_terminal_init L esp_save ebp_save execute_command terminal_number s =
     do {
       _ \<leftarrow> get_terminal terminal_number s;
       let s = new_terminal terminal_number s;
       if terminal_number = 0
       then
         let s = update_terminal 0 (\<lambda>t. t\<lparr>mt_esp := esp_save, mt_ebp := ebp_save, mt_PID := ucast terminal_number\<rparr>) s;
             s = s\<lparr>mem := store_bytes (mem s) execute_command (ascii ''shell'' @ [0])\<rparr>
         in shell_loop (\<lambda>check. check = 0) L esp_save ebp_save execute_command s
       else Some (Returned 0 s)
     }"

text \<open>The three steps of \<^verbatim>\<open>switch_terminal\<close> before the other terminal's program goes on.\<close>

definition save_terminal :: "u8 \<Rightarrow> u8 \<Rightarrow> 'a kernel_scheme \<Rightarrow> 'a kernel_scheme" where
  "save_terminal cur_terminal next_terminal s =
     (let s = s\<lparr>nxt_term := next_terminal\<rparr>;
          s = update_terminal cur_terminal
                (\<lambda>t. t\<lparr>pos_x := getX s, pos_y := getY s, mt_PID := get_current_process_ID_without_term s,
                      mt_PPID := get_parent_process_ID s\<rparr>) s;
          s = setX (pos_x (three_term_buf s ! unat next_terminal)) s;
          s = setY (pos_y (three_term_buf s ! unat next_terminal)) s;
          s = fill_buffer (saved_keyboard_buffer (three_term_buf s ! unat cur_terminal)) s
      in update_terminal cur_terminal (\<lambda>t. t\<lparr>cur_buffer_Size := getBufferSize s\<rparr>) s)"

definition show_terminal :: "u8 \<Rightarrow> u8 \<Rightarrow> u32 \<Rightarrow> 'a kernel_scheme \<Rightarrow> 'a kernel_scheme" where
  "show_terminal cur_terminal next_terminal buffer s =
     (let cur = three_term_buf s ! unat cur_terminal; nxt = three_term_buf s ! unat next_terminal;
          s = s\<lparr>mem := memcpy (mem s) (video_mem_hist cur) 0xB8000 0x1000\<rparr>;
          s = clear s;
          s = s\<lparr>mem := memcpy (mem s) 0xB8000 (video_mem_hist nxt) 0x1000\<rparr>;
          s = fb_move_cursor (pos_x nxt) (pos_y nxt) s;
          s = s\<lparr>mem := copy_buffer 128 (saved_keyboard_buffer nxt) buffer (mem s)\<rparr>
      in setBufferSize (cur_buffer_Size nxt) s)"

definition resume_terminal :: "u8 \<Rightarrow> 'a kernel_scheme \<Rightarrow> 'a kernel_scheme" where
  "resume_terminal next_terminal s =
     (let nxt = three_term_buf s ! unat next_terminal;
          s = set_parent_process_ID (mt_PPID nxt) s;
          s = set_current_process_ID (mt_PID nxt) s;
          pid = get_current_process_ID next_terminal s;
          s = s\<lparr>esp0 := 0x800000 - 0x2000 - 0x2000 * pid - 4\<rparr>
      in map_window (process_entry pid) s)"

datatype 's switched = Back 's | Resume_Terminal u32 u32 's | Into "'s transfer"

definition switch_terminal ::
  "exec_locals \<Rightarrow> u32 \<Rightarrow> u32 \<Rightarrow> u32 \<Rightarrow> u8 \<Rightarrow> u8 \<Rightarrow> u32 \<Rightarrow> 'a kernel_scheme \<Rightarrow> 'a kernel_scheme switched option" where
  "switch_terminal L esp_save ebp_save execute_command cur_terminal next_terminal buffer s =
     do {
       _ \<leftarrow> get_terminal cur_terminal s;
       _ \<leftarrow> get_terminal next_terminal s;
       let s = show_terminal cur_terminal next_terminal buffer (save_terminal cur_terminal next_terminal s);
       let s = update_terminal cur_terminal (\<lambda>t. t\<lparr>mt_esp := esp_save, mt_ebp := ebp_save\<rparr>) s;
       r \<leftarrow> (if execute_status (three_term_buf s ! unat next_terminal) = 0
             then shell_loop (\<lambda>check. (ucast check :: u8) = 0) L esp_save ebp_save execute_command s
             else Some (Returned 0 s));
       Some (case r of
               Returned _ s \<Rightarrow>
                 let nxt = three_term_buf s ! unat next_terminal
                 in Resume_Terminal (mt_esp nxt) (mt_ebp nxt) (resume_terminal next_terminal s)
             | _ \<Rightarrow> Into r)
     }"

definition get_nxt_term :: "'a kernel_scheme \<Rightarrow> u8" where
  "get_nxt_term s = nxt_term s"

text \<open>The body of \<^verbatim>\<open>scheduler\<close> is commented out.\<close>

definition scheduler :: "'a kernel_scheme \<Rightarrow> 'a kernel_scheme" where
  "scheduler s = s"

section \<open>keyboard.c: F1 to F3\<close>

definition exceeded :: "nat \<Rightarrow> u8 list" where
  "exceeded k = [10] @ ascii ''You greedy little boy. You exceeded max number of processes and tried to open shell ''
     @ [49 + of_nat k, 10] @ ascii ''391OS> ''"

definition function_key ::
  "exec_locals \<Rightarrow> u32 \<Rightarrow> u32 \<Rightarrow> u32 \<Rightarrow> u32 \<Rightarrow> nat \<Rightarrow> 'a kernel_scheme \<Rightarrow> 'a kernel_scheme switched option" where
  "function_key L esp_save ebp_save execute_command message k s =
     (if is_PCB_array_full s = 1 \<and> execute_status (three_term_buf s ! k) = 0
      then Some (Back (send_eoi 1 (say message (exceeded k @ [0]) (length (exceeded k)) s)))
      else if altKeyFlag s = 1 \<and> buffer_flag s \<noteq> of_nat k
      then let current_terminal = ucast (buffer_flag s);
               s = send_eoi 1 (s\<lparr>buffer_flag := of_nat k\<rparr>)
           in switch_terminal L esp_save ebp_save execute_command current_terminal (of_nat k) (keybuf s) s
      else Some (Back (send_eoi 1 s)))"

text \<open>The handler with these keys.\<close>

definition keyboard_interrupt ::
  "exec_locals \<Rightarrow> u32 \<Rightarrow> u32 \<Rightarrow> u32 \<Rightarrow> u32 \<Rightarrow> device \<Rightarrow> 'a kernel_scheme \<Rightarrow> 'a kernel_scheme switched option" where
  "keyboard_interrupt L esp_save ebp_save execute_command message dev s =
     (let (v, t) = inb dev 0x60 (cli s)
      in if v AND 0xFF = 0x3B then function_key L esp_save ebp_save execute_command message 0 t
         else if v AND 0xFF = 0x3C then function_key L esp_save ebp_save execute_command message 1 t
         else if v AND 0xFF = 0x3D then function_key L esp_save ebp_save execute_command message 2 t
         else Some (Back (getchar (\<lambda>_ s. s) dev s)))"

section \<open>What switching does to the saved areas\<close>

lemma bytes_store_other:
  "region a (length bs) \<inter> region b n = {} \<Longrightarrow> bytes (store_bytes m a bs) b n = bytes m b n"
  by (intro bytes_cong store_bytes_outside) blast

lemma bytes_store_own: "j \<le> 2 ^ 32 \<Longrightarrow> bytes (store_bytes m a (bytes m' b j)) a j = bytes m' b j"
  using bytes_store_bytes [of "bytes m' b j" m a] by simp

fun apart :: "(u32 \<times> nat) list \<Rightarrow> bool" where
  "apart [] \<longleftrightarrow> True"
| "apart ((a, n) # rs) \<longleftrightarrow> (\<forall>(b, k) \<in> set rs. region a n \<inter> region b k = {}) \<and> apart rs"

text \<open>The areas in memory that a switch between two terminals reads and writes.\<close>

definition terminal_areas :: "nat \<Rightarrow> nat \<Rightarrow> 'a kernel_scheme \<Rightarrow> (u32 \<times> nat) list" where
  "terminal_areas c n s =
     [(keybuf s, 128), (video, 4096), (video_mem_hist (three_term_buf s ! c), 4096), (video_mem_hist (three_term_buf s ! n), 4096),
      (saved_keyboard_buffer (three_term_buf s ! c), 128), (saved_keyboard_buffer (three_term_buf s ! n), 128)]"

lemma switch_memory:
  fixes m :: memory
  assumes "apart [(K, 128), (video, 4096), (hc, 4096), (hn, 4096), (sc, 128), (sn, 128)]" "k \<le> 128"
  defines "m1 \<equiv> copy_buffer k K sc m"
  defines "m2 \<equiv> memcpy m1 hc video 0x1000"
  defines "m3 \<equiv> store_bytes m2 video (concat (replicate 2000 [32, 7]))"
  defines "m4 \<equiv> memcpy m3 video hn 0x1000"
  defines "m5 \<equiv> copy_buffer 128 sn K m4"
  shows "bytes m5 hc 4096 = bytes m video 4096" "bytes m5 video 4096 = bytes m hn 4096"
    "bytes m5 sc k = bytes m K k" "bytes m5 K 128 = bytes m sn 128"
proof -
  have sub: "region a k \<subseteq> region a 128" for a using assms(2) by (rule region_mono)
  have sub': "region video 4000 \<subseteq> region video 4096" by (rule region_mono) simp
  note d = assms(1) [simplified]
  have 1: "m1 = store_bytes m sc (bytes m K k)"
    unfolding m1_def copy_buffer_bottom by (rule memcpy_bottom_store) (use d sub [of K] sub [of sc] assms(2) in \<open>auto simp: Int_commute\<close>)
  have 2: "m2 = store_bytes m1 hc (bytes m1 video 4096)"
    unfolding m2_def using memcpy.cp_store_bytes [of hc "0x1000" video m1] d by (simp add: Int_commute)
  have 4: "m4 = store_bytes m3 video (bytes m3 hn 4096)"
    unfolding m4_def using memcpy.cp_store_bytes [of video "0x1000" hn m3] d by simp
  have 5: "m5 = store_bytes m4 K (bytes m4 sn 128)"
    unfolding m5_def copy_buffer_bottom by (rule memcpy_bottom_store) (use d in \<open>simp_all add: Int_commute\<close>)
  have into: "bytes m1 b j = bytes m b j" if "region sc 128 \<inter> region b j = {}" for b j
    unfolding 1 by (rule bytes_store_other) (use that sub [of sc] in auto)
  have step2: "bytes m2 b j = bytes m1 b j" if "region hc 4096 \<inter> region b j = {}" for b j
    unfolding 2 by (rule bytes_store_other) (use that in simp)
  have step3: "bytes m3 b j = bytes m2 b j" if "region video 4096 \<inter> region b j = {}" for b j
    unfolding m3_def by (rule bytes_store_other) (use that sub' in auto)
  have step4: "bytes m4 b j = bytes m3 b j" if "region video 4096 \<inter> region b j = {}" for b j
    unfolding 4 by (rule bytes_store_other) (use that in simp)
  have step5: "bytes m5 b j = bytes m4 b j" if "region K 128 \<inter> region b j = {}" for b j
    unfolding 5 by (rule bytes_store_other) (use that in simp)
  have own: "bytes m5 K 128 = bytes m4 sn 128" "bytes m4 video 4096 = bytes m3 hn 4096" "bytes m2 hc 4096 = bytes m1 video 4096"
    "bytes m1 sc k = bytes m K k"
    using assms(2) by (simp_all add: 5 4 2 1 bytes_store_own)
  have part: "region b j \<inter> region sc k = {}" if "region b j \<inter> region sc 128 = {}" for b j
    using that sub [of sc] by blast
  note c = Int_commute own
  show "bytes m5 K 128 = bytes m sn 128" using d by (simp add: c step4 step3 step2 into)
  show "bytes m5 hc 4096 = bytes m video 4096" using d by (simp add: c step5 step4 step3 into)
  show "bytes m5 video 4096 = bytes m hn 4096" using d by (simp add: c step5 step3 step2 into)
  have "region K 128 \<inter> region sc k = {}" "region video 4096 \<inter> region sc k = {}" "region hc 4096 \<inter> region sc k = {}"
    using d by (simp_all add: part)
  then show "bytes m5 sc k = bytes m K k" by (simp add: own step5 step4 step3 step2)
qed

definition areas_ok :: "nat \<Rightarrow> nat \<Rightarrow> 'a kernel_scheme \<Rightarrow> bool" where
  "areas_ok c n s \<longleftrightarrow> apart (terminal_areas c n s) \<and> (\<forall>(a, k) \<in> set (terminal_areas c n s). \<forall>p \<in> region a k. \<not> in_window p)"

text \<open>The record of the terminal that is left.\<close>

definition saved_record :: "u32 \<Rightarrow> u32 \<Rightarrow> 'a kernel_scheme \<Rightarrow> multiterminal \<Rightarrow> multiterminal" where
  "saved_record e b s T = T\<lparr>pos_x := cursor_x s, pos_y := cursor_y s, mt_PID := ucast (current_process_ID s),
     mt_PPID := ucast (parent_process_ID s), cur_buffer_Size := buffer_Size s, mt_esp := e, mt_ebp := b\<rparr>"

lemma update_terminal_fields [simp]:
  "three_term_buf (update_terminal i f s) = (three_term_buf s)[unat i := f (three_term_buf s ! unat i)]"
  "mem (update_terminal i f s) = mem s" "keybuf (update_terminal i f s) = keybuf s"
  "buffer_Size (update_terminal i f s) = buffer_Size s" "cursor_x (update_terminal i f s) = cursor_x s"
  "cursor_y (update_terminal i f s) = cursor_y s" "PCB_array (update_terminal i f s) = PCB_array s"
  "page_directory (update_terminal i f s) = page_directory s" "nxt_term (update_terminal i f s) = nxt_term s"
  "current_process_ID (update_terminal i f s) = current_process_ID s"
  "parent_process_ID (update_terminal i f s) = parent_process_ID s"
  "page_table_terminals (update_terminal i f s) = page_table_terminals s"
  "page_table_terminals_at (update_terminal i f s) = page_table_terminals_at s"
  by (simp_all add: update_terminal_def)

lemma fb_move_cursor_kernel [simp]:
  "mem (fb_move_cursor r c s) = mem s" "three_term_buf (fb_move_cursor r c s) = three_term_buf s"
  "keybuf (fb_move_cursor r c s) = keybuf s" "cursor_x (fb_move_cursor r c s) = cursor_x s"
  "cursor_y (fb_move_cursor r c s) = cursor_y s" "PCB_array (fb_move_cursor r c s) = PCB_array s"
  "page_directory (fb_move_cursor r c s) = page_directory s" "nxt_term (fb_move_cursor r c s) = nxt_term s"
  by (simp_all add: fb_move_cursor_def outb_def Let_def)

lemma get_current_process_ID_cong:
  "PCB_array s = PCB_array t \<Longrightarrow> get_current_process_ID term s = get_current_process_ID term t"
  by (simp add: get_current_process_ID_def)

lemma ucast_u8: "(ucast (ucast (x :: u8) :: i32) :: u8) = x"
  by (rule bit_word_eqI) (simp add: bit_simps)

lemma u8_of_nat: "n < 3 \<Longrightarrow> unat (of_nat n :: u8) = n"
  by (simp add: unat_of_nat)

lemma switch_running:
  fixes s :: "'a kernel_scheme"
  assumes n: "c < 3" "n < 3" "c \<noteq> n" and len: "length (three_term_buf s) = 3"
    and running: "execute_status (three_term_buf s ! n) \<noteq> 0" and ok: "areas_ok c n s" and size: "buffer_Size s \<le> 128"
  defines "T \<equiv> three_term_buf s"
  obtains t where
    "switch_terminal L e b x (of_nat c) (of_nat n) (keybuf s) s = Some (Resume_Terminal (mt_esp (T ! n)) (mt_ebp (T ! n)) t)"
    "three_term_buf t = T[c := saved_record e b s (T ! c)]"
    "cursor_x t = pos_x (T ! n)" "cursor_y t = pos_y (T ! n)" "buffer_Size t = cur_buffer_Size (T ! n)"
    "keybuf t = keybuf s" "PCB_array t = PCB_array s" "nxt_term t = of_nat n"
    "current_process_ID t = ucast (mt_PID (T ! n))" "parent_process_ID t = ucast (mt_PPID (T ! n))"
    "page_directory t = (page_directory s)[32 := process_entry (get_current_process_ID (of_nat n) s)]"
    "bytes (mem t) (video_mem_hist (T ! c)) 4096 = bytes (mem s) video 4096"
    "bytes (mem t) video 4096 = bytes (mem s) (video_mem_hist (T ! n)) 4096"
    "bytes (mem t) (saved_keyboard_buffer (T ! c)) (unat (buffer_Size s)) = bytes (mem s) (keybuf s) (unat (buffer_Size s))"
    "bytes (mem t) (keybuf t) 128 = bytes (mem s) (saved_keyboard_buffer (T ! n)) 128"
proof -
  note u = u8_of_nat [OF n(1)] u8_of_nat [OF n(2)]
  define p where "p = update_terminal (of_nat c) (\<lambda>t. t\<lparr>mt_esp := e, mt_ebp := b\<rparr>)
     (show_terminal (of_nat c) (of_nat n) (keybuf s) (save_terminal (of_nat c) (of_nat n) s))"
  define t where "t = resume_terminal (of_nat n) p"
  note defs = save_terminal_def show_terminal_def Let_def setX_def setY_def getX_def getY_def fill_buffer_def getBufferSize_def
    setBufferSize_def get_current_process_ID_without_term_def get_parent_process_ID_def clear_store
  have T: "three_term_buf p = T[c := saved_record e b s (T ! c)]"
    using n len by (simp add: p_def T_def u defs saved_record_def)
  then have Tn: "three_term_buf p ! n = T ! n" using n by simp
  have p: "cursor_x p = pos_x (T ! n)" "cursor_y p = pos_y (T ! n)" "buffer_Size p = cur_buffer_Size (T ! n)"
    "keybuf p = keybuf s" "PCB_array p = PCB_array s" "nxt_term p = of_nat n" "page_directory p = page_directory s"
    using n len by (simp_all add: p_def u defs T_def)
  have m: "mem p = copy_buffer 128 (saved_keyboard_buffer (T ! n)) (keybuf s)
      (memcpy (store_bytes (memcpy (copy_buffer (unat (buffer_Size s)) (keybuf s) (saved_keyboard_buffer (T ! c)) (mem s))
          (video_mem_hist (T ! c)) video 0x1000) video (concat (replicate 2000 [32, 7]))) video (video_mem_hist (T ! n)) 0x1000)"
    using n len by (simp add: p_def u defs T_def video_def)
  note mem_p = switch_memory [OF ok [unfolded areas_ok_def terminal_areas_def, THEN conjunct1], of "unat (buffer_Size s)" "mem s",
      folded T_def, folded m]
  have k: "unat (buffer_Size s) \<le> 128" using size by (simp add: word_le_nat_alt)
  have same: "bytes (mem t) a j = bytes (mem p) a j" if "(a, j') \<in> set (terminal_areas c n s)" "j \<le> j'" for a j j'
  proof (rule bytes_cong)
    fix q assume "q \<in> region a j"
    moreover have "\<forall>p \<in> region a j'. \<not> in_window p"
      using bspec [OF ok [unfolded areas_ok_def, THEN conjunct2] that(1)] by simp
    ultimately have "\<not> in_window q" using region_mono [OF that(2), of a] by blast
    then show "mem t q = mem p q"
      by (simp add: t_def resume_terminal_def Let_def map_window_mem set_current_process_ID_def set_parent_process_ID_def)
  qed
  note area = same [unfolded terminal_areas_def, folded T_def]
  show thesis
  proof (rule that)
    show "switch_terminal L e b x (of_nat c) (of_nat n) (keybuf s) s = Some (Resume_Terminal (mt_esp (T ! n)) (mt_ebp (T ! n)) t)"
      using n len running
      by (simp add: switch_terminal_def get_terminal_def u p_def [symmetric] Tn T_def [symmetric] t_def [symmetric] del: update_terminal_fields)
        (simp add: Let_def)
    show "three_term_buf t = T[c := saved_record e b s (T ! c)]" "cursor_x t = pos_x (T ! n)" "cursor_y t = pos_y (T ! n)"
      "buffer_Size t = cur_buffer_Size (T ! n)" "PCB_array t = PCB_array s" "nxt_term t = of_nat n"
      "current_process_ID t = ucast (mt_PID (T ! n))" "parent_process_ID t = ucast (mt_PPID (T ! n))"
      using n by (simp_all add: t_def resume_terminal_def Let_def T p u Tn map_window_def set_current_process_ID_def set_parent_process_ID_def)
    show kb: "keybuf t = keybuf s"
      by (simp add: t_def resume_terminal_def Let_def p map_window_def set_current_process_ID_def set_parent_process_ID_def)
    show "page_directory t = (page_directory s)[32 := process_entry (get_current_process_ID (of_nat n) s)]"
      using get_current_process_ID_cong [OF p(5)]
      by (simp add: t_def resume_terminal_def Let_def p set_current_process_ID_def set_parent_process_ID_def get_current_process_ID_def)
    show "bytes (mem t) (video_mem_hist (T ! c)) 4096 = bytes (mem s) video 4096"
      "bytes (mem t) video 4096 = bytes (mem s) (video_mem_hist (T ! n)) 4096"
      "bytes (mem t) (saved_keyboard_buffer (T ! c)) (unat (buffer_Size s)) = bytes (mem s) (keybuf s) (unat (buffer_Size s))"
      "bytes (mem t) (keybuf t) 128 = bytes (mem s) (saved_keyboard_buffer (T ! n)) 128"
      using mem_p [OF k] area [of "video_mem_hist (T ! c)" 4096 4096] area [of video 4096 4096]
        area [of "saved_keyboard_buffer (T ! c)" 128 "unat (buffer_Size s)"] area [of "keybuf s" 128 128] k
      by (simp_all add: kb)
  qed
qed

section \<open>The pages of the terminals\<close>

definition terminal_mapped :: "nat \<Rightarrow> 'a kernel_scheme \<Rightarrow> bool" where
  "terminal_mapped k s \<longleftrightarrow>
     page_directory s ! 0x25 = page_table_terminals_at s OR 4 OR 2 OR 1 \<and>
     page_table_terminals s ! (0xBA + k) = terminal_page (of_nat k) OR 4 OR 2 OR 1 \<and>
     video_mem_hist (three_term_buf s ! k) = 0x9400000 OR terminal_page (of_nat k)"

lemma three_cases:
  assumes "k < 3"
  obtains "k = 0" | "k = 1" | "k = (2 :: nat)"
  using assms by linarith

lemma new_terminal_fields:
  "three_term_buf (new_terminal i s) = (three_term_buf s)[unat i := (three_term_buf s ! unat i)
     \<lparr>video_mem_hist := 0x9400000 OR terminal_page i, cur_buffer_Size := 0, execute_status := 0, pos_x := 0, pos_y := 0\<rparr>]"
  "page_table_terminals (new_terminal i s) =
     (page_table_terminals s)[unat (drop_bit 12 (terminal_page i)) := terminal_page i OR 4 OR 2 OR 1]"
  "page_directory (new_terminal i s) = (page_directory s)[0x25 := page_table_terminals_at s OR 4 OR 2 OR 1]"
  "tables_wf (new_terminal i s) = tables_wf s"
  by (simp_all add: new_terminal_def Let_def update_terminal_def tables_wf_def)

lemma new_terminal_mapped:
  assumes "tables_wf s" "length (three_term_buf s) = 3" "k < 3"
  shows "terminal_mapped k (new_terminal (of_nat k) s)"
    and "j < 3 \<Longrightarrow> terminal_mapped j s \<Longrightarrow> terminal_mapped j (new_terminal (of_nat k) s)"
proof -
  have at: "page_table_terminals_at (new_terminal i s) = page_table_terminals_at s" for i
    by (simp add: new_terminal_def Let_def)
  have pt: "length (page_directory s) = 1024" "length (page_table_terminals s) = 1024" using assms(1) by (simp_all add: tables_wf_def)
  have page: "unat (drop_bit 12 (terminal_page (of_nat i))) = 0xBA + i" if "i < 3" for i
    using that by (cases rule: three_cases) (simp_all add: terminal_page_def)
  show "terminal_mapped k (new_terminal (of_nat k) s)"
    using assms pt by (simp add: terminal_mapped_def new_terminal_fields at page u8_of_nat)
  show "terminal_mapped j (new_terminal (of_nat k) s)" if "j < 3" "terminal_mapped j s"
    using that assms pt by (cases "j = k") (simp_all add: terminal_mapped_def new_terminal_fields at page u8_of_nat)
qed

lemma mapped_translate:
  assumes "tables_wf s" "terminal_mapped k s" "k < 3" and v: "drop_bit 12 v = drop_bit 12 (video_mem_hist (three_term_buf s ! k))"
  shows "translate acc s v = Some (terminal_page (of_nat k) + (v AND 0xFFF))"
proof -
  have at: "page_table_terminals_at s AND 0xFFF = 0" "table_at s (page_table_terminals_at s) = Some (page_table_terminals s)"
    using assms(1) by (auto simp: tables_wf_def table_at_def)
  have page: "drop_bit 12 v = 0x94BA + of_nat k" using assms(3,2,4) by (cases rule: three_cases) (simp_all add: terminal_mapped_def terminal_page_def)
  have slot: "drop_bit 10 (drop_bit 12 v) = 0x25" "drop_bit 12 v AND 0x3FF = 0xBA + of_nat k"
    using assms(3) page by (cases rule: three_cases; simp)+
  have "unat (drop_bit 22 v) = 0x25" using slot(1) by simp
  moreover have "unat (drop_bit 12 v AND 0x3FF) = 0xBA + k" using assms(3) slot(2) by (cases rule: three_cases) simp_all
  ultimately have nat_slot: "unat (drop_bit 22 v) = 0x25" "unat (drop_bit 12 v AND 0x3FF) = 0xBA + k" by simp_all
  have e: "bit (terminal_page (of_nat k) OR 4 OR 2 OR 1) 0" "bit (terminal_page (of_nat k) OR 4 OR 2 OR 1) 2"
    "(terminal_page (of_nat k) OR 4 OR 2 OR 1) AND 0xFFFFF000 = terminal_page (of_nat k)"
    using assms(3) by (cases rule: three_cases; simp add: terminal_page_def bit_simps)+
  have "page_directory s ! unat (drop_bit 22 v) = page_table_terminals_at s OR 4 OR 2 OR 1"
    "page_table_terminals s ! unat (drop_bit 12 v AND 0x3FF) = terminal_page (of_nat k) OR 4 OR 2 OR 1"
    using assms(2) by (simp_all add: nat_slot terminal_mapped_def)
  then show ?thesis using translate_small_page [OF _ at] e by simp
qed

section \<open>Properties\<close>

text \<open>
  C26: After the three calls of \<^verbatim>\<open>multi_terminal_init\<close> in the order of the kernel's entry, the address
  each terminal keeps for its saved screen translates, for kernel and programs, to a page of its own:
  the one at 0xBA000, 0xBB000 or 0xBC000.
\<close>

theorem terminals_mapped:
  assumes "tables_wf s" "length (three_term_buf s) = 3"
    and "multi_terminal_init L e b x 2 s = Some (Returned r1 s1)" "multi_terminal_init L e b x 1 s1 = Some (Returned r2 s2)"
    and "k < 3" "t = new_terminal 0 s2" "drop_bit 12 v = drop_bit 12 (video_mem_hist (three_term_buf t ! k))"
  shows "translate acc t v = Some (0xBA000 + of_nat k * 0x1000 + (v AND 0xFFF))"
proof -
  have s1: "s1 = new_terminal (of_nat 2) s" and s2: "s2 = new_terminal (of_nat 1) s1"
    using assms(2-4) by (auto simp: multi_terminal_init_def get_terminal_def new_terminal_fields split: if_splits)
  have wf: "tables_wf s1" "tables_wf s2" "tables_wf t" and len: "length (three_term_buf s1) = 3" "length (three_term_buf s2) = 3"
    using assms(1,2,6) by (simp_all add: s1 s2 new_terminal_fields)
  note one = new_terminal_mapped [OF assms(1,2), of 2] and two = new_terminal_mapped [OF wf(1) len(1), of 1]
    and three = new_terminal_mapped [OF wf(2) len(2), of 0]
  have "terminal_mapped k t"
    using assms(5) one(1) two three s1 s2 assms(6) by (cases rule: three_cases) simp_all
  then have "translate acc t v = Some (terminal_page (of_nat k) + (v AND 0xFFF))"
    using mapped_translate [OF wf(3) _ assms(5,7)] by simp
  with assms(5) show ?thesis by (cases rule: three_cases) (simp_all add: terminal_page_def)
qed

theorem terminals_mapped_witness:
  "let t = new_terminal 0 (new_terminal 1 (new_terminal 2 reset_kernel))
   in translate User_Access t (video_mem_hist (three_term_buf t ! 1)) = Some 0xBB000"
proof -
  have wf: "tables_wf reset_kernel" "length (three_term_buf reset_kernel) = 3"
    by (simp_all add: reset_kernel_def tables_wf_def kernel.defs reset_paging_def paging.defs keyboard.defs)
  have "multi_terminal_init some_locals 0 0 0 i s = Some (Returned 0 (new_terminal i s))" if "length (three_term_buf s) = 3" "i = 1 \<or> i = 2"
    for i and s :: kernel
    using that by (auto simp: multi_terminal_init_def get_terminal_def)
  then have init: "multi_terminal_init some_locals 0 0 0 2 reset_kernel = Some (Returned 0 (new_terminal 2 reset_kernel))"
    "multi_terminal_init some_locals 0 0 0 1 (new_terminal 2 reset_kernel) = Some (Returned 0 (new_terminal 1 (new_terminal 2 reset_kernel)))"
    using wf(2) by (simp_all add: new_terminal_fields)
  have at: "video_mem_hist (three_term_buf (new_terminal 0 (new_terminal 1 (new_terminal 2 reset_kernel))) ! 1) = 0x94BB000"
    by (simp add: new_terminal_fields terminal_page_def)
  show ?thesis
    using terminals_mapped [OF wf init, of 1, OF _ refl, of "0x94BB000" User_Access] by (simp add: Let_def at [unfolded One_nat_def])
qed

text \<open>
  C14: Switching from one running terminal to another and back brings back the screen, the line
  typed so far, the cursor and the current process of the terminal, and returns through the frame
  saved when it was left, whatever happened in between, as long as the saved areas of the terminal
  are not written.  The program window then is the one of the process active on the terminal.
\<close>

theorem switch_terminal_roundtrip:
  assumes ids: "c < 3" "n < 3" "c \<noteq> n" and len: "length (three_term_buf s) = 3" "length (three_term_buf u) = 3"
    and running: "execute_status (three_term_buf s ! c) \<noteq> 0" "execute_status (three_term_buf s ! n) \<noteq> 0"
    and ok: "areas_ok c n s" "areas_ok n c u" and size: "buffer_Size s \<le> 128" "buffer_Size u \<le> 128"
    and left: "switch_terminal L e b x (of_nat c) (of_nat n) (keybuf s) s = Some (Resume_Terminal e1 b1 t)"
    and kept: "three_term_buf u ! c = three_term_buf t ! c"
      "bytes (mem u) (video_mem_hist (three_term_buf t ! c)) 4096 = bytes (mem t) (video_mem_hist (three_term_buf t ! c)) 4096"
      "bytes (mem u) (saved_keyboard_buffer (three_term_buf t ! c)) 128 = bytes (mem t) (saved_keyboard_buffer (three_term_buf t ! c)) 128"
    and size_u: "length (page_directory u) = 1024"
  shows "\<exists>v. switch_terminal L' e' b' x' (of_nat n) (of_nat c) (keybuf u) u = Some (Resume_Terminal e b v) \<and>
     bytes (mem v) video 4096 = bytes (mem s) video 4096 \<and> buffer_Size v = buffer_Size s \<and>
     bytes (mem v) (keybuf v) (unat (buffer_Size s)) = bytes (mem s) (keybuf s) (unat (buffer_Size s)) \<and>
     cursor_x v = cursor_x s \<and> cursor_y v = cursor_y s \<and>
     current_process_ID v = current_process_ID s \<and> parent_process_ID v = parent_process_ID s \<and>
     page_directory v ! 32 = process_entry (get_current_process_ID (of_nat c) u)"
proof -
  obtain t' where t': "switch_terminal L e b x (of_nat c) (of_nat n) (keybuf s) s
      = Some (Resume_Terminal (mt_esp (three_term_buf s ! n)) (mt_ebp (three_term_buf s ! n)) t')"
    and T: "three_term_buf t' = (three_term_buf s)[c := saved_record e b s (three_term_buf s ! c)]"
    and m: "bytes (mem t') (video_mem_hist (three_term_buf s ! c)) 4096 = bytes (mem s) video 4096"
      "bytes (mem t') (saved_keyboard_buffer (three_term_buf s ! c)) (unat (buffer_Size s)) = bytes (mem s) (keybuf s) (unat (buffer_Size s))"
    by (rule switch_running [OF ids len(1) running(2) ok(1) size(1)]) blast
  have t: "t' = t" using left t' by simp
  have rec: "three_term_buf u ! c = saved_record e b s (three_term_buf s ! c)" using kept(1) T t ids(1) len(1) by simp
  have "execute_status (three_term_buf u ! c) \<noteq> 0" using running(1) by (simp add: rec saved_record_def)
  from switch_running [OF ids(2,1) ids(3) [symmetric] len(2) this ok(2) size(2)]
  obtain v where v: "switch_terminal L' e' b' x' (of_nat n) (of_nat c) (keybuf u) u
      = Some (Resume_Terminal (mt_esp (three_term_buf u ! c)) (mt_ebp (three_term_buf u ! c)) v)"
    "cursor_x v = pos_x (three_term_buf u ! c)" "cursor_y v = pos_y (three_term_buf u ! c)"
    "buffer_Size v = cur_buffer_Size (three_term_buf u ! c)"
    "current_process_ID v = ucast (mt_PID (three_term_buf u ! c))" "parent_process_ID v = ucast (mt_PPID (three_term_buf u ! c))"
    "page_directory v = (page_directory u)[32 := process_entry (get_current_process_ID (of_nat c) u)]"
    "bytes (mem v) video 4096 = bytes (mem u) (video_mem_hist (three_term_buf u ! c)) 4096"
    "bytes (mem v) (keybuf v) 128 = bytes (mem u) (saved_keyboard_buffer (three_term_buf u ! c)) 128"
    by blast
  have k: "unat (buffer_Size s) \<le> 128" using size(1) by (simp add: word_le_nat_alt)
  have prefix: "bytes m a (unat (buffer_Size s)) = take (unat (buffer_Size s)) (bytes m a 128)" for m a
    using k by (intro nth_equalityI) (simp_all add: min_def)
  have "bytes (mem v) (keybuf v) (unat (buffer_Size s)) = bytes (mem s) (keybuf s) (unat (buffer_Size s))"
    using kept(3) m(2) v(9) rec kept(1) unfolding prefix t by (simp add: saved_record_def)
  moreover have "mt_esp (three_term_buf t ! c) = e" "mt_ebp (three_term_buf t ! c) = b"
    "pos_x (three_term_buf t ! c) = cursor_x s" "pos_y (three_term_buf t ! c) = cursor_y s"
    "cur_buffer_Size (three_term_buf t ! c) = buffer_Size s"
    "ucast (mt_PID (three_term_buf t ! c)) = current_process_ID s" "ucast (mt_PPID (three_term_buf t ! c)) = parent_process_ID s"
    "video_mem_hist (three_term_buf t ! c) = video_mem_hist (three_term_buf s ! c)"
    by (simp_all add: kept(1) [symmetric] rec saved_record_def ucast_u8)
  ultimately show ?thesis using v m(1) kept(2) size_u by (simp add: kept(1) t)
qed

definition two_terminals :: kernel where
  "two_terminals = shell_kernel\<lparr>keybuf := 0x600000, three_term_buf :=
     [blank_terminal\<lparr>execute_status := 1, video_mem_hist := 0x94BA000, saved_keyboard_buffer := 0x610000\<rparr>,
      blank_terminal\<lparr>execute_status := 1, video_mem_hist := 0x94BB000, saved_keyboard_buffer := 0x620000\<rparr>, blank_terminal]\<rparr>"

lemma high_not_in_window: "p \<in> region a n \<Longrightarrow> 0x8400000 \<le> unat a \<Longrightarrow> unat a + n \<le> 2 ^ 32 \<Longrightarrow> \<not> in_window p"
proof
  assume "p \<in> region a n" and le: "0x8400000 \<le> unat a" "unat a + n \<le> 2 ^ 32" and win: "in_window p"
  then obtain i where i: "i < n" "p = a + of_nat i" by (auto simp: region_def)
  then have "p = of_nat (unat a + i)" by simp
  moreover have "unat a + i < 2 ^ 32" using i(1) le by simp
  ultimately have "unat p = unat a + i" by (simp only: unat_u32_of_nat)
  then have "0x8400000 \<le> unat p" using i(1) le by simp
  moreover have "unat (drop_bit 22 p) = 32" using win by (simp add: in_window_def)
  ultimately show False by (simp add: unat_drop_bit_div)
qed

lemma out_of_window:
  "unat a + n \<le> 0x8000000 \<or> 0x8400000 \<le> unat a \<and> unat a + n \<le> 2 ^ 32 \<Longrightarrow> \<forall>p \<in> region a n. \<not> in_window p"
  using low_not_in_window high_not_in_window by blast

lemma two_terminals_areas: "apart (terminal_areas 0 1 two_terminals)" "apart (terminal_areas 1 0 two_terminals)"
  "\<forall>(a, k) \<in> set (terminal_areas 0 1 two_terminals). \<forall>p \<in> region a k. \<not> in_window p"
  by (simp_all add: terminal_areas_def two_terminals_def video_def region_disjointI) (intro conjI out_of_window; simp)

theorem switch_terminal_roundtrip_witness:
  "\<exists>t v. switch_terminal some_locals 0x7FBF00 0x7FBF20 0x630000 0 1 0x600000 two_terminals = Some (Resume_Terminal 0 0 t) \<and>
     switch_terminal some_locals 0x7FBE00 0x7FBE20 0x630000 1 0 0x600000 t = Some (Resume_Terminal 0x7FBF00 0x7FBF20 v) \<and>
     bytes (mem v) video 4096 = bytes (mem two_terminals) video 4096"
proof -
  let ?s = two_terminals
  have len: "length (three_term_buf ?s) = 3" and run: "execute_status (three_term_buf ?s ! 0) \<noteq> 0" "execute_status (three_term_buf ?s ! 1) \<noteq> 0"
    by (simp_all add: two_terminals_def)
  have ok: "areas_ok 0 1 ?s" using two_terminals_areas by (simp add: areas_ok_def)
  have size: "buffer_Size ?s \<le> 128" by (simp add: two_terminals_def shell_kernel_def reset_kernel_def reset_paging_def paging.defs keyboard.defs)
  obtain t where t: "switch_terminal some_locals 0x7FBF00 0x7FBF20 0x630000 (of_nat 0) (of_nat 1) (keybuf ?s) ?s
      = Some (Resume_Terminal (mt_esp (three_term_buf ?s ! 1)) (mt_ebp (three_term_buf ?s ! 1)) t)"
    "three_term_buf t = (three_term_buf ?s)[0 := saved_record 0x7FBF00 0x7FBF20 ?s (three_term_buf ?s ! 0)]"
    "buffer_Size t = cur_buffer_Size (three_term_buf ?s ! 1)" "keybuf t = keybuf ?s"
    "page_directory t = (page_directory ?s)[32 := process_entry (get_current_process_ID (of_nat 1) ?s)]"
    by (rule switch_running [of 0 1 ?s]) (use len run ok size in simp_all)
  have areas: "terminal_areas 1 0 t = terminal_areas 1 0 ?s"
    using t(2,4) by (simp add: terminal_areas_def two_terminals_def saved_record_def)
  have "set (terminal_areas 1 0 ?s) = set (terminal_areas 0 1 ?s)" by (auto simp: terminal_areas_def)
  then have ok': "areas_ok 1 0 t" using two_terminals_areas unfolding areas_ok_def areas by simp
  have more: "length (three_term_buf t) = 3" "buffer_Size t \<le> 128" "length (page_directory t) = 1024"
    using t(2,3,5) by (simp_all add: two_terminals_def shell_kernel_def blank_terminal_def)
  obtain v where "switch_terminal some_locals 0x7FBE00 0x7FBE20 0x630000 (of_nat 1) (of_nat 0) (keybuf t) t
      = Some (Resume_Terminal 0x7FBF00 0x7FBF20 v)" "bytes (mem v) video 4096 = bytes (mem ?s) video 4096"
    using switch_terminal_roundtrip [of 0 1, OF _ _ _ len more(1) run ok ok' size more(2) t(1) refl refl refl more(3),
        of some_locals "0x7FBE00" "0x7FBE20" "0x630000"] by auto
  then show ?thesis using t(1,4) by (auto simp: two_terminals_def blank_terminal_def)
qed

end
