(* ===== verification/PIT.thy ===== *)
theory PIT
  imports Console
begin

text \<open>
  The interval timer driver, \<^verbatim>\<open>PIT.c\<close>.  The part of the 8254 chip the driver relies on is the
  specification \<open>pit_step\<close>: a mode command for channel 0 with access to both bytes, and the two
  writes of the reload value, low byte first.
\<close>

section \<open>PIT.c\<close>

text \<open>
  The division comes before the check of the range, so it faults for the frequency 0 (\<open>None\<close>).
  \<open>msg\<close> is the address of the message.
\<close>

definition PIT_init ::
  "device \<Rightarrow> (u8 \<Rightarrow> u32) \<Rightarrow> u32 \<Rightarrow> u32 \<Rightarrow> 'a console_scheme \<Rightarrow> 'a console_scheme option" where
  "PIT_init dev conv msg PIT_frequency s =
     (if PIT_frequency = 0 then None
      else
        let divider = 1193180 div PIT_frequency
        in if PIT_frequency < 10 \<or> PIT_frequency > 50 then map_option snd (printf conv msg 0 s)
           else
             let s = outb 0x36 0x43 s;
                 s = disable_irq dev 0 s;
                 l = (ucast (divider AND 0xFF) :: u8);
                 h = (ucast (drop_bit 8 divider AND 0xFF) :: u8);
                 s = outb (ucast l) 0x40 s;
                 s = outb (ucast h) 0x40 s
             in Some (enable_irq dev 0 s))"

definition PIT_handler :: "'a machine_scheme \<Rightarrow> 'a machine_scheme" where
  "PIT_handler s = send_eoi 0 s"

section \<open>The chip\<close>

record pit =
  pit_mode :: u8
  reload :: nat
  low_byte :: "u8 option"

text \<open>
  Bits 6 and 7 of a command select the channel, bits 4 and 5 the access (3 is low byte, then high
  byte), bits 1 to 3 the mode.  A reload value of 0 counts 65536.
\<close>

fun pit_step :: "port_op \<Rightarrow> pit \<Rightarrow> pit" where
  "pit_step (Out v port) p =
     (if port = 0x43 \<and> drop_bit 4 v = 3 then p\<lparr>pit_mode := drop_bit 1 v AND 7, low_byte := None\<rparr>
      else if port = 0x40
      then case low_byte p of
             None \<Rightarrow> p\<lparr>low_byte := Some v\<rparr>
           | Some l \<Rightarrow>
               let r = unat l + 256 * unat v in p\<lparr>low_byte := None, reload := (if r = 0 then 65536 else r)\<rparr>
      else p)"
| "pit_step (In port) p = p"

definition pit_after :: "pit \<Rightarrow> port_op list \<Rightarrow> pit" where
  "pit_after p log = fold pit_step log p"

lemma pit_after_append [simp]: "pit_after p (xs @ ys) = pit_after (pit_after p xs) ys"
  by (simp add: pit_after_def)

lemma pit_after_Nil [simp]: "pit_after p [] = p"
  by (simp add: pit_after_def)

lemma pit_after_Cons [simp]: "pit_after p (x # xs) = pit_after (pit_step x p) xs"
  by (simp add: pit_after_def)

lemma pit_after_irq [simp]:
  "pit_after p (port_log (enable_irq dev 0 s)) = pit_after p (port_log s)"
  "pit_after p (port_log (disable_irq dev 0 s)) = pit_after p (port_log s)"
  by (simp_all add: enable_irq_def disable_irq_def inb_def outb_def)

lemma pic_other_port [simp]:
  assumes "port \<noteq> 0x20" "port \<noteq> 0x21" "port \<noteq> 0xA0" "port \<noteq> 0xA1"
  shows "masked p q (log @ [Out v port]) j = masked p q log j" "pics_ready p q (log @ [Out v port]) = pics_ready p q log"
  using assms by (auto simp: masked_def pics_ready_def)

lemma pic_read_port [simp]:
  "masked p q (log @ [In port]) j = masked p q log j" "pics_ready p q (log @ [In port]) = pics_ready p q log"
  by (auto simp: masked_def pics_ready_def)

lemma irq_port_log:
  "enable_irq dev n s = s\<lparr>port_log := port_log (enable_irq dev n s)\<rparr>"
  "disable_irq dev n s = s\<lparr>port_log := port_log (disable_irq dev n s)\<rparr>"
  by (simp_all add: enable_irq_def disable_irq_def inb_def outb_def Let_def)

lemma unat_low_byte: "unat (ucast (w AND 0xFF :: u32) :: u8) = unat w mod 256"
proof -
  have "(w AND 0xFF) = take_bit 8 w" by (simp add: take_bit_eq_mask mask_8)
  then show ?thesis by (simp add: unsigned_ucast_eq unsigned_take_bit_eq take_bit_eq_mod unat_mod)
qed

lemma two_bytes: "unat (ucast (d AND 0xFF) :: u8) + 256 * unat (ucast (drop_bit 8 d AND 0xFF) :: u8) = unat (d :: u32) mod 65536"
  using mod_mult2_eq [of "unat d" 256 256] by (simp add: unat_low_byte unat_div drop_bit_eq_div)

lemma divider_not_65536: "(1193180 :: nat) div n mod 65536 \<noteq> 0" if "10 \<le> n" "n \<le> 50"
proof
  let ?k = "(1193180 :: nat) div n"
  assume "?k mod 65536 = 0"
  then obtain q where q: "?k = 65536 * q" by (auto simp: mod_eq_0_iff_dvd elim: dvdE)
  have "?k \<le> 1193180 div 10" "1193180 div 50 \<le> ?k" using that by (intro div_le_mono2; simp)+
  then have "q = 1" using q by simp
  then have "65536 * n \<le> 1193180" "1193180 < 65537 * n"
    using q div_times_less_eq_dividend [of 1193180 n] dividend_less_div_times [of n 1193180] that by simp_all
  then have "n < 19" "18 < n" by linarith+
  then show False by simp
qed

lemma PIT_init_effect:
  assumes "pic_answers p q dev" "pics_ready p q (port_log s)" "10 \<le> f" "f \<le> 50"
  obtains l where "PIT_init dev conv msg f s = Some (s\<lparr>port_log := l\<rparr>)"
    "pit_after c l = \<lparr>pit_mode = 3, reload = (1193180 div unat f) mod 65536, low_byte = None\<rparr>"
    "\<And>j. j < 16 \<Longrightarrow> masked p q l j \<longleftrightarrow> masked p q (port_log s) j \<and> j \<noteq> 0"
proof -
  have n: "10 \<le> unat f" "unat f \<le> 50" using assms(3,4) by (simp_all add: word_le_nat_alt)
  define d where "d = 1193180 div f"
  define l h :: u8 where "l = ucast (d AND 0xFF)" and "h = ucast (drop_bit 8 d AND 0xFF)"
  define s1 where "s1 = outb 0x36 0x43 s"
  define s2 where "s2 = disable_irq dev 0 s1"
  define s3 where "s3 = outb (ucast h) 0x40 (outb (ucast l) 0x40 s2)"
  have d: "unat d = 1193180 div unat f" by (simp add: d_def unat_div)
  have run: "PIT_init dev conv msg f s = Some (enable_irq dev 0 s3)"
    using assms(3,4) n by (auto simp: PIT_init_def s1_def s2_def s3_def l_def h_def d_def Let_def not_less)
  have reload: "unat l + 256 * unat h = (1193180 div unat f) mod 65536" unfolding l_def h_def two_bytes d ..
  have reloaded: "pit_after c (port_log (enable_irq dev 0 s3)) = \<lparr>pit_mode = 3, reload = (1193180 div unat f) mod 65536, low_byte = None\<rparr>"
    using divider_not_65536 [OF n] by (simp add: s3_def s2_def s1_def reload)
  have lines: "masked p q (port_log (enable_irq dev 0 s3)) j \<longleftrightarrow> masked p q (port_log s) j \<and> j \<noteq> 0" if "j < 16" for j
  proof -
    have r1: "pics_ready p q (port_log s1)" using assms(2) by (simp add: s1_def)
    then have r2: "pics_ready p q (port_log s2)" unfolding s2_def by (rule irq_ready)
    then have r3: "pics_ready p q (port_log s3)" by (simp add: s3_def del: append_assoc)
    have "masked p q (port_log s3) j = masked p q (port_log s2) j"
      by (simp add: s3_def del: append_assoc)
    also have "\<dots> \<longleftrightarrow> masked p q (port_log s) j \<or> j = 0"
      using masked_disable [OF assms(1) r1, of 0 j] that by (simp add: s2_def s1_def)
    finally show ?thesis using masked_enable [OF assms(1) r3, of 0 j] that by auto
  qed
  have "enable_irq dev 0 s3 = s\<lparr>port_log := port_log (enable_irq dev 0 s3)\<rparr>"
    by (subst irq_port_log(1), unfold s3_def s2_def, subst irq_port_log(2)) (simp add: s1_def outb_def)
  with run reloaded lines show thesis by (intro that [of "port_log (enable_irq dev 0 s3)"]) simp_all
qed

section \<open>Properties\<close>

text \<open>
  C38: For a frequency from 10 to 50, \<^verbatim>\<open>PIT_init\<close> puts channel 0 in mode 3 with the low 16 bits of the
  divider as reload value, and leaves line 0 unmasked and the other lines as they were.  The divider
  of a frequency from 10 to 18 does not fit in 16 bits: the 10 Hz the kernel asks for give a reload value
  of 53782, about 22 Hz.  For the frequency 0 the function faults.
\<close>

theorem PIT_init_correct:
  assumes "pic_answers p q dev" "pics_ready p q (port_log s)"
  shows "if f = 0 then PIT_init dev conv msg f s = None
    else 10 \<le> f \<and> f \<le> 50 \<longrightarrow>
      (\<exists>t. PIT_init dev conv msg f s = Some t \<and>
         pit_after c (port_log t) = \<lparr>pit_mode = 3, reload = (1193180 div unat f) mod 65536, low_byte = None\<rparr> \<and>
         (\<forall>j < 16. masked p q (port_log t) j \<longleftrightarrow> masked p q (port_log s) j \<and> j \<noteq> 0))"
proof (cases "10 \<le> f \<and> f \<le> 50")
  case True
  then have "10 \<le> f" "f \<le> 50" by simp_all
  from PIT_init_effect [OF assms this] obtain l where "PIT_init dev conv msg f s = Some (s\<lparr>port_log := l\<rparr>)"
    "pit_after c l = \<lparr>pit_mode = 3, reload = (1193180 div unat f) mod 65536, low_byte = None\<rparr>"
    "\<And>j. j < 16 \<Longrightarrow> masked p q l j \<longleftrightarrow> masked p q (port_log s) j \<and> j \<noteq> 0" by blast
  with True show ?thesis by auto
qed (auto simp: PIT_init_def)

theorem PIT_init_correct_witness:
  "\<exists>t. PIT_init (pic_device reset_pic reset_pic) (\<lambda>_. 0) 0 10 (i8259_init (reset_console 0 0)) = Some t \<and>
     reload (pit_after \<lparr>pit_mode = 0, reload = 0, low_byte = None\<rparr> (port_log t)) = 53782 \<and>
     \<not> masked reset_pic reset_pic (port_log t) 0"
  using PIT_init_correct [OF pic_device_answers [of reset_pic reset_pic] init_ready [of _ _ "reset_console 0 0"], of 10 "\<lambda>_. 0" 0
      "\<lparr>pit_mode = 0, reload = 0, low_byte = None\<rparr>"] by fastforce

end
