(* ===== verification/IDT.thy ===== *)
theory IDT
  imports PIT Multiprocess
begin

text \<open>
  \<^verbatim>\<open>IDT.c\<close>: the interrupt descriptor table and the handlers of the exceptions.  An entry is the
  bit-field structure of \<^verbatim>\<open>x86_desc.h\<close>; \<open>gate_word\<close> is its layout in memory, eight bytes, and the
  functions after it are how the processor reads such a gate, a specification.  The addresses of the
  wrappers of \<^verbatim>\<open>wrapper.S\<close> are a parameter, a function of the vector.
\<close>

section \<open>x86\_desc.h: the entries\<close>

record idt_desc =
  offset_15_00 :: u16
  seg_selector :: u16
  reserved4 :: u8
  reserved3 :: "1 word"
  reserved2 :: "1 word"
  reserved1 :: "1 word"
  gate_size :: "1 word"
  reserved0 :: "1 word"
  gate_dpl :: "2 word"
  gate_present :: "1 word"
  offset_31_16 :: u16

definition SET_IDT_ENTRY :: "u32 \<Rightarrow> idt_desc \<Rightarrow> idt_desc" where
  "SET_IDT_ENTRY handler e =
     e\<lparr>offset_31_16 := ucast (drop_bit 16 (handler AND 0xFFFF0000)), offset_15_00 := ucast (handler AND 0xFFFF)\<rparr>"

section \<open>IDT.c: the table\<close>

text \<open>One round of the loop over the vectors, and the loop, \<open>k\<close> rounds from \<open>i\<close> on.\<close>

definition init_gate :: "nat \<Rightarrow> idt_desc \<Rightarrow> idt_desc" where
  "init_gate i e =
     (let e = e\<lparr>gate_present := 1, gate_dpl := 0, reserved0 := 0, gate_size := 1, reserved1 := 1, reserved2 := 1,
                reserved3 := 1, reserved4 := 0, seg_selector := 0x10\<rparr>
      in if i \<ge> 32 then e\<lparr>reserved3 := 0\<rparr> else e)"

fun init_gates :: "nat \<Rightarrow> nat \<Rightarrow> idt_desc list \<Rightarrow> idt_desc list" where
  "init_gates 0 i idt = idt"
| "init_gates (Suc k) i idt = init_gates k (i + 1) (idt[i := init_gate i (idt ! i)])"

text \<open>The vectors that get a handler, in the order of the source.\<close>

definition handler_vectors :: "nat list" where
  "handler_vectors = [0, 1, 2, 3, 4, 5, 6, 7, 8, 9, 10, 11, 12, 13, 14, 16, 17, 18, 19, 0x20, 0x28, 0x21, 0x80]"

definition IDT_init :: "(nat \<Rightarrow> u32) \<Rightarrow> idt_desc list \<Rightarrow> idt_desc list" where
  "IDT_init wrapper idt =
     (let idt = init_gates 256 0 idt;
          idt = idt[0x80 := (idt ! 0x80)\<lparr>gate_dpl := 3, reserved3 := 0\<rparr>];
          idt = idt[0x20 := (idt ! 0x20)\<lparr>gate_present := 1\<rparr>]
      in fold (\<lambda>i idt. idt[i := SET_IDT_ENTRY (wrapper i) (idt ! i)]) handler_vectors idt)"

section \<open>IDT.c: the handlers\<close>

text \<open>
  A message of \<^verbatim>\<open>printf\<close>: the format and the texts are literals and the arguments are pushed on the
  stack, so memory holds them when the call runs.  The record gives the addresses: of the format, of a text, of
  the arguments, and of the local arrays of \<^verbatim>\<open>printf\<close>.
\<close>

record literals =
  lit_format :: u32
  lit_text :: u32
  lit_args :: u32
  lit_conv :: "u8 \<Rightarrow> u32"

definition print_text :: "literals \<Rightarrow> u8 list \<Rightarrow> 'a console_scheme \<Rightarrow> 'a console_scheme option" where
  "print_text K str s =
     (let m = store_bytes (mem s) (lit_format K) (ascii ''%s'' @ [0]);
          m = store_bytes m (lit_text K) (str @ [0]);
          m = store32 m (lit_args K) (lit_text K)
      in map_option snd (printf (lit_conv K) (lit_format K) (lit_args K) (s\<lparr>mem := m\<rparr>)))"

definition print_hex_line :: "literals \<Rightarrow> u32 \<Rightarrow> 'a console_scheme \<Rightarrow> 'a console_scheme option" where
  "print_hex_line K v s =
     (let m = store_bytes (mem s) (lit_format K) (ascii ''%x'' @ [10, 0]); m = store32 m (lit_args K) v
      in map_option snd (printf (lit_conv K) (lit_format K) (lit_args K) (s\<lparr>mem := m\<rparr>)))"

text \<open>What the handlers have in common: they print their name and halt the process with status 1.\<close>

definition fault :: "literals \<Rightarrow> u8 list \<Rightarrow> 'a kernel_scheme \<Rightarrow> 'a kernel_scheme transfer option" where
  "fault K name s = Option.bind (print_text K name s) (sys_call_halt 1)"

definition divide_by_zero :: "literals \<Rightarrow> 'a kernel_scheme \<Rightarrow> 'a kernel_scheme transfer option" where
  "divide_by_zero K = fault K (ascii ''divide by 0'')"

definition debug_exception :: "literals \<Rightarrow> 'a kernel_scheme \<Rightarrow> 'a kernel_scheme transfer option" where
  "debug_exception K = fault K (ascii ''debug_exception'')"

definition nmi_interrupt :: "literals \<Rightarrow> 'a kernel_scheme \<Rightarrow> 'a kernel_scheme transfer option" where
  "nmi_interrupt K = fault K (ascii ''nmi_interrupt'')"

definition breakpoint_exception :: "literals \<Rightarrow> 'a kernel_scheme \<Rightarrow> 'a kernel_scheme transfer option" where
  "breakpoint_exception K = fault K (ascii ''breakpoint_exception'')"

definition overflow_exception :: "literals \<Rightarrow> 'a kernel_scheme \<Rightarrow> 'a kernel_scheme transfer option" where
  "overflow_exception K = fault K (ascii ''overflow_exception'')"

definition boundrange_exceed :: "literals \<Rightarrow> 'a kernel_scheme \<Rightarrow> 'a kernel_scheme transfer option" where
  "boundrange_exceed K = fault K (ascii '' boundrange_exceed'')"

definition invalid_opcode :: "literals \<Rightarrow> 'a kernel_scheme \<Rightarrow> 'a kernel_scheme transfer option" where
  "invalid_opcode K = fault K (ascii ''invalid_opcode'')"

definition device_not_available :: "literals \<Rightarrow> 'a kernel_scheme \<Rightarrow> 'a kernel_scheme transfer option" where
  "device_not_available K = fault K (ascii ''device_not_available'')"

definition double_fault :: "literals \<Rightarrow> 'a kernel_scheme \<Rightarrow> 'a kernel_scheme transfer option" where
  "double_fault K = fault K (ascii ''double_fault'')"

definition cp_seg :: "literals \<Rightarrow> 'a kernel_scheme \<Rightarrow> 'a kernel_scheme transfer option" where
  "cp_seg K = fault K (ascii ''cp_seg'')"

definition invalid_tss :: "literals \<Rightarrow> 'a kernel_scheme \<Rightarrow> 'a kernel_scheme transfer option" where
  "invalid_tss K = fault K (ascii ''invalid tss'')"

definition segment_not_present :: "literals \<Rightarrow> 'a kernel_scheme \<Rightarrow> 'a kernel_scheme transfer option" where
  "segment_not_present K = fault K (ascii ''segment_not_present'')"

definition stack_fault :: "literals \<Rightarrow> 'a kernel_scheme \<Rightarrow> 'a kernel_scheme transfer option" where
  "stack_fault K = fault K (ascii ''stack_fault'')"

definition gen_protection :: "literals \<Rightarrow> 'a kernel_scheme \<Rightarrow> 'a kernel_scheme transfer option" where
  "gen_protection K = fault K (ascii ''gen_protection'')"

definition page_fault :: "literals \<Rightarrow> u32 \<Rightarrow> 'a kernel_scheme \<Rightarrow> 'a kernel_scheme transfer option" where
  "page_fault K cr2 s = Option.bind (print_hex_line K cr2 s) (fault K (ascii ''page_fault''))"

definition fpu :: "literals \<Rightarrow> 'a kernel_scheme \<Rightarrow> 'a kernel_scheme transfer option" where
  "fpu K = fault K (ascii ''fpu'')"

definition allignment_check :: "literals \<Rightarrow> 'a kernel_scheme \<Rightarrow> 'a kernel_scheme transfer option" where
  "allignment_check K = fault K (ascii ''allignment_check'')"

definition machine_check :: "literals \<Rightarrow> 'a kernel_scheme \<Rightarrow> 'a kernel_scheme transfer option" where
  "machine_check K = fault K (ascii ''machine_check'')"

definition floating_point :: "literals \<Rightarrow> 'a kernel_scheme \<Rightarrow> 'a kernel_scheme transfer option" where
  "floating_point K = fault K (ascii ''floating_point'')"

definition keyboard_handler ::
  "exec_locals \<Rightarrow> u32 \<Rightarrow> u32 \<Rightarrow> u32 \<Rightarrow> u32 \<Rightarrow> device \<Rightarrow> 'a kernel_scheme \<Rightarrow> 'a kernel_scheme switched option" where
  "keyboard_handler L esp_save ebp_save execute_command message dev s =
     keyboard_interrupt L esp_save ebp_save execute_command message dev s"

section \<open>How the processor reads a gate\<close>

definition gate_word :: "idt_desc \<Rightarrow> 64 word" where
  "gate_word e = ucast (offset_15_00 e) OR push_bit 16 (ucast (seg_selector e)) OR push_bit 32 (ucast (reserved4 e)) OR
     push_bit 40 (ucast (reserved3 e)) OR push_bit 41 (ucast (reserved2 e)) OR push_bit 42 (ucast (reserved1 e)) OR
     push_bit 43 (ucast (gate_size e)) OR push_bit 44 (ucast (reserved0 e)) OR push_bit 45 (ucast (gate_dpl e)) OR
     push_bit 47 (ucast (gate_present e)) OR push_bit 48 (ucast (offset_31_16 e))"

record gate =
  g_offset :: u32
  g_selector :: u16
  g_type :: "4 word"
  g_dpl :: "2 word"
  g_present :: bool

definition read_gate :: "64 word \<Rightarrow> gate" where
  "read_gate w = \<lparr>g_offset = ucast (take_bit 16 w) OR push_bit 16 (ucast (drop_bit 48 w)), g_selector = ucast (drop_bit 16 w),
     g_type = ucast (drop_bit 40 w), g_dpl = ucast (drop_bit 45 w), g_present = bit w 47\<rparr>"

definition entry_offset :: "idt_desc \<Rightarrow> u32" where
  "entry_offset e = ucast (offset_15_00 e) OR push_bit 16 (ucast (offset_31_16 e))"

lemma bit_beyond: "LENGTH('w) \<le> n \<Longrightarrow> \<not> bit (w :: 'w::len word) n"
  using bit_imp_le_length [of w n] by auto

lemma bit_times_2: "bit (x * 2 :: 4 word) n \<longleftrightarrow> n \<noteq> 0 \<and> n < 4 \<and> bit x (n - 1)"
  using bit_double_iff [of x n] by (auto simp: mult.commute)

lemma gate_bits:
  "n < 16 \<Longrightarrow> bit (gate_word e) n = bit (offset_15_00 e) n" "n < 16 \<Longrightarrow> bit (gate_word e) (16 + n) = bit (seg_selector e) n"
  "n < 16 \<Longrightarrow> bit (gate_word e) (48 + n) = bit (offset_31_16 e) n" "n < 2 \<Longrightarrow> bit (gate_word e) (45 + n) = bit (gate_dpl e) n"
  "bit (gate_word e) 47 = bit (gate_present e) 0" "bit (gate_word e) 40 = bit (reserved3 e) 0" "bit (gate_word e) 41 = bit (reserved2 e) 0"
  "bit (gate_word e) 42 = bit (reserved1 e) 0" "bit (gate_word e) 43 = bit (gate_size e) 0"
  by (simp_all add: gate_word_def bit_simps bit_beyond)

lemma read_gate_word:
  "g_offset (read_gate (gate_word e)) = entry_offset e" "g_selector (read_gate (gate_word e)) = seg_selector e"
  "g_dpl (read_gate (gate_word e)) = gate_dpl e" "g_present (read_gate (gate_word e)) = bit (gate_present e) 0"
  "g_type (read_gate (gate_word e)) = ucast (reserved3 e) OR push_bit 1 (ucast (reserved2 e)) OR push_bit 2 (ucast (reserved1 e)) OR
     push_bit 3 (ucast (gate_size e))"
proof -
  show "g_offset (read_gate (gate_word e)) = entry_offset e"
  proof (rule bit_word_eqI)
    fix n assume "n < LENGTH(32)"
    then show "bit (g_offset (read_gate (gate_word e))) n = bit (entry_offset e) n"
      using gate_bits(1) [of n e] gate_bits(3) [of "n - 16" e]
      by (cases "n < 16") (simp_all add: read_gate_def entry_offset_def bit_simps bit_beyond)
  qed
  show "g_selector (read_gate (gate_word e)) = seg_selector e"
    by (rule bit_word_eqI) (simp add: read_gate_def bit_simps gate_bits)
  show "g_dpl (read_gate (gate_word e)) = gate_dpl e"
    by (rule bit_word_eqI) (simp add: read_gate_def bit_simps gate_bits)
  show "g_present (read_gate (gate_word e)) = bit (gate_present e) 0"
    by (simp add: read_gate_def gate_bits)
  show "g_type (read_gate (gate_word e)) = ucast (reserved3 e) OR push_bit 1 (ucast (reserved2 e)) OR push_bit 2 (ucast (reserved1 e)) OR
     push_bit 3 (ucast (gate_size e))"
  proof (rule bit_word_eqI)
    fix n assume "n < LENGTH(4)"
    then consider "n = 0" | "n = 1" | "n = 2" | "n = 3" by fastforce
    then show "bit (g_type (read_gate (gate_word e))) n \<longleftrightarrow> bit (ucast (reserved3 e) OR push_bit 1 (ucast (reserved2 e)) OR
       push_bit 2 (ucast (reserved1 e)) OR push_bit 3 (ucast (gate_size e)) :: 4 word) n"
      by cases (simp_all add: read_gate_def bit_simps gate_bits bit_beyond bit_times_2)
  qed
qed

section \<open>The table after IDT\_init\<close>

lemma init_gates_nth:
  "j < length idt \<Longrightarrow> init_gates k i idt ! j = (if i \<le> j \<and> j < i + k then init_gate j (idt ! j) else idt ! j)"
  by (induction k arbitrary: i idt) (auto simp: nth_list_update not_less_eq_eq)

lemma init_gates_length [simp]: "length (init_gates k i idt) = length idt"
  by (induction k arbitrary: i idt) simp_all

lemma set_entries_nth:
  "distinct vs \<Longrightarrow> j < length idt \<Longrightarrow>
     fold (\<lambda>i idt. idt[i := SET_IDT_ENTRY (f i) (idt ! i)]) vs idt ! j = (if j \<in> set vs then SET_IDT_ENTRY (f j) (idt ! j) else idt ! j)"
proof (induction vs arbitrary: idt)
  case (Cons a vs)
  then show ?case by (cases "a = j") (auto simp: nth_list_update)
qed simp

lemma SET_IDT_ENTRY_offset: "entry_offset (SET_IDT_ENTRY h e) = h"
proof (rule bit_word_eqI)
  fix n assume "n < LENGTH(32)"
  have m: "(0xFFFF :: u32) = mask 16" "(0xFFFF0000 :: u32) = NOT (mask 16)" by (simp_all add: mask_eq_exp_minus_1)
  show "bit (entry_offset (SET_IDT_ENTRY h e)) n = bit h n"
    unfolding entry_offset_def SET_IDT_ENTRY_def m
    using \<open>n < LENGTH(32)\<close> by (cases "n < 16") (auto simp: bit_simps bit_beyond)
qed

section \<open>The messages\<close>

text \<open>A text that can be printed: its literals are apart from the screen and from each other, and there are rows left.\<close>

definition printable_text :: "literals \<Rightarrow> u8 list \<Rightarrow> 'a console_scheme \<Rightarrow> bool" where
  "printable_text K str s \<longleftrightarrow> 0 \<notin> set str \<and> length str < 4000 \<and>
     apart [(lit_format K, 3), (lit_text K, Suc (length str)), (lit_args K, 4), (video, 4000)] \<and>
     unat (screen_x s) < 80 \<and> unat (screen_y s) + length (filter newline str) < 25"

definition with_text :: "literals \<Rightarrow> u8 list \<Rightarrow> 'a console_scheme \<Rightarrow> 'a console_scheme" where
  "with_text K str s =
     s\<lparr>mem := store32 (store_bytes (store_bytes (mem s) (lit_format K) (ascii ''%s'' @ [0])) (lit_text K) (str @ [0]))
        (lit_args K) (lit_text K)\<rparr>"

lemma store32_bytes: "store32 m a v = store_bytes m a [ucast v, ucast (drop_bit 8 v), ucast (drop_bit 16 v), ucast (drop_bit 24 v)]"
  by (simp add: store32_def add.assoc)

lemma bytes_store32_other: "region a 4 \<inter> region b n = {} \<Longrightarrow> bytes (store32 m a v) b n = bytes m b n"
  unfolding store32_bytes by (rule bytes_store_other) (simp add: eval_nat_numeral)

lemma fold_putc_outside:
  "unat (screen_x s) < 80 \<Longrightarrow> unat (screen_y s) + length (filter newline str) < 25 \<Longrightarrow> p \<notin> region video 4000 \<Longrightarrow>
     mem (fold putc str s) p = mem s p"
proof (induction str arbitrary: s)
  case (Cons c str)
  have on: "on_screen s" using Cons.prems by (auto simp: on_screen_def split: if_splits)
  have "mem (fold putc str (putc c s)) p = mem (putc c s) p"
    using putc_on_screen(1,2) [OF on, of c] Cons.prems by (intro Cons.IH) (auto split: if_splits)
  with putc_on_screen(3) [OF on] Cons.prems show ?case by simp
qed simp

lemma print_text_printable:
  assumes "printable_text K str s"
  shows "print_text K str s = Some (fold putc str (with_text K str s))"
proof -
  let ?f = "lit_format K" and ?t = "lit_text K" and ?a = "lit_args K" and ?s = "with_text K str s"
  note p = assms [unfolded printable_text_def]
  have d: "region ?f 3 \<inter> region ?t (Suc (length str)) = {}" "region ?f 3 \<inter> region ?a 4 = {}" "region ?f 3 \<inter> region video 4000 = {}"
    "region ?t (Suc (length str)) \<inter> region ?a 4 = {}" "region ?t (Suc (length str)) \<inter> region video 4000 = {}"
    using p by simp_all
  define F where "F = ascii ''%s'' @ [0]"
  have F: "length F = 3" "F = [37, 115, 0]" by (simp_all add: F_def ascii_def)
  have fmt: "bytes (mem ?s) ?f 3 = [37, 115, 0]"
  proof -
    have "bytes (mem ?s) ?f 3 = bytes (store_bytes (mem s) ?f F) ?f 3"
      unfolding with_text_def F_def [symmetric] using d(1,2) by (simp add: bytes_store32_other bytes_store_other Int_commute)
    also have "\<dots> = F" using bytes_store_bytes [of F "mem s" ?f] unfolding F(1) by simp
    finally show ?thesis unfolding F(2) .
  qed
  have "bytes (mem ?s) ?t (Suc (length str)) = str @ [0]"
  proof -
    let ?m = "store_bytes (mem s) ?f (ascii ''%s'' @ [0])"
    have "bytes (mem ?s) ?t (Suc (length str)) = bytes (store_bytes ?m ?t (str @ [0])) ?t (Suc (length str))"
      unfolding with_text_def using d(4) by (simp add: bytes_store32_other bytes_store_other Int_commute)
    also have "\<dots> = str @ [0]" using bytes_store_bytes [of "str @ [0]" ?m ?t] p by simp
    finally show ?thesis .
  qed
  then have "bytes (mem ?s) ?t (length str) @ [mem ?s (?t + of_nat (length str))] = str @ [0]"
    using bytes_append [of "mem ?s" ?t "length str" 1] by (simp add: bytes_Suc)
  then have "cstring (mem ?s) ?t str" using p by (simp add: cstring_def)
  then have print: "printable_at (?t + 0) str ?s" using p d(5) by (simp add: printable_at_def with_text_def)
  have arg: "load32 (mem ?s) ?a = ?t" by (simp add: with_text_def)
  define u where "u = fold putc str ?s"
  have chars: "mem ?s ?f = 37" "mem ?s (?f + 1) = 115" "mem ?s (?f + 2) = 0"
    using fmt by (simp_all add: bytes_def upt_rec)
  have "?f + 2 \<notin> region video 4000" using d(3) in_regionI [of 2 3 ?f] by auto
  then have stop: "mem u (?f + 2) = 0"
    unfolding u_def using p chars(3) by (subst fold_putc_outside) (simp_all add: with_text_def)
  have "format_char c False (?f + 1) ?a ?s = Some (?f + 1, ?a + 4, u)" for c
    using chars(2) puts_loop_plain [OF print] by (subst format_char.simps) (simp add: arg puts_def u_def Let_def)
  moreover have "printf_loop c (?f + 2) (?a + 4) u = Some (?f + 2, u)" for c
    using stop by (subst printf_loop.simps) simp
  ultimately have "printf_loop c ?f ?a ?s = Some (?f + 2, u)" for c
    using chars(1) by (subst printf_loop.simps) (simp add: add.assoc)
  then have "printf c ?f ?a ?s = Some (2, u)" for c by (simp add: printf_def)
  then show ?thesis by (simp add: print_text_def with_text_def [symmetric] Let_def u_def)
qed

lemma IDT_init_gate:
  assumes "length idt = 256" "i < 256"
  shows "read_gate (gate_word (IDT_init wrapper idt ! i)) =
    \<lparr>g_offset = (if i \<in> set handler_vectors then wrapper i else entry_offset (idt ! i)), g_selector = 0x10,
     g_type = (if i < 32 then 15 else 14), g_dpl = (if i = 0x80 then 3 else 0), g_present = True\<rparr>"
proof -
  let ?g = "init_gate i (idt ! i)"
  define e where "e = (if i = 0x80 then ?g\<lparr>gate_dpl := 3, reserved3 := 0\<rparr> else if i = 0x20 then ?g\<lparr>gate_present := 1\<rparr> else ?g)"
  have d: "distinct handler_vectors" by (simp add: handler_vectors_def)
  have run: "IDT_init wrapper idt ! i = (if i \<in> set handler_vectors then SET_IDT_ENTRY (wrapper i) e else e)"
    using assms set_entries_nth [OF d, of i] by (auto simp: IDT_init_def Let_def init_gates_nth nth_list_update e_def)
  have g: "entry_offset e = entry_offset (idt ! i)" "seg_selector e = 0x10" "gate_dpl e = (if i = 0x80 then 3 else 0)"
    "gate_present e = 1" "reserved3 e = (if i < 32 then 1 else 0)" "reserved2 e = 1" "reserved1 e = 1" "gate_size e = 1"
    by (simp_all add: e_def init_gate_def entry_offset_def Let_def)
  have s: "seg_selector (SET_IDT_ENTRY h x) = seg_selector x" "gate_dpl (SET_IDT_ENTRY h x) = gate_dpl x"
    "gate_present (SET_IDT_ENTRY h x) = gate_present x" "reserved3 (SET_IDT_ENTRY h x) = reserved3 x"
    "reserved2 (SET_IDT_ENTRY h x) = reserved2 x" "reserved1 (SET_IDT_ENTRY h x) = reserved1 x"
    "gate_size (SET_IDT_ENTRY h x) = gate_size x" for h x
    by (simp_all add: SET_IDT_ENTRY_def)
  show ?thesis
    by (rule gate.equality) (simp_all add: read_gate_word run SET_IDT_ENTRY_offset s g)
qed

section \<open>Properties\<close>

text \<open>
  C37: After \<^verbatim>\<open>IDT_init\<close> each of the 256 gates, read the way the processor reads it, is a present 32-bit
  gate of ring 0 into the kernel's code segment, a trap gate for the vectors below 32 and an interrupt gate
  from 32 on, except that ring 3 may use the system call gate 0x80.  The vectors with a wrapper lead to
  it; the others, present as well, keep the offset they had.
\<close>

theorem IDT_init_correct:
  assumes "length idt = 256" "i < 256"
  shows "read_gate (gate_word (IDT_init wrapper idt ! i)) =
    \<lparr>g_offset = (if i \<in> set handler_vectors then wrapper i else entry_offset (idt ! i)), g_selector = 0x10,
     g_type = (if i < 32 then 15 else 14), g_dpl = (if i = 0x80 then 3 else 0), g_present = True\<rparr>"
  using assms by (rule IDT_init_gate)

definition blank_idt :: "idt_desc list" where
  "blank_idt = replicate 256 \<lparr>offset_15_00 = 0, seg_selector = 0, reserved4 = 0, reserved3 = 0, reserved2 = 0, reserved1 = 0,
     gate_size = 0, reserved0 = 0, gate_dpl = 0, gate_present = 0, offset_31_16 = 0\<rparr>"

theorem IDT_init_correct_witness:
  "g_dpl (read_gate (gate_word (IDT_init (\<lambda>i. 0x401000 + of_nat i) blank_idt ! 0x80))) = 3 \<and>
   g_offset (read_gate (gate_word (IDT_init (\<lambda>i. 0x401000 + of_nat i) blank_idt ! 0x27))) = 0"
  using IDT_init_correct [of blank_idt "0x80" "\<lambda>i. 0x401000 + of_nat i"] IDT_init_correct [of blank_idt "0x27" "\<lambda>i. 0x401000 + of_nat i"]
  by (simp add: blank_idt_def handler_vectors_def entry_offset_def)

end
