(* ===== verification/Boot.thy ===== *)
theory Boot
  imports IDT Open_Files
begin

text \<open>
  \<^verbatim>\<open>kernel.c\<close>: the entry point.  It prints what the boot loader passed, fills the two segment
  descriptors, initializes the devices and starts the terminals.  The state is that of the processes with the
  descriptor tables and the registers that point to them; the addresses \<^verbatim>\<open>ldt\<close> and \<^verbatim>\<open>tss\<close> of \<^verbatim>\<open>x86_desc.S\<close> are
  fields, their sizes the constants of that file.
\<close>

section \<open>x86\_desc.h: segment descriptors\<close>

record seg_desc =
  seg_lim_15_00 :: u16
  base_15_00 :: u16
  base_23_16 :: u8
  seg_type :: "4 word"
  seg_sys :: "1 word"
  seg_dpl :: "2 word"
  seg_present :: "1 word"
  seg_lim_19_16 :: "4 word"
  seg_avail :: "1 word"
  seg_reserved :: "1 word"
  seg_opsize :: "1 word"
  seg_granularity :: "1 word"
  base_31_24 :: u8

text \<open>\<^verbatim>\<open>SET_LDT_PARAMS\<close> and \<^verbatim>\<open>SET_TSS_PARAMS\<close> have the same body.\<close>

definition set_params :: "u32 \<Rightarrow> u32 \<Rightarrow> seg_desc \<Rightarrow> seg_desc" where
  "set_params addr lim e =
     e\<lparr>base_31_24 := ucast (drop_bit 24 (addr AND 0xFF000000)), base_23_16 := ucast (drop_bit 16 (addr AND 0x00FF0000)),
       base_15_00 := ucast (addr AND 0x0000FFFF), seg_lim_19_16 := ucast (drop_bit 16 (lim AND 0x000F0000)),
       seg_lim_15_00 := ucast (lim AND 0x0000FFFF)\<rparr>"

record system = kernel +
  idt :: "idt_desc list"
  ldt_desc_ptr :: seg_desc
  tss_desc_ptr :: seg_desc
  ldt_at :: u32
  tss_at :: u32
  tss_ldt_selector :: u16
  tss_ss0 :: u16
  ldtr :: u16
  task_register :: u16
  bootloaded :: u32

section \<open>kernel.c: what the boot loader passed\<close>

text \<open>A call of \<^verbatim>\<open>printf\<close>: the literal and the pushed arguments are in memory when it runs.\<close>

fun store_words :: "memory \<Rightarrow> u32 \<Rightarrow> u32 list \<Rightarrow> memory" where
  "store_words m a [] = m"
| "store_words m a (w # ws) = store_words (store32 m a w) (a + 4) ws"

definition print_msg :: "literals \<Rightarrow> string \<Rightarrow> u32 list \<Rightarrow> 'a console_scheme \<Rightarrow> 'a console_scheme option" where
  "print_msg K fmt args s =
     (let m = store_words (store_bytes (mem s) (lit_format K) (ascii fmt @ [0])) (lit_args K) args
      in map_option snd (printf (lit_conv K) (lit_format K) (lit_args K) (s\<lparr>mem := m\<rparr>)))"

text \<open>\<^verbatim>\<open>CHECK_FLAG\<close>\<close>

definition CHECK_FLAG :: "u32 \<Rightarrow> nat \<Rightarrow> bool" where
  "CHECK_FLAG flags n \<longleftrightarrow> flags AND push_bit n 1 \<noteq> 0"

text \<open>The loop over the 16 bytes of a module, which are signed characters, and the one over the modules.\<close>

fun print_bytes :: "literals \<Rightarrow> nat \<Rightarrow> u32 \<Rightarrow> 'a console_scheme \<Rightarrow> 'a console_scheme option" where
  "print_bytes K 0 p s = Some s"
| "print_bytes K (Suc k) p s = Option.bind (print_msg K ''0x%x '' [scast (mem s p)] s) (print_bytes K k (p + 1))"

partial_function (option) print_modules ::
  "literals \<Rightarrow> u32 \<Rightarrow> u32 \<Rightarrow> u32 \<Rightarrow> 'a console_scheme \<Rightarrow> 'a console_scheme option" where
  "print_modules K mbi mod_count md s =
     (if mod_count < load32 (mem s) (mbi + 20)
      then do {
        s \<leftarrow> print_msg K (''Module %d loaded at address: 0x%#x'' @ [CHR 0x0A]) [mod_count, load32 (mem s) md] s;
        s \<leftarrow> print_msg K (''Module %d ends at address: 0x%#x'' @ [CHR 0x0A]) [mod_count, load32 (mem s) (md + 4)] s;
        s \<leftarrow> print_msg K (''First few bytes of module:'' @ [CHR 0x0A]) [] s;
        s \<leftarrow> print_bytes K 16 (load32 (mem s) md) s;
        s \<leftarrow> print_msg K [CHR 0x0A] [] s;
        print_modules K mbi (mod_count + 1) (md + 16) s
      }
      else Some s)"

partial_function (option) print_mmap :: "literals \<Rightarrow> u32 \<Rightarrow> u32 \<Rightarrow> 'a console_scheme \<Rightarrow> 'a console_scheme option" where
  "print_mmap K mbi mm s =
     (if mm < load32 (mem s) (mbi + 48) + load32 (mem s) (mbi + 44)
      then do {
        s \<leftarrow> print_msg K ('' size = 0x%x,     base_addr = 0x%#x%#x'' @ [CHR 0x0A] @ ''     type = 0x%x,  length    = 0x%#x%#x'' @ [CHR 0x0A])
               [load32 (mem s) mm, load32 (mem s) (mm + 8), load32 (mem s) (mm + 4), load32 (mem s) (mm + 20),
                load32 (mem s) (mm + 16), load32 (mem s) (mm + 12)] s;
        print_mmap K mbi (mm + load32 (mem s) mm + 4) s
      }
      else Some s)"

text \<open>A message that is printed when a bit of the flags is set.\<close>

definition print_if :: "literals \<Rightarrow> u32 \<Rightarrow> nat \<Rightarrow> string \<Rightarrow> u32 list \<Rightarrow> 'a console_scheme \<Rightarrow> 'a console_scheme option" where
  "print_if K mbi n fmt offsets s =
     (if CHECK_FLAG (load32 (mem s) mbi) n then print_msg K fmt (map (\<lambda>d. load32 (mem s) (mbi + d)) offsets) s else Some s)"

text \<open>Up to the check of bits 4 and 5: the first component tells whether the entry goes on.\<close>

definition read_multiboot :: "literals \<Rightarrow> u32 \<Rightarrow> 'a system_scheme \<Rightarrow> (bool \<times> 'a system_scheme) option" where
  "read_multiboot K mbi s =
     do {
       s \<leftarrow> print_msg K (''flags = 0x%#x'' @ [CHR 0x0A]) [load32 (mem s) mbi] s;
       s \<leftarrow> print_if K mbi 0 (''mem_lower = %uKB, mem_upper = %uKB'' @ [CHR 0x0A]) [4, 8] s;
       s \<leftarrow> print_if K mbi 1 (''boot_device = 0x%#x'' @ [CHR 0x0A]) [12] s;
       s \<leftarrow> print_if K mbi 2 (''cmdline = %s'' @ [CHR 0x0A]) [16] s;
       s \<leftarrow> (if CHECK_FLAG (load32 (mem s) mbi) 3
             then let md = load32 (mem s) (mbi + 24) in print_modules K mbi 0 md (s\<lparr>bootloaded := load32 (mem s) md\<rparr>)
             else Some s);
       if CHECK_FLAG (load32 (mem s) mbi) 4 \<and> CHECK_FLAG (load32 (mem s) mbi) 5
       then map_option (Pair False) (print_msg K (''Both bits 4 and 5 are set.'' @ [CHR 0x0A]) [] s)
       else do {
         s \<leftarrow> print_if K mbi 5 (''elf_sec: num = %u, size = 0x%#x, addr = 0x%#x, shndx = 0x%#x'' @ [CHR 0x0A]) [28, 32, 36, 40] s;
         s \<leftarrow> (if CHECK_FLAG (load32 (mem s) mbi) 6
               then Option.bind (print_msg K (''mmap_addr = 0x%#x, mmap_length = 0x%x'' @ [CHR 0x0A])
                                  [load32 (mem s) (mbi + 48), load32 (mem s) (mbi + 44)] s)
                      (\<lambda>s. print_mmap K mbi (load32 (mem s) (mbi + 48)) s)
               else Some s);
         Some (True, s)
       }
     }"

section \<open>kernel.c: initialization\<close>

definition load_descriptors :: "'a system_scheme \<Rightarrow> 'a system_scheme" where
  "load_descriptors s =
     (let the_ldt_desc = (ldt_desc_ptr s)\<lparr>seg_granularity := 0, seg_opsize := 1, seg_reserved := 0, seg_avail := 0,
            seg_present := 1, seg_dpl := 0, seg_sys := 0, seg_type := 2\<rparr>;
          s = s\<lparr>ldt_desc_ptr := set_params (ldt_at s) 31 the_ldt_desc, ldtr := 0x38\<rparr>;
          the_tss_desc = (tss_desc_ptr s)\<lparr>seg_granularity := 0, seg_opsize := 0, seg_reserved := 0, seg_avail := 0,
            seg_lim_19_16 := ucast (104 AND 0x000F0000 :: u32), seg_present := 1, seg_dpl := 0, seg_sys := 0, seg_type := 9,
            seg_lim_15_00 := ucast (104 AND 0x0000FFFF :: u32)\<rparr>
      in s\<lparr>tss_desc_ptr := set_params (tss_at s) 103 the_tss_desc, tss_ldt_selector := 0x38, tss_ss0 := 0x18,
           esp0 := 0x800000, task_register := 0x30\<rparr>)"

text \<open>From \<^verbatim>\<open>i8259_init\<close> to \<^verbatim>\<open>PIT_init\<close>; \<open>wrapper\<close> gives the addresses of the wrappers, \<open>conv\<close> and \<open>msg\<close> are those of \<^verbatim>\<open>PIT_init\<close>.\<close>

definition init_kernel ::
  "device \<Rightarrow> (nat \<Rightarrow> u32) \<Rightarrow> (u8 \<Rightarrow> u32) \<Rightarrow> u32 \<Rightarrow> 'a system_scheme \<Rightarrow> 'a system_scheme option" where
  "init_kernel dev wrapper conv msg s =
     (let s = i8259_init s;
          s = s\<lparr>idt := IDT_init wrapper (idt s)\<rparr>;
          s = init_paging s;
          s = RTC_init dev s;
          s = clear s;
          s = enable_irq dev 2 s;
          s = enable_irq dev 8 s;
          s = enable_irq dev 1 s;
          s = init_cursor_c s;
          s = sti s;
          s = initialize_boot (bootloaded s) s;
          s = init_PCB_array s
      in PIT_init dev conv msg 10 s)"

definition start_terminals ::
  "exec_locals \<Rightarrow> u32 \<Rightarrow> u32 \<Rightarrow> u32 \<Rightarrow> 'a kernel_scheme \<Rightarrow> 'a kernel_scheme transfer option" where
  "start_terminals L esp_save ebp_save execute_command s =
     Option.bind (multi_terminal_init L esp_save ebp_save execute_command 2 s) (\<lambda>r. case r of
       Returned _ s \<Rightarrow> Option.bind (multi_terminal_init L esp_save ebp_save execute_command 1 s) (\<lambda>r. case r of
         Returned _ s \<Rightarrow> multi_terminal_init L esp_save ebp_save execute_command 0 s
       | r \<Rightarrow> Some r)
     | r \<Rightarrow> Some r)"

text \<open>The entry; \<open>Returned\<close> stands for its early returns and for the loop of \<^verbatim>\<open>hlt\<close> at its end.\<close>

definition entry ::
  "literals \<Rightarrow> exec_locals \<Rightarrow> u32 \<Rightarrow> u32 \<Rightarrow> u32 \<Rightarrow> device \<Rightarrow> (nat \<Rightarrow> u32) \<Rightarrow> u32 \<Rightarrow> u32 \<Rightarrow> 'a system_scheme \<Rightarrow>
     'a system_scheme transfer option" where
  "entry K L esp_save ebp_save execute_command dev wrapper magic addr s =
     (let s = clear s
      in if magic \<noteq> 0x2BADB002
         then map_option (Returned 0) (print_msg K (''Invalid magic number: 0x%#x'' @ [CHR 0x0A]) [magic] s)
         else do {
           (go, s) \<leftarrow> read_multiboot K addr s;
           if \<not> go then Some (Returned 0 s)
           else do {
             s \<leftarrow> init_kernel dev wrapper (lit_conv K) (lit_format K) (load_descriptors s);
             start_terminals L esp_save ebp_save execute_command s
           }
         })"

section \<open>Frames\<close>

lemma i8259_fields [simp]:
  "PCB_array (i8259_init s) = PCB_array s" "idt (i8259_init s) = idt s" "page_directory (i8259_init s) = page_directory s"
  "page_table (i8259_init s) = page_table s" "page_table_vidmap (i8259_init s) = page_table_vidmap s" "page_table_terminals (i8259_init s) = page_table_terminals s"
  "page_table_at (i8259_init s) = page_table_at s" "page_table_vidmap_at (i8259_init s) = page_table_vidmap_at s" "page_table_terminals_at (i8259_init s) = page_table_terminals_at s"
  "bootloaded (i8259_init s) = bootloaded s" "current_process_ID (i8259_init s) = current_process_ID s" "parent_process_ID (i8259_init s) = parent_process_ID s"
  "three_term_buf (i8259_init s) = three_term_buf s"
  by (simp_all add: i8259_init_def outb_def Let_def)

lemma RTC_fields [simp]:
  "PCB_array (RTC_init dev s) = PCB_array s" "idt (RTC_init dev s) = idt s" "page_directory (RTC_init dev s) = page_directory s"
  "page_table (RTC_init dev s) = page_table s" "page_table_vidmap (RTC_init dev s) = page_table_vidmap s" "page_table_terminals (RTC_init dev s) = page_table_terminals s"
  "page_table_at (RTC_init dev s) = page_table_at s" "page_table_vidmap_at (RTC_init dev s) = page_table_vidmap_at s" "page_table_terminals_at (RTC_init dev s) = page_table_terminals_at s"
  "bootloaded (RTC_init dev s) = bootloaded s" "current_process_ID (RTC_init dev s) = current_process_ID s" "parent_process_ID (RTC_init dev s) = parent_process_ID s"
  "three_term_buf (RTC_init dev s) = three_term_buf s"
  by (simp_all add: RTC_init_def outb_def inb_def Let_def)

lemma cursor_fields [simp]:
  "PCB_array (init_cursor_c s) = PCB_array s" "idt (init_cursor_c s) = idt s" "page_directory (init_cursor_c s) = page_directory s"
  "page_table (init_cursor_c s) = page_table s" "page_table_vidmap (init_cursor_c s) = page_table_vidmap s" "page_table_terminals (init_cursor_c s) = page_table_terminals s"
  "page_table_at (init_cursor_c s) = page_table_at s" "page_table_vidmap_at (init_cursor_c s) = page_table_vidmap_at s" "page_table_terminals_at (init_cursor_c s) = page_table_terminals_at s"
  "bootloaded (init_cursor_c s) = bootloaded s" "current_process_ID (init_cursor_c s) = current_process_ID s" "parent_process_ID (init_cursor_c s) = parent_process_ID s"
  "three_term_buf (init_cursor_c s) = three_term_buf s"
  by (simp_all add: init_cursor_c_def fb_move_cursor_def outb_def Let_def)

lemma enable_fields [simp]:
  "PCB_array (enable_irq dev n s) = PCB_array s" "idt (enable_irq dev n s) = idt s" "page_directory (enable_irq dev n s) = page_directory s"
  "page_table (enable_irq dev n s) = page_table s" "page_table_vidmap (enable_irq dev n s) = page_table_vidmap s" "page_table_terminals (enable_irq dev n s) = page_table_terminals s"
  "page_table_at (enable_irq dev n s) = page_table_at s" "page_table_vidmap_at (enable_irq dev n s) = page_table_vidmap_at s" "page_table_terminals_at (enable_irq dev n s) = page_table_terminals_at s"
  "bootloaded (enable_irq dev n s) = bootloaded s" "current_process_ID (enable_irq dev n s) = current_process_ID s" "parent_process_ID (enable_irq dev n s) = parent_process_ID s"
  "three_term_buf (enable_irq dev n s) = three_term_buf s"
  by (simp_all add: enable_irq_def outb_def inb_def Let_def)

lemma clear_fields [simp]:
  "PCB_array (clear s) = PCB_array s" "idt (clear s) = idt s" "page_directory (clear s) = page_directory s"
  "page_table (clear s) = page_table s" "page_table_vidmap (clear s) = page_table_vidmap s" "page_table_terminals (clear s) = page_table_terminals s"
  "page_table_at (clear s) = page_table_at s" "page_table_vidmap_at (clear s) = page_table_vidmap_at s" "page_table_terminals_at (clear s) = page_table_terminals_at s"
  "bootloaded (clear s) = bootloaded s" "current_process_ID (clear s) = current_process_ID s" "parent_process_ID (clear s) = parent_process_ID s"
  "three_term_buf (clear s) = three_term_buf s" "port_log (clear s) = port_log s"
  by (simp_all add: clear_def)

lemma paging_fields [simp]:
  "PCB_array (init_paging s) = PCB_array s" "idt (init_paging s) = idt s" "page_table_vidmap (init_paging s) = page_table_vidmap s"
  "page_table_terminals (init_paging s) = page_table_terminals s" "page_table_at (init_paging s) = page_table_at s" "page_table_vidmap_at (init_paging s) = page_table_vidmap_at s"
  "page_table_terminals_at (init_paging s) = page_table_terminals_at s" "bootloaded (init_paging s) = bootloaded s" "current_process_ID (init_paging s) = current_process_ID s"
  "parent_process_ID (init_paging s) = parent_process_ID s" "three_term_buf (init_paging s) = three_term_buf s" "port_log (init_paging s) = port_log s"
  "mem (init_paging s) = mem s"
  by (subst init_paging_frame; simp)+

lemma pic_quiet:
  "pics_ready p q (port_log s) \<Longrightarrow> pics_ready p q (port_log (RTC_init dev s)) \<and> pics_ready p q (port_log (init_cursor_c s))"
  "masked p q (port_log (RTC_init dev s)) j = masked p q (port_log s) j"
  "masked p q (port_log (init_cursor_c s)) j = masked p q (port_log s) j"
  by (auto simp: RTC_init_def init_cursor_c_def fb_move_cursor_def outb_def inb_def Let_def pics_ready_def masked_def)

lemma init_masked: "j < 16 \<Longrightarrow> masked p q (port_log (i8259_init s)) j"
  by (auto simp: masked_def init_chips less_Suc_eq numeral_nat bit_simps)

lemma translate_tables:
  assumes "page_directory t = page_directory s" "table_at t = table_at s"
  shows "translate acc t v = translate acc s v"
  by (simp add: translate_def assms Let_def)

section \<open>The steps of the entry\<close>

text \<open>The state with the tables set up and the screen cleared, and the one in which the timer is programmed.\<close>

definition tables_loaded :: "device \<Rightarrow> (nat \<Rightarrow> u32) \<Rightarrow> 'a system_scheme \<Rightarrow> 'a system_scheme" where
  "tables_loaded dev wrapper s =
     (let s = i8259_init s in clear (RTC_init dev (init_paging (s\<lparr>idt := IDT_init wrapper (idt s)\<rparr>))))"

definition lines_enabled :: "device \<Rightarrow> 'a system_scheme \<Rightarrow> 'a system_scheme" where
  "lines_enabled dev s = enable_irq dev 1 (enable_irq dev 8 (enable_irq dev 2 s))"

definition before_timer :: "device \<Rightarrow> (nat \<Rightarrow> u32) \<Rightarrow> 'a system_scheme \<Rightarrow> 'a system_scheme" where
  "before_timer dev wrapper s =
     (let s = lines_enabled dev (tables_loaded dev wrapper s)
      in init_PCB_array (initialize_boot (bootloaded s) (sti (init_cursor_c s))))"

lemma init_kernel_steps: "init_kernel dev wrapper conv msg s = PIT_init dev conv msg 10 (before_timer dev wrapper s)"
  by (simp add: init_kernel_def before_timer_def lines_enabled_def tables_loaded_def Let_def sti_def)

lemma lines_enabled_masks:
  assumes dev: "pic_answers p q dev" and ready: "pics_ready p q (port_log s)" and all: "\<And>j. j < 16 \<Longrightarrow> masked p q (port_log s) j"
  shows "pics_ready p q (port_log (lines_enabled dev s))" "j < 16 \<Longrightarrow> masked p q (port_log (lines_enabled dev s)) j \<longleftrightarrow> j \<notin> {1, 2, 8}"
proof -
  let ?s2 = "enable_irq dev 2 s" and ?s8 = "enable_irq dev 8 (enable_irq dev 2 s)"
  have r2: "pics_ready p q (port_log ?s2)" by (rule irq_ready [OF ready])
  have r8: "pics_ready p q (port_log ?s8)" by (rule irq_ready [OF r2])
  show "pics_ready p q (port_log (lines_enabled dev s))" unfolding lines_enabled_def by (rule irq_ready [OF r8])
  show "masked p q (port_log (lines_enabled dev s)) j \<longleftrightarrow> j \<notin> {1, 2, 8}" if "j < 16"
    using masked_enable [OF dev ready, of 2 j] masked_enable [OF dev r2, of 8 j] masked_enable [OF dev r8, of 1 j] all that
    by (auto simp: lines_enabled_def)
qed

lemma before_timer_masks:
  assumes dev: "pic_answers p q dev"
  shows "pics_ready p q (port_log (before_timer dev wrapper s))"
    "j < 16 \<Longrightarrow> masked p q (port_log (before_timer dev wrapper s)) j \<longleftrightarrow> j \<notin> {1, 2, 8}"
proof -
  let ?t = "tables_loaded dev wrapper s"
  have "pics_ready p q (port_log ?t)"
    using pic_quiet(1) [of p q "init_paging (i8259_init s\<lparr>idt := IDT_init wrapper (idt (i8259_init s))\<rparr>)" dev]
    by (simp add: tables_loaded_def Let_def init_ready)
  moreover have "masked p q (port_log ?t) j" if "j < 16" for j
    using init_masked [OF that] by (simp add: tables_loaded_def Let_def pic_quiet)
  ultimately have m: "pics_ready p q (port_log (lines_enabled dev ?t))"
    "j < 16 \<Longrightarrow> masked p q (port_log (lines_enabled dev ?t)) j \<longleftrightarrow> j \<notin> {1, 2, 8}"
    using lines_enabled_masks [OF dev] by blast+
  have log: "port_log (before_timer dev wrapper s) = port_log (init_cursor_c (lines_enabled dev ?t))"
    by (simp add: before_timer_def Let_def init_PCB_array_def initialize_boot_def sti_def)
  show "pics_ready p q (port_log (before_timer dev wrapper s))" using pic_quiet(1) [OF m(1)] by (simp add: log)
  show "j < 16 \<Longrightarrow> masked p q (port_log (before_timer dev wrapper s)) j \<longleftrightarrow> j \<notin> {1, 2, 8}" using m(2) by (simp add: log pic_quiet)
qed

lemmas step_defs = before_timer_def lines_enabled_def tables_loaded_def Let_def init_PCB_array_def initialize_boot_def sti_def

lemma before_timer_fields:
  "eflags_if (before_timer dev wrapper s)" "idt (before_timer dev wrapper s) = IDT_init wrapper (idt s)"
  "bootmebb (before_timer dev wrapper s) = bootloaded s"
  "PCB_array (before_timer dev wrapper s) = map (\<lambda>p. p\<lparr>pcb_flag := 0, isActive := 0, terminalNumber := -1\<rparr>) (PCB_array s)"
  "current_process_ID (before_timer dev wrapper s) = current_process_ID s"
  "parent_process_ID (before_timer dev wrapper s) = parent_process_ID s"
  by (simp_all add: step_defs)

lemma before_timer_screen: "screen_bytes (mem (before_timer dev wrapper s)) = concat (replicate 2000 [32, 7])"
proof -
  have "mem (before_timer dev wrapper s) = mem (tables_loaded dev wrapper s)"
    by (simp add: before_timer_def lines_enabled_def Let_def init_PCB_array_def initialize_boot_def sti_def
        init_cursor_c_def fb_move_cursor_def outb_def)
  then show ?thesis
    using bytes_store_bytes [of "concat (replicate 2000 [32, 7])" _ video]
    by (simp add: tables_loaded_def Let_def screen_bytes_def clear_store)
qed

lemma before_timer_walk:
  assumes "tables_wf s"
  shows "translate Kernel_Access (before_timer dev wrapper s) v = (if drop_bit 12 v = 0xB8 \<or> drop_bit 22 v = 1 then Some v else None)"
proof -
  let ?s = "i8259_init s\<lparr>idt := IDT_init wrapper (idt (i8259_init s))\<rparr>"
  have "tables_wf ?s" using assms by (simp add: tables_wf_def)
  moreover have "translate Kernel_Access (before_timer dev wrapper s) v = translate Kernel_Access (init_paging ?s) v"
    by (rule translate_tables) (simp_all add: step_defs table_at_def fun_eq_iff)
  ultimately show ?thesis using init_paging_walk [of ?s v] by simp
qed

section \<open>Properties\<close>

text \<open>
  C13: The initialization of the entry succeeds and leaves the kernel ready: exactly the lines of the
  timer, the keyboard, the cascade and the clock are unmasked, interrupts are on, every vector with a wrapper
  leads to it, only the frame buffer and the kernel translate, the screen is blank, the file system is where
  the boot loader put it, and each of the six process blocks is free, inactive and without a terminal, and
  otherwise as it was.
\<close>

theorem boot_ready:
  assumes dev: "pic_answers p q dev" and wf: "tables_wf s" and pcbs: "length (PCB_array s) = 6" and len: "length (idt s) = 256"
  shows "\<exists>t. init_kernel dev wrapper conv msg s = Some t \<and>
    (\<forall>j < 16. masked p q (port_log t) j \<longleftrightarrow> j \<notin> {0, 1, 2, 8}) \<and> eflags_if t \<and>
    (\<forall>i \<in> set handler_vectors. g_offset (read_gate (gate_word (idt t ! i))) = wrapper i) \<and>
    (\<forall>v. translate Kernel_Access t v = (if drop_bit 12 v = 0xB8 \<or> drop_bit 22 v = 1 then Some v else None)) \<and>
    screen_bytes (mem t) = concat (replicate 2000 [32, 7]) \<and> bootmebb t = bootloaded s \<and>
    length (PCB_array t) = 6 \<and>
    (\<forall>j < 6. PCB_array t ! j = (PCB_array s ! j)\<lparr>pcb_flag := 0, isActive := 0, terminalNumber := 255\<rparr>)"
proof -
  let ?s = "before_timer dev wrapper s"
  have f: "10 \<le> (10 :: u32)" "10 \<le> (50 :: u32)" by simp_all
  obtain l where l: "PIT_init dev conv msg 10 ?s = Some (?s\<lparr>port_log := l\<rparr>)"
    and ml: "\<And>j. j < 16 \<Longrightarrow> masked p q l j \<longleftrightarrow> masked p q (port_log ?s) j \<and> j \<noteq> 0"
    by (rule PIT_init_effect [OF dev before_timer_masks(1) [OF dev] f, of conv msg]) blast
  define t where "t = ?s\<lparr>port_log := l\<rparr>"
  note fields = before_timer_fields [of dev wrapper s]
  have "init_kernel dev wrapper conv msg s = Some t" by (simp add: init_kernel_steps l t_def)
  moreover have "masked p q (port_log t) j \<longleftrightarrow> j \<notin> {0, 1, 2, 8}" if "j < 16" for j
    using ml [OF that] before_timer_masks(2) [OF dev that] by (auto simp: t_def)
  moreover have "g_offset (read_gate (gate_word (idt t ! i))) = wrapper i" if "i \<in> set handler_vectors" for i
  proof -
    have "i < 256" using that by (auto simp: handler_vectors_def)
    then show ?thesis using IDT_init_gate [OF len, of i wrapper] that by (simp add: t_def fields)
  qed
  moreover have "translate Kernel_Access t v = (if drop_bit 12 v = 0xB8 \<or> drop_bit 22 v = 1 then Some v else None)" for v
    unfolding before_timer_walk [OF wf, of dev wrapper, symmetric] by (rule translate_tables) (simp_all add: t_def table_at_def fun_eq_iff)
  moreover have "screen_bytes (mem t) = concat (replicate 2000 [32, 7])" by (simp add: t_def before_timer_screen)
  moreover have "length (PCB_array t) = 6" using pcbs by (simp add: t_def fields)
  moreover have "PCB_array t ! j = (PCB_array s ! j)\<lparr>pcb_flag := 0, isActive := 0, terminalNumber := 255\<rparr>" if "j < 6" for j
    using pcbs that by (simp add: t_def fields)
  moreover have "eflags_if t" "bootmebb t = bootloaded s" by (simp_all add: t_def fields)
  ultimately show ?thesis by blast
qed

definition boot_system :: system where
  "boot_system = kernel.extend shell_kernel
     (system.fields blank_idt
        \<lparr>seg_lim_15_00 = 0, base_15_00 = 0, base_23_16 = 0, seg_type = 0, seg_sys = 0, seg_dpl = 0, seg_present = 0,
         seg_lim_19_16 = 0, seg_avail = 0, seg_reserved = 0, seg_opsize = 0, seg_granularity = 0, base_31_24 = 0\<rparr>
        \<lparr>seg_lim_15_00 = 0, base_15_00 = 0, base_23_16 = 0, seg_type = 0, seg_sys = 0, seg_dpl = 0, seg_present = 0,
         seg_lim_19_16 = 0, seg_avail = 0, seg_reserved = 0, seg_opsize = 0, seg_granularity = 0, base_31_24 = 0\<rparr>
        0x430000 0x440000 0 0 0 0 0x500000)"

theorem boot_ready_witness:
  "\<exists>t. init_kernel (pic_device reset_pic reset_pic) (\<lambda>i. 0x401000 + of_nat i) (\<lambda>_. 0) 0 boot_system = Some t \<and>
     \<not> masked reset_pic reset_pic (port_log t) 1 \<and> bootmebb t = 0x500000 \<and>
     PCB_array t ! 0 = blank_PCB\<lparr>pcb_flag := 0, parent_PCB := Some 0, isActive := 0, terminalNumber := 255\<rparr>"
proof -
  have "tables_wf boot_system"
    by (simp add: boot_system_def kernel.defs system.defs shell_kernel_def reset_kernel_def tables_wf_def reset_paging_def paging.defs keyboard.defs)
  moreover have pcbs: "length (PCB_array boot_system) = 6"
    "PCB_array boot_system ! 0 = blank_PCB\<lparr>pcb_flag := 1, parent_PCB := Some 0, isActive := 1, terminalNumber := 0\<rparr>"
    by (simp_all add: boot_system_def kernel.defs system.defs shell_kernel_def)
  moreover have "length (idt boot_system) = 256" "bootloaded boot_system = 0x500000"
    by (simp_all add: boot_system_def kernel.defs system.defs blank_idt_def)
  ultimately show ?thesis
    using boot_ready [OF pic_device_answers [of reset_pic reset_pic], of boot_system "\<lambda>i. 0x401000 + of_nat i" "\<lambda>_. 0" 0] by fastforce
qed

end
