(* ===== verification/User_Lib.thy ===== *)
theory User_Lib
  imports Boot Arguments Read_File
begin

text \<open>
  The library of the user programs, \<^verbatim>\<open>ece391support.c\<close>, and the interface through which a program calls
  the kernel.  The interface is a record of the ten calls, with the program's view of memory; the programs are
  defined for any such record, and \<open>kernel_calls\<close> is the one of this kernel.  The stubs of
  \<^verbatim>\<open>ece391syscall.S\<close> and the dispatcher of \<^verbatim>\<open>wrapper.S\<close> only pass the arguments on.
\<close>

section \<open>ece391support.c\<close>

partial_function (option) ece391_strlen_loop :: "memory \<Rightarrow> u32 \<Rightarrow> u32 \<Rightarrow> u32 option" where
  "ece391_strlen_loop m s len = (if 0 \<noteq> m s then ece391_strlen_loop m (s + 1) (len + 1) else Some len)"

definition ece391_strlen :: "memory \<Rightarrow> u32 \<Rightarrow> u32 option" where
  "ece391_strlen m s = ece391_strlen_loop m s 0"

partial_function (option) ece391_strcpy :: "memory \<Rightarrow> u32 \<Rightarrow> u32 \<Rightarrow> memory option" where
  "ece391_strcpy m dst src =
     (let c = m src; m = m(dst := c) in if 0 \<noteq> c then ece391_strcpy m (dst + 1) (src + 1) else Some m)"

partial_function (option) ece391_strcmp :: "memory \<Rightarrow> u32 \<Rightarrow> u32 \<Rightarrow> i32 option" where
  "ece391_strcmp m s1 s2 =
     (if m s1 = m s2 then if m s1 = 0 then Some 0 else ece391_strcmp m (s1 + 1) (s2 + 1)
      else Some (ucast (m s1) - ucast (m s2)))"

text \<open>The check of \<open>n\<close> at the start is repeated in each round, where it never holds.\<close>

function ece391_strncmp :: "memory \<Rightarrow> u32 \<Rightarrow> u32 \<Rightarrow> u32 \<Rightarrow> i32" where
  "ece391_strncmp m s1 s2 n =
     (if n = 0 then 0
      else if m s1 = m s2
      then if m s1 = 0 \<or> n - 1 = 0 then 0 else ece391_strncmp m (s1 + 1) (s2 + 1) (n - 1)
      else ucast (m s1) - ucast (m s2))"
  by pat_completeness auto
termination
  by (relation "measure (\<lambda>(m, s1, s2, n). unat n)") (auto simp: unat_u32_minus_1 unat_gt_0)

declare ece391_strncmp.simps [simp del]

text \<open>Between the ends nothing overflows, when two signed indices move towards each other.\<close>

lemma sint_between:
  fixes a b :: i32
  assumes "sint a < sint b"
  shows "sint (a + 1) = sint a + 1" "sint (b - 1) = sint b - 1"
proof -
  have w: "sint (word_of_int i :: i32) = i" if "- 2147483648 \<le> i" "i < 2147483648" for i
    using that by (simp add: signed_of_int signed_take_bit_int_eq_self)
  have "- 2147483648 \<le> sint a" "sint b < 2147483648" "- 2147483648 \<le> sint b" "sint a < 2147483648"
    using sint_ge [of a] sint_lt [of b] sint_ge [of b] sint_lt [of a] by simp_all
  moreover have "a + 1 = word_of_int (sint a + 1)" "b - 1 = word_of_int (sint b - 1)" by simp_all
  ultimately show "sint (a + 1) = sint a + 1" "sint (b - 1) = sint b - 1" using assms by (simp_all only: w)
qed

text \<open>The reversal swaps through \<open>tmp\<close>, with \<open>beg\<close> and \<open>end\<close> of type \<^verbatim>\<open>int32_t\<close>.\<close>

function ece391_strrev_loop :: "memory \<Rightarrow> u32 \<Rightarrow> i32 \<Rightarrow> i32 \<Rightarrow> memory" where
  "ece391_strrev_loop m s beg end' =
     (if sint beg < sint end'
      then let tmp = m (s + end');
               m = m(s + end' := m (s + beg));
               m = m(s + beg := tmp)
           in ece391_strrev_loop m s (beg + 1) (end' - 1)
      else m)"
  by pat_completeness auto
termination
  by (relation "measure (\<lambda>(m, s, beg, end'). nat (sint end' - sint beg))") (auto simp: sint_between)

declare ece391_strrev_loop.simps [simp del]

definition ece391_strrev :: "memory \<Rightarrow> u32 \<Rightarrow> memory option" where
  "ece391_strrev m s =
     (case ece391_strlen m s of
        None \<Rightarrow> None
      | Some len \<Rightarrow>
          let end' = len - 1 in
          if sint end' \<le> 0 then Some m else Some (ece391_strrev_loop m s 0 end'))"

text \<open>The digits are a string literal; an index past its zero byte and a division by zero are \<open>None\<close>.\<close>

definition ece391_lookup :: "u8 list" where
  "ece391_lookup = ascii ''0123456789ABCDEFGHIJKLMNOPQRSTUVWXYZ'' @ [0]"

partial_function (option) ece391_itoa_loop :: "memory \<Rightarrow> u32 \<Rightarrow> u32 \<Rightarrow> i32 \<Rightarrow> (memory \<times> u32) option" where
  "ece391_itoa_loop m newbuf newval radix =
     (if newval > 0
      then if radix = 0 then None
           else let i = newval mod radix
                in if unat i < length ece391_lookup
                   then ece391_itoa_loop (m(newbuf := ece391_lookup ! unat i)) (newbuf + 1) (newval div radix) radix
                   else None
      else Some (m, newbuf))"

definition ece391_itoa :: "memory \<Rightarrow> u32 \<Rightarrow> u32 \<Rightarrow> i32 \<Rightarrow> memory option" where
  "ece391_itoa m value' buf radix =
     (if value' = 0 then Some (m(buf := 48, buf + 1 := 0))
      else do {
        (m, newbuf) \<leftarrow> ece391_itoa_loop m buf value' radix;
        ece391_strrev (m(newbuf := 0)) buf
      })"

section \<open>The calls\<close>

record 's calls =
  u_mem :: "'s \<Rightarrow> memory"
  u_set_mem :: "memory \<Rightarrow> 's \<Rightarrow> 's"
  u_read :: "i32 \<Rightarrow> u32 \<Rightarrow> i32 \<Rightarrow> 's \<Rightarrow> (i32 \<times> 's) option"
  u_write :: "i32 \<Rightarrow> u32 \<Rightarrow> i32 \<Rightarrow> 's \<Rightarrow> (i32 \<times> 's) option"
  u_open :: "u32 \<Rightarrow> 's \<Rightarrow> (i32 \<times> 's) option"
  u_close :: "i32 \<Rightarrow> 's \<Rightarrow> (i32 \<times> 's) option"
  u_getargs :: "u32 \<Rightarrow> i32 \<Rightarrow> 's \<Rightarrow> (i32 \<times> 's) option"
  u_vidmap :: "u32 \<Rightarrow> 's \<Rightarrow> (i32 \<times> 's) option"
  u_execute :: "u32 \<Rightarrow> 's \<Rightarrow> (i32 \<times> 's) option"

definition ece391_fdputs :: "'s calls \<Rightarrow> i32 \<Rightarrow> u32 \<Rightarrow> 's \<Rightarrow> 's option" where
  "ece391_fdputs U fd s st =
     (case ece391_strlen (u_mem U st) s of None \<Rightarrow> None | Some n \<Rightarrow> map_option snd (u_write U fd s n st))"

text \<open>A string literal of a program: it is in memory, at an address of its own, when it is used.\<close>

definition with_literal :: "'s calls \<Rightarrow> u32 \<Rightarrow> string \<Rightarrow> 's \<Rightarrow> 's" where
  "with_literal U lit str st = u_set_mem U (store_bytes (u_mem U st) lit (ascii str @ [0])) st"

definition put_literal :: "'s calls \<Rightarrow> u32 \<Rightarrow> string \<Rightarrow> 's \<Rightarrow> 's option" where
  "put_literal U lit str st = ece391_fdputs U 1 lit (with_literal U lit str st)"

text \<open>
  The calls of the kernel.  A program's state is the kernel's with the interrupt handlers that are still to
  run; \<open>A\<close> gives the addresses of the locals of the calls.  How \<^verbatim>\<open>execute\<close> goes on in the child is not part of the
  caller's program: \<open>child\<close> gives the answer and the state with which it comes back.
\<close>

record call_locals =
  at_words :: u32
  at_dentry :: u32

type_synonym 'a process_state = "'a kernel_scheme \<times> ('a kernel_scheme \<Rightarrow> 'a kernel_scheme) list"

definition kernel_calls :: "call_locals \<Rightarrow> device \<Rightarrow> (u32 \<Rightarrow> 'a process_state \<Rightarrow> (i32 \<times> 'a process_state) option) \<Rightarrow> 'a process_state calls" where
  "kernel_calls A dev child = \<lparr>
     u_mem = (\<lambda>(s, h). mem s), u_set_mem = (\<lambda>m (s, h). (s\<lparr>mem := m\<rparr>, h)),
     u_read = (\<lambda>fd buf n (s, h). map_option (\<lambda>(r, s, h). (r, s, h)) (sys_call_read (at_dentry A) h fd buf n s)),
     u_write = (\<lambda>fd buf n (s, h). map_option (\<lambda>(r, s). (r, s, h)) (sys_call_write dev fd buf n s)),
     u_open = (\<lambda>filename (s, h). map_option (\<lambda>(r, s). (r, s, h)) (sys_call_open (at_dentry A) filename s)),
     u_close = (\<lambda>fd (s, h). map_option (\<lambda>(r, s). (r, s, h)) (sys_call_close fd s)),
     u_getargs = (\<lambda>buf n (s, h). map_option (\<lambda>(r, s). (r, s, h)) (sys_call_getargs (at_words A) buf n s)),
     u_vidmap = (\<lambda>p (s, h). case sys_call_vidmap p s of (r, s) \<Rightarrow> Some (r, s, h)),
     u_execute = child\<rparr>"

lemma kernel_calls_simps [simp]:
  "u_mem (kernel_calls A dev child) (s, h) = mem s" "u_set_mem (kernel_calls A dev child) m (s, h) = (s\<lparr>mem := m\<rparr>, h)"
  "u_read (kernel_calls A dev child) fd buf n (s, h) = map_option (\<lambda>(r, s, h). (r, s, h)) (sys_call_read (at_dentry A) h fd buf n s)"
  "u_write (kernel_calls A dev child) fd buf n (s, h) = map_option (\<lambda>(r, s). (r, s, h)) (sys_call_write dev fd buf n s)"
  "u_open (kernel_calls A dev child) filename (s, h) = map_option (\<lambda>(r, s). (r, s, h)) (sys_call_open (at_dentry A) filename s)"
  "u_close (kernel_calls A dev child) fd (s, h) = map_option (\<lambda>(r, s). (r, s, h)) (sys_call_close fd s)"
  "u_getargs (kernel_calls A dev child) buf n (s, h) = map_option (\<lambda>(r, s). (r, s, h)) (sys_call_getargs (at_words A) buf n s)"
  "u_vidmap (kernel_calls A dev child) p (s, h) = (case sys_call_vidmap p s of (r, s) \<Rightarrow> Some (r, s, h))"
  by (simp_all add: kernel_calls_def)

section \<open>Agreement with lib.c\<close>

lemma option_eqI: "(\<And>r. x = Some r \<Longrightarrow> y = Some r) \<Longrightarrow> (\<And>r. y = Some r \<Longrightarrow> x = Some r) \<Longrightarrow> x = y"
  by (cases x; cases y) auto

lemma strlen_loop_to: "ece391_strlen_loop m s len = Some r \<Longrightarrow> strlen_loop m (s - len) len = Some r"
proof (erule ece391_strlen_loop.raw_induct [where P = "\<lambda>m s len r. strlen_loop m (s - len) len = Some r", rotated])
  fix f and m :: memory and s len r :: u32
  assume IH: "\<And>m s len r. f m s len = Some r \<Longrightarrow> strlen_loop m (s - len) len = Some r"
    and eq: "(if 0 \<noteq> m s then f m (s + 1) (len + 1) else Some len) = Some r"
  show "strlen_loop m (s - len) len = Some r"
  proof (cases "m s = 0")
    case True
    with eq show ?thesis by (subst strlen_loop.simps) simp
  next
    case False
    with eq have "strlen_loop m (s + 1 - (len + 1)) (len + 1) = Some r" by (intro IH) simp
    with False show ?thesis by (subst strlen_loop.simps) simp
  qed
qed

lemma strlen_loop_from: "strlen_loop m s len = Some r \<Longrightarrow> ece391_strlen_loop m (s + len) len = Some r"
proof (erule strlen_loop.raw_induct [where P = "\<lambda>m s len r. ece391_strlen_loop m (s + len) len = Some r", rotated])
  fix f and m :: memory and s len r :: u32
  assume "\<And>m s len r. f m s len = Some r \<Longrightarrow> ece391_strlen_loop m (s + len) len = Some r"
    and "(if m (s + len) \<noteq> 0 then f m s (len + 1) else Some len) = Some r"
  then show "ece391_strlen_loop m (s + len) len = Some r"
    by (subst ece391_strlen_loop.simps) (force simp: add.assoc split: if_splits)
qed

lemma ece391_strlen_eq: "ece391_strlen m s = strlen m s"
  unfolding ece391_strlen_def strlen_def
  by (rule option_eqI) (drule strlen_loop_to strlen_loop_from, simp)+

lemma strcpy_to: "ece391_strcpy m d s = Some r \<Longrightarrow> (\<forall>dst src i. d = dst + i \<and> s = src + i \<longrightarrow> strcpy_loop m dst src i = Some r)"
proof (erule ece391_strcpy.raw_induct [where P = "\<lambda>m d s r. \<forall>dst src i. d = dst + i \<and> s = src + i \<longrightarrow> strcpy_loop m dst src i = Some r", rotated])
  fix f and m r :: memory and d s :: u32
  assume IH: "\<And>m d s r. f m d s = Some r \<Longrightarrow> \<forall>dst src i. d = dst + i \<and> s = src + i \<longrightarrow> strcpy_loop m dst src i = Some r"
    and eq: "(let c = m s; m = m(d := c) in if 0 \<noteq> c then f m (d + 1) (s + 1) else Some m) = Some r"
  show "\<forall>dst src i. d = dst + i \<and> s = src + i \<longrightarrow> strcpy_loop m dst src i = Some r"
  proof (intro allI impI, elim conjE)
    fix dst src i assume d: "d = dst + i" "s = src + i"
    show "strcpy_loop m dst src i = Some r"
    proof (cases "m s = 0")
      case True
      with eq d show ?thesis by (subst strcpy_loop.simps) (simp add: Let_def)
    next
      case False
      with eq have "f (m(d := m s)) (d + 1) (s + 1) = Some r" by (simp add: Let_def)
      from IH [OF this] have "strcpy_loop (m(d := m s)) dst src (i + 1) = Some r" using d by (simp add: add.assoc)
      with False d show ?thesis by (subst strcpy_loop.simps) simp
    qed
  qed
qed

lemma strcpy_from: "strcpy_loop m dst src i = Some r \<Longrightarrow> ece391_strcpy m (dst + i) (src + i) = Some r"
proof (erule strcpy_loop.raw_induct [where P = "\<lambda>m dst src i r. ece391_strcpy m (dst + i) (src + i) = Some r", rotated])
  fix f and m r :: memory and dst src i :: u32
  assume "\<And>m dst src i r. f m dst src i = Some r \<Longrightarrow> ece391_strcpy m (dst + i) (src + i) = Some r"
    and "(if m (src + i) \<noteq> 0 then f (m(dst + i := m (src + i))) dst src (i + 1) else Some (m(dst + i := 0))) = Some r"
  then show "ece391_strcpy m (dst + i) (src + i) = Some r"
    by (subst ece391_strcpy.simps) (force simp: add.assoc Let_def split: if_splits)
qed

lemma ece391_strcpy_eq: "ece391_strcpy m dst src = strcpy m dst src"
proof (unfold strcpy_def, rule option_eqI)
  show "strcpy_loop m dst src 0 = Some r" if "ece391_strcpy m dst src = Some r" for r
    using strcpy_to [OF that] by simp
  show "ece391_strcpy m dst src = Some r" if "strcpy_loop m dst src 0 = Some r" for r
    using strcpy_from [OF that] by simp
qed

lemma strrev_loops: "ece391_strrev_loop m s beg end' = strrev_loop m s (sint beg) (sint end')"
proof (induction m s beg end' rule: ece391_strrev_loop.induct)
  case (1 m s beg end')
  show ?case
  proof (cases "sint beg < sint end'")
    case True
    define m' where "m' = m(s + end' := m (s + beg), s + beg := m (s + end'))"
    have "ece391_strrev_loop m' s (beg + 1) (end' - 1) = strrev_loop m' s (sint beg + 1) (sint end' - 1)"
      using 1 [OF True refl refl refl] unfolding sint_between [OF True] m'_def .
    with True show ?thesis
      by (simp add: ece391_strrev_loop.simps [of m s beg] strrev_loop.simps [of m s "sint beg"] Let_def m'_def)
  qed (simp add: ece391_strrev_loop.simps [of m s beg] strrev_loop.simps [of m s "sint beg"])
qed

lemma ece391_strrev_eq: "ece391_strrev m s = strrev m s"
proof -
  have "strrev_loop m s 0 e = m" if "e \<le> 0" for e using that by (simp add: strrev_loop.simps)
  then show ?thesis
    by (cases "strlen m s") (simp_all add: ece391_strrev_def strrev_def ece391_strlen_eq strrev_loops Let_def)
qed

lemma lookups: "ece391_lookup = lookup_table" "length lookup_table = 37"
  by (simp_all add: ece391_lookup_def lookup_table_def ascii_def upt_rec)

lemma itoa_loop_to: "ece391_itoa_loop m b v radix = Some r \<Longrightarrow> itoa_loop m v b radix = Some r"
proof (erule ece391_itoa_loop.raw_induct [where P = "\<lambda>m b v radix r. itoa_loop m v b radix = Some r", rotated])
  fix f and m :: memory and b v radix :: u32 and r :: "memory \<times> u32"
  assume IH: "\<And>m b v radix r. f m b v radix = Some r \<Longrightarrow> itoa_loop m v b radix = Some r"
    and eq: "(if v > 0 then if radix = 0 then None
        else let i = v mod radix in if unat i < length ece391_lookup
             then f (m(b := ece391_lookup ! unat i)) (b + 1) (v div radix) radix else None
      else Some (m, b)) = Some r"
  then show "itoa_loop m v b radix = Some r"
    by (subst itoa_loop.simps) (auto simp: Let_def lookups lookup_digit_def split: if_splits)
qed

lemma itoa_loop_from: "itoa_loop m v b radix = Some r \<Longrightarrow> ece391_itoa_loop m b v radix = Some r"
proof (erule itoa_loop.raw_induct [where P = "\<lambda>m v b radix r. ece391_itoa_loop m b v radix = Some r", rotated])
  fix f and m :: memory and b v radix :: u32 and r :: "memory \<times> u32"
  assume "\<And>m v b radix r. f m v b radix = Some r \<Longrightarrow> ece391_itoa_loop m b v radix = Some r"
    and "(if v > 0 then if radix = 0 then None
        else case lookup_digit (v mod radix) of None \<Rightarrow> None | Some c \<Rightarrow> f (m(b := c)) (v div radix) (b + 1) radix
      else Some (m, b)) = Some r"
  then show "ece391_itoa_loop m b v radix = Some r"
    by (subst ece391_itoa_loop.simps) (auto simp: Let_def lookups lookup_digit_def split: if_splits)
qed

lemma itoa_loops: "ece391_itoa_loop m b v radix = itoa_loop m v b radix"
  by (rule option_eqI) (erule itoa_loop_to itoa_loop_from)+

lemma ece391_itoa_eq: "ece391_itoa m v buf radix = itoa m v buf radix"
  by (simp add: ece391_itoa_def itoa_def ece391_strrev_eq itoa_loops split: option.splits prod.splits)

section \<open>Comparison\<close>

fun compare_bytes :: "u8 list \<Rightarrow> u8 list \<Rightarrow> i32" where
  "compare_bytes [] [] = 0"
| "compare_bytes [] (y # ys) = - ucast y"
| "compare_bytes (x # xs) [] = ucast x"
| "compare_bytes (x # xs) (y # ys) = (if x = y then compare_bytes xs ys else ucast x - ucast y)"

lemma ucast_u8_eq_iff: "(ucast (a :: u8) :: i32) = ucast b \<longleftrightarrow> a = b"
  by (metis ucast_u8)

lemma compare_bytes_0: "0 \<notin> set xs \<Longrightarrow> 0 \<notin> set ys \<Longrightarrow> compare_bytes xs ys = 0 \<longleftrightarrow> xs = ys"
proof (induction xs ys rule: compare_bytes.induct)
  case (2 y ys)
  then show ?case using ucast_u8_eq_iff [of y 0] by auto
next
  case (3 x xs)
  then show ?case using ucast_u8_eq_iff [of x 0] by auto
next
  case (4 x xs y ys)
  then show ?case using ucast_u8_eq_iff [of x y] by auto
qed simp

lemma ece391_strcmp_cstring:
  "cstring m s1 xs \<Longrightarrow> cstring m s2 ys \<Longrightarrow> ece391_strcmp m s1 s2 = Some (compare_bytes xs ys)"
proof (induction xs ys arbitrary: s1 s2 rule: compare_bytes.induct)
  case 1
  then show ?case by (subst ece391_strcmp.simps) (simp add: cstring_def)
next
  case (2 y ys)
  then show ?case using cstring_Cons [of m s2 y ys] by (subst ece391_strcmp.simps) (auto simp: cstring_def [of m s1])
next
  case (3 x xs)
  then show ?case using cstring_Cons [of m s1 x xs] by (subst ece391_strcmp.simps) (auto simp: cstring_def [of m s2])
next
  case (4 x xs y ys)
  note c = cstring_Cons [OF 4(2)] cstring_Cons [OF 4(3)]
  with 4(1) show ?case by (subst ece391_strcmp.simps) auto
qed

lemma ece391_strncmp_compare:
  "ece391_strncmp m s1 s2 n = compare_bytes (cprefix m s1 (unat n)) (cprefix m s2 (unat n))"
proof (induction m s1 s2 n rule: ece391_strncmp.induct)
  case (1 m s1 s2 n)
  show ?case
  proof (cases "n = 0")
    case False
    then obtain k where k: "unat n = Suc k" "unat (n - 1) = k" by (cases "unat n") (auto simp: unat_u32_minus_1 unat_eq_0)
    have "n - 1 = 0 \<longleftrightarrow> k = 0" using k(2) by (metis unat_eq_0)
    with 1 [OF False] show ?thesis
      by (subst ece391_strncmp.simps) (auto simp: False k cprefix_Suc)
  qed (simp add: ece391_strncmp.simps)
qed

text \<open>The comparison of \<^verbatim>\<open>lib.c\<close> takes the bytes as signed, which differs from 0x80 on.\<close>

lemma scast_u8_small: "(c :: u8) < 0x80 \<Longrightarrow> (scast c :: i32) = ucast c"
proof -
  assume "c < 0x80"
  then have "uint c < 128" by (simp add: word_less_def)
  moreover have "- 128 \<le> uint c" by (rule order_trans [OF _ unsigned_greater_eq]) simp
  ultimately have "sint c = uint c" using signed_take_bit_int_eq_self [of 7 "uint c"] by (simp add: sint_uint)
  then show ?thesis by (simp only: scast_eq ucast_eq)
qed

lemma compare_below_0x80:
  "\<forall>c \<in> set xs \<union> set ys. c < 0x80 \<Longrightarrow> compare_bytes xs ys = compare_strings xs ys"
proof (induction xs ys rule: compare_bytes.induct)
  case (2 y ys)
  then show ?case by (simp add: scast_u8_small)
next
  case (3 x xs)
  then show ?case by (simp add: scast_u8_small)
next
  case (4 x xs y ys)
  then show ?case by (simp add: scast_u8_small)
qed simp

lemma strncmp_agree:
  "ece391_strncmp m s1 s2 n = 0 \<longleftrightarrow> strncmp m s1 s2 n = 0"
  "\<forall>c \<in> set (cprefix m s1 (unat n)) \<union> set (cprefix m s2 (unat n)). c < 0x80 \<Longrightarrow> ece391_strncmp m s1 s2 n = strncmp m s1 s2 n"
  by (simp_all add: ece391_strncmp_compare compare_bytes_0 zero_notin_cprefix strncmp_eq_0_iff)
    (simp add: strncmp_compare compare_below_0x80)

lemma strncmp_differ:
  defines "m \<equiv> (\<lambda>_. 0 :: u8)(0 := 0x80)"
  shows "sint (ece391_strncmp m 0 1 1) = 128" "sint (strncmp m 0 1 1) = -128"
  by (simp_all add: ece391_strncmp_compare strncmp_compare m_def cprefix_Suc cprefix_def bytes_Suc)

section \<open>Properties\<close>

text \<open>
  C33: The string functions that the user library shares with the kernel: length, copy, reversal and conversion of
  numbers give the same memory on all inputs, and they fail to end on the same ones.  The two comparisons agree
  on whether the strings are equal, and on the result when the bytes are below 0x80; the user library compares
  other bytes as unsigned and the kernel as signed, so that the first byte 0x80 is greater than the end of a
  string for the one and less for the other.
\<close>

theorem user_library_agrees:
  "ece391_strlen m s = strlen m s \<and> ece391_strcpy m dst src = strcpy m dst src \<and> ece391_strrev m s = strrev m s \<and>
   ece391_itoa m v buf radix = itoa m v buf radix \<and>
   (ece391_strncmp m s1 s2 n = 0 \<longleftrightarrow> strncmp m s1 s2 n = 0) \<and>
   ((\<forall>c \<in> set (cprefix m s1 (unat n)) \<union> set (cprefix m s2 (unat n)). c < 0x80) \<longrightarrow>
      ece391_strncmp m s1 s2 n = strncmp m s1 s2 n) \<and>
   sint (ece391_strncmp ((\<lambda>_. 0)(0 := 0x80)) 0 1 1) = 128 \<and> sint (strncmp ((\<lambda>_. 0)(0 := 0x80)) 0 1 1) = -128"
  using strncmp_agree(1) [of m s1 s2 n] strncmp_agree(2) [of m s1 n s2] strncmp_differ by (simp add: ece391_strlen_eq ece391_strcpy_eq ece391_strrev_eq ece391_itoa_eq)

text \<open>On a and b, with both strings in memory.\<close>

theorem user_library_agrees_witness:
  "let m = (\<lambda>_. 0)(0x1000 := 97, 0x2000 := 98) in
     ece391_strncmp m 0x1000 0x2000 5 = -1 \<and> strncmp m 0x1000 0x2000 5 = -1"
proof -
  let ?m = "(\<lambda>_. 0 :: u8)(0x1000 := 97, 0x2000 := 98)"
  have c: "cprefix ?m 0x1000 5 = [97]" "cprefix ?m 0x2000 5 = [98]" by (simp_all add: cprefix_def bytes_def upt_rec)
  then have "ece391_strncmp ?m 0x1000 0x2000 5 = strncmp ?m 0x1000 0x2000 5"
    using user_library_agrees [of ?m 0 0 0 0 0 0 "0x1000" "0x2000" 5] by simp
  moreover have "ece391_strncmp ?m 0x1000 0x2000 5 = -1" by (simp add: ece391_strncmp_compare c)
  ultimately show ?thesis by (simp add: Let_def)
qed

end
