(* ===== verification/User_Programs.thy ===== *)
theory User_Programs
  imports User_Lib
begin

text \<open>
  The user programs of \<^verbatim>\<open>syscalls/\<close>, over the interface of \<open>User_Lib\<close>.  Their local arrays lie at the
  addresses they take; \<open>lit\<close> is where the literal in use lies.  The result is what \<^verbatim>\<open>main\<close> returns.
\<close>

definition poke :: "'s calls \<Rightarrow> u32 \<Rightarrow> u8 \<Rightarrow> 's \<Rightarrow> 's" where
  "poke U a v st = u_set_mem U ((u_mem U st)(a := v)) st"

text \<open>A message and the value with which the program ends after it.\<close>

definition fail_with :: "'s calls \<Rightarrow> u32 \<Rightarrow> string \<Rightarrow> i32 \<Rightarrow> 's \<Rightarrow> (i32 \<times> 's) option" where
  "fail_with U lit str r st = map_option (Pair r) (put_literal U lit (str @ [CHR 0x0A]) st)"

section \<open>ece391cat.c\<close>

partial_function (option) cat_loop :: "'s calls \<Rightarrow> u32 \<Rightarrow> u32 \<Rightarrow> i32 \<Rightarrow> 's \<Rightarrow> (i32 \<times> 's) option" where
  "cat_loop U buf lit fd st =
     do {
       (cnt, st) \<leftarrow> u_read U fd buf 1024 st;
       if 0 = cnt then Some (0, st)
       else if -1 = cnt then fail_with U lit ''file read failed'' 3 st
       else do {
         (r, st) \<leftarrow> u_write U 1 buf cnt st;
         if -1 = r then Some (3, st) else cat_loop U buf lit fd st
       }
     }"

definition cat_main :: "'s calls \<Rightarrow> u32 \<Rightarrow> u32 \<Rightarrow> 's \<Rightarrow> (i32 \<times> 's) option" where
  "cat_main U buf lit st =
     do {
       (r, st) \<leftarrow> u_getargs U buf 1024 st;
       if 0 \<noteq> r then fail_with U lit ''could not read arguments'' 3 st
       else do {
         (fd, st) \<leftarrow> u_open U buf st;
         if -1 = fd then fail_with U lit ''file not found'' 2 st else cat_loop U buf lit fd st
       }
     }"

section \<open>ece391ls.c\<close>

partial_function (option) ls_loop :: "'s calls \<Rightarrow> u32 \<Rightarrow> u32 \<Rightarrow> i32 \<Rightarrow> 's \<Rightarrow> (i32 \<times> 's) option" where
  "ls_loop U buf lit fd st =
     do {
       (cnt, st) \<leftarrow> u_read U fd buf 32 st;
       if 0 = cnt then Some (0, st)
       else if -1 = cnt then fail_with U lit ''directory entry read failed'' 3 st
       else do {
         (r, st) \<leftarrow> u_write U 1 buf (cnt + 1) (poke U (buf + cnt) 10 st);
         if -1 = r then Some (3, st) else ls_loop U buf lit fd st
       }
     }"

definition ls_main :: "'s calls \<Rightarrow> u32 \<Rightarrow> u32 \<Rightarrow> 's \<Rightarrow> (i32 \<times> 's) option" where
  "ls_main U buf lit st =
     do {
       (fd, st) \<leftarrow> u_open U lit (with_literal U lit ''.'' st);
       if -1 = fd then fail_with U lit ''directory open failed'' 2 st else ls_loop U buf lit fd st
     }"

section \<open>ece391hello.c, ece391testprint.c\<close>

definition hello_main :: "'s calls \<Rightarrow> u32 \<Rightarrow> u32 \<Rightarrow> 's \<Rightarrow> (i32 \<times> 's) option" where
  "hello_main U buf lit st =
     do {
       st \<leftarrow> put_literal U lit ''Hi, what's your name? '' st;
       (cnt, st) \<leftarrow> u_read U 0 buf 1023 st;
       if -1 = cnt then fail_with U lit ''Can't read name from keyboard.'' 3 st
       else do {
         st \<leftarrow> put_literal U lit ''Hello, '' (poke U (buf + cnt) 0 st);
         st \<leftarrow> ece391_fdputs U 1 buf st;
         Some (0, st)
       }
     }"

definition testprint_main :: "'s calls \<Rightarrow> u32 \<Rightarrow> 's \<Rightarrow> (i32 \<times> 's) option" where
  "testprint_main U lit st = fail_with U lit ''Hello, if this ran, the program was correct. Yay!'' 0 st"

section \<open>ece391counter.c\<close>

partial_function (option) counter_loop :: "'s calls \<Rightarrow> u32 \<Rightarrow> u32 \<Rightarrow> u32 \<Rightarrow> u32 \<Rightarrow> 's \<Rightarrow> 's option" where
  "counter_loop U buf lit max' i st =
     (if i < max'
      then do {
        m \<leftarrow> ece391_itoa (u_mem U st) (i + 1) buf 10;
        st \<leftarrow> ece391_fdputs U 1 buf (u_set_mem U m st);
        st \<leftarrow> put_literal U lit [CHR 0x0A] st;
        counter_loop U buf lit max' (i + 1) st
      }
      else Some st)"

definition counter_max :: "u8 \<Rightarrow> u32" where
  "counter_max c = (if c = 48 then 100 else if c = 49 then 10000 else if c = 50 then 100000 else 0)"

definition counter_main :: "'s calls \<Rightarrow> u32 \<Rightarrow> u32 \<Rightarrow> 's \<Rightarrow> (i32 \<times> 's) option" where
  "counter_main U buf lit st =
     do {
       st \<leftarrow> put_literal U lit (''Enter the Test Number: (0): 100, (1): 10000, (2): 100000'' @ [CHR 0x0A]) st;
       (cnt, st) \<leftarrow> u_read U 0 buf 1023 st;
       if -1 = cnt then fail_with U lit ''Can't read the number from keyboard.'' 3 st
       else
         let st = poke U (buf + cnt) 0 st; c = u_mem U st buf
         in do {
           len \<leftarrow> ece391_strlen (u_mem U st) buf;
           if len > 1 \<or> len = 1 \<and> (c < 48 \<or> c > 50) then fail_with U lit ''Wrong Choice!'' 0 st
           else map_option (Pair 0) (counter_loop U buf lit (counter_max c) 0 st)
         }
     }"

section \<open>ece391shell.c\<close>

definition command_result :: "'s calls \<Rightarrow> u32 \<Rightarrow> i32 \<Rightarrow> 's \<Rightarrow> 's option" where
  "command_result U lit rval st =
     (if -1 = rval then put_literal U lit (''no such command'' @ [CHR 0x0A]) st
      else if 256 = rval then put_literal U lit (''program terminated by exception'' @ [CHR 0x0A]) st
      else if 0 \<noteq> rval then put_literal U lit (''program terminated abnormally'' @ [CHR 0x0A]) st
      else Some st)"

partial_function (option) prompt_loop :: "'s calls \<Rightarrow> u32 \<Rightarrow> u32 \<Rightarrow> 's \<Rightarrow> (i32 \<times> 's) option" where
  "prompt_loop U buf lit st =
     do {
       st \<leftarrow> put_literal U lit ''391OS> '' st;
       (cnt, st) \<leftarrow> u_read U 0 buf 1023 st;
       if -1 = cnt then fail_with U lit ''read from keyboard failed'' 3 st
       else
         let cnt = (if sint cnt > 0 \<and> u_mem U st (buf + (cnt - 1)) = 10 then cnt - 1 else cnt);
             st = with_literal U lit ''exit'' (poke U (buf + cnt) 0 st)
         in do {
           c \<leftarrow> ece391_strcmp (u_mem U st) buf lit;
           if 0 = c then Some (0, st)
           else if u_mem U st buf = 0 then prompt_loop U buf lit st
           else do {
             (rval, st) \<leftarrow> u_execute U buf st;
             st \<leftarrow> command_result U lit rval st;
             prompt_loop U buf lit st
           }
         }
     }"

definition shell_main :: "'s calls \<Rightarrow> u32 \<Rightarrow> u32 \<Rightarrow> 's \<Rightarrow> (i32 \<times> 's) option" where
  "shell_main U buf lit st =
     Option.bind (put_literal U lit (''Starting 391 Shell'' @ [CHR 0x0A]) st) (prompt_loop U buf lit)"

section \<open>ece391grep.c\<close>

partial_function (option) find_end :: "memory \<Rightarrow> u32 \<Rightarrow> i32 \<Rightarrow> i32 \<Rightarrow> i32 option" where
  "find_end m data last' line_end =
     (if sint line_end < sint last' \<and> 10 \<noteq> m (data + line_end) then find_end m data last' (line_end + 1) else Some line_end)"

text \<open>The search of a line, the loop over the lines of the buffer, and the loop over the file.\<close>

partial_function (option) grep_line ::
  "'s calls \<Rightarrow> u32 \<Rightarrow> u32 \<Rightarrow> u32 \<Rightarrow> u32 \<Rightarrow> u32 \<Rightarrow> i32 \<Rightarrow> i32 \<Rightarrow> i32 \<Rightarrow> 's \<Rightarrow> 's option" where
  "grep_line U lit s fname s_len data line_start line_end check st =
     (if sint check < sint line_end
      then if u_mem U st s = u_mem U st (data + check) \<and> 0 = ece391_strncmp (u_mem U st) (data + check) s s_len
           then do {
             st \<leftarrow> ece391_fdputs U 1 fname st;
             st \<leftarrow> put_literal U lit '':'' st;
             st \<leftarrow> ece391_fdputs U 1 (data + line_start) st;
             put_literal U lit [CHR 0x0A] st
           }
           else grep_line U lit s fname s_len data line_start line_end (check + 1) st
      else Some st)"

partial_function (option) grep_lines ::
  "'s calls \<Rightarrow> u32 \<Rightarrow> u32 \<Rightarrow> u32 \<Rightarrow> u32 \<Rightarrow> u32 \<Rightarrow> i32 \<Rightarrow> i32 \<Rightarrow> i32 \<Rightarrow> 's \<Rightarrow> (i32 \<times> 's) option" where
  "grep_lines U lit s fname s_len data cnt last' line_start st =
     do {
       line_end \<leftarrow> find_end (u_mem U st) data last' line_start;
       if 10 \<noteq> u_mem U st (data + line_end) \<and> 0 \<noteq> cnt \<and> line_start \<noteq> 0
       then let st = poke U (data + line_end) 0 st
            in map_option (\<lambda>m. (last' - line_start, u_set_mem U m st)) (ece391_strcpy (u_mem U st) data (data + line_start))
       else do {
         st \<leftarrow> grep_line U lit s fname s_len data line_start line_end line_start (poke U (data + line_end) 0 st);
         let line_start = line_end + 1;
         if sint line_start \<ge> sint last' then Some (0, st)
         else grep_lines U lit s fname s_len data cnt last' line_start st
       }
     }"

partial_function (option) grep_file ::
  "'s calls \<Rightarrow> u32 \<Rightarrow> u32 \<Rightarrow> u32 \<Rightarrow> u32 \<Rightarrow> u32 \<Rightarrow> i32 \<Rightarrow> i32 \<Rightarrow> 's \<Rightarrow> (i32 \<times> 's) option" where
  "grep_file U lit s fname s_len data fd last' st =
     do {
       (cnt, st) \<leftarrow> u_read U fd (data + last') (1024 - last') st;
       if -1 = cnt then fail_with U lit ''file read failed'' (-1) st
       else do {
         (last', st) \<leftarrow> grep_lines U lit s fname s_len data cnt (last' + cnt) 0 st;
         if 0 = cnt
         then do {
           (r, st) \<leftarrow> u_close U fd st;
           if -1 = r then fail_with U lit ''file close failed'' (-1) st else Some (0, st)
         }
         else grep_file U lit s fname s_len data fd last' st
       }
     }"

definition do_one_file :: "'s calls \<Rightarrow> u32 \<Rightarrow> u32 \<Rightarrow> u32 \<Rightarrow> u32 \<Rightarrow> 's \<Rightarrow> (i32 \<times> 's) option" where
  "do_one_file U data lit s fname st =
     do {
       s_len \<leftarrow> ece391_strlen (u_mem U st) s;
       (fd, st) \<leftarrow> u_open U fname st;
       if -1 = fd then fail_with U lit ''file open failed'' (-1) st
       else grep_file U lit s fname s_len data fd 0 st
     }"

partial_function (option) grep_loop :: "'s calls \<Rightarrow> u32 \<Rightarrow> u32 \<Rightarrow> u32 \<Rightarrow> u32 \<Rightarrow> i32 \<Rightarrow> 's \<Rightarrow> (i32 \<times> 's) option" where
  "grep_loop U data search buf lit fd st =
     do {
       (cnt, st) \<leftarrow> u_read U fd buf 32 st;
       if 0 = cnt then Some (0, st)
       else if -1 = cnt then fail_with U lit ''directory entry read failed'' 3 st
       else if u_mem U st buf = 46 then grep_loop U data search buf lit fd st
       else do {
         (r, st) \<leftarrow> do_one_file U data lit search buf (poke U (buf + cnt) 0 st);
         if 0 \<noteq> r then Some (3, st) else grep_loop U data search buf lit fd st
       }
     }"

definition grep_main :: "'s calls \<Rightarrow> u32 \<Rightarrow> u32 \<Rightarrow> u32 \<Rightarrow> u32 \<Rightarrow> 's \<Rightarrow> (i32 \<times> 's) option" where
  "grep_main U data search buf lit st =
     do {
       (r, st) \<leftarrow> u_getargs U search 1024 st;
       if 0 \<noteq> r then fail_with U lit ''could not read argument'' 3 st
       else do {
         (fd, st) \<leftarrow> u_open U lit (with_literal U lit ''.'' st);
         if -1 = fd then fail_with U lit ''directory open failed'' 2 st
         else grep_loop U data search buf lit fd st
       }
     }"

end
