(* ===== verification/Program_Runs.thy ===== *)
theory Program_Runs
  imports User_Programs
begin

text \<open>
  Programs run on the kernel.  What a program needs of the calls is stated as locales: text reaches the
  terminal (\<open>program_output\<close>), and a descriptor is read to its end (\<open>file_copy\<close>).  Both are interpreted on the
  system calls of this kernel.
\<close>

section \<open>Text\<close>

text \<open>The lines of a text; a newline at the end starts an empty last line.\<close>

fun lines_of :: "u8 list \<Rightarrow> u8 list list" where
  "lines_of [] = [[]]"
| "lines_of (c # cs) = (if c = 10 then [] # lines_of cs else (c # hd (lines_of cs)) # tl (lines_of cs))"

lemma lines_of_nonempty [simp]: "lines_of cs \<noteq> []"
  by (cases cs) simp_all

lemma lines_of_Cons:
  "lines_of (c # cs) = (case lines_of cs of l # ls \<Rightarrow> if c = 10 then [] # l # ls else (c # l) # ls)"
  by (cases "lines_of cs") simp_all

lemma lines_of_no_newline: "l \<in> set (lines_of cs) \<Longrightarrow> 10 \<notin> set l"
proof (induction cs arbitrary: l rule: lines_of.induct)
  case (2 c cs)
  have "hd (lines_of cs) \<in> set (lines_of cs)" "set (tl (lines_of cs)) \<subseteq> set (lines_of cs)"
    by (simp_all add: list.set_sel(2) subset_iff)
  with 2 show ?case by (auto split: if_splits)
qed simp

lemma lines_of_no_newline_hd: "lines_of cs = l # ls \<Longrightarrow> 10 \<notin> set l"
  using lines_of_no_newline [of l cs] by simp

section \<open>Output\<close>

text \<open>\<open>own\<close> is the program's memory; the terminal is observed as \<open>out\<close>, and \<open>emit\<close> is what a text does to it.\<close>

locale program_output =
  fixes U :: "'s calls" and inv :: "'s \<Rightarrow> bool" and own :: "u32 set"
    and out :: "'s \<Rightarrow> 'o" and emit :: "u8 list \<Rightarrow> 'o \<Rightarrow> 'o"
  assumes mem_set: "u_mem U (u_set_mem U m s) = m"
    and set_inv: "inv s \<Longrightarrow> (\<And>p. p \<notin> own \<Longrightarrow> m p = u_mem U s p) \<Longrightarrow> inv (u_set_mem U m s)"
    and set_out: "inv s \<Longrightarrow> (\<And>p. p \<notin> own \<Longrightarrow> m p = u_mem U s p) \<Longrightarrow> out (u_set_mem U m s) = out s"
    and write_out: "inv s \<Longrightarrow> n < 2 ^ 31 \<Longrightarrow> region b n \<subseteq> own \<Longrightarrow>
      \<exists>t. u_write U 1 b (of_nat n) s = Some (0, t) \<and> inv t \<and> out t = emit (bytes (u_mem U s) b n) (out s) \<and>
        (\<forall>p \<in> own. u_mem U t p = u_mem U s p)"
begin

lemma fdputs_cstring:
  assumes "inv s" "cstring (u_mem U s) a cs" "length cs < 2 ^ 31" "region a (length cs) \<subseteq> own"
  obtains t where "ece391_fdputs U 1 a s = Some t" "inv t" "out t = emit cs (out s)"
    "\<And>p. p \<in> own \<Longrightarrow> u_mem U t p = u_mem U s p"
proof -
  obtain t where "u_write U 1 a (of_nat (length cs)) s = Some (0, t)" "inv t"
    "out t = emit (bytes (u_mem U s) a (length cs)) (out s)" "\<forall>p \<in> own. u_mem U t p = u_mem U s p"
    using write_out [OF assms(1,3,4)] by blast
  moreover have "bytes (u_mem U s) a (length cs) = cs" using assms(2) by (simp add: cstring_def)
  ultimately show thesis
    using that strlen_cstring [OF assms(2)] by (simp add: ece391_fdputs_def ece391_strlen_eq)
qed

lemma literal_outside:
  assumes "region lit (length cs + 1) \<subseteq> own" "p \<notin> own"
  shows "store_bytes m lit (cs @ [0]) p = m p"
  using assms by (intro store_bytes_outside) auto

lemma with_literal_inv:
  assumes "inv s" "region lit (length str + 1) \<subseteq> own"
  shows "inv (with_literal U lit str s)" "out (with_literal U lit str s) = out s"
    "u_mem U (with_literal U lit str s) = store_bytes (u_mem U s) lit (ascii str @ [0])"
proof -
  have "store_bytes (u_mem U s) lit (ascii str @ [0]) p = u_mem U s p" if "p \<notin> own" for p
    by (rule literal_outside [OF _ that]) (use assms(2) in \<open>simp add: ascii_def\<close>)
  with assms(1) show "inv (with_literal U lit str s)" "out (with_literal U lit str s) = out s"
    unfolding with_literal_def by (simp_all add: set_inv set_out)
  show "u_mem U (with_literal U lit str s) = store_bytes (u_mem U s) lit (ascii str @ [0])"
    by (simp add: with_literal_def mem_set)
qed

lemma cstring_stored:
  assumes "0 \<notin> set cs" "length cs < 2 ^ 31"
  shows "cstring (store_bytes m a (cs @ [0])) a cs"
proof -
  let ?m = "store_bytes m a (cs @ [0])"
  have "bytes ?m a (length cs + 1) = cs @ [0]" using bytes_store_bytes [of "cs @ [0]" m a] assms(2) by simp
  then have "bytes ?m a (length cs) @ [?m (a + of_nat (length cs))] = cs @ [0]" unfolding bytes_append by (simp add: bytes_Suc)
  then show ?thesis using assms by (simp add: cstring_def)
qed

lemma put_literal_emits:
  assumes "inv s" "region lit (length str + 1) \<subseteq> own" "length str < 2 ^ 31" "0 \<notin> set (ascii str)"
  obtains t where "put_literal U lit str s = Some t" "inv t" "out t = emit (ascii str) (out s)"
    "\<And>p. p \<in> own \<Longrightarrow> p \<notin> region lit (length str + 1) \<Longrightarrow> u_mem U t p = u_mem U s p"
proof -
  note lits = with_literal_inv [OF assms(1,2)]
  have len: "length (ascii str) = length str" by (simp add: ascii_def)
  have "cstring (u_mem U (with_literal U lit str s)) lit (ascii str)"
    unfolding lits(3) using assms(3,4) len by (intro cstring_stored) simp_all
  moreover have "region lit (length (ascii str)) \<subseteq> own"
    using assms(2) region_mono [of "length str" "length str + 1" lit] len by auto
  ultimately obtain t where t: "ece391_fdputs U 1 lit (with_literal U lit str s) = Some t" "inv t"
    "out t = emit (ascii str) (out (with_literal U lit str s))"
    "\<And>p. p \<in> own \<Longrightarrow> u_mem U t p = u_mem U (with_literal U lit str s) p"
    using fdputs_cstring [OF lits(1), of lit "ascii str"] assms(3) len by auto
  show thesis
  proof (rule that [of t])
    show "u_mem U t p = u_mem U s p" if "p \<in> own" "p \<notin> region lit (length str + 1)" for p
      using t(4) [OF that(1)] that(2) len unfolding lits(3) by (simp add: store_bytes_outside)
  qed (use t lits in \<open>simp_all add: put_literal_def\<close>)
qed

end

section \<open>Copying a file\<close>

locale file_copy = program_output U inv own out emit
  for U :: "'s calls" and inv :: "'s \<Rightarrow> bool" and own :: "u32 set" and out :: "'s \<Rightarrow> 'o" and emit :: "u8 list \<Rightarrow> 'o \<Rightarrow> 'o" +
  fixes fd :: i32 and buf :: u32 and rest :: "'s \<Rightarrow> u8 list"
  assumes buf_own: "inv s \<Longrightarrow> region buf 1024 \<subseteq> own"
    and read_file: "inv s \<Longrightarrow> \<exists>t. u_read U fd buf 1024 s = Some (of_nat (length (take 1024 (rest s))), t) \<and>
      bytes (u_mem U t) buf (length (take 1024 (rest s))) = take 1024 (rest s) \<and>
      inv t \<and> rest t = drop 1024 (rest s) \<and> out t = out s"
    and write_rest: "inv s \<Longrightarrow> n < 2 ^ 31 \<Longrightarrow> region b n \<subseteq> own \<Longrightarrow> u_write U 1 b (of_nat n) s = Some (r, t) \<Longrightarrow> rest t = rest s"
    and emit_Nil: "emit [] x = x"
    and emit_append: "emit (xs @ ys) x = emit ys (emit xs x)"
begin

lemma cat_loop_copies:
  "inv s \<Longrightarrow> \<exists>t. cat_loop U buf lit fd s = Some (0, t) \<and> inv t \<and> rest t = [] \<and> out t = emit (rest s) (out s)"
proof (induction "length (rest s)" arbitrary: s rule: less_induct)
  case less
  let ?d = "take 1024 (rest s)"
  obtain t where t: "u_read U fd buf 1024 s = Some (of_nat (length ?d), t)" "bytes (u_mem U t) buf (length ?d) = ?d"
    "inv t" "rest t = drop 1024 (rest s)" "out t = out s" using read_file [OF less.prems] by blast
  show ?case
  proof (cases "rest s = []")
    case True
    then show ?thesis using t by (subst cat_loop.simps) (simp add: emit_Nil)
  next
    case False
    define n where "n = length ?d"
    have n: "n < 2 ^ 31" "n \<noteq> 0" "n \<le> 1024" using False by (auto simp: n_def)
    then have "region buf n \<subseteq> own" using buf_own [OF t(3)] region_mono [of n 1024 buf] by auto
    then obtain u where u: "u_write U 1 buf (of_nat n) t = Some (0, u)" "inv u" "out u = emit ?d (out t)"
      using write_out [OF t(3) n(1), of buf] t(2) by (auto simp: n_def)
    have r: "rest u = drop 1024 (rest s)" using write_rest [OF t(3) n(1) \<open>region buf n \<subseteq> own\<close> u(1)] t(4) by simp
    have "length (rest u) < length (rest s)" using False by (simp add: r)
    from less.hyps [OF this u(2)] obtain v where v: "cat_loop U buf lit fd u = Some (0, v)" "inv v" "rest v = []"
      "out v = emit (rest u) (out u)" by blast
    have "(of_nat n :: i32) \<noteq> 0" "(of_nat n :: i32) \<noteq> -1"
      using u32_of_nat_eq_iff [of n 0] n u32_of_nat_eq_iff [of n "2 ^ 32 - 1"] by auto
    then have "cat_loop U buf lit fd s = cat_loop U buf lit fd u"
      using t(1) u(1) by (subst cat_loop.simps) (auto simp: n_def)
    moreover have "out v = emit (rest s) (out s)"
      using v(4) u(3) t(5) r emit_append [of ?d "drop 1024 (rest s)"] by simp
    ultimately show ?thesis using v by auto
  qed
qed

end

section \<open>The terminal of the kernel\<close>

definition screen_of :: "'a keyboard_scheme \<Rightarrow> screen" where
  "screen_of s = abs_screen (cursor_x s, cursor_y s, s)"

text \<open>
  Descriptor 1 of the running process is its terminal, the cursor is on the screen, and the program's memory,
  the frame buffer and the file system image are apart.
\<close>

definition program_ready :: "u32 set \<Rightarrow> 'a kernel_scheme \<Rightarrow> bool" where
  "program_ready own s \<longleftrightarrow>
     fb_flags (current_file 1 s) \<noteq> 0 \<and> file_op_table_ptr (current_file 1 s) = STDOUT \<and> screen_wf (screen_of s) \<and>
     own \<inter> region video 4000 = {} \<and> own \<inter> image_region (mem s) (bootmebb s) = {} \<and>
     image_region (mem s) (bootmebb s) \<inter> region video 4000 = {}"

text \<open>What the terminal shows: the colour of the text, the screen and the cursor.\<close>

definition terminal_view :: "'a keyboard_scheme \<Rightarrow> u8 \<times> screen" where
  "terminal_view s = (attr s, screen_of s)"

fun type_text :: "u8 list \<Rightarrow> u8 \<times> screen \<Rightarrow> u8 \<times> screen" where
  "type_text cs (a, t) = (a, fold (put_char a) cs t)"

lemma type_text_append: "type_text (xs @ ys) v = type_text ys (type_text xs v)"
  by (cases v) simp

lemma type_text_Nil: "type_text [] v = v"
  by (cases v) simp

text \<open>Changes of the program's own memory show neither on the screen nor in the image.\<close>

lemma own_memory:
  assumes "program_ready own s" "\<And>p. p \<notin> own \<Longrightarrow> m p = mem s p"
  shows "program_ready own (s\<lparr>mem := m\<rparr>)" "terminal_view (s\<lparr>mem := m\<rparr>) = terminal_view s"
    "image_agrees (bootmebb s) (mem s) m"
proof -
  have apart: "own \<inter> region video 4000 = {}" "own \<inter> image_region (mem s) (bootmebb s) = {}"
    using assms(1) by (simp_all add: program_ready_def)
  then show ag: "image_agrees (bootmebb s) (mem s) m" unfolding image_agrees_def using assms(2) by blast
  have "screen_bytes m = screen_bytes (mem s)"
    unfolding screen_bytes_def by (rule bytes_cong, rule assms(2)) (use apart(1) in blast)
  then have scr: "screen_of (s\<lparr>mem := m\<rparr>) = screen_of s" by (simp add: screen_of_def)
  show "terminal_view (s\<lparr>mem := m\<rparr>) = terminal_view s" by (simp add: terminal_view_def scr)
  show "program_ready own (s\<lparr>mem := m\<rparr>)"
    using assms(1) image_agrees_counts(3) [OF ag] by (simp add: program_ready_def scr current_file_def)
qed

text \<open>The processes, the directory counter and the image are the same.\<close>

definition same_files :: "'a kernel_scheme \<Rightarrow> 'a kernel_scheme \<Rightarrow> bool" where
  "same_files s t \<longleftrightarrow> pcb_view t = pcb_view s \<and> bootmebb t = bootmebb s \<and>
     read_directory_index t = read_directory_index s \<and> image_agrees (bootmebb s) (mem s) (mem t)"

lemma terminal_write:
  assumes ready: "program_ready own s" and n: "n < 2 ^ 31" and b: "region b n \<subseteq> own"
  obtains t where "sys_call_write dev 1 b (of_nat n) s = Some (0, t)" "program_ready own t"
    "terminal_view t = type_text (bytes (mem s) b n) (terminal_view s)" "\<And>p. p \<in> own \<Longrightarrow> mem t p = mem s p"
    "same_files s t"
proof -
  note ready' = ready [unfolded program_ready_def]
  have cur: "unat (cursor_x s) < 80" "unat (cursor_y s) \<le> 24" using ready' by (simp_all add: screen_wf_def screen_of_def)
  have "region b n \<inter> region video 4000 = {}" using b ready' by blast
  then obtain t where t: "write_Terminal b (of_nat n) s = (0, t)"
    "screen_of t = fold (put_char (attr s)) (bytes (mem s) b n) (screen_of s)" "screen_wf (screen_of t)" "drawn s t"
    unfolding screen_of_def by (rule write_Terminal_effect [OF cur n])
  have more: "keyboard.more t = keyboard.more s" using more_write_Terminal [of b "of_nat n" s] t(1) by simp
  then have view: "pcb_view t = pcb_view s" by (rule pcb_view_keyboard)
  from more have boot: "bootmebb t = bootmebb s" "read_directory_index t = read_directory_index s" by (cases s; cases t; simp)+
  have ag: "image_agrees (bootmebb s) (mem s) (mem t)" using t(4) ready' by (auto simp: image_agrees_def drawn_def)
  have "sys_call_write dev 1 b (of_nat n) s = Some (0, t)"
    using ready' t(1) by (simp add: sys_call_write_def bad_fd_def call_write_def)
  moreover have "program_ready own t"
    using ready' t(3) image_agrees_counts(3) [OF ag] view by (simp add: program_ready_def boot current_file_def pcb_view_def)
  moreover have "terminal_view t = type_text (bytes (mem s) b n) (terminal_view s)"
    using t(2,4) by (simp add: terminal_view_def drawn_def)
  moreover have "mem t p = mem s p" if "p \<in> own" for p using t(4) that ready' by (auto simp: drawn_def)
  ultimately show thesis using that view boot ag by (simp add: same_files_def)
qed

text \<open>
  A condition \<open>K\<close> on the state that output keeps, since it only looks at the processes and the image; the
  interpretation carries one along.
\<close>

definition kept_by_output :: "('a process_state \<Rightarrow> bool) \<Rightarrow> bool" where
  "kept_by_output K \<longleftrightarrow> (\<forall>s t h. K (s, h) \<longrightarrow> same_files s t \<longrightarrow> K (t, h))"

fun printing :: "('a process_state \<Rightarrow> bool) \<Rightarrow> u32 set \<Rightarrow> 'a process_state \<Rightarrow> bool" where
  "printing K own (s, h) \<longleftrightarrow> program_ready own s \<and> K (s, h) \<and> kept_by_output K"

interpretation kernel_output: program_output "kernel_calls A dev child" "printing K own" own
  "\<lambda>(s, h). terminal_view s" type_text for A dev child K own
proof (unfold_locales, goal_cases)
  case (1 m s)
  show ?case by (cases s) simp
next
  case (2 s m)
  obtain k h where s: "s = (k, h)" by fastforce
  have "program_ready own k" using 2(1) by (simp add: s)
  note o = own_memory [OF this, of m]
  from 2 o(1,3) have "program_ready own (k\<lparr>mem := m\<rparr>)" "same_files k (k\<lparr>mem := m\<rparr>)"
    by (simp_all add: s same_files_def)
  with 2(1) show ?case by (auto simp: s kept_by_output_def)
next
  case (3 s m)
  then show ?case by (cases s) (auto intro: own_memory)
next
  case (4 s n b)
  obtain k h where s: "s = (k, h)" by fastforce
  have "program_ready own k" using 4(1) by (simp add: s)
  then obtain t where t: "sys_call_write dev 1 b (of_nat n) k = Some (0, t)" "program_ready own t"
    "terminal_view t = type_text (bytes (mem k) b n) (terminal_view k)" "\<And>p. p \<in> own \<Longrightarrow> mem t p = mem k p"
    "same_files k t"
    by (rule terminal_write [where dev = dev, OF _ 4(2,3)]) blast
  moreover have "K (t, h)" "kept_by_output K" using 4(1) t(5) by (auto simp: s kept_by_output_def)
  ultimately show ?case by (intro exI [of _ "(t, h)"]) (simp add: s)
qed

section \<open>Reading a regular file\<close>

text \<open>The name of a regular file with content \<open>fc\<close>.\<close>

definition names_file :: "memory \<Rightarrow> u32 \<Rightarrow> u8 list \<Rightarrow> u8 list \<Rightarrow> bool" where
  "names_file m boot nm fc \<longleftrightarrow>
     (\<exists>k. let e = d_table_entry boot (of_nat k) in
        lookup_name m boot (take 32 nm) = Some k \<and> file_type m e = 2 \<and> file_wf m boot (inode_num m e) \<and>
        file_content m boot (inode_num m e) = fc)"

lemma file_type_agrees:
  assumes "image_agrees boot m m'" "k < 63"
  shows "file_type m' (d_table_entry boot (of_nat k)) = file_type m (d_table_entry boot (of_nat k))"
proof -
  have "region (d_table_entry boot (of_nat k) + 32) 4 \<subseteq> region (d_table_entry boot (of_nat k)) 64"
    using region_shift_subset [of 32 4 64 "d_table_entry boot (of_nat k)"] by simp
  also have "\<dots> \<subseteq> image_region m boot" using d_table_entry_region [OF assms(2)] boot_in_image by blast
  finally show ?thesis
    unfolding file_type_def using assms(1) by (intro load32_cong) (auto simp: image_agrees_def)
qed

lemma names_file_agrees:
  assumes ag: "image_agrees boot m m'" and "names_file m boot nm fc"
  shows "names_file m' boot nm fc"
proof -
  from assms(2) obtain k where k: "lookup_name m boot (take 32 nm) = Some k" "file_type m (d_table_entry boot (of_nat k)) = 2"
    "file_wf m boot (inode_num m (d_table_entry boot (of_nat k)))"
    "file_content m boot (inode_num m (d_table_entry boot (of_nat k))) = fc"
    by (auto simp: names_file_def Let_def)
  then have "k < 63" by (simp add: lookup_name_Some)
  with k show ?thesis
    using lookup_agrees [OF ag] file_type_agrees [OF ag, of k] image_agrees_file [OF ag k(3)]
    by (simp add: names_file_def Let_def)
qed

definition copying :: "u32 set \<Rightarrow> i32 \<Rightarrow> u32 \<Rightarrow> 'a kernel_scheme \<Rightarrow> bool" where
  "copying own fd buf s \<longleftrightarrow> program_ready own s \<and> readable fd buf 1024 s \<and> region buf 1024 \<subseteq> own"

lemma copying_write:
  assumes "copying own fd buf s" "n < 2 ^ 31" "region b n \<subseteq> own"
  obtains t where "sys_call_write dev 1 b (of_nat n) s = Some (0, t)" "copying own fd buf t"
    "terminal_view t = type_text (bytes (mem s) b n) (terminal_view s)" "\<And>p. p \<in> own \<Longrightarrow> mem t p = mem s p"
    "unread fd t = unread fd s"
proof -
  have c: "program_ready own s" "readable fd buf 1024 s" "region buf 1024 \<subseteq> own" using assms(1) by (simp_all add: copying_def)
  obtain t where t: "sys_call_write dev 1 b (of_nat n) s = Some (0, t)" "program_ready own t"
    "terminal_view t = type_text (bytes (mem s) b n) (terminal_view s)" "\<And>p. p \<in> own \<Longrightarrow> mem t p = mem s p"
    "same_files s t"
    by (rule terminal_write [where dev = dev, OF c(1) assms(2,3)]) blast
  from readable_cong [OF _ _ _ c(2), of t] t c(3) show thesis by (intro that [of t]) (simp_all add: copying_def same_files_def)
qed

lemma copying_set:
  assumes "copying own fd buf s" "\<And>p. p \<notin> own \<Longrightarrow> m p = mem s p"
  shows "copying own fd buf (s\<lparr>mem := m\<rparr>)" "unread fd (s\<lparr>mem := m\<rparr>) = unread fd s" "terminal_view (s\<lparr>mem := m\<rparr>) = terminal_view s"
proof -
  have c: "program_ready own s" "readable fd buf 1024 s" "region buf 1024 \<subseteq> own" using assms(1) by (simp_all add: copying_def)
  note o = own_memory [OF c(1) assms(2)]
  note r = readable_cong [of "s\<lparr>mem := m\<rparr>" s fd buf 1024, OF _ _ _ c(2)]
  show "copying own fd buf (s\<lparr>mem := m\<rparr>)" "unread fd (s\<lparr>mem := m\<rparr>) = unread fd s" "terminal_view (s\<lparr>mem := m\<rparr>) = terminal_view s"
    using o r c(3) by (simp_all add: copying_def)
qed

lemma view_update_file [simp]:
  "screen_of (update_file fd f s) = screen_of s" "attr (update_file fd f s) = attr s"
  "terminal_view (update_file fd f s) = terminal_view s"
  by (simp_all add: update_file_def update_PCB_def screen_of_def attr_def terminal_view_def)

lemma current_other_file:
  assumes "unat fd' \<noteq> unat fd" shows "current_file fd' (update_file fd f s) = current_file fd' s"
proof (cases "unat (current_process_ID s) < length (PCB_array s)")
  case True
  with assms show ?thesis by (simp add: current_file_def update_file_def)
qed (simp add: current_file_def update_file_def update_PCB_def list_update_beyond)

lemma program_ready_update_file:
  assumes "program_ready own s" "unat fd \<noteq> 1" shows "program_ready own (update_file fd f s)"
  using assms by (simp add: program_ready_def current_other_file)

lemma copying_read:
  assumes "copying own fd buf s"
  defines "d \<equiv> take 1024 (unread fd s)"
  obtains t where "sys_call_read dentry h fd buf 1024 s = Some (of_nat (length d), t, h)" "bytes (mem t) buf (length d) = d"
    "copying own fd buf t" "unread fd t = drop 1024 (unread fd s)" "terminal_view t = terminal_view s"
proof -
  have c: "program_ready own s" "readable fd buf 1024 s" "region buf 1024 \<subseteq> own" using assms(1) by (simp_all add: copying_def)
  have u: "unat (1024 :: i32) = 1024" by simp
  let ?t = "after_read fd buf d s"
  note after = after_read_readable [OF c(2), unfolded u, folded d_def]
  have "length d < 2 ^ 31" using unread_small(1) [OF c(2)] by (simp add: d_def)
  then have "bytes (mem ?t) buf (length d) = d" using bytes_store_bytes [of d "mem s" buf] by (simp add: after_read_def)
  moreover have "sys_call_read dentry h fd buf 1024 s = Some (of_nat (length d), ?t, h)"
    using sys_call_read_file [OF c(2), unfolded u, folded d_def] .
  moreover have "region buf (length d) \<subseteq> own" using c(3) region_mono [of "length d" 1024 buf] by (auto simp: d_def)
  then have "store_bytes (mem s) buf d p = mem s p" if "p \<notin> own" for p using that by (intro store_bytes_outside) auto
  note o = own_memory [OF c(1) this]
  have "unat fd \<noteq> unat (1 :: i32)" using c(2) unsigned_word_eqI [of fd 1] by (auto simp only: readable_def)
  then have "program_ready own ?t"
    unfolding after_read_def using o(1) by (intro program_ready_update_file) simp_all
  then have "copying own fd buf ?t" using after(1) c(3) by (simp add: copying_def)
  moreover have "terminal_view ?t = terminal_view s" using o(2) by (simp add: after_read_def)
  ultimately show thesis using that after(2) by blast
qed

interpretation kernel_copy: file_copy "kernel_calls A dev child" "\<lambda>(s, h). copying own fd buf s" own
  "\<lambda>(s, h). terminal_view s" type_text fd buf "\<lambda>(s, h). unread fd s" for A dev child own fd buf
proof (unfold_locales, goal_cases)
  case (1 m s)
  show ?case by (cases s) simp
next
  case (2 s m)
  then show ?case by (cases s) (auto intro: copying_set)
next
  case (3 s m)
  then show ?case by (cases s) (auto intro: copying_set)
next
  case (4 s n b)
  obtain k h where s: "s = (k, h)" by fastforce
  have "copying own fd buf k" using 4(1) by (simp add: s)
  then obtain t where "sys_call_write dev 1 b (of_nat n) k = Some (0, t)" "copying own fd buf t"
    "terminal_view t = type_text (bytes (mem k) b n) (terminal_view k)" "\<And>p. p \<in> own \<Longrightarrow> mem t p = mem k p"
    by (rule copying_write [where dev = dev, OF _ 4(2,3)]) blast
  then show ?case by (intro exI [of _ "(t, h)"]) (simp add: s)
next
  case (5 s)
  then show ?case by (cases s) (simp add: copying_def)
next
  case (6 s)
  obtain k h where s: "s = (k, h)" by fastforce
  have c: "copying own fd buf k" using 6 by (simp add: s)
  obtain t where "sys_call_read (at_dentry A) h fd buf 1024 k = Some (of_nat (length (take 1024 (unread fd k))), t, h)"
    "bytes (mem t) buf (length (take 1024 (unread fd k))) = take 1024 (unread fd k)" "copying own fd buf t"
    "unread fd t = drop 1024 (unread fd k)" "terminal_view t = terminal_view k" by (rule copying_read [OF c])
  then show ?case by (intro exI [of _ "(t, h)"]) (simp add: s)
next
  case (7 s n b r t)
  obtain k h where s: "s = (k, h)" by fastforce
  have "copying own fd buf k" using 7(1) by (simp add: s)
  then obtain u where "sys_call_write dev 1 b (of_nat n) k = Some (0, u)" "unread fd u = unread fd k"
    by (rule copying_write [where dev = dev, OF _ 7(2,3)]) blast
  then show ?case using 7(4) by (auto simp: s)
next
  case (8 x)
  show ?case by (rule type_text_Nil)
next
  case (9 xs ys x)
  show ?case by (rule type_text_append)
qed

lemma open_for_copying:
  assumes ready: "program_ready own s" and name: "cstring (mem s) filename cs" "cs \<noteq> []"
    and file': "names_file (mem s) (bootmebb s) cs fc" "length fc + 1024 < 2 ^ 31"
    and cur: "unat (current_process_ID s) < length (PCB_array s)"
      "length (file_array (PCB_array s ! unat (current_process_ID s))) = 8"
    and slot: "fd_alloc (file_array (PCB_array s ! unat (current_process_ID s))) = Some i"
    and layout: "region buf 1024 \<subseteq> own" "region dentry 64 \<subseteq> own"
  obtains t where "sys_call_open dentry filename s = Some (of_nat i, t)" "copying own (of_nat i) buf t" "unread (of_nat i) t = fc"
    "terminal_view t = terminal_view s" "\<And>p. p \<notin> region dentry 64 \<Longrightarrow> mem t p = mem s p" "2 \<le> i" "i < 8"
proof -
  let ?b = "bootmebb s" and ?m = "mem s"
  have apart: "own \<inter> image_region ?m ?b = {}" using ready by (simp add: program_ready_def)
  from file'(1) obtain k where k: "lookup_name ?m ?b (take 32 cs) = Some k"
    "file_type ?m (d_table_entry ?b (of_nat k)) = 2" "file_wf ?m ?b (inode_num ?m (d_table_entry ?b (of_nat k)))"
    "file_content ?m ?b (inode_num ?m (d_table_entry ?b (of_nat k))) = fc"
    by (auto simp: names_file_def Let_def)
  define e where "e = d_table_entry ?b (of_nat k)"
  define t where "t = opened i FILE_DEV (inode_num ?m e) (s\<lparr>mem := memcpy ?m dentry e 64\<rparr>)"
  have ap: "region dentry 64 \<inter> image_region ?m ?b = {}" "region buf 1024 \<inter> image_region ?m ?b = {}"
    using apart layout by blast+
  have op: "sys_call_open dentry filename s = Some (of_nat i, t)" "readable (of_nat i) buf 1024 t" "unread (of_nat i) t = fc"
    unfolding t_def using open_regular_file [of s filename cs dentry k e fc i 1024 buf] name cur ap k file'(2) slot
    by (simp_all add: e_def)
  have i: "2 \<le> i" "i < 8" using slot cur by (simp_all add: fds.alloc_iff)
  have "region e 64 \<subseteq> region ?b 4096" unfolding e_def using k(1) by (intro d_table_entry_region) (simp add: lookup_name_Some)
  then have "region dentry 64 \<inter> region e 64 = {}" using ap(1) boot_in_image [of ?b ?m] by blast
  note copied = dentry_copied(4) [OF this]
  from copied have "memcpy ?m dentry e 64 p = ?m p" if "p \<notin> own" for p using that layout(2) by blast
  note o2 = own_memory [OF ready this]
  have "program_ready own t"
    unfolding t_def opened_def using o2(1) i by (intro program_ready_update_file) simp_all
  then have "copying own (of_nat i) buf t" using op(2) layout(1) by (simp add: copying_def)
  moreover have "terminal_view t = terminal_view s" using o2(2) by (simp add: t_def opened_def)
  ultimately show thesis using that op(1,3) i copied by (simp add: t_def opened_def)
qed

section \<open>Properties\<close>

text \<open>
  C5: \<^verbatim>\<open>cat\<close> on this kernel, from its arguments to the screen: called with the name of a regular file, it types
  exactly the content of the file on the terminal and returns 0.
\<close>

theorem cat_prints_file:
  assumes ready: "program_ready own s"
    and command: "has_command (prog @ 32 # name) s" "32 \<notin> set prog" "prog \<noteq> []" "name \<noteq> []"
    and files: "names_file (mem s) (bootmebb s) name fc" "length fc + 1024 < 2 ^ 31"
    and cur: "unat (current_process_ID s) < length (PCB_array s)"
      "length (file_array (PCB_array s ! unat (current_process_ID s))) = 8"
    and slot: "fd_alloc (file_array (PCB_array s ! unat (current_process_ID s))) = Some i"
    and layout: "buf \<noteq> 0" "region buf 1024 \<subseteq> own" "region (at_words A) 41 \<subseteq> own" "region (at_dentry A) 64 \<subseteq> own"
      "region buf 40 \<inter> region (at_words A) 41 = {}"
  shows "\<exists>t. cat_main (kernel_calls A dev child) buf lit (s, h) = Some (0, t) \<and>
    terminal_view (fst t) = type_text fc (terminal_view s)"
proof -
  let ?b = "bootmebb s" and ?U = "kernel_calls A dev child"
  obtain m where m: "sys_call_getargs (at_words A) buf 1024 s = Some (0, s\<lparr>mem := m\<rparr>)" "cstring m buf name"
    "\<And>p. p \<notin> region buf 40 \<Longrightarrow> p \<notin> region (at_words A) 41 \<Longrightarrow> m p = mem s p"
    by (rule getargs_effect [OF command(1-3) layout(1) _ layout(5), of 1024]) simp_all
  define s1 where "s1 = s\<lparr>mem := m\<rparr>"
  have "m p = mem s p" if "p \<notin> own" for p using that layout(2,3) region_mono [of 40 1024 buf] by (intro m(3)) auto
  note o1 = own_memory [OF ready this]
  obtain t where t: "sys_call_open (at_dentry A) buf s1 = Some (of_nat i, t)" "copying own (of_nat i) buf t" "unread (of_nat i) t = fc"
    "terminal_view t = terminal_view s1" "2 \<le> i" "i < 8"
    by (rule open_for_copying [of own s1 buf name fc i buf "at_dentry A"])
      (use o1(1) m(2) command(4) names_file_agrees [OF o1(3) files(1)] files(2) cur slot layout(2,4) in \<open>auto simp: s1_def\<close>)
  from kernel_copy.cat_loop_copies [of own "of_nat i" buf "(t, h)" A dev child lit, simplified, OF t(2)]
  obtain u where u: "cat_loop ?U buf lit (of_nat i) (t, h) = Some (0, u)" "terminal_view (fst u) = type_text fc (terminal_view t)"
    using t(3) by (cases) auto
  have "terminal_view t = terminal_view s" using o1(2) t(4) by (simp add: s1_def)
  moreover have "(of_nat i :: i32) \<noteq> -1" using u32_of_nat_eq_iff [of i "2 ^ 32 - 1"] t(6) by auto
  then have "cat_main ?U buf lit (s, h) = cat_loop ?U buf lit (of_nat i) (t, h)"
    using m(1) t(1) by (simp add: cat_main_def s1_def [symmetric])
  ultimately show ?thesis using u by auto
qed

definition cat_kernel :: kernel where
  "cat_kernel = elf_kernel\<lparr>PCB_array := (PCB_array elf_kernel)[0 := (PCB_array elf_kernel ! 0)
     \<lparr>file_array := initial_file_array, command_global := ascii ''cat a'' @ replicate 235 0\<rparr>]\<rparr>"

lemma cat_kernel_fields:
  "mem cat_kernel = elf_image" "bootmebb cat_kernel = 0x400000" "current_process_ID cat_kernel = 0"
  "length (PCB_array cat_kernel) = 6" "file_array (PCB_array cat_kernel ! 0) = initial_file_array"
  "command_global (PCB_array cat_kernel ! 0) = ascii ''cat a'' @ replicate 235 0"
  by (simp_all add: cat_kernel_def elf_kernel_def shell_kernel_def)

lemma cat_kernel_cursor: "cursor_x cat_kernel = 0" "cursor_y cat_kernel = 0"
  by (simp_all add: cat_kernel_def elf_kernel_def shell_kernel_def reset_kernel_def reset_paging_def reset_keyboard_def
      keyboard.defs paging.defs console.defs)

lemma cat_kernel_ready: "program_ready (region 0x8000000 0x3000) cat_kernel"
proof -
  let ?own = "region 0x8000000 0x3000"
  have "?own \<inter> region video 4000 = {}" "?own \<inter> image_region elf_image 0x400000 = {}"
    "image_region elf_image 0x400000 \<inter> region video 4000 = {}"
    unfolding image_region_def elf_image_size video_def by (rule region_disjointI; simp)+
  then show ?thesis
    by (simp add: program_ready_def cat_kernel_fields cat_kernel_cursor current_file_def initial_file_array_def stdout_block_def
        screen_of_def screen_wf_def)
qed

theorem cat_prints_file_witness:
  "\<exists>t. cat_main (kernel_calls \<lparr>at_words = 0x8002000, at_dentry = 0x8002100\<rparr> (\<lambda>_ _. 0) (\<lambda>_ _. None)) 0x8000000 0x8001000 (cat_kernel, [])
     = Some (0, t) \<and> terminal_view (fst t) = type_text elf_file (terminal_view cat_kernel)"
proof -
  let ?own = "region 0x8000000 0x3000"
  have sub: "region (0x8000000 + of_nat j) n \<subseteq> ?own" if "j + n \<le> 0x3000" for j n
    using region_shift_subset [OF that] .
  have "program_ready ?own cat_kernel" by (rule cat_kernel_ready)
  moreover have "replicate 235 0 = (0 :: u8) # replicate 234 0" using replicate_Suc [of 234 "0 :: u8"] by simp
  then have "has_command (ascii ''cat'' @ 32 # ascii ''a'') cat_kernel"
    by (simp add: has_command_def command_strlen_def command_text_def cat_kernel_fields ascii_def Let_def)
  moreover have t: "file_type elf_image 0x400040 = 2" "inode_num elf_image 0x400040 = 0"
    by (simp_all add: file_type_def inode_num_def load32_def elf_image_def)
  then have "names_file elf_image 0x400000 (ascii ''a'') elf_file"
    unfolding names_file_def Let_def
    by - (rule exI [of _ 0], simp add: ascii_def elf_lookup elf_image_wf elf_image_content d_table_entry_def)
  moreover have "fd_alloc initial_file_array = Some 2"
    unfolding fds.alloc_iff by (simp add: fd_used_def initial_file_array_def free_block_def)
  moreover have "region 0x8000000 40 \<inter> region 0x8002000 41 = {}" by (rule region_disjointI) simp_all
  ultimately show ?thesis
    using cat_prints_file [where own = ?own and s = cat_kernel and prog = "ascii ''cat''" and name = "ascii ''a''"
        and fc = elf_file and i = 2 and buf = "0x8000000" and A = "\<lparr>at_words = 0x8002000, at_dentry = 0x8002100\<rparr>"
        and dev = "\<lambda>_ _. 0" and child = "\<lambda>_ _. None" and lit = "0x8001000" and h = "[]"]
      sub [of 0 1024] sub [of "0x2000" 41] sub [of "0x2100" 64] elf_file_facts(1)
    by (simp add: cat_kernel_fields ascii_def initial_file_array_def)
qed

end
