(* ===== verification/User_Tests.thy ===== *)
theory User_Tests
  imports Program_Runs
begin

text \<open>
  \<^verbatim>\<open>ece391syserr.c\<close>: the tests of the error answers of the system calls, and the proof that this kernel
  passes them.
\<close>

section \<open>The tests\<close>

definition NEG_FD :: i32 where "NEG_FD = -1073741823"
definition BIG_FD :: i32 where "BIG_FD = 1073741823"

text \<open>\<^verbatim>\<open>SYSTEM_CALL_ECE\<close> of \<^verbatim>\<open>wrapper.S\<close> up to the call through the table, whose entries are the \<open>handler\<close>.\<close>

definition SYSTEM_CALL_ECE :: "(i32 \<Rightarrow> 's \<Rightarrow> (i32 \<times> 's) option) \<Rightarrow> i32 \<Rightarrow> 's \<Rightarrow> (i32 \<times> 's) option" where
  "SYSTEM_CALL_ECE handler num st = (if sint num < 1 \<or> sint num > 10 then Some (-1, st) else handler (num - 1) st)"

text \<open>A call that must fail, and the message when it does not; the verdict of a test.\<close>

definition expect_error :: "'s calls \<Rightarrow> u32 \<Rightarrow> string \<Rightarrow> ('s \<Rightarrow> (i32 \<times> 's) option) \<Rightarrow> i32 \<times> 's \<Rightarrow> (i32 \<times> 's) option" where
  "expect_error U lit msg call = (\<lambda>(fail, st). do {
     (r, st) \<leftarrow> call st;
     if -1 \<noteq> r then fail_with U lit msg 2 st else Some (fail, st)
   })"

definition verdict :: "'s calls \<Rightarrow> u32 \<Rightarrow> string \<Rightarrow> i32 \<times> 's \<Rightarrow> (i32 \<times> 's) option" where
  "verdict U lit name = (\<lambda>(fail, st). fail_with U lit (name @ (if fail \<noteq> 0 then '': FAIL'' else '': PASS'')) fail st)"

definition err_fd :: "string \<Rightarrow> i32 \<Rightarrow> 's calls \<Rightarrow> u32 \<Rightarrow> u32 \<Rightarrow> 's \<Rightarrow> (i32 \<times> 's) option" where
  "err_fd name fd U buf lit st =
     do {
       x \<leftarrow> expect_error U lit ''read fail'' (u_read U fd buf 31) (0, st);
       x \<leftarrow> expect_error U lit ''write fail'' (u_write U fd buf 31) x;
       x \<leftarrow> expect_error U lit ''close fail'' (u_close U fd) x;
       verdict U lit name x
     }"

definition err_neg_fd :: "'s calls \<Rightarrow> u32 \<Rightarrow> u32 \<Rightarrow> 's \<Rightarrow> (i32 \<times> 's) option" where
  "err_neg_fd = err_fd ''err_neg_fd'' NEG_FD"

definition err_big_fd :: "'s calls \<Rightarrow> u32 \<Rightarrow> u32 \<Rightarrow> 's \<Rightarrow> (i32 \<times> 's) option" where
  "err_big_fd = err_fd ''err_big_fd'' BIG_FD"

text \<open>The two loops of \<^verbatim>\<open>err_open_lots\<close>: \<open>k\<close> rounds are left.\<close>

fun open_lots :: "nat \<Rightarrow> 's calls \<Rightarrow> u32 \<Rightarrow> i32 \<Rightarrow> 's \<Rightarrow> (i32 \<times> 's) option" where
  "open_lots 0 U lit cnt st = Some (cnt, st)"
| "open_lots (Suc k) U lit cnt st =
     do {
       (r, st) \<leftarrow> u_open U lit (with_literal U lit ''.'' st);
       open_lots k U lit (if -1 = r then cnt + 1 else cnt) st
     }"

fun close_lots :: "nat \<Rightarrow> 's calls \<Rightarrow> i32 \<Rightarrow> 's \<Rightarrow> 's option" where
  "close_lots 0 U i st = Some st"
| "close_lots (Suc k) U i st = do { (r, st) \<leftarrow> u_close U i st; close_lots k U (i + 1) st }"

definition err_open_lots :: "'s calls \<Rightarrow> u32 \<Rightarrow> 's \<Rightarrow> (i32 \<times> 's) option" where
  "err_open_lots U lit st =
     do {
       (cnt, st) \<leftarrow> open_lots 7 U lit 0 st;
       st \<leftarrow> close_lots 6 U 2 st;
       if cnt = 1 then fail_with U lit ''err_open_lots: PASS'' 0 st else fail_with U lit ''err_open_lots: FAIL'' 2 st
     }"

definition open_named :: "'s calls \<Rightarrow> u32 \<Rightarrow> string \<Rightarrow> 's \<Rightarrow> (i32 \<times> 's) option" where
  "open_named U lit name st = u_open U lit (with_literal U lit name st)"

definition err_open :: "'s calls \<Rightarrow> u32 \<Rightarrow> 's \<Rightarrow> (i32 \<times> 's) option" where
  "err_open U lit st =
     do {
       x \<leftarrow> expect_error U lit (CHR 0x27 # ''helloo'' @ CHR 0x27 # '' fail'') (open_named U lit ''helloo'') (0, st);
       x \<leftarrow> expect_error U lit (CHR 0x27 # ''shel'' @ CHR 0x27 # '' fail'') (open_named U lit ''shel'') x;
       x \<leftarrow> expect_error U lit ''empty string fail'' (open_named U lit '''') x;
       verdict U lit ''err_open'' x
     }"

text \<open>A call on the descriptors \<open>i\<close>, \<open>i + 1\<close>, \dots, \<open>k\<close> of them.\<close>

fun expect_errors :: "nat \<Rightarrow> 's calls \<Rightarrow> u32 \<Rightarrow> string \<Rightarrow> (i32 \<Rightarrow> 's \<Rightarrow> (i32 \<times> 's) option) \<Rightarrow> i32 \<Rightarrow> i32 \<times> 's \<Rightarrow> (i32 \<times> 's) option" where
  "expect_errors 0 U lit msg call i x = Some x"
| "expect_errors (Suc k) U lit msg call i x =
     Option.bind (expect_error U lit msg (call i) x) (expect_errors k U lit msg call (i + 1))"

definition err_unopened :: "'s calls \<Rightarrow> u32 \<Rightarrow> u32 \<Rightarrow> 's \<Rightarrow> (i32 \<times> 's) option" where
  "err_unopened U buf lit st =
     do {
       x \<leftarrow> expect_errors 8 U lit ''close unopened or invalid fd fail'' (u_close U) 0 (0, st);
       x \<leftarrow> expect_errors 6 U lit ''read from unopened fd fail'' (\<lambda>i. u_read U i buf 31) 2 x;
       x \<leftarrow> expect_errors 6 U lit ''write to unopened fd fail'' (\<lambda>i. u_write U i buf 31) 2 x;
       verdict U lit ''err_unopened'' x
     }"

definition err_vidmap :: "'s calls \<Rightarrow> u32 \<Rightarrow> 's \<Rightarrow> (i32 \<times> 's) option" where
  "err_vidmap U lit st =
     do {
       x \<leftarrow> expect_error U lit ''Null pointer fail'' (u_vidmap U 0) (0, st);
       x \<leftarrow> expect_error U lit ''Kernel pointer fail fail'' (u_vidmap U 0x400000) x;
       verdict U lit ''err_vidmap'' x
     }"

definition err_stdin_out :: "'s calls \<Rightarrow> u32 \<Rightarrow> u32 \<Rightarrow> 's \<Rightarrow> (i32 \<times> 's) option" where
  "err_stdin_out U buf lit st =
     do {
       x \<leftarrow> expect_error U lit ''write to stdin fail'' (u_write U 0 buf 31) (0, st);
       x \<leftarrow> expect_error U lit ''read from stdout fail'' (u_read U 1 buf 31) x;
       verdict U lit ''err_stdin_out'' x
     }"

text \<open>\<open>call_sys\<close> is \<^verbatim>\<open>int $0x80\<close> with the number only.\<close>

definition err_syscall_num :: "(i32 \<Rightarrow> 's \<Rightarrow> (i32 \<times> 's) option) \<Rightarrow> 's calls \<Rightarrow> u32 \<Rightarrow> 's \<Rightarrow> (i32 \<times> 's) option" where
  "err_syscall_num call_sys U lit st =
     do {
       x \<leftarrow> expect_error U lit ''syscall 0 fail'' (call_sys 1073741823) (0, st);
       x \<leftarrow> expect_error U lit ''big num syscall fail'' (call_sys (-1073741823)) x;
       x \<leftarrow> expect_error U lit ''neg num syscall fail'' (call_sys 0) x;
       verdict U lit ''err_syscall_num'' x
     }"

text \<open>The tests one after the other, their answers added up; the switch of \<^verbatim>\<open>main\<close>, and \<^verbatim>\<open>main\<close>.\<close>

fun run_tests :: "('s \<Rightarrow> (i32 \<times> 's) option) list \<Rightarrow> i32 \<times> 's \<Rightarrow> (i32 \<times> 's) option" where
  "run_tests [] x = Some x"
| "run_tests (test # tests) (fail, st) = do { (r, st) \<leftarrow> test st; run_tests tests (fail + r, st) }"

definition syserr_tests :: "(i32 \<Rightarrow> 's \<Rightarrow> (i32 \<times> 's) option) \<Rightarrow> 's calls \<Rightarrow> u32 \<Rightarrow> u32 \<Rightarrow> ('s \<Rightarrow> (i32 \<times> 's) option) list" where
  "syserr_tests call_sys U buf lit =
     [err_neg_fd U buf lit, err_big_fd U buf lit, err_open_lots U lit, err_open U lit, err_unopened U buf lit,
      err_vidmap U lit, err_stdin_out U buf lit, err_syscall_num call_sys U lit]"

definition syserr_select ::
  "(i32 \<Rightarrow> 's \<Rightarrow> (i32 \<times> 's) option) \<Rightarrow> 's calls \<Rightarrow> u32 \<Rightarrow> u32 \<Rightarrow> i32 \<Rightarrow> 's \<Rightarrow> (i32 \<times> 's) option" where
  "syserr_select call_sys U buf lit sel st =
     (if sel = 0
      then do {
        (fail, st) \<leftarrow> run_tests (syserr_tests call_sys U buf lit) (0, st);
        fail_with U lit (CHR 0x0A # (if fail \<noteq> 0 then ''Overall Tests: FAIL'' else ''Overall Tests: PASS'')) fail st
      }
      else if 1 \<le> sint sel \<and> sint sel \<le> 8 then (syserr_tests call_sys U buf lit ! (unat sel - 1)) st
      else map_option (Pair 0) (put_literal U lit ''Invalid test number. Choose from tests 1-8 or 0'' st))"

definition syserr_main :: "(i32 \<Rightarrow> 's \<Rightarrow> (i32 \<times> 's) option) \<Rightarrow> 's calls \<Rightarrow> u32 \<Rightarrow> u32 \<Rightarrow> u32 \<Rightarrow> 's \<Rightarrow> (i32 \<times> 's) option" where
  "syserr_main call_sys U main_buf buf lit st =
     do {
       st \<leftarrow> put_literal U lit ''Choose from tests 1-8. 0 to run all: '' st;
       (cnt, st) \<leftarrow> u_read U 0 main_buf 127 st;
       if -1 = cnt then fail_with U lit ''Can't read test #'' 2 st
       else syserr_select call_sys U buf lit (ucast (u_mem U st main_buf) - 48) st
     }"

section \<open>The kernel under test\<close>

text \<open>
  The file array of the process under test: of the descriptors 2 to 7 those in \<open>P\<close> are open.  The directory has
  the name \<^verbatim>\<open>.\<close>, with one of the three types, and neither of the misspelt names.
\<close>

definition files_open :: "nat set \<Rightarrow> file_block list \<Rightarrow> bool" where
  "files_open P fs \<longleftrightarrow> length fs = 8 \<and>
     (\<forall>i \<in> {2..<8}. fb_flags (fs ! i) = (if i \<in> P then 1 else 0) \<and>
        (i \<in> P \<longrightarrow> file_op_table_ptr (fs ! i) \<in> {RTC_DEV, DIR_DEV, FILE_DEV}))"

definition test_directory :: "memory \<Rightarrow> u32 \<Rightarrow> bool" where
  "test_directory m boot \<longleftrightarrow>
     (\<exists>k. lookup_name m boot (ascii ''.'') = Some k \<and> file_type m (d_table_entry boot (of_nat k)) \<le> 2) \<and>
     lookup_name m boot (ascii ''helloo'') = None \<and> lookup_name m boot (ascii ''shel'') = None"

definition under_test :: "nat set \<Rightarrow> 'a process_state \<Rightarrow> bool" where
  "under_test P = (\<lambda>(s, h).
     unat (current_process_ID s) < length (PCB_array s) \<and>
     files_open P (file_array (PCB_array s ! unat (current_process_ID s))) \<and> test_directory (mem s) (bootmebb s))"

lemma test_directory_agrees:
  assumes ag: "image_agrees boot m m'" and "test_directory m boot" shows "test_directory m' boot"
proof -
  from assms(2) obtain k where k: "lookup_name m boot (ascii ''.'') = Some k" "file_type m (d_table_entry boot (of_nat k)) \<le> 2"
    by (auto simp: test_directory_def)
  then have "k < 63" by (simp add: lookup_name_Some)
  with k assms(2) show ?thesis
    using lookup_agrees(1) [OF ag] file_type_agrees [OF ag, of k] by (simp add: test_directory_def)
qed

lemma under_test_kept: "kept_by_output (under_test P)"
proof -
  have "under_test P (t, h)" if "under_test P (s, h)" "same_files s t" for s t :: "'a kernel_scheme" and h
    using that test_directory_agrees [of "bootmebb s" "mem s" "mem t"]
    by (simp add: under_test_def same_files_def pcb_view_def)
  then show ?thesis unfolding kept_by_output_def by blast
qed

text \<open>The program's memory with the locals of the calls, and where the literals lie.\<close>

definition test_memory :: "call_locals \<Rightarrow> u32 \<Rightarrow> u32 set \<Rightarrow> bool" where
  "test_memory A lit own \<longleftrightarrow> region lit 64 \<subseteq> own \<and> region (at_dentry A) 64 \<subseteq> own"

abbreviation testing :: "nat set \<Rightarrow> u32 set \<Rightarrow> 'a process_state \<Rightarrow> bool" where
  "testing P own \<equiv> printing (under_test P) own"

lemma testing_iff: "testing P own (s, h) \<longleftrightarrow> program_ready own s \<and> under_test P (s, h)"
  by (simp add: under_test_kept)

declare printing.simps [simp del]

lemma testingD:
  assumes "testing P own (s, h)"
  shows "program_ready own s" "unat (current_process_ID s) < length (PCB_array s)"
    "files_open P (file_array (PCB_array s ! unat (current_process_ID s)))" "test_directory (mem s) (bootmebb s)"
    "length (file_array (PCB_array s ! unat (current_process_ID s))) = 8"
  using assms unfolding testing_iff by (simp_all add: under_test_def files_open_def)

lemma files_open_alloc:
  assumes "files_open {2..<n} fs" "2 \<le> n"
  shows "fd_alloc fs = (if n < 8 then Some n else None)"
proof -
  have u: "fd_used fs j \<longleftrightarrow> j < n" if "j \<in> {2..<8}" for j
    using assms that by (simp add: files_open_def fd_used_def)
  have len: "length fs = 8" using assms(1) by (simp add: files_open_def)
  show ?thesis
  proof (cases "n < 8")
    case True
    with u assms(2) len show ?thesis by (simp add: fds.alloc_iff)
  next
    case False
    with u len show ?thesis by (cases "fd_alloc fs") (auto simp: fds.alloc_iff)
  qed
qed

section \<open>Calls that are refused\<close>

lemma expect_error_refused [simp]: "call st = Some (-1, st') \<Longrightarrow> expect_error U lit msg call (fail, st) = Some (fail, st')"
  by (simp add: expect_error_def)

lemma refused_read: "bad_fd 1 fd s \<Longrightarrow> sys_call_read dentry h fd buf n s = Some (-1, s, h)"
  by (simp add: sys_call_read_def)

lemma refused_write: "bad_fd 0 fd s \<Longrightarrow> sys_call_write dev fd buf n s = Some (-1, s)"
  by (simp add: sys_call_write_def)

lemma refused_close: "sint fd < 2 \<or> sint fd > 7 \<or> fb_flags (current_file fd s) = 0 \<Longrightarrow> sys_call_close fd s = Some (-1, s)"
  by (auto simp: sys_call_close_def)

lemma unopened_fd:
  assumes "testing P own (s, h)" "i \<in> {2..<8}" "i \<notin> P"
  shows "fb_flags (current_file (of_nat i) s) = 0"
  using testingD(3) [OF assms(1)] assms(2,3) by (simp add: files_open_def current_file_def)

lemma expect_errors_refused:
  assumes "\<And>j. i \<le> j \<Longrightarrow> j < i + k \<Longrightarrow> call (of_nat j) st = Some (-1, st)"
  shows "expect_errors k U lit msg call (of_nat i) (fail, st) = Some (fail, st)"
  using assms
proof (induction k arbitrary: i)
  case (Suc k)
  have "expect_errors k U lit msg call (of_nat (Suc i)) (fail, st) = Some (fail, st)" by (rule Suc.IH) (use Suc.prems in simp)
  then show ?case using Suc.prems [of i] by (simp add: add.commute)
qed simp

section \<open>Output and opening under test\<close>

abbreviation shown :: "'a process_state \<Rightarrow> u8 \<times> screen" where
  "shown st \<equiv> (case st of (s, h) \<Rightarrow> terminal_view s)"

lemma fail_with_prints:
  assumes "testing P own st" "region lit 64 \<subseteq> own" "length str < 63" "0 \<notin> set (ascii str)"
  obtains t where "fail_with (kernel_calls A dev child) lit str r st = Some (r, t)" "testing P own t"
    "shown t = type_text (ascii str @ [10]) (shown st)"
proof -
  have lit: "region lit (length (str @ [CHR 0x0A]) + 1) \<subseteq> own"
    using assms(2,3) region_mono [of "length (str @ [CHR 0x0A]) + 1" 64 lit] by auto
  have "0 \<notin> set (ascii (str @ [CHR 0x0A]))" "length (str @ [CHR 0x0A]) < 2 ^ 31" using assms(3,4) by (simp_all add: ascii_def)
  from kernel_output.put_literal_emits [OF assms(1) lit this(2,1)]
  obtain t where "put_literal (kernel_calls A dev child) lit (str @ [CHR 0x0A]) st = Some t" "testing P own t"
    "shown t = type_text (ascii (str @ [CHR 0x0A])) (shown st)" by blast
  then show thesis by (intro that [of t]) (simp_all add: fail_with_def ascii_def)
qed

lemma literal_state:
  assumes "testing P own (s, h)" "region lit 64 \<subseteq> own" "length str < 63" "0 \<notin> set (ascii str)"
  obtains s' where "with_literal (kernel_calls A dev child) lit str (s, h) = (s', h)" "testing P own (s', h)"
    "cstring (mem s') lit (ascii str)" "terminal_view s' = terminal_view s"
proof -
  have lit: "region lit (length str + 1) \<subseteq> own" using assms(2,3) region_mono [of "length str + 1" 64 lit] by auto
  let ?s = "s\<lparr>mem := store_bytes (mem s) lit (ascii str @ [0])\<rparr>"
  have eq: "with_literal (kernel_calls A dev child) lit str (s, h) = (?s, h)" by (simp add: with_literal_def)
  note w = kernel_output.with_literal_inv [OF assms(1) lit, of A dev child, unfolded eq]
  have "length (ascii str) < 2 ^ 31" using assms(3) by (simp add: ascii_def)
  then have "cstring (mem ?s) lit (ascii str)" using kernel_output.cstring_stored [OF assms(4)] by simp
  with w eq show thesis by (intro that [of ?s]) simp_all
qed

lemma open_refused:
  assumes t: "testing P own (s, h)" and mem: "test_memory A lit own"
    and nm: "length str < 32" "0 \<notin> set (ascii str)"
      "\<And>m b. test_directory m b \<Longrightarrow> str \<noteq> [] \<Longrightarrow> lookup_name m b (ascii str) = None"
  obtains u where "open_named (kernel_calls A dev child) lit str (s, h) = Some (-1, u, h)" "testing P own (u, h)"
    "terminal_view u = terminal_view s"
proof -
  have lit: "region lit 64 \<subseteq> own" "length str < 63" using mem nm(1) by (simp_all add: test_memory_def)
  obtain s' where s': "with_literal (kernel_calls A dev child) lit str (s, h) = (s', h)" "testing P own (s', h)"
    "cstring (mem s') lit (ascii str)" "terminal_view s' = terminal_view s" by (rule literal_state [OF t lit nm(2)])
  note ready = testingD [OF s'(2)]
  have "sys_call_open (at_dentry A) lit s' = Some (-1, s')"
  proof (cases "str = []")
    case True
    then show ?thesis using strlen_cstring [OF s'(3)] by (simp add: sys_call_open_def ascii_def)
  next
    case False
    have "region (at_dentry A) 64 \<inter> region (bootmebb s') 4096 = {}"
      using ready(1) mem boot_in_image [of "bootmebb s'" "mem s'"] by (auto simp: program_ready_def test_memory_def)
    from sys_call_open_result [OF strlen_cstring [OF s'(3)] this ready(2,5)] nm(3) [OF ready(4) False]
      cprefix_cstring [OF s'(3), of 32] nm(1)
    show ?thesis by (simp add: ascii_def)
  qed
  with s' show thesis by (intro that [of s']) (simp_all add: open_named_def)
qed

lemma files_open_update:
  assumes "files_open P fs" "i \<in> {2..<8}"
  shows "fb_flags b = 1 \<Longrightarrow> file_op_table_ptr b \<in> {RTC_DEV, DIR_DEV, FILE_DEV} \<Longrightarrow> files_open (insert i P) (fs[i := b])"
    and "fb_flags b = 0 \<Longrightarrow> files_open (P - {i}) (fs[i := b])"
  using assms unfolding files_open_def by (auto simp: nth_list_update)

lemma testing_update_file:
  assumes t: "testing P own (s, h)" and i: "i \<in> {2..<8}" and f: "\<And>fs. files_open P fs \<Longrightarrow> files_open Q (fs[i := f (fs ! i)])"
  shows "testing Q own (update_file (of_nat i) f s, h)"
proof -
  note d = testingD [OF t]
  have "program_ready own (update_file (of_nat i) f s)" using d(1) i by (intro program_ready_update_file) simp_all
  moreover have "under_test Q (update_file (of_nat i) f s, h)"
    using d(2,4) f [OF d(3)] i by (simp add: under_test_def update_file_def)
  ultimately show ?thesis by (simp add: testing_iff)
qed

lemma testing_own_memory:
  assumes "testing P own (s, h)" "\<And>p. p \<notin> own \<Longrightarrow> m p = mem s p"
  shows "testing P own (s\<lparr>mem := m\<rparr>, h)" "terminal_view (s\<lparr>mem := m\<rparr>) = terminal_view s"
    "image_agrees (bootmebb s) (mem s) m"
proof -
  note o = own_memory [OF testingD(1) [OF assms(1)] assms(2)]
  show "terminal_view (s\<lparr>mem := m\<rparr>) = terminal_view s" "image_agrees (bootmebb s) (mem s) m"
    using o(2,3) by simp_all
  show "testing P own (s\<lparr>mem := m\<rparr>, h)"
    using o testingD [OF assms(1)] test_directory_agrees [OF o(3)] unfolding testing_iff by (simp add: under_test_def)
qed

lemma open_dot:
  assumes t: "testing {2..<n} own (s, h)" and n: "2 \<le> n" "n \<le> 8" and mem: "test_memory A lit own"
  obtains u where "u_open (kernel_calls A dev child) lit (with_literal (kernel_calls A dev child) lit ''.'' (s, h))
      = Some (if n < 8 then of_nat n else -1, u, h)"
    "testing {2..<min 8 (n + 1)} own (u, h)" "terminal_view u = terminal_view s"
proof -
  have lit: "region lit 64 \<subseteq> own" "length ''.'' < 63" "0 \<notin> set (ascii ''.'')" using mem by (simp_all add: test_memory_def ascii_def)
  obtain s' where s': "with_literal (kernel_calls A dev child) lit ''.'' (s, h) = (s', h)" "testing {2..<n} own (s', h)"
    "cstring (mem s') lit (ascii ''.'')" "terminal_view s' = terminal_view s" by (rule literal_state [OF t lit])
  let ?b = "bootmebb s'"
  note ready = testingD [OF s'(2)]
  from ready(4) obtain k where k: "lookup_name (mem s') ?b (ascii ''.'') = Some k"
    "file_type (mem s') (d_table_entry ?b (of_nat k)) \<le> 2" by (auto simp: test_directory_def)
  define e where "e = d_table_entry ?b (of_nat k)"
  obtain d where d: "device_of_type (file_type (mem s') e) = Some d" "d \<in> {RTC_DEV, DIR_DEV, FILE_DEV}"
    using device_of_type_known [OF k(2)] by (auto simp: e_def)
  define m where "m = memcpy (mem s') (at_dentry A) e 64"
  have apart: "region (at_dentry A) 64 \<inter> region ?b 4096 = {}"
    using ready(1) mem boot_in_image [of ?b "mem s'"] by (auto simp: program_ready_def test_memory_def)
  have op: "sys_call_open (at_dentry A) lit s' =
      (if n < 8 then Some (of_nat n, opened n d (inode_num (mem s') e) (s'\<lparr>mem := m\<rparr>)) else Some (-1, s'\<lparr>mem := m\<rparr>))"
    using sys_call_open_result [OF strlen_cstring [OF s'(3)] apart ready(2,5)] k(1) d(1) files_open_alloc [OF ready(3) n(1)]
      cprefix_cstring [OF s'(3), of 32]
    by (simp add: ascii_def Let_def e_def m_def)
  have "k < 63" using k(1) by (simp add: lookup_name_Some)
  then have "region (at_dentry A) 64 \<inter> region e 64 = {}" using apart d_table_entry_region [of k ?b] by (auto simp: e_def)
  from dentry_copied(4) [OF this] have "m p = mem s' p" if "p \<notin> own" for p
    unfolding m_def using that mem by (auto simp: test_memory_def)
  note o = testing_own_memory [OF s'(2) this]
  show thesis
  proof (cases "n < 8")
    case True
    then have "testing (insert n {2..<n}) own (opened n d (inode_num (mem s') e) (s'\<lparr>mem := m\<rparr>), h)"
      unfolding opened_def using n d(2) o(1) by (intro testing_update_file files_open_update(1)) simp_all
    moreover have "insert n {2..<n} = {2..<min 8 (n + 1)}" using n True by auto
    ultimately show thesis
      using op o(2) s'(1,4) True by (intro that [of "opened n d (inode_num (mem s') e) (s'\<lparr>mem := m\<rparr>)"]) (simp_all add: opened_def)
  next
    case False
    then have "{2..<n} = {2..<min 8 (n + 1)}" using n by auto
    with o op s'(1,4) False show thesis by (intro that [of "s'\<lparr>mem := m\<rparr>"]) simp_all
  qed
qed

lemma close_opened:
  assumes t: "testing P own (s, h)" and i: "i \<in> {2..<8}" "i \<in> P"
  obtains u where "sys_call_close (of_nat i) s = Some (0, u)" "testing (P - {i}) own (u, h)" "terminal_view u = terminal_view s"
proof -
  let ?u = "update_file (of_nat i) (\<lambda>b. b\<lparr>fb_flags := 0\<rparr>) s"
  note d = testingD [OF t]
  have si: "sint (of_nat i :: i32) = int i" using i by (intro sint_u32_of_nat) simp
  have f: "fb_flags (current_file (of_nat i) s) = 1" "file_op_table_ptr (current_file (of_nat i) s) \<in> {RTC_DEV, DIR_DEV, FILE_DEV}"
    using d(3) i by (simp_all add: files_open_def current_file_def)
  have "current_file (of_nat i) ?u = (current_file (of_nat i) s)\<lparr>fb_flags := 0\<rparr>"
    using d(2,5) i by (subst current_update_file) simp_all
  with f i have "sys_call_close (of_nat i) s = Some (0, ?u)" by (auto simp: sys_call_close_def si Let_def)
  moreover have "testing (P - {i}) own (?u, h)"
    using t i by (intro testing_update_file [OF t i(1)] files_open_update(2)) simp_all
  ultimately show thesis using that by simp
qed

section \<open>Each test passes\<close>

text \<open>A test ends with 0 and prints \<open>text\<close>, on a state with no open files, and leaves such a state.\<close>

definition passes :: "u32 set \<Rightarrow> u8 list \<Rightarrow> ('a process_state \<Rightarrow> (i32 \<times> 'a process_state) option) \<Rightarrow> bool" where
  "passes own msg test \<longleftrightarrow>
     (\<forall>st. testing {} own st \<longrightarrow> (\<exists>t. test st = Some (0, t) \<and> testing {} own t \<and> shown t = type_text msg (shown st)))"

lemma passes_verdict:
  assumes calls: "\<And>s h. testing {} own (s, h) \<Longrightarrow>
      \<exists>u. test (s, h) = verdict (kernel_calls A dev child) lit name (0, u) \<and> testing {} own u \<and> shown u = terminal_view s"
    and lit: "region lit 64 \<subseteq> own" "length name < 57" "0 \<notin> set (ascii name)"
  shows "passes own (ascii (name @ '': PASS'') @ [10]) test"
  unfolding passes_def
proof (intro allI impI)
  fix st :: "'a process_state" assume "testing {} own st"
  moreover obtain s h where st: "st = (s, h)" by fastforce
  ultimately obtain u where u: "test st = verdict (kernel_calls A dev child) lit name (0, u)" "testing {} own u" "shown u = shown st"
    using calls [of s h] by auto
  obtain t where "fail_with (kernel_calls A dev child) lit (name @ '': PASS'') 0 u = Some (0, t)" "testing {} own t"
    "shown t = type_text (ascii (name @ '': PASS'') @ [10]) (shown u)"
    by (rule fail_with_prints [where A = A and dev = dev and child = child and str = "name @ '': PASS''" and r = 0, OF u(2) lit(1)])
      (use lit in \<open>simp_all add: ascii_def\<close>)
  then show "\<exists>t. test st = Some (0, t) \<and> testing {} own t \<and> shown t = type_text (ascii (name @ '': PASS'') @ [10]) (shown st)"
    using u by (simp add: verdict_def)
qed

lemma bad_number: "sint fd < 0 \<or> sint fd > 7 \<Longrightarrow> bad_fd r fd s"
  by (auto simp: bad_fd_def)

lemma passes_err_fd:
  assumes "sint fd < 0 \<or> sint fd > 7" "region lit 64 \<subseteq> own" "length name < 57" "0 \<notin> set (ascii name)"
  shows "passes own (ascii (name @ '': PASS'') @ [10]) (err_fd name fd (kernel_calls A dev child) buf lit)"
proof (rule passes_verdict [OF _ assms(2-4)])
  fix s :: "'a kernel_scheme" and h assume "testing {} own (s, h)"
  then show "\<exists>u. err_fd name fd (kernel_calls A dev child) buf lit (s, h) = verdict (kernel_calls A dev child) lit name (0, u) \<and>
      testing {} own u \<and> shown u = terminal_view s"
    using assms(1) by (intro exI [of _ "(s, h)"]) (auto simp: err_fd_def refused_read refused_write refused_close bad_number)
qed

lemma passes_stdin_out:
  assumes "region lit 64 \<subseteq> own"
  shows "passes own (ascii (''err_stdin_out'' @ '': PASS'') @ [10]) (err_stdin_out (kernel_calls A dev child) buf lit)"
proof (rule passes_verdict [OF _ assms])
  fix s :: "'a kernel_scheme" and h assume "testing {} own (s, h)"
  moreover have "bad_fd 0 0 s" "bad_fd 1 1 s" by (simp_all add: bad_fd_def)
  ultimately show "\<exists>u. err_stdin_out (kernel_calls A dev child) buf lit (s, h) = verdict (kernel_calls A dev child) lit ''err_stdin_out'' (0, u) \<and>
      testing {} own u \<and> shown u = terminal_view s"
    by (intro exI [of _ "(s, h)"]) (simp add: err_stdin_out_def refused_read refused_write)
qed (simp_all add: ascii_def)

lemma passes_vidmap:
  assumes "region lit 64 \<subseteq> own"
  shows "passes own (ascii (''err_vidmap'' @ '': PASS'') @ [10]) (err_vidmap (kernel_calls A dev child) lit)"
proof (rule passes_verdict [OF _ assms])
  fix s :: "'a kernel_scheme" and h assume "testing {} own (s, h)"
  then show "\<exists>u. err_vidmap (kernel_calls A dev child) lit (s, h) = verdict (kernel_calls A dev child) lit ''err_vidmap'' (0, u) \<and>
      testing {} own u \<and> shown u = terminal_view s"
    by (intro exI [of _ "(s, h)"]) (simp add: err_vidmap_def sys_call_vidmap_def)
qed (simp_all add: ascii_def)

lemma passes_syscall_num:
  assumes "region lit 64 \<subseteq> own"
  shows "passes own (ascii (''err_syscall_num'' @ '': PASS'') @ [10])
     (err_syscall_num (SYSTEM_CALL_ECE handler) (kernel_calls A dev child) lit)"
proof (rule passes_verdict [OF _ assms])
  fix s :: "'a kernel_scheme" and h assume "testing {} own (s, h)"
  then show "\<exists>u. err_syscall_num (SYSTEM_CALL_ECE handler) (kernel_calls A dev child) lit (s, h)
      = verdict (kernel_calls A dev child) lit ''err_syscall_num'' (0, u) \<and> testing {} own u \<and> shown u = terminal_view s"
    by (intro exI [of _ "(s, h)"]) (simp add: err_syscall_num_def SYSTEM_CALL_ECE_def)
qed (simp_all add: ascii_def)

lemma passes_unopened:
  assumes "region lit 64 \<subseteq> own"
  shows "passes own (ascii (''err_unopened'' @ '': PASS'') @ [10]) (err_unopened (kernel_calls A dev child) buf lit)"
proof (rule passes_verdict [OF _ assms])
  fix s :: "'a kernel_scheme" and h assume t: "testing {} own (s, h)"
  let ?U = "kernel_calls A dev child"
  have "sys_call_close (of_nat j) s = Some (-1, s)" if "j < 8" for j
  proof (cases "j < 2")
    case True
    have "sint (of_nat j :: i32) = int j" using that by (intro sint_u32_of_nat) simp
    with True show ?thesis by (intro refused_close) simp
  next
    case False
    with unopened_fd [OF t, of j] that show ?thesis by (intro refused_close) simp
  qed
  then have c: "expect_errors 8 ?U lit msg (u_close ?U) (of_nat 0) (0, s, h) = Some (0, s, h)" for msg
    by (intro expect_errors_refused) simp
  have bad: "bad_fd r (of_nat j) s" if "2 \<le> j" "j < 8" for j r
    using unopened_fd [OF t, of j] that by (simp add: bad_fd_def)
  have r: "expect_errors 6 ?U lit msg (\<lambda>i. u_read ?U i buf 31) (of_nat 2) (0, s, h) = Some (0, s, h)"
    "expect_errors 6 ?U lit msg (\<lambda>i. u_write ?U i buf 31) (of_nat 2) (0, s, h) = Some (0, s, h)" for msg
    by (rule expect_errors_refused; use bad in \<open>simp add: refused_read refused_write\<close>)+
  show "\<exists>u. err_unopened ?U buf lit (s, h) = verdict ?U lit ''err_unopened'' (0, u) \<and> testing {} own u \<and> shown u = terminal_view s"
    using c r t by (intro exI [of _ "(s, h)"]) (simp add: err_unopened_def)
qed (simp_all add: ascii_def)

lemma passes_open:
  assumes mem: "test_memory A lit own"
  shows "passes own (ascii (''err_open'' @ '': PASS'') @ [10]) (err_open (kernel_calls A dev child) lit)"
proof (rule passes_verdict)
  fix s :: "'a kernel_scheme" and h assume t: "testing {} own (s, h)"
  let ?U = "kernel_calls A dev child"
  obtain u where u: "open_named ?U lit ''helloo'' (s, h) = Some (-1, u, h)" "testing {} own (u, h)" "terminal_view u = terminal_view s"
    by (rule open_refused [OF t mem, of "''helloo''"]) (simp_all add: ascii_def test_directory_def)
  obtain v where v: "open_named ?U lit ''shel'' (u, h) = Some (-1, v, h)" "testing {} own (v, h)" "terminal_view v = terminal_view u"
    by (rule open_refused [OF u(2) mem, of "''shel''"]) (simp_all add: ascii_def test_directory_def)
  obtain w where w: "open_named ?U lit [] (v, h) = Some (-1, w, h)" "testing {} own (w, h)" "terminal_view w = terminal_view v"
    by (rule open_refused [OF v(2) mem, of "[]"]) (simp_all add: ascii_def)
  show "\<exists>u. err_open ?U lit (s, h) = verdict ?U lit ''err_open'' (0, u) \<and> testing {} own u \<and> shown u = terminal_view s"
    using u v w by (intro exI [of _ "(w, h)"]) (simp add: err_open_def)
qed (use mem in \<open>simp_all add: ascii_def test_memory_def\<close>)

lemma open_lots_from:
  fixes s :: "'a kernel_scheme"
  assumes "testing {2..<n} own (s, h)" "2 \<le> n" "n \<le> 8" "test_memory A lit own"
  shows "\<exists>u. open_lots k (kernel_calls A dev child) lit cnt (s, h) = Some (cnt + of_nat (n + k - 8), u) \<and>
     testing {2..<min 8 (n + k)} own u \<and> shown u = terminal_view s"
  using assms(1-3)
proof (induction k arbitrary: n s cnt)
  case 0
  have "{2..<min 8 n} = {2..<n}" using 0 by simp
  with 0 show ?case by simp
next
  case (Suc k)
  obtain u where u: "u_open (kernel_calls A dev child) lit (with_literal (kernel_calls A dev child) lit ''.'' (s, h))
      = Some (if n < 8 then of_nat n else -1, u, h)"
    "testing {2..<min 8 (n + 1)} own (u, h)" "terminal_view u = terminal_view s"
    by (rule open_dot [OF Suc.prems(1-3) assms(4)])
  let ?n = "min 8 (n + 1)" and ?cnt = "if n < 8 then cnt else cnt + 1"
  have "(of_nat n :: i32) \<noteq> -1" using u32_of_nat_eq_iff [of n "2 ^ 32 - 1"] Suc.prems by auto
  then have step: "open_lots (Suc k) (kernel_calls A dev child) lit cnt (s, h) = open_lots k (kernel_calls A dev child) lit ?cnt (u, h)"
    using u(1) by simp
  have "?cnt + of_nat (?n + k - 8) = cnt + of_nat (n + Suc k - 8)" "min 8 (?n + k) = min 8 (n + Suc k)"
    using Suc.prems(2,3) by auto
  with Suc.IH [OF u(2), of ?cnt] Suc.prems(2,3) show ?case unfolding step u(3) by simp
qed

lemma close_lots_from:
  fixes s :: "'a kernel_scheme"
  assumes "testing {i..<i + k} own (s, h)" "2 \<le> i" "i + k \<le> 8"
  shows "\<exists>u. close_lots k (kernel_calls A dev child) (of_nat i) (s, h) = Some u \<and> testing {} own u \<and> shown u = terminal_view s"
  using assms
proof (induction k arbitrary: i s)
  case (Suc k)
  obtain u where u: "sys_call_close (of_nat i) s = Some (0, u)" "testing ({i..<i + Suc k} - {i}) own (u, h)" "terminal_view u = terminal_view s"
    by (rule close_opened [OF Suc.prems(1), of i]) (use Suc.prems in simp_all)
  have "{i..<i + Suc k} - {i} = {Suc i..<Suc i + k}" by auto
  with Suc.IH [of "Suc i" u] u Suc.prems show ?case by (simp add: add.commute)
qed simp

lemma passes_open_lots:
  assumes mem: "test_memory A lit own"
  shows "passes own (ascii (''err_open_lots'' @ '': PASS'') @ [10]) (err_open_lots (kernel_calls A dev child) lit)"
  unfolding passes_def
proof (intro allI impI)
  fix st :: "'a process_state" assume t: "testing {} own st"
  let ?U = "kernel_calls A dev child"
  obtain s h where st: "st = (s, h)" by fastforce
  obtain u where u: "open_lots 7 ?U lit 0 (s, h) = Some (1, u)" "testing {2..<8} own u" "shown u = terminal_view s"
    using open_lots_from [of 2 own s h A lit 7 dev child 0] t mem by (auto simp: st)
  obtain s' h' where u': "u = (s', h')" by fastforce
  obtain v where v: "close_lots 6 ?U 2 u = Some v" "testing {} own v" "shown v = shown u"
    using close_lots_from [of 2 6 own s' h' A dev child] u(2) by (auto simp: u')
  obtain w where "fail_with ?U lit ''err_open_lots: PASS'' 0 v = Some (0, w)" "testing {} own w"
    "shown w = type_text (ascii ''err_open_lots: PASS'' @ [10]) (shown v)"
    by (rule fail_with_prints [OF v(2), where A = A and dev = dev and child = child and lit = lit and str = "''err_open_lots: PASS''" and r = 0])
      (use mem in \<open>simp_all add: ascii_def test_memory_def\<close>)
  with u v show "\<exists>t. err_open_lots ?U lit st = Some (0, t) \<and> testing {} own t \<and>
      shown t = type_text (ascii (''err_open_lots'' @ '': PASS'') @ [10]) (shown st)"
    by (intro exI [of _ w]) (simp add: err_open_lots_def st)
qed

lemma passes_all:
  assumes "list_all2 (passes own) msgs tests" "testing {} own st"
  shows "\<exists>t. run_tests tests (0, st) = Some (0, t) \<and> testing {} own t \<and> shown t = type_text (concat msgs) (shown st)"
  using assms
proof (induction msgs tests arbitrary: st rule: list_all2_induct)
  case Nil
  then show ?case by (simp add: type_text_Nil)
next
  case (Cons msg msgs test tests)
  then obtain u where "test st = Some (0, u)" "testing {} own u" "shown u = type_text msg (shown st)"
    unfolding passes_def by blast
  with Cons.IH [of u] show ?case by (auto simp: type_text_append)
qed

section \<open>Properties\<close>

text \<open>The lines a full run of the tests prints.\<close>

definition passed :: "string \<Rightarrow> u8 list" where
  "passed name = ascii (name @ '': PASS'') @ [10]"

text \<open>
  C6: This kernel passes its error tests: run from a process with no files of its own open, on an image that has the
  directory and not the misspelt names, all eight tests answer 0 and print PASS, and so does the whole.
\<close>

theorem syserr_passes:
  assumes "program_ready own s" "under_test {} (s, h)" "test_memory A lit own"
  shows "\<exists>t. syserr_select (SYSTEM_CALL_ECE handler) (kernel_calls A dev child) buf lit 0 (s, h) = Some (0, t) \<and>
    shown t = type_text (concat (map passed [''err_neg_fd'', ''err_big_fd'', ''err_open_lots'', ''err_open'', ''err_unopened'',
        ''err_vidmap'', ''err_stdin_out'', ''err_syscall_num'']) @ [10] @ passed ''Overall Tests'') (terminal_view s)"
proof -
  let ?U = "kernel_calls A dev child" and ?names = "[''err_neg_fd'', ''err_big_fd'', ''err_open_lots'', ''err_open'', ''err_unopened'',
        ''err_vidmap'', ''err_stdin_out'', ''err_syscall_num'']"
  let ?tests = "syserr_tests (SYSTEM_CALL_ECE handler) ?U buf lit"
  have t: "testing {} own (s, h)" using assms(1,2) by (simp add: testing_iff)
  have lit: "region lit 64 \<subseteq> own" using assms(3) by (simp add: test_memory_def)
  have fds: "sint NEG_FD < 0 \<or> sint NEG_FD > 7" "sint BIG_FD < 0 \<or> sint BIG_FD > 7" by (simp_all add: NEG_FD_def BIG_FD_def)
  have names: "length ''err_neg_fd'' < 57" "0 \<notin> set (ascii ''err_neg_fd'')" "length ''err_big_fd'' < 57" "0 \<notin> set (ascii ''err_big_fd'')"
    by (simp_all add: ascii_def)
  have "list_all2 (passes own) (map passed ?names) ?tests"
    unfolding syserr_tests_def err_neg_fd_def err_big_fd_def list.map passed_def
    by (intro list.rel_intros passes_err_fd passes_open_lots passes_open passes_unopened passes_vidmap passes_stdin_out
        passes_syscall_num fds lit assms(3) names)
  from passes_all [OF this t] obtain u where u: "run_tests ?tests (0, s, h) = Some (0, u)" "testing {} own u"
    "shown u = type_text (concat (map passed ?names)) (terminal_view s)" by auto
  obtain v where v: "fail_with ?U lit (CHR 0x0A # ''Overall Tests: PASS'') 0 u = Some (0, v)" "testing {} own v"
    "shown v = type_text (ascii (CHR 0x0A # ''Overall Tests: PASS'') @ [10]) (shown u)"
    by (rule fail_with_prints [OF u(2) lit, where A = A and dev = dev and child = child and
          str = "CHR 0x0A # ''Overall Tests: PASS''" and r = 0]) (simp_all add: ascii_def)
  have "ascii (CHR 0x0A # ''Overall Tests: PASS'') @ [10] = [10] @ passed ''Overall Tests''" by (simp add: passed_def ascii_def)
  with v(3) u(3) have "shown v = type_text (concat (map passed ?names) @ [10] @ passed ''Overall Tests'') (terminal_view s)"
    by (simp only: type_text_append)
  with u(1) v(1) show ?thesis by (auto simp: syserr_select_def)
qed

text \<open>A directory with the name \<^verbatim>\<open>.\<close> alone, and a process that has just been started.\<close>

definition dot_image :: memory where
  "dot_image = (\<lambda>_. 0)(0x400040 := 46, 0x400060 := 1)"

definition test_kernel :: kernel where
  "test_kernel = cat_kernel\<lparr>mem := dot_image\<rparr>"

lemma dot_image_entry: "0 < j \<Longrightarrow> j < 63 \<Longrightarrow> dot_image (d_table_entry 0x400000 (of_nat j)) = 0"
proof -
  assume j: "0 < j" "j < 63"
  then have "unat (d_table_entry 0x400000 (of_nat j)) = 0x400040 + 64 * j" by (simp add: d_table_entry_def unat_word_ariths)
  then have "d_table_entry 0x400000 (of_nat j) \<noteq> 0x400040" "d_table_entry 0x400000 (of_nat j) \<noteq> 0x400060" using j by auto
  then show ?thesis by (simp add: dot_image_def)
qed

lemma dot_image_entries: "entry_name dot_image 0x400000 0 = [46]" "0 < j \<Longrightarrow> j < 63 \<Longrightarrow> entry_name dot_image 0x400000 j = []"
  by (simp add: entry_name_def d_table_entry_def cprefix_def bytes_def dot_image_def upt_rec)
    (simp add: entry_name_def cprefix_def bytes_def upt_conv_Cons dot_image_entry)

lemma test_kernel_fields:
  "mem test_kernel = dot_image" "bootmebb test_kernel = 0x400000" "current_process_ID test_kernel = 0"
  "length (PCB_array test_kernel) = 6" "file_array (PCB_array test_kernel ! 0) = initial_file_array"
  "read_directory_index test_kernel = 0" "cursor_x test_kernel = 0" "cursor_y test_kernel = 0"
  by (simp_all add: test_kernel_def cat_kernel_fields cat_kernel_cursor)
    (simp add: cat_kernel_def elf_kernel_def shell_kernel_def reset_kernel_def reset_paging_def reset_keyboard_def
      keyboard.defs paging.defs console.defs)

lemma test_kernel_under_test: "under_test {} (test_kernel, h)"
proof -
  note f = dot_image_entries(1) and e = dot_image_entries(2)
  have "lookup_name dot_image 0x400000 [46] = Some 0" by (simp add: lookup_name_Some f)
  moreover have "lookup_name dot_image 0x400000 nm = None" if "nm \<noteq> [46]" "nm \<noteq> []" for nm
    unfolding lookup_name_None
  proof (intro allI impI)
    fix j :: nat assume "j < 63"
    then show "entry_name dot_image 0x400000 j \<noteq> nm" using that f e [of j] by (cases "j = 0") auto
  qed
  moreover have "file_type dot_image 0x400040 = 1" by (simp add: file_type_def load32_def dot_image_def)
  ultimately have "test_directory dot_image 0x400000"
    unfolding test_directory_def by (simp add: ascii_def d_table_entry_def)
  moreover have "files_open {} initial_file_array"
    by (auto simp: files_open_def initial_file_array_def free_block_def nth_Cons split: nat.splits)
  ultimately show ?thesis by (simp add: under_test_def test_kernel_fields)
qed

lemma test_kernel_ready: "program_ready (region 0x8000000 0x3000) test_kernel"
proof -
  have size: "image_size dot_image 0x400000 = 4096"
    by (simp add: image_size_def num_inodes_def data_blocks_def load32_def dot_image_def)
  have "region 0x8000000 0x3000 \<inter> region video 4000 = {}" "region 0x8000000 0x3000 \<inter> image_region dot_image 0x400000 = {}"
    "image_region dot_image 0x400000 \<inter> region video 4000 = {}"
    unfolding image_region_def size video_def by (rule region_disjointI; simp)+
  then show ?thesis
    by (simp add: program_ready_def test_kernel_fields current_file_def initial_file_array_def stdout_block_def
        screen_of_def screen_wf_def)
qed

theorem syserr_passes_witness:
  "\<exists>t. syserr_select (SYSTEM_CALL_ECE (\<lambda>_ _. None)) (kernel_calls \<lparr>at_words = 0x8002000, at_dentry = 0x8002100\<rparr> (\<lambda>_ _. 0) (\<lambda>_ _. None))
      0x8000000 0x8001000 0 (test_kernel, []) = Some (0, t)"
proof -
  let ?own = "region 0x8000000 0x3000"
  have "test_memory \<lparr>at_words = 0x8002000, at_dentry = 0x8002100\<rparr> 0x8001000 ?own"
    using region_shift_subset [of "0x1000" 64 "0x3000" "0x8000000"] region_shift_subset [of "0x2100" 64 "0x3000" "0x8000000"]
    by (simp add: test_memory_def)
  then show ?thesis
    using syserr_passes [of ?own test_kernel "[]" "\<lparr>at_words = 0x8002000, at_dentry = 0x8002100\<rparr>" "0x8001000"] test_kernel_under_test test_kernel_ready
    by blast
qed

end
