(* ===== verification/User_Ls.thy ===== *)
theory User_Ls
  imports User_Tests
begin

text \<open>
  \<^verbatim>\<open>ls\<close> on this kernel: the contract of a directory that is read name by name, its interpretation on the
  system calls, and what appears on the terminal.
\<close>

section \<open>Reading names\<close>

text \<open>
  \<open>names\<close> are the answers that are still to come before an empty one, \<open>last\<close> what the empty one leaves behind and
  \<open>state\<close> where that is seen.
\<close>

locale directory_listing = program_output U inv own out emit
  for U :: "'s calls" and inv :: "'s \<Rightarrow> bool" and own :: "u32 set" and out :: "'s \<Rightarrow> 'o" and emit :: "u8 list \<Rightarrow> 'o \<Rightarrow> 'o" +
  fixes fd :: i32 and buf :: u32 and names :: "'s \<Rightarrow> u8 list list" and last :: "'s \<Rightarrow> 'e" and state :: "'s \<Rightarrow> 'e"
  assumes buf_own: "inv s \<Longrightarrow> region buf 33 \<subseteq> own"
    and read_end: "inv s \<Longrightarrow> names s = [] \<Longrightarrow> \<exists>t. u_read U fd buf 32 s = Some (0, t) \<and> state t = last s \<and> out t = out s"
    and read_name: "inv s \<Longrightarrow> names s = n # ns \<Longrightarrow>
      \<exists>t. u_read U fd buf 32 s = Some (of_nat (length n), t) \<and> bytes (u_mem U t) buf (length n) = n \<and>
        0 < length n \<and> length n \<le> 32 \<and> inv t \<and> names t = ns \<and> last t = last s \<and> out t = out s"
    and set_names: "inv s \<Longrightarrow> (\<And>p. p \<notin> own \<Longrightarrow> m p = u_mem U s p) \<Longrightarrow>
      names (u_set_mem U m s) = names s \<and> last (u_set_mem U m s) = last s"
    and write_names: "inv s \<Longrightarrow> k < 2 ^ 31 \<Longrightarrow> region b k \<subseteq> own \<Longrightarrow> u_write U 1 b (of_nat k) s = Some (r, t) \<Longrightarrow>
      names t = names s \<and> last t = last s"
    and emit_Nil: "emit [] x = x"
    and emit_append: "emit (xs @ ys) x = emit ys (emit xs x)"
begin

text \<open>What is printed: each name on a line of its own.\<close>

lemma ls_loop_lists:
  "inv s \<Longrightarrow> \<exists>t. ls_loop U buf lit fd s = Some (0, t) \<and> state t = last s \<and>
     out t = emit (concat (map (\<lambda>n. n @ [10]) (names s))) (out s)"
proof (induction "names s" arbitrary: s)
  case Nil
  from read_end [OF Nil.prems] Nil.hyps obtain t where t: "u_read U fd buf 32 s = Some (0, t)" "state t = last s" "out t = out s"
    by auto
  then have "ls_loop U buf lit fd s = Some (0, t)" by (subst ls_loop.simps) simp
  with t Nil.hyps [symmetric] show ?case by (simp add: emit_Nil)
next
  case (Cons n ns)
  note names = Cons.hyps(2) [symmetric]
  obtain t where t: "u_read U fd buf 32 s = Some (of_nat (length n), t)" "bytes (u_mem U t) buf (length n) = n"
    "0 < length n" "length n \<le> 32" "inv t" "names t = ns" "last t = last s" "out t = out s"
    using read_name [OF Cons.prems names] by blast
  define k where "k = length n"
  define m where "m = (u_mem U t)(buf + of_nat k := 10)"
  have sub: "region buf (k + 1) \<subseteq> own" using buf_own [OF t(5)] region_mono [of "k + 1" 33 buf] t(4) by (auto simp: k_def)
  then have "buf + of_nat k \<in> own" using in_regionI [of k "k + 1" buf] by auto
  then have out: "m p = u_mem U t p" if "p \<notin> own" for p using that by (auto simp: m_def)
  let ?u = "poke U (buf + of_nat k) 10 t"
  have u: "?u = u_set_mem U m t" by (simp add: poke_def m_def)
  have inv: "inv ?u" "names ?u = ns" "last ?u = last s" "out ?u = out s" "u_mem U ?u = m"
    unfolding u using set_inv [OF t(5) out] set_names [OF t(5) out] set_out [OF t(5) out] t by (simp_all add: mem_set)
  have k: "k + 1 < 2 ^ 31" using t(4) by (simp add: k_def)
  have line: "bytes m buf (k + 1) = n @ [10]"
  proof -
    have "bytes m buf k = bytes (u_mem U t) buf k"
      by (rule bytes_cong) (use t(4) in \<open>auto simp: m_def region_iff k_def\<close>)
    then show ?thesis using t(2) unfolding bytes_append by (simp add: bytes_Suc m_def k_def)
  qed
  obtain v where v: "u_write U 1 buf (of_nat (k + 1)) ?u = Some (0, v)" "inv v" "out v = emit (n @ [10]) (out s)"
    using write_out [OF inv(1) k sub] line inv(4,5) by auto
  note nv = write_names [OF inv(1) k sub v(1)]
  have "ns = names v" using nv inv(2) by simp
  from Cons.hyps(1) [OF this v(2)] obtain w where w: "ls_loop U buf lit fd v = Some (0, w)" "state w = last v"
    "out w = emit (concat (map (\<lambda>n. n @ [10]) (names v))) (out v)" by blast
  have "(of_nat k :: i32) \<noteq> 0" "(of_nat k :: i32) \<noteq> -1"
    using u32_of_nat_eq_iff [of k 0] u32_of_nat_eq_iff [of k "2 ^ 32 - 1"] t(3,4) by (auto simp: k_def)
  then have "ls_loop U buf lit fd s = ls_loop U buf lit fd v"
    using t(1) v(1) by (subst ls_loop.simps) (simp add: k_def [symmetric] add.commute)
  with w v(3) nv inv(2,3) names show ?case
    by (intro exI [of _ w]) (simp add: emit_append [symmetric])
qed

end

section \<open>The directory of the kernel\<close>

definition listing :: "u32 set \<Rightarrow> i32 \<Rightarrow> u32 \<Rightarrow> u32 \<Rightarrow> 'a kernel_scheme \<Rightarrow> bool" where
  "listing own fd buf dentry s \<longleftrightarrow>
     program_ready own s \<and> unat fd < 8 \<and> fd \<noteq> 1 \<and> fb_flags (current_file fd s) \<noteq> 0 \<and>
     file_op_table_ptr (current_file fd s) = DIR_DEV \<and> dir_wf (mem s) (bootmebb s) \<and> unat (read_directory_index s) \<le> 17 \<and>
     region buf 33 \<subseteq> own \<and> region dentry 64 \<subseteq> own \<and> region buf 32 \<inter> region dentry 64 = {}"

text \<open>The names from the counter of the directory on, up to the first empty one, and the counter after them.\<close>

definition names_left :: "'a kernel_scheme \<Rightarrow> u8 list list" where
  "names_left s =
     takeWhile (\<lambda>n. n \<noteq> []) (map (entry_name (mem s) (bootmebb s)) [unat (read_directory_index s)..<17])"

definition counter_after :: "'a kernel_scheme \<Rightarrow> nat" where
  "counter_after s = (let k = unat (read_directory_index s) + length (names_left s) in if k < 17 then k + 1 else 0)"

lemma directory_agrees:
  assumes "image_agrees boot m m'"
  shows "i < 63 \<Longrightarrow> entry_name m' boot i = entry_name m boot i" "dir_wf m' boot \<longleftrightarrow> dir_wf m boot"
proof -
  have b: "\<And>p. p \<in> region boot 4096 \<Longrightarrow> m' p = m p" using assms boot_in_image by (auto simp: image_agrees_def)
  show "i < 63 \<Longrightarrow> entry_name m' boot i = entry_name m boot i"
    unfolding entry_name_def by (rule entry_cprefix_cong [OF b]) simp_all
  show "dir_wf m' boot \<longleftrightarrow> dir_wf m boot" by (simp add: dir_wf_def entry_cprefix_cong [OF b])
qed

lemma names_left_agrees:
  assumes "image_agrees (bootmebb s) (mem s) (mem t)" "bootmebb t = bootmebb s" "read_directory_index t = read_directory_index s"
  shows "names_left t = names_left s" "counter_after t = counter_after s" "dir_wf (mem t) (bootmebb s) \<longleftrightarrow> dir_wf (mem s) (bootmebb s)"
proof -
  have "map (entry_name (mem t) (bootmebb s)) [unat (read_directory_index s)..<17]
      = map (entry_name (mem s) (bootmebb s)) [unat (read_directory_index s)..<17]"
    using directory_agrees(1) [OF assms(1)] by simp
  then show "names_left t = names_left s" by (simp only: names_left_def assms(2,3))
  then show "counter_after t = counter_after s" by (simp add: counter_after_def assms(3))
  show "dir_wf (mem t) (bootmebb s) \<longleftrightarrow> dir_wf (mem s) (bootmebb s)" by (rule directory_agrees(2) [OF assms(1)])
qed

lemma listing_cong:
  assumes same: "same_files s t" and t: "program_ready own t" and s: "listing own fd buf dentry s"
  shows "listing own fd buf dentry t" "names_left t = names_left s" "counter_after t = counter_after s"
proof -
  have eq: "current_file fd t = current_file fd s" "bootmebb t = bootmebb s" "read_directory_index t = read_directory_index s"
    and ag: "image_agrees (bootmebb s) (mem s) (mem t)"
    using same by (simp_all add: same_files_def pcb_view_def current_file_def)
  show "listing own fd buf dentry t" using s t directory_agrees(2) [OF ag] by (simp add: listing_def eq)
  show "names_left t = names_left s" "counter_after t = counter_after s" by (rule names_left_agrees [OF ag eq(2,3)])+
qed

lemma listing_set:
  assumes s: "listing own fd buf dentry s" and m: "\<And>p. p \<notin> own \<Longrightarrow> m p = mem s p"
  shows "listing own fd buf dentry (s\<lparr>mem := m\<rparr>)" "names_left (s\<lparr>mem := m\<rparr>) = names_left s"
    "counter_after (s\<lparr>mem := m\<rparr>) = counter_after s" "terminal_view (s\<lparr>mem := m\<rparr>) = terminal_view s"
proof -
  have "program_ready own s" using s by (simp add: listing_def)
  note o = own_memory [OF this m]
  have "same_files s (s\<lparr>mem := m\<rparr>)" using o(3) by (simp add: same_files_def)
  note c = listing_cong [OF this o(1) s]
  show "listing own fd buf dentry (s\<lparr>mem := m\<rparr>)" "names_left (s\<lparr>mem := m\<rparr>) = names_left s"
    "counter_after (s\<lparr>mem := m\<rparr>) = counter_after s" "terminal_view (s\<lparr>mem := m\<rparr>) = terminal_view s"
    using c o(2) by simp_all
qed

lemma listing_call:
  assumes "listing own fd buf dentry s"
  shows "sys_call_read dentry h fd buf n s =
     (case read_directory (mem s) (bootmebb s) dentry (read_directory_index s) buf of
        None \<Rightarrow> None | Some (m, idx, r) \<Rightarrow> Some (r, s\<lparr>mem := m, read_directory_index := idx\<rparr>, h))"
proof -
  have "sint fd = int (unat fd)" using assms by (intro sint_small) (simp add: listing_def)
  moreover have "unat fd < 8" using assms by (simp add: listing_def)
  ultimately have "\<not> sint fd > 7" "\<not> sint fd < 0" by linarith+
  then have "\<not> bad_fd 1 fd s" using assms by (simp add: bad_fd_def listing_def)
  then show ?thesis using assms by (simp add: sys_call_read_def call_read_def listing_def)
qed

lemma view_index [simp]:
  "terminal_view (s\<lparr>read_directory_index := i\<rparr>) = terminal_view s"
  "program_ready own (s\<lparr>read_directory_index := i\<rparr>) = program_ready own s"
  "current_file fd (s\<lparr>read_directory_index := i\<rparr>) = current_file fd s"
  by (simp_all add: terminal_view_def attr_def screen_of_def program_ready_def current_file_def)

text \<open>A read below the last entry: the name, and the counter moves on.\<close>

lemma listing_read:
  assumes s: "listing own fd buf dentry s" and idx: "unat (read_directory_index s) < 17"
  defines "nm \<equiv> entry_name (mem s) (bootmebb s) (unat (read_directory_index s))"
  obtains t where "sys_call_read dentry h fd buf n s = Some (of_nat (length nm), t, h)" "bytes (mem t) buf (length nm) = nm"
    "listing own fd buf dentry t" "terminal_view t = terminal_view s"
    "unat (read_directory_index t) = unat (read_directory_index s) + 1"
    "\<And>i. i < 17 \<Longrightarrow> entry_name (mem t) (bootmebb t) i = entry_name (mem s) (bootmebb s) i"
proof -
  note s' = s [unfolded listing_def]
  have sep: "region dentry 64 \<inter> region (bootmebb s) 4096 = {}"
    using s' boot_in_image [of "bootmebb s" "mem s"] unfolding program_ready_def by blast
  have le: "read_directory_index s \<le> 16" using idx by (simp add: word_le_nat_alt)
  have wf: "dir_wf (mem s) (bootmebb s)" and disj: "region buf 32 \<inter> region dentry 64 = {}" using s' by simp_all
  obtain m where m: "read_directory (mem s) (bootmebb s) dentry (read_directory_index s) buf
      = Some (m, read_directory_index s + 1, of_nat (length nm))" "bytes m buf (length nm) = nm"
    "\<And>p. p \<notin> region buf 32 \<Longrightarrow> p \<notin> region dentry 64 \<Longrightarrow> m p = mem s p"
    unfolding nm_def by (rule read_directory_entry [OF wf le sep disj]) blast
  have own: "m p = mem s p" if "p \<notin> own" for p
    using that s' region_mono [of 32 33 buf] by (intro m(3)) auto
  have "program_ready own s" using s by (simp add: listing_def)
  note o = own_memory [OF this own] and l = listing_set [OF s own]
  define t where "t = s\<lparr>mem := m, read_directory_index := read_directory_index s + 1\<rparr>"
  have i: "unat (read_directory_index s + 1) = unat (read_directory_index s) + 1"
    using idx by (simp add: unat_word_ariths)
  show thesis
  proof (rule that [of t])
    show "sys_call_read dentry h fd buf n s = Some (of_nat (length nm), t, h)"
      using listing_call [OF s, of h n] m(1) by (simp add: t_def)
    show "listing own fd buf dentry t" using l(1) i idx by (simp add: t_def listing_def)
    show "entry_name (mem t) (bootmebb t) i = entry_name (mem s) (bootmebb s) i" if "i < 17" for i
      using directory_agrees(1) [OF o(3), of i] that by (simp add: t_def)
  qed (use m(2) o(2) i in \<open>simp_all add: t_def\<close>)
qed

lemma names_left_Cons:
  assumes "unat (read_directory_index s) < 17"
  shows "names_left s =
     (let nm = entry_name (mem s) (bootmebb s) (unat (read_directory_index s))
      in if nm = [] then []
         else nm # takeWhile (\<lambda>n. n \<noteq> []) (map (entry_name (mem s) (bootmebb s)) [unat (read_directory_index s) + 1..<17]))"
  using assms by (simp add: names_left_def upt_conv_Cons Let_def)

lemma listing_end:
  assumes s: "listing own fd buf dentry s" and none: "names_left s = []"
  obtains t where "sys_call_read dentry h fd buf n s = Some (0, t, h)" "unat (read_directory_index t) = counter_after s"
    "terminal_view t = terminal_view s"
proof (cases "unat (read_directory_index s) < 17")
  case True
  then have "entry_name (mem s) (bootmebb s) (unat (read_directory_index s)) = []"
    using none by (simp add: names_left_Cons Let_def split: if_splits)
  with listing_read [OF s True, of h n] obtain t where "sys_call_read dentry h fd buf n s = Some (0, t, h)"
    "terminal_view t = terminal_view s" "unat (read_directory_index t) = unat (read_directory_index s) + 1" by auto
  with True none show thesis by (intro that [of t]) (simp_all add: counter_after_def)
next
  case False
  then have k: "unat (read_directory_index s) = 17" using s by (simp add: listing_def)
  then have "read_directory_index s > 16" by (simp add: word_less_nat_alt)
  then have "sys_call_read dentry h fd buf n s = Some (0, s\<lparr>read_directory_index := 0\<rparr>, h)"
    using listing_call [OF s, of h n] by (simp add: read_directory_def)
  with k none show thesis by (intro that [of "s\<lparr>read_directory_index := 0\<rparr>"]) (simp_all add: counter_after_def)
qed

lemma listing_next:
  assumes s: "listing own fd buf dentry s" and names: "names_left s = nm # ns"
  obtains t where "sys_call_read dentry h fd buf n s = Some (of_nat (length nm), t, h)" "bytes (mem t) buf (length nm) = nm"
    "0 < length nm" "length nm \<le> 32" "listing own fd buf dentry t" "names_left t = ns" "counter_after t = counter_after s"
    "terminal_view t = terminal_view s"
proof -
  let ?i = "unat (read_directory_index s)"
  have i: "?i < 17"
  proof (rule ccontr)
    assume "\<not> ?i < 17"
    then have "names_left s = []" by (simp add: names_left_def)
    with names show False by simp
  qed
  define nm' where "nm' = entry_name (mem s) (bootmebb s) ?i"
  obtain t where t: "sys_call_read dentry h fd buf n s = Some (of_nat (length nm'), t, h)" "bytes (mem t) buf (length nm') = nm'"
    "listing own fd buf dentry t" "terminal_view t = terminal_view s" "unat (read_directory_index t) = ?i + 1"
    "\<And>i. i < 17 \<Longrightarrow> entry_name (mem t) (bootmebb t) i = entry_name (mem s) (bootmebb s) i"
    unfolding nm'_def by (rule listing_read [OF s i]) blast
  have nm: "nm' = nm" "nm \<noteq> []"
    "ns = takeWhile (\<lambda>n. n \<noteq> []) (map (entry_name (mem s) (bootmebb s)) [?i + 1..<17])"
    using names i by (auto simp: names_left_Cons nm'_def Let_def split: if_splits)
  have "map (entry_name (mem t) (bootmebb t)) [?i + 1..<17] = map (entry_name (mem s) (bootmebb s)) [?i + 1..<17]"
    using t(6) by simp
  then have left: "names_left t = ns" unfolding names_left_def t(5) nm(3) by (simp only:)
  have "counter_after t = counter_after s" by (simp add: counter_after_def left t(5) names Let_def)
  moreover have "length nm \<le> 32" unfolding nm(1) [symmetric] nm'_def by (simp add: length_entry_name)
  ultimately show thesis using t(1-4) left nm(1,2) by (intro that [of t]) simp_all
qed

interpretation kernel_listing: directory_listing "kernel_calls A dev child" "\<lambda>(s, h). listing own fd buf (at_dentry A) s" own
  "\<lambda>(s, h). terminal_view s" type_text fd buf "\<lambda>(s, h). names_left s" "\<lambda>(s, h). counter_after s"
  "\<lambda>(s, h). unat (read_directory_index s)" for A dev child own fd buf
proof (unfold_locales, goal_cases)
  case (1 m s)
  show ?case by (cases s) simp
next
  case (2 s m)
  then show ?case by (cases s) (auto intro: listing_set)
next
  case (3 s m)
  then show ?case by (cases s) (auto intro: listing_set)
next
  case (4 s n b)
  obtain k h where s: "s = (k, h)" by fastforce
  have l: "listing own fd buf (at_dentry A) k" and "program_ready own k" using 4(1) by (simp_all add: s listing_def)
  from this(2) obtain t where t: "sys_call_write dev 1 b (of_nat n) k = Some (0, t)" "program_ready own t"
    "terminal_view t = type_text (bytes (mem k) b n) (terminal_view k)" "\<And>p. p \<in> own \<Longrightarrow> mem t p = mem k p"
    "same_files k t"
    by (rule terminal_write [where dev = dev, OF _ 4(2,3)]) blast
  with listing_cong(1) [OF t(5,2) l] show ?case by (intro exI [of _ "(t, h)"]) (simp add: s)
next
  case (5 s)
  then show ?case by (cases s) (simp add: listing_def)
next
  case (6 s)
  obtain k h where s: "s = (k, h)" by fastforce
  have l: "listing own fd buf (at_dentry A) k" "names_left k = []" using 6 by (simp_all add: s)
  obtain t where "sys_call_read (at_dentry A) h fd buf 32 k = Some (0, t, h)" "unat (read_directory_index t) = counter_after k"
    "terminal_view t = terminal_view k" by (rule listing_end [OF l])
  then show ?case by (intro exI [of _ "(t, h)"]) (simp add: s)
next
  case (7 s nm ns)
  obtain k h where s: "s = (k, h)" by fastforce
  have l: "listing own fd buf (at_dentry A) k" "names_left k = nm # ns" using 7 by (simp_all add: s)
  obtain t where "sys_call_read (at_dentry A) h fd buf 32 k = Some (of_nat (length nm), t, h)" "bytes (mem t) buf (length nm) = nm"
    "0 < length nm" "length nm \<le> 32" "listing own fd buf (at_dentry A) t" "names_left t = ns" "counter_after t = counter_after k"
    "terminal_view t = terminal_view k" by (rule listing_next [OF l])
  then show ?case by (intro exI [of _ "(t, h)"]) (simp add: s)
next
  case (8 s m)
  then show ?case by (cases s) (auto intro: listing_set)
next
  case (9 s k b r t)
  obtain u h where s: "s = (u, h)" by fastforce
  have l: "listing own fd buf (at_dentry A) u" and "program_ready own u" using 9(1) by (simp_all add: s listing_def)
  from this(2) obtain v where v: "sys_call_write dev 1 b (of_nat k) u = Some (0, v)" "program_ready own v" "same_files u v"
    by (rule terminal_write [where dev = dev, OF _ 9(2,3)]) blast
  with listing_cong(2,3) [OF v(3,2) l] 9(4) show ?case by (auto simp: s)
next
  case (10 x)
  show ?case by (rule type_text_Nil)
next
  case (11 xs ys x)
  show ?case by (rule type_text_append)
qed

section \<open>Opening the directory\<close>

lemma open_listing:
  assumes ready: "program_ready own s" and name: "cstring (mem s) filename (ascii ''.'')"
    and cur: "unat (current_process_ID s) < length (PCB_array s)"
      "length (file_array (PCB_array s ! unat (current_process_ID s))) = 8"
    and slot: "fd_alloc (file_array (PCB_array s ! unat (current_process_ID s))) = Some i"
    and dot: "lookup_name (mem s) (bootmebb s) (ascii ''.'') = Some k" "file_type (mem s) (d_table_entry (bootmebb s) (of_nat k)) = 1"
    and dir: "dir_wf (mem s) (bootmebb s)" "unat (read_directory_index s) \<le> 17"
    and layout: "region buf 33 \<subseteq> own" "region dentry 64 \<subseteq> own" "region buf 32 \<inter> region dentry 64 = {}"
  obtains t where "sys_call_open dentry filename s = Some (of_nat i, t)" "listing own (of_nat i) buf dentry t"
    "names_left t = names_left s" "counter_after t = counter_after s" "terminal_view t = terminal_view s" "i < 8"
proof -
  let ?b = "bootmebb s"
  define e where "e = d_table_entry ?b (of_nat k)"
  define s2 where "s2 = s\<lparr>mem := memcpy (mem s) dentry e 64\<rparr>"
  define t where "t = opened i DIR_DEV (inode_num (mem s) e) s2"
  have k: "k < 63" using dot(1) by (simp add: lookup_name_Some)
  have apart: "region dentry 64 \<inter> region ?b 4096 = {}"
    using ready layout(2) boot_in_image [of ?b "mem s"] by (auto simp: program_ready_def)
  have op: "sys_call_open dentry filename s = Some (of_nat i, t)"
    using sys_call_open_result [of s filename 1 dentry] strlen_cstring [OF name] apart cur dot slot cprefix_cstring [OF name, of 32]
    by (simp add: s2_def t_def ascii_def Let_def device_of_type_def e_def)
  have i: "2 \<le> i" "i < 8" using slot cur by (simp_all add: fds.alloc_iff)
  have "region dentry 64 \<inter> region e 64 = {}" using apart d_table_entry_region [OF k, of ?b] by (auto simp: e_def)
  from dentry_copied(4) [OF this] have "memcpy (mem s) dentry e 64 p = mem s p" if "p \<notin> own" for p using that layout(2) by blast
  note o2 = own_memory [OF ready this]
  have ready2: "program_ready own t"
    unfolding t_def opened_def using o2(1) i by (intro program_ready_update_file) (simp_all add: s2_def)
  have fields: "mem t = memcpy (mem s) dentry e 64" "bootmebb t = ?b" "read_directory_index t = read_directory_index s"
    by (simp_all add: t_def opened_def s2_def update_file_def update_PCB_def)
  note same = names_left_agrees [OF o2(3) [folded fields(1)] fields(2,3)]
  have cf: "current_file (of_nat i) t = (current_file (of_nat i) s2)\<lparr>fb_inode := inode_num (mem s) e, file_position := 0, fb_flags := 1, file_op_table_ptr := DIR_DEV\<rparr>"
    unfolding t_def opened_def using cur i by (subst current_update_file) (simp_all add: s2_def)
  have "(of_nat i :: i32) \<noteq> 1" using u32_of_nat_eq_iff [of i 1] i by simp
  then have "listing own (of_nat i) buf dentry t"
    using ready2 i cf layout dir same(3) by (simp add: listing_def fields(2,3))
  moreover have "terminal_view t = terminal_view s" using o2(2) by (simp add: t_def opened_def s2_def)
  ultimately show thesis using that op same(1,2) i(2) by blast
qed

section \<open>Properties\<close>

text \<open>
  C7: \<^verbatim>\<open>ls\<close> prints the names of the directory, one on a line, from the kernel's counter up to the first empty
  name or the 17th entry, and returns 0.  It leaves the counter at 0 when it has come to the end, and past the
  empty name otherwise, where the next \<^verbatim>\<open>ls\<close> then starts.
\<close>

theorem ls_prints_directory:
  assumes ready: "program_ready own s"
    and cur: "unat (current_process_ID s) < length (PCB_array s)"
      "length (file_array (PCB_array s ! unat (current_process_ID s))) = 8"
    and slot: "fd_alloc (file_array (PCB_array s ! unat (current_process_ID s))) = Some i"
    and dot: "lookup_name (mem s) (bootmebb s) (ascii ''.'') = Some k" "file_type (mem s) (d_table_entry (bootmebb s) (of_nat k)) = 1"
    and dir: "dir_wf (mem s) (bootmebb s)" "unat (read_directory_index s) \<le> 17"
    and layout: "region buf 33 \<subseteq> own" "region lit 64 \<subseteq> own" "region (at_dentry A) 64 \<subseteq> own"
      "region buf 32 \<inter> region (at_dentry A) 64 = {}"
  shows "\<exists>t. ls_main (kernel_calls A dev child) buf lit (s, h) = Some (0, t) \<and>
    terminal_view (fst t) = type_text (concat (map (\<lambda>n. n @ [10]) (names_left s))) (terminal_view s) \<and>
    unat (read_directory_index (fst t)) = counter_after s"
proof -
  let ?U = "kernel_calls A dev child" and ?b = "bootmebb s"
  define m where "m = store_bytes (mem s) lit (ascii ''.'' @ [0])"
  define s1 where "s1 = s\<lparr>mem := m\<rparr>"
  have s1: "with_literal ?U lit ''.'' (s, h) = (s1, h)" by (simp add: with_literal_def m_def s1_def)
  have "m p = mem s p" if "p \<notin> own" for p
    unfolding m_def using that layout(2) region_mono [of "length (ascii ''.'' @ [0])" 64 lit]
    by (intro store_bytes_outside) (auto simp: ascii_def)
  note o1 = own_memory [OF ready this]
  have name: "cstring m lit (ascii ''.'')"
    unfolding m_def by (rule kernel_output.cstring_stored) (simp_all add: ascii_def)
  have s1': "mem s1 = m" "bootmebb s1 = ?b" "read_directory_index s1 = read_directory_index s" by (simp_all add: s1_def)
  have k: "k < 63" using dot(1) by (simp add: lookup_name_Some)
  note same = names_left_agrees [OF o1(3) [folded s1'(1)] s1'(2,3)]
  obtain t where t: "sys_call_open (at_dentry A) lit s1 = Some (of_nat i, t)" "listing own (of_nat i) buf (at_dentry A) t"
    "names_left t = names_left s1" "counter_after t = counter_after s1" "terminal_view t = terminal_view s1" "i < 8"
    by (rule open_listing [of own s1 lit i k buf "at_dentry A"])
      (use o1(1) name cur slot dir layout same(3) dot lookup_agrees(1) [OF o1(3)] file_type_agrees [OF o1(3) k] in \<open>auto simp: s1_def\<close>)
  from kernel_listing.ls_loop_lists [of own "of_nat i" buf A "(t, h)" dev child lit] t(2)
  obtain u where u: "ls_loop ?U buf lit (of_nat i) (t, h) = Some (0, u)" "unat (read_directory_index (fst u)) = counter_after t"
    "terminal_view (fst u) = type_text (concat (map (\<lambda>n. n @ [10]) (names_left t))) (terminal_view t)" by auto
  have "terminal_view t = terminal_view s" using o1(2) t(5) by (simp add: s1_def)
  moreover have "(of_nat i :: i32) \<noteq> -1" using u32_of_nat_eq_iff [of i "2 ^ 32 - 1"] t(6) by auto
  then have "ls_main ?U buf lit (s, h) = ls_loop ?U buf lit (of_nat i) (t, h)"
    using t(1) by (simp add: ls_main_def s1)
  ultimately show ?thesis using u t(3,4) same(1,2) by auto
qed

text \<open>On the image of the tests the only name is \<^verbatim>\<open>.\<close> itself, and the counter stays past the gap.\<close>

theorem ls_prints_directory_witness:
  "\<exists>t. ls_main (kernel_calls \<lparr>at_words = 0x8002000, at_dentry = 0x8002100\<rparr> (\<lambda>_ _. 0) (\<lambda>_ _. None)) 0x8000000 0x8001000 (test_kernel, [])
     = Some (0, t) \<and> terminal_view (fst t) = type_text [46, 10] (terminal_view test_kernel) \<and> unat (read_directory_index (fst t)) = 2"
proof -
  let ?own = "region 0x8000000 0x3000" and ?A = "\<lparr>at_words = 0x8002000, at_dentry = 0x8002100\<rparr>"
  note k = test_kernel_fields
  have "dir_wf dot_image 0x400000"
    unfolding dir_wf_def
  proof (intro allI impI)
    fix i :: nat assume i: "i < 17"
    have "length (cprefix dot_image (d_table_entry 0x400000 (of_nat i)) 64) \<le> 1"
    proof (cases "i = 0")
      case True
      then show ?thesis by (simp add: d_table_entry_def cprefix_def bytes_def dot_image_def upt_rec)
    next
      case False
      then have "dot_image (d_table_entry 0x400000 (of_nat i)) = 0" using i by (intro dot_image_entry) simp_all
      then show ?thesis by (simp add: cprefix_def bytes_def upt_conv_Cons)
    qed
    then show "length (cprefix dot_image (d_table_entry 0x400000 (of_nat i)) 64) < 64" by simp
  qed
  moreover have left: "names_left test_kernel = [[46]]"
    using dot_image_entries(1) dot_image_entries(2) [of 1] by (simp add: names_left_Cons k upt_conv_Cons Let_def)
  moreover have "fd_alloc initial_file_array = Some 2" "length initial_file_array = 8"
    unfolding fds.alloc_iff by (simp_all add: fd_used_def initial_file_array_def free_block_def)
  moreover have "lookup_name dot_image 0x400000 (ascii ''.'') = Some 0" "file_type dot_image (d_table_entry 0x400000 (of_nat 0)) = 1"
    using dot_image_entries(1) by (simp_all add: lookup_name_Some ascii_def d_table_entry_def file_type_def load32_def dot_image_def)
  moreover have "region 0x8000000 33 \<subseteq> ?own" "region 0x8001000 64 \<subseteq> ?own" "region 0x8002100 64 \<subseteq> ?own"
    using region_mono [of 33 "0x3000" "0x8000000"] region_shift_subset [of "0x1000" 64 "0x3000" "0x8000000"]
      region_shift_subset [of "0x2100" 64 "0x3000" "0x8000000"] by simp_all
  moreover have "region 0x8000000 32 \<inter> region 0x8002100 64 = {}" by (rule region_disjointI) simp_all
  ultimately show ?thesis
    using ls_prints_directory [of ?own test_kernel 2 0 "0x8000000" "0x8001000" ?A "\<lambda>_ _. 0" "\<lambda>_ _. None" "[]"] test_kernel_ready
    by (simp add: k counter_after_def Let_def numeral_2_eq_2)
qed

end
