(* ===== verification/User_Pingpong.thy ===== *)
theory User_Pingpong
  imports Program_Runs
begin

text \<open>
  \<^verbatim>\<open>ece391pingpong.c\<close>: a letter that moves between two walls, one step per tick of the clock.  The loop of
  \<^verbatim>\<open>main\<close> does not end, so the model runs it for a number of rounds.
\<close>

section \<open>The program\<close>

fun poke_all :: "'s calls \<Rightarrow> u8 \<Rightarrow> u32 list \<Rightarrow> 's \<Rightarrow> 's" where
  "poke_all U v [] st = st"
| "poke_all U v (a # as) st = poke_all U v as (poke U a v st)"

definition cells :: "u32 \<Rightarrow> nat \<Rightarrow> nat \<Rightarrow> u32 list" where
  "cells buf i k = map (\<lambda>j. buf + of_nat j) [i..<k]"

definition pingpong_start :: "'s calls \<Rightarrow> u32 \<Rightarrow> u32 \<Rightarrow> u32 \<Rightarrow> 's \<Rightarrow> (i32 \<times> 's) option" where
  "pingpong_start U buf lit ret_val st =
     (let st = poke_all U 32 (cells buf 0 81) st;
          st = poke U (buf + 80) 0 st; st = poke U (buf + 79) 10 st; st = poke U (buf + 78) 124 st; st = poke U (buf + 1) 124 st
      in do {
        (rtc_fd, st) \<leftarrow> u_open U lit (with_literal U lit ''rtc'' st);
        (r, st) \<leftarrow> u_write U rtc_fd ret_val 4 (u_set_mem U (store32 (u_mem U st) ret_val 32) st);
        Some (rtc_fd, st)
      })"

text \<open>The body of both inner loops: clear the world, draw the letter in column \<open>j\<close>, and wait for the clock.\<close>

definition pingpong_draw :: "'s calls \<Rightarrow> u32 \<Rightarrow> u8 \<Rightarrow> nat \<Rightarrow> 's \<Rightarrow> 's option" where
  "pingpong_draw U buf curchar j st =
     ece391_fdputs U 1 buf (poke U (buf + of_nat j) curchar (poke_all U 32 (cells buf 2 78) st))"

definition pingpong_frame :: "'s calls \<Rightarrow> u32 \<Rightarrow> u32 \<Rightarrow> i32 \<Rightarrow> u8 \<Rightarrow> nat \<Rightarrow> 's \<Rightarrow> 's option" where
  "pingpong_frame U buf garbage rtc_fd curchar j st =
     do { st \<leftarrow> pingpong_draw U buf curchar j st; (r, st) \<leftarrow> u_read U rtc_fd garbage 4 st; Some st }"

fun pingpong_sweep :: "'s calls \<Rightarrow> u32 \<Rightarrow> u32 \<Rightarrow> i32 \<Rightarrow> u8 \<Rightarrow> nat list \<Rightarrow> 's \<Rightarrow> 's option" where
  "pingpong_sweep U buf garbage rtc_fd curchar [] st = Some st"
| "pingpong_sweep U buf garbage rtc_fd curchar (j # js) st =
     Option.bind (pingpong_frame U buf garbage rtc_fd curchar j st) (pingpong_sweep U buf garbage rtc_fd curchar js)"

definition next_letter :: "u8 \<Rightarrow> u8" where
  "next_letter curchar = (if curchar = 90 then 65 else curchar + 1)"

fun pingpong_rounds :: "nat \<Rightarrow> 's calls \<Rightarrow> u32 \<Rightarrow> u32 \<Rightarrow> i32 \<Rightarrow> u8 \<Rightarrow> 's \<Rightarrow> 's option" where
  "pingpong_rounds 0 U buf garbage rtc_fd curchar st = Some st"
| "pingpong_rounds (Suc n) U buf garbage rtc_fd curchar st =
     do {
       st \<leftarrow> pingpong_sweep U buf garbage rtc_fd curchar [2..<78] st;
       st \<leftarrow> pingpong_sweep U buf garbage rtc_fd curchar (rev [2..<78]) st;
       pingpong_rounds n U buf garbage rtc_fd (next_letter curchar) st
     }"

section \<open>What a frame shows\<close>

lemma in_cells: "p \<in> set (cells buf i k) \<longleftrightarrow> (\<exists>j. i \<le> j \<and> j < k \<and> p = buf + of_nat j)"
  by (auto simp: cells_def)

definition pingpong_line :: "u8 \<Rightarrow> nat \<Rightarrow> u8 list" where
  "pingpong_line c j = [32, 124] @ map (\<lambda>i. if i = j then c else 32) [2..<78] @ [124, 10]"

lemma length_pingpong_line [simp]: "length (pingpong_line c j) = 80"
  by (simp add: pingpong_line_def del: upt.simps upt_rec_numeral)

lemma pingpong_line_inside:
  assumes "2 \<le> i" "i < 78" shows "pingpong_line c j ! i = (if i = j then c else 32)"
proof -
  define inner where "inner = map (\<lambda>i. if i = j then c else 32 :: u8) [2..<78]"
  have len: "length inner = 76" by (simp add: inner_def del: upt_rec_numeral)
  have i: "i - 2 < 76" using assms by linarith
  have "pingpong_line c j ! i = ([32, 124] @ inner @ [124, 10]) ! (2 + (i - 2))"
    using assms(1) by (simp only: pingpong_line_def inner_def le_add_diff_inverse)
  also have "\<dots> = inner ! (i - 2)" using i len by (simp add: nth_append)
  also have "\<dots> = (\<lambda>i. if i = j then c else 32) ([2..<78] ! (i - 2))"
    unfolding inner_def by (rule nth_map) (use i in \<open>simp del: upt_rec_numeral\<close>)
  also have "[2..<78] ! (i - 2) = 2 + (i - 2)" by (rule nth_upt) (use i in simp)
  also have "2 + (i - 2) = i" using assms(1) by simp
  finally show ?thesis .
qed

lemma pingpong_line_walls:
  "pingpong_line c j ! 0 = 32" "pingpong_line c j ! Suc 0 = 124" "pingpong_line c j ! 78 = 124" "pingpong_line c j ! 79 = 10"
proof -
  define inner where "inner = map (\<lambda>i. if i = j then c else 32 :: u8) [2..<78]"
  have len: "length inner = 76" by (simp add: inner_def del: upt_rec_numeral)
  have l: "pingpong_line c j = [32, 124] @ inner @ [124, 10]" by (simp add: pingpong_line_def inner_def del: upt_rec_numeral)
  show "pingpong_line c j ! 0 = 32" "pingpong_line c j ! Suc 0 = 124" "pingpong_line c j ! 78 = 124" "pingpong_line c j ! 79 = 10"
    using len by (simp_all add: l nth_append)
qed

text \<open>The walls around the world, whatever is between them.\<close>

definition walls :: "memory \<Rightarrow> u32 \<Rightarrow> bool" where
  "walls m buf \<longleftrightarrow> m buf = 32 \<and> m (buf + 1) = 124 \<and> m (buf + 78) = 124 \<and> m (buf + 79) = 10 \<and> m (buf + 80) = 0"

lemma next_letter_range: "65 \<le> c \<Longrightarrow> c \<le> 90 \<Longrightarrow> 65 \<le> next_letter c \<and> next_letter c \<le> 90"
proof -
  assume c: "65 \<le> c" "c \<le> 90"
  show ?thesis
  proof (cases "c = 90")
    case False
    then have "unat c \<noteq> 90" using word_unat_eq_iff [of c 90] by simp
    moreover have "65 \<le> unat c" "unat c \<le> 90" using c by (simp_all add: word_le_nat_alt)
    ultimately have "unat c < 90" by simp
    then have "unat (c + 1) = unat c + 1" by (simp add: unat_word_ariths)
    with False \<open>65 \<le> unat c\<close> \<open>unat c < 90\<close> show ?thesis by (simp add: next_letter_def word_le_nat_alt)
  qed (simp add: next_letter_def)
qed

context program_output
begin

lemma poke_inv:
  assumes "inv s" "a \<in> own"
  shows "inv (poke U a v s)" "out (poke U a v s) = out s" "u_mem U (poke U a v s) = (u_mem U s)(a := v)"
  unfolding poke_def using assms by (auto simp: mem_set intro!: set_inv set_out)

lemma poke_all_inv:
  "inv s \<Longrightarrow> set as \<subseteq> own \<Longrightarrow>
     inv (poke_all U v as s) \<and> out (poke_all U v as s) = out s \<and>
     (\<forall>p. u_mem U (poke_all U v as s) p = (if p \<in> set as then v else u_mem U s p))"
  by (induction as arbitrary: s) (simp_all add: poke_inv)

text \<open>The cells of a line once it is cleared and its letter set.\<close>

lemma line_cells:
  fixes c :: u8
  assumes inv: "inv s" and own: "region buf 81 \<subseteq> own" and j: "2 \<le> j" "j < 78"
  defines "t \<equiv> poke U (buf + of_nat j) c (poke_all U 32 (cells buf 2 78) s)"
  shows "inv t" "out t = out s"
    "i < 81 \<Longrightarrow> u_mem U t (buf + of_nat i) = (if i = j then c else if 2 \<le> i \<and> i < 78 then 32 else u_mem U s (buf + of_nat i))"
proof -
  have at: "buf + of_nat i = buf + of_nat k \<longleftrightarrow> i = k" if "i < 81" "k < 81" for i k
    using that u32_of_nat_eq_iff [of i k] by simp
  have "set (cells buf 2 78) \<subseteq> region buf 81"
  proof
    fix p assume "p \<in> set (cells buf 2 78)"
    then obtain i where "i < 78" "p = buf + of_nat i" unfolding in_cells by blast
    then show "p \<in> region buf 81" by (simp add: in_regionI)
  qed
  then have sub: "set (cells buf 2 78) \<subseteq> own" using own by blast
  note p1 = poke_all_inv [OF inv sub, of 32]
  have jo: "buf + of_nat j \<in> own" using own j in_regionI [of j 81 buf] by auto
  have p2: "inv t" "out t = out s" "u_mem U t = (u_mem U (poke_all U 32 (cells buf 2 78) s))(buf + of_nat j := c)"
    using p1 poke_inv [of "poke_all U 32 (cells buf 2 78) s" "buf + of_nat j" c] jo by (simp_all add: t_def)
  have cell: "buf + of_nat i \<in> set (cells buf 2 78) \<longleftrightarrow> 2 \<le> i \<and> i < 78" if "i < 81" for i
  proof
    assume "buf + of_nat i \<in> set (cells buf 2 78)"
    then obtain k where k: "2 \<le> k" "k < 78" "buf + of_nat i = buf + of_nat k" unfolding in_cells by blast
    then have "i = k" using at [OF that, of k] by simp
    with k show "2 \<le> i \<and> i < 78" by simp
  qed (unfold in_cells, blast)
  show "inv t" "out t = out s" by (rule p2)+
  show "u_mem U t (buf + of_nat i) = (if i = j then c else if 2 \<le> i \<and> i < 78 then 32 else u_mem U s (buf + of_nat i))"
    if "i < 81"
    using p1 at [OF that, of j] cell [OF that] j by (simp add: p2(3))
qed

lemma draw_line:
  assumes inv: "inv s" and w: "walls (u_mem U s) buf" and own: "region buf 81 \<subseteq> own" and j: "2 \<le> j" "j < 78" and c: "c \<noteq> 0"
  obtains t where "pingpong_draw U buf c j s = Some t" "inv t" "walls (u_mem U t) buf"
    "out t = emit (pingpong_line c j) (out s)"
proof -
  let ?t = "poke U (buf + of_nat j) c (poke_all U 32 (cells buf 2 78) s)"
  note p2 = line_cells(1,2) [OF inv own j, of c] and m = line_cells(3) [OF inv own j, of _ c]
  have line: "bytes (u_mem U ?t) buf 80 = pingpong_line c j"
  proof (rule nth_equalityI)
    show "length (bytes (u_mem U ?t) buf 80) = length (pingpong_line c j)" by simp
    fix i assume "i < length (bytes (u_mem U ?t) buf 80)"
    then have i: "i < 80" by simp
    have "pingpong_line c j ! i = (if i = j then c else if 2 \<le> i \<and> i < 78 then 32 else u_mem U s (buf + of_nat i))"
    proof (cases "2 \<le> i \<and> i < 78")
      case True
      then show ?thesis using pingpong_line_inside by auto
    next
      case False
      then have "i \<in> {0, 1, 78, 79}" using i by auto
      with False j w show ?thesis by (auto simp: pingpong_line_walls walls_def)
    qed
    then show "bytes (u_mem U ?t) buf 80 ! i = pingpong_line c j ! i" using m [of i] i by (simp add: bytes_nth)
  qed
  have w2: "walls (u_mem U ?t) buf"
    using m [of 0] m [of 1] m [of 78] m [of 79] m [of 80] w j by (simp add: walls_def)
  have "0 \<notin> set (pingpong_line c j)" using c by (auto simp: pingpong_line_def simp del: upt_rec_numeral)
  moreover have len: "length (pingpong_line c j) = 80" by simp
  ultimately have "cstring (u_mem U ?t) buf (pingpong_line c j)" using line w2 by (simp add: cstring_def walls_def)
  moreover have "region buf (length (pingpong_line c j)) \<subseteq> own" using own region_mono [of 80 81 buf] by (auto simp: len)
  ultimately obtain u where u: "ece391_fdputs U 1 buf ?t = Some u" "inv u" "out u = emit (pingpong_line c j) (out ?t)"
    "\<And>p. p \<in> own \<Longrightarrow> u_mem U u p = u_mem U ?t p"
    using fdputs_cstring [OF p2(1), of buf "pingpong_line c j"] len by auto
  have "u_mem U u (buf + of_nat i) = u_mem U ?t (buf + of_nat i)" if "i < 81" for i
    using u(4) own in_regionI [OF that, of buf] by blast
  from this [of 0] this [of 1] this [of 78] this [of 79] this [of 80] have "walls (u_mem U u) buf"
    using w2 by (simp add: walls_def)
  with u p2(2) show thesis by (intro that [of u]) (simp_all add: pingpong_draw_def)
qed

lemma start_walls:
  assumes "inv s" "region buf 81 \<subseteq> own"
  defines "t \<equiv> poke U (buf + 1) 124 (poke U (buf + 78) 124 (poke U (buf + 79) 10 (poke U (buf + 80) 0 (poke_all U 32 (cells buf 0 81) s))))"
  shows "inv t" "out t = out s" "walls (u_mem U t) buf"
proof -
  have sub: "buf + of_nat i \<in> own" if "i < 81" for i using assms(2) in_regionI [OF that, of buf] by blast
  have "set (cells buf 0 81) \<subseteq> own"
  proof
    fix p assume "p \<in> set (cells buf 0 81)"
    then obtain i where "i < 81" "p = buf + of_nat i" unfolding in_cells by blast
    then show "p \<in> own" using sub by simp
  qed
  note p = poke_all_inv [OF assms(1) this, of 32]
  have blank: "u_mem U (poke_all U 32 (cells buf 0 81) s) buf = 32"
    using p in_cells [of buf buf 0 81] by (auto intro!: exI [of _ 0])
  have b: "buf + 1 \<in> own" "buf + 78 \<in> own" "buf + 79 \<in> own" "buf + 80 \<in> own" using sub [of 1] sub [of 78] sub [of 79] sub [of 80] by simp_all
  show "inv t" "out t = out s" unfolding t_def using p b by (simp_all add: poke_inv)
  show "walls (u_mem U t) buf" unfolding t_def walls_def using p b blank by (simp add: poke_inv)
qed

end

end
