(* ===== verification/Faults.thy ===== *)
theory Faults
  imports Open_Files IDT User_Programs
begin

text \<open>
  What an exception does to the program that raised it: the handlers of \<^verbatim>\<open>IDT.c\<close> end it through
  \<^verbatim>\<open>sys_call_halt\<close>, and control goes back to the program that started it, with their status.
\<close>

lemma pcb_view_putc: "pcb_view (putc c s) = pcb_view s" "esp0 (putc c s) = esp0 s"
  by (simp_all add: putc_def Let_def pcb_view_def)

lemma pcb_view_fold_putc: "pcb_view (fold putc str s) = pcb_view s"
  by (induction str arbitrary: s) (simp_all add: pcb_view_putc)

text \<open>A process with a parent: both have control blocks, and they are not the same.\<close>

definition child_process :: "nat \<Rightarrow> 'a kernel_scheme \<Rightarrow> bool" where
  "child_process q s \<longleftrightarrow>
     unat (current_process_ID s) < length (PCB_array s) \<and> unat (parent_process_ID s) < length (PCB_array s) \<and>
     parent_PCB (PCB_array s ! unat (current_process_ID s)) = Some q \<and> q < length (PCB_array s) \<and>
     q \<noteq> unat (current_process_ID s)"

lemma halt_ends_child:
  assumes c: "child_process q s"
  obtains t where "sys_call_halt status s = Some (Return_Through (ucast status)
      (pcb_esp (PCB_array s ! unat (parent_process_ID s))) (pcb_ebp (PCB_array s ! unat (parent_process_ID s))) t)"
    "current_process_ID t = ucast (process_id (PCB_array s ! q))" "parent_process_ID t = ucast (process_id (PCB_array s ! q))"
    "pcb_flag (PCB_array t ! unat (current_process_ID s)) = 0" "isActive (PCB_array t ! q) = 1"
    "file_array (PCB_array t ! unat (current_process_ID s))
       = map (\<lambda>_. closed_block) (file_array (PCB_array s ! unat (current_process_ID s)))"
    "\<And>j. j \<noteq> q \<Longrightarrow> j \<noteq> unat (current_process_ID s) \<Longrightarrow> PCB_array t ! j = PCB_array s ! j"
    "\<And>a. \<not> in_window a \<Longrightarrow> mem t a = mem s a"
proof -
  define k where "k = unat (current_process_ID s)"
  define s1 where "s1 = update_PCB (current_process_ID s) (\<lambda>p. p\<lparr>file_array := map (\<lambda>_. closed_block) (file_array p)\<rparr>)
      (s\<lparr>esp0 := parent_ESP0 (PCB_array s ! k)\<rparr>)"
  note c' = c [unfolded child_process_def, folded k_def]
  have s1: "PCB_array s1 = (PCB_array s)[k := (PCB_array s ! k)\<lparr>file_array := map (\<lambda>_. closed_block) (file_array (PCB_array s ! k))\<rparr>]"
    "current_process_ID s1 = current_process_ID s" "parent_process_ID s1 = parent_process_ID s" "mem s1 = mem s"
    by (simp_all add: s1_def update_PCB_def k_def)
  obtain u where u: "halt_to_parent q s1 = Some u" "current_process_ID u = ucast (process_id (PCB_array s ! q))"
    "parent_process_ID u = ucast (process_id (PCB_array s ! q))"
    "PCB_array u = (PCB_array s1)[q := (PCB_array s ! q)\<lparr>isActive := 1\<rparr>,
       k := (PCB_array s1 ! k)\<lparr>isActive := 0, pcb_flag := 0, terminalNumber := -1, parent_PCB := None, pcb_esp := 0, pcb_ebp := 0\<rparr>]"
    "mem u = mem s"
    using c' s1 by (simp add: halt_to_parent_def Let_def update_PCB_def k_def)
  define t where "t = map_window (process_entry (ucast (current_process_ID u))) u"
  have t: "PCB_array t = PCB_array u" "current_process_ID t = current_process_ID u" "parent_process_ID t = parent_process_ID u"
    by (simp_all add: t_def)
  have "sys_call_halt status s = Some (Return_Through (ucast status) (pcb_esp (PCB_array s ! unat (parent_process_ID s)))
      (pcb_ebp (PCB_array s ! unat (parent_process_ID s))) t)"
    using c' u(1) by (simp add: sys_call_halt_def get_PCB_def Let_def k_def [symmetric] s1_def [symmetric] s1(2) t_def)
  moreover have "mem t a = mem s a" if "\<not> in_window a" for a using that u(5) by (simp add: t_def map_window_mem)
  ultimately show thesis
    using u(2-4) s1(1) t c' by (intro that [of t]) (simp_all add: k_def [symmetric])
qed

text \<open>The frame buffer is not in the window, so remapping the window does not change the screen.\<close>

lemma screen_outside_window:
  assumes "\<And>a. \<not> in_window a \<Longrightarrow> m a = m' a"
  shows "screen_bytes m = screen_bytes m'"
  unfolding screen_bytes_def
proof (rule bytes_cong, rule assms)
  show "\<not> in_window a" if "a \<in> region video 4000" for a
    using low_not_in_window [OF that] by (simp add: video_def)
qed

text \<open>Storing the message does not draw; printing it shows its characters.\<close>

lemma printed_screen:
  assumes "printable_text K name s"
  shows "screen_bytes (mem (fold putc name (with_text K name s)))
       = show_text name (unat (screen_x s)) (unat (screen_y s)) (screen_bytes (mem s))"
proof -
  note p = assms [unfolded printable_text_def]
  have d: "region (lit_format K) 3 \<inter> region video 4000 = {}" "region (lit_text K) (Suc (length name)) \<inter> region video 4000 = {}"
    "region (lit_args K) 4 \<inter> region video 4000 = {}" using p by simp_all
  have l: "length (ascii ''%s'' @ [0 :: u8]) = 3" "length (name @ [0]) = Suc (length name)" by (simp_all add: ascii_def)
  have "screen_bytes (mem (with_text K name s)) = screen_bytes (mem s)"
    unfolding screen_bytes_def with_text_def using d
    by (simp add: bytes_store32_other bytes_store_other l Int_commute del: length_append)
  with fold_putc_screen [of "with_text K name s" name] p show ?thesis by (simp add: with_text_def)
qed

section \<open>Properties\<close>

text \<open>
  C12: An exception in a child process, whatever its handler: when control leaves the handler, the screen shows the
  name of the exception from the console's cursor on, the process is ended with all its descriptors closed and its
  control block free, its parent is the running process again, and control returns with the value 1 through the
  stack frame that the process was started from.  The shell therefore reports an abnormal end; its message for
  exceptions, which it gives for 256, is not reached.
\<close>

theorem exception_ends_process:
  assumes msg: "printable_text K name s" and c: "child_process q s"
  shows "\<exists>t. fault K name s = Some (Return_Through 1 (pcb_esp (PCB_array s ! unat (parent_process_ID s)))
      (pcb_ebp (PCB_array s ! unat (parent_process_ID s))) t) \<and>
    screen_bytes (mem t) = show_text name (unat (screen_x s)) (unat (screen_y s)) (screen_bytes (mem s)) \<and>
    current_process_ID t = ucast (process_id (PCB_array s ! q)) \<and>
    pcb_flag (PCB_array t ! unat (current_process_ID s)) = 0 \<and> isActive (PCB_array t ! q) = 1 \<and>
    (\<forall>f \<in> set (file_array (PCB_array t ! unat (current_process_ID s))). fb_flags f = 0) \<and>
    (\<forall>j. j \<noteq> q \<and> j \<noteq> unat (current_process_ID s) \<longrightarrow> PCB_array t ! j = PCB_array s ! j)"
proof -
  let ?s = "fold putc name (with_text K name s)"
  have view: "pcb_view ?s = pcb_view s" by (simp add: pcb_view_fold_putc with_text_def)
  then have eq: "PCB_array ?s = PCB_array s" "current_process_ID ?s = current_process_ID s" "parent_process_ID ?s = parent_process_ID s"
    by (simp_all add: pcb_view_def)
  then have "child_process q ?s" using c by (simp add: child_process_def)
  then obtain t where t: "sys_call_halt 1 ?s = Some (Return_Through (ucast (1 :: u8)) (pcb_esp (PCB_array ?s ! unat (parent_process_ID ?s)))
      (pcb_ebp (PCB_array ?s ! unat (parent_process_ID ?s))) t)"
    "current_process_ID t = ucast (process_id (PCB_array ?s ! q))" "parent_process_ID t = ucast (process_id (PCB_array ?s ! q))"
    "pcb_flag (PCB_array t ! unat (current_process_ID ?s)) = 0" "isActive (PCB_array t ! q) = 1"
    "file_array (PCB_array t ! unat (current_process_ID ?s))
       = map (\<lambda>_. closed_block) (file_array (PCB_array ?s ! unat (current_process_ID ?s)))"
    "\<And>j. j \<noteq> q \<Longrightarrow> j \<noteq> unat (current_process_ID ?s) \<Longrightarrow> PCB_array t ! j = PCB_array ?s ! j"
    "\<And>a. \<not> in_window a \<Longrightarrow> mem t a = mem ?s a"
    by (rule halt_ends_child [where status = 1]) blast
  note t = t [unfolded eq]
  have "fault K name s = Some (Return_Through 1 (pcb_esp (PCB_array s ! unat (parent_process_ID s)))
      (pcb_ebp (PCB_array s ! unat (parent_process_ID s))) t)"
    using print_text_printable [OF msg] t(1) by (simp add: fault_def)
  moreover have "\<forall>f \<in> set (file_array (PCB_array t ! unat (current_process_ID s))). fb_flags f = 0"
    unfolding t(6) by (simp add: closed_block_def)
  moreover have "screen_bytes (mem t) = screen_bytes (mem ?s)" by (rule screen_outside_window) (rule t(8))
  ultimately show ?thesis using t(2,4,5,7) by (intro exI [of _ t]) (simp add: printed_screen [OF msg])
qed

definition child_kernel :: kernel where
  "child_kernel = shell_kernel\<lparr>PCB_array := (PCB_array shell_kernel)[1 := blank_PCB\<lparr>pcb_flag := 1, parent_PCB := Some 0, isActive := 1\<rparr>],
     current_process_ID := 1\<rparr>"

theorem exception_ends_process_witness:
  "\<exists>t. fault \<lparr>lit_format = 0x900000, lit_text = 0x910000, lit_args = 0x920000, lit_conv = (\<lambda>_. 0)\<rparr> (ascii ''divide by 0'') child_kernel
     = Some (Return_Through 1 0 0 t) \<and>
     screen_bytes (mem t) = show_text (ascii ''divide by 0'') 0 0 (screen_bytes (mem child_kernel)) \<and>
     current_process_ID t = 0 \<and> pcb_flag (PCB_array t ! 1) = 0"
proof -
  let ?K = "\<lparr>lit_format = 0x900000, lit_text = 0x910000, lit_args = 0x920000, lit_conv = (\<lambda>_. 0 :: u32)\<rparr>"
  have len: "length (ascii ''divide by 0'') = 11" by (simp add: ascii_def)
  have xy: "screen_x child_kernel = 0" "screen_y child_kernel = 0"
    by (simp_all add: child_kernel_def shell_kernel_def reset_kernel_def reset_paging_def reset_keyboard_def reset_console_def
        keyboard.defs paging.defs console.defs rtc.defs)
  moreover have "apart [(0x900000, 3), (0x910000, Suc 11), (0x920000, 4), (video, 4000)]"
    unfolding video_def by (simp; intro conjI; rule region_disjointI; simp)
  ultimately have "printable_text ?K (ascii ''divide by 0'') child_kernel"
    unfolding printable_text_def len by (simp add: ascii_def)
  moreover have "child_process 0 child_kernel"
    by (simp add: child_process_def child_kernel_def shell_kernel_def)
  moreover have "current_process_ID child_kernel = 1" "unat (parent_process_ID child_kernel) = 0" "process_id (PCB_array child_kernel ! 0) = 0"
    "pcb_esp (PCB_array child_kernel ! 0) = 0" "pcb_ebp (PCB_array child_kernel ! 0) = 0"
    by (simp_all add: child_kernel_def shell_kernel_def blank_PCB_def)
  ultimately show ?thesis
    using exception_ends_process [of ?K "ascii ''divide by 0''" child_kernel 0] xy by auto
qed

end
