(* ===== verification/Typing.thy ===== *)
theory Typing
  imports Program_Runs
begin

text \<open>
  Programs that read from the keyboard.  What such a program needs of the calls is the locale \<open>program_input\<close>: the
  lines that will be typed, and what a read does with the next one.  The shell, \<^verbatim>\<open>hello\<close> and \<^verbatim>\<open>counter\<close> are proved
  inside it, and the calls of this kernel, with the keyboard handler running while a read waits, are its
  interpretation.
\<close>

section \<open>What the keyboard handler leaves alone\<close>

definition key_kept :: "'a keyboard_scheme \<Rightarrow> 'a keyboard_scheme \<Rightarrow> bool" where
  "key_kept s t \<longleftrightarrow> keyboard.more t = keyboard.more s \<and> keybuf t = keybuf s \<and> attr t = attr s \<and>
     (\<forall>p. p \<notin> region video 0x8000 \<union> region (keybuf s) 129 \<longrightarrow> mem t p = mem s p)"

lemma key_kept_refl [simp]: "key_kept s s"
  by (simp add: key_kept_def)

lemma key_kept_trans: "key_kept s t \<Longrightarrow> key_kept t u \<Longrightarrow> key_kept s u"
  by (simp add: key_kept_def)

lemma key_kept_fields [simp]:
  "key_kept s (t\<lparr>port_log := l\<rparr>) = key_kept s t" "key_kept s (t\<lparr>eflags_if := b\<rparr>) = key_kept s t"
  "key_kept s (t\<lparr>cursor_x := x\<rparr>) = key_kept s t" "key_kept s (t\<lparr>cursor_y := y\<rparr>) = key_kept s t"
  "key_kept s (t\<lparr>buffer_Size := n\<rparr>) = key_kept s t" "key_kept s (t\<lparr>cursorPointer := n\<rparr>) = key_kept s t"
  "key_kept s (t\<lparr>enter_flag := f\<rparr>) = key_kept s t" "key_kept s (t\<lparr>capsLockFlag := v\<rparr>) = key_kept s t"
  "key_kept s (t\<lparr>shiftKeyHoldDown := v\<rparr>) = key_kept s t" "key_kept s (t\<lparr>ctrlKeyHoldDown := v\<rparr>) = key_kept s t"
  "key_kept s (t\<lparr>altKeyFlag := v\<rparr>) = key_kept s t"
  by (simp_all add: key_kept_def attr_def)

lemma key_kept_port [simp]:
  "key_kept s (send_eoi 1 t) = key_kept s t" "key_kept s (move_and_eoi t) = key_kept s t"
  by (simp_all add: send_eoi_1 move_and_eoi_def) (metis fb_move_cursor_eq key_kept_fields(1))

lemma key_kept_cursor [simp]: "key_kept s (fb_move_cursor r c t) = key_kept s t"
  by (metis fb_move_cursor_eq key_kept_fields(1))

lemma key_kept_WriteCharacter:
  assumes "unat tx \<le> 300" "unat ty \<le> 24" shows "key_kept s (WriteCharacter c 255 0 tx ty s)"
proof -
  let ?i = "2 * (80 * unat ty + unat tx)"
  have w: "WriteCharacter c 255 0 tx ty s = s\<lparr>mem := store_bytes (mem s) (video + of_nat ?i) [c, attr s]\<rparr>"
    using WriteCharacter_store [of "unat tx" "unat ty" c s] assms by simp
  have "region (video + of_nat ?i) (length [c, attr s]) \<subseteq> region video 0x8000"
    by (rule region_shift_subset) (use assms in simp)
  then have "store_bytes (mem s) (video + of_nat ?i) [c, attr s] p = mem s p" if "p \<notin> region video 0x8000" for p
    using that by (intro store_bytes_outside) blast
  then show ?thesis by (simp add: key_kept_def w attr_def)
qed

lemma key_kept_set_buffer:
  assumes "unat i \<le> 128" shows "key_kept s (set_buffer i c s)"
proof -
  have "ucast i = (of_nat (unat i) :: u32)" by simp
  then have "keybuf s + ucast i \<in> region (keybuf s) 129" using in_regionI [of "unat i" 129 "keybuf s"] assms by simp
  then show ?thesis by (auto simp: key_kept_def set_buffer_def attr_def)
qed

lemma key_kept_erase:
  assumes "kbd_wf s"
  shows "cursor_x s > 0 \<Longrightarrow> key_kept s (erase_left s)" "cursor_y s > 0 \<Longrightarrow> key_kept s (erase_row_end s)"
proof -
  show "key_kept s (erase_left s)" if "cursor_x s > 0"
    using key_kept_WriteCharacter [of "cursor_x s - 1" "cursor_y s" s 32] kbd_wfD(2,4) [OF assms] u16_minus_1 [OF that]
    by (simp add: erase_left_def Let_def)
  show "key_kept s (erase_row_end s)" if "cursor_y s > 0"
  proof -
    let ?t = "s\<lparr>cursor_y := cursor_y s - 1, cursor_x := 79\<rparr>"
    have "key_kept ?t (WriteCharacter 32 255 0 79 (cursor_y s - 1) ?t)"
      using kbd_wfD(2) [OF assms] u16_minus_1 [OF that] by (intro key_kept_WriteCharacter) simp_all
    then show ?thesis by - (rule key_kept_trans [of s ?t], simp_all add: erase_row_end_def Let_def)
  qed
qed

lemma key_kept_store_char:
  assumes "kbd_wf s" "buffer_Size s < 128" shows "key_kept s (advance_cursor (store_char c s))"
proof -
  let ?t = "(set_buffer (buffer_Size s) c s)\<lparr>buffer_Size := buffer_Size s + 1, cursorPointer := cursorPointer s + 1\<rparr>"
  have "key_kept s ?t" using key_kept_set_buffer [of "buffer_Size s" s c] assms(2) by (simp add: word_less_nat_alt)
  moreover have "key_kept ?t (WriteCharacter c 255 0 (cursor_x s) (cursor_y s) ?t)"
    by (rule key_kept_WriteCharacter [OF kbd_wfD(4,2) [OF assms(1)]])
  moreover have "store_char c s = WriteCharacter c 255 0 (cursor_x s) (cursor_y s) ?t"
    by (simp add: store_char_def Let_def set_buffer_def)
  ultimately have "key_kept s (store_char c s)" using key_kept_trans by metis
  then show ?thesis by (simp add: advance_cursor_def Let_def)
qed

lemma key_kept_enter:
  assumes "kbd_wf s" shows "key_kept s (key_enter s)"
proof -
  let ?t = "s\<lparr>enter_flag := 1, cursorPointer := 0, cursor_x := 0, cursor_y := cursor_y s + 1\<rparr>"
  have "key_kept s (if cursor_y s + 1 = 25 then scroll ?t else ?t)"
  proof (cases "cursor_y s + 1 = 25")
    case True
    then obtain m where m: "scroll ?t = ?t\<lparr>cursor_y := 24, mem := m\<rparr>" "\<And>p. p \<notin> region video 4000 \<Longrightarrow> m p = mem ?t p"
      using scroll_eq [of ?t] by auto
    then show ?thesis using True screen_in_window by (simp add: key_kept_def attr_def)
  qed simp
  then show ?thesis by (simp add: key_enter_def Let_def)
qed

lemma key_kept_clear: "key_kept s (clear s)"
proof -
  have "length (concat (replicate n [32, 7 :: u8])) = 2 * n" for n by (induction n) simp_all
  then have "store_bytes (mem s) video (concat (replicate 2000 [32, 7])) p = mem s p" if "p \<notin> region video 0x8000" for p
    using screen_in_window [OF that] by (intro store_bytes_outside) simp
  then show ?thesis by (simp add: key_kept_def clear_store attr_def)
qed

lemma key_kept_backspace:
  assumes "kbd_inv s" shows "key_kept s (key_backspace s)"
proof -
  have wf: "kbd_wf s" and cols: "unat (cursor_x s) \<le> 80 + unat (buffer_Size s)" and t0: "tabbed s = 0" "charactersOnScreen s = 0"
    using assms by (simp_all add: kbd_inv_def kbd_wf_def)
  let ?t = "(set_buffer (buffer_Size s) 32 s)\<lparr>buffer_Size := buffer_Size s - 1, cursorPointer := cursorPointer s - 1\<rparr>"
  have k: "key_kept s ?t" using key_kept_set_buffer kbd_wfD(1) [OF wf] by simp
  have f: "cursor_x ?t = cursor_x s" "cursor_y ?t = cursor_y s" by (simp_all add: set_buffer_def)
  show ?thesis
  proof (cases "(cursor_x s = 0 \<and> cursor_y s = 0) \<or> buffer_Size s = 0")
    case True
    then show ?thesis using t0 by (auto simp: key_backspace_def)
  next
    case False
    then have b: "buffer_Size s > 0" by (simp add: word_neq_0_conv)
    have e: "key_backspace s = move_and_eoi (if cursor_x s > 0 then erase_left ?t else erase_row_end ?t)"
      using False b t0 f by (auto simp: key_backspace_def Let_def set_buffer_def)
    note wt = drop_buffer(2) [OF wf b cols, where c = 32 and cp = "cursorPointer s - 1"]
    show ?thesis
    proof (cases "cursor_x s > 0")
      case True
      then have "key_kept ?t (erase_left ?t)" using key_kept_erase(1) [OF wt] f by simp
      from key_kept_trans [OF k this] True show ?thesis by (simp add: e)
    next
      case x0: False
      with False have "cursor_y s > 0" by (auto simp: word_neq_0_conv)
      then have "key_kept ?t (erase_row_end ?t)" using key_kept_erase(2) [OF wt] f by simp
      from key_kept_trans [OF k this] x0 show ?thesis by (simp add: e)
    qed
  qed
qed

lemma key_kept_scancode:
  assumes inv: "kbd_inv s" and k: "k \<notin> {0x3B, 0x3C, 0x3D}"
  shows "key_kept s (handle_scancode fkey k s)"
proof -
  have wf: "kbd_wf s" using inv by (simp add: kbd_inv_def)
  note c = key_kept_store_char [OF wf]
  have "key_kept s (key_l s)"
    using key_kept_clear [of s] c by (simp add: key_l_def Let_def)
  moreover have "key_kept s (key_printable k s)" for k using c by (simp add: key_printable_def Let_def)
  ultimately show ?thesis
    using k key_kept_enter [OF wf] key_kept_backspace [OF inv]
    by (simp add: handle_scancode_def key_capslock_def)
qed

lemma key_interrupt_kept:
  assumes "kbd_inv s" "k \<notin> {0x3B, 0x3C, 0x3D}"
  shows "key_kept s (key_interrupt fkey k s)"
proof -
  let ?t = "s\<lparr>eflags_if := False, port_log := port_log s @ [In 0x60]\<rparr>"
  have "key_kept ?t (handle_scancode fkey k ?t)" using assms by (intro key_kept_scancode) simp_all
  then have "key_kept s (handle_scancode fkey k ?t)" by - (rule key_kept_trans [of s ?t], simp_all)
  then show ?thesis by (simp add: key_interrupt_def getchar_eq Let_def)
qed

section \<open>Lines of plain keys\<close>

text \<open>
  A plain key types one character; the line its scan codes give does not depend on the state when no modifier is
  on and the row has room for it.
\<close>

definition plain_key :: "u8 \<Rightarrow> bool" where
  "plain_key k \<longleftrightarrow> 0 < k \<and> k < 128 \<and> kbdus ! unat k \<noteq> 0 \<and> k \<notin> set ignored_keys \<and>
     k \<notin> {0x1C, 0x3A, 0x0E, 0x2A, 0x36, 0x1D, 0x38, 0x3B, 0x3C, 0x3D}"

definition key_text :: "u8 list \<Rightarrow> u8 list" where
  "key_text ks = map (\<lambda>k. kbdus ! unat k) ks"

definition no_modifier :: "editor \<Rightarrow> bool" where
  "no_modifier e \<longleftrightarrow> \<not> caps e \<and> \<not> shift e \<and> \<not> ctrl e"

lemma edit_plain:
  assumes "plain_key k" "no_modifier e" "col e \<le> 80" "length (typed e) < 128"
  shows "edit k e = type_char (kbdus ! unat k) e"
proof -
  have l: "kbdus ! 38 = 108" by (simp add: kbdus_def scancode_table_def ascii_def)
  have k: "k \<noteq> 0xAA" "k \<noteq> 0xB6" "k \<noteq> 0x9D" "\<not> 128 \<le> k" using assms(1) by (auto simp: plain_key_def)
  show ?thesis
    using assms k l by (cases "k = 0x26") (simp_all add: edit_def plain_key_def no_modifier_def char_of_key_def del: not_le)
qed

lemma type_char_effect:
  "typed (type_char c e) = typed e @ [c]" "no_modifier (type_char c e) = no_modifier e" "col (type_char c e) \<le> col e + 1"
  by (simp_all add: type_char_def no_modifier_def Let_def)

lemma edit_line:
  "list_all plain_key ks \<Longrightarrow> no_modifier e \<Longrightarrow> col e + length ks \<le> 80 \<Longrightarrow> length (typed e) + length ks \<le> 128 \<Longrightarrow>
     typed (fold edit ks e) = typed e @ key_text ks \<and> no_modifier (fold edit ks e)"
proof (induction ks arbitrary: e)
  case (Cons k ks)
  then have "edit k e = type_char (kbdus ! unat k) e" by (intro edit_plain) simp_all
  with Cons type_char_effect [of "kbdus ! unat k" e] show ?case by (simp add: key_text_def)
qed (simp add: key_text_def)

lemma edit_enter: "edit 0x1C e = e\<lparr>col := 0, row := min 24 (row e + 1)\<rparr>"
  by (simp add: edit_def)

lemma plain_not_special: "list_all plain_key ks \<Longrightarrow> set ks \<inter> {0x3B, 0x3C, 0x3D, 0x1C} = {}"
  by (induction ks) (auto simp: plain_key_def)

section \<open>A line read by the kernel\<close>

lemma enter_spin_kept:
  assumes "set ks \<inter> {0x3B, 0x3C, 0x3D, 0x1C} = {}"
  shows "enter_flag s = 0 \<Longrightarrow> kbd_inv s \<Longrightarrow>
     enter_spin (map (key_interrupt fkey) (ks @ [0x1C]) @ rest) s = Some (t, rest) \<Longrightarrow> key_kept s t"
  using assms
proof (induction ks arbitrary: s)
  case Nil
  let ?t = "key_interrupt fkey 0x1C s"
  have "t = ?t" using Nil key_interrupt_enter [of fkey s]
    by (simp add: enter_spin.simps [of _ s] enter_spin.simps [of _ ?t])
  then show ?case using key_interrupt_kept [OF Nil(2)] by simp
next
  case (Cons k ks)
  let ?t = "key_interrupt fkey k s"
  have k: "k \<notin> {0x3B, 0x3C, 0x3D, 0x1C}" using Cons.prems by auto
  have "kbd_inv ?t" unfolding key_interrupt_def using getchar_refines_editor(2) [OF Cons.prems(2), of "\<lambda>_ _. k" fkey] k by simp
  then have "key_kept ?t t"
    using Cons.prems key_interrupt_frame [OF k, of fkey s] by (intro Cons.IH) (simp_all add: enter_spin.simps [of _ s])
  moreover have "key_kept s ?t" using k by (intro key_interrupt_kept [OF Cons.prems(2)]) simp
  ultimately show ?case using key_kept_trans by blast
qed

definition no_modifiers :: "'a keyboard_scheme \<Rightarrow> bool" where
  "no_modifiers s \<longleftrightarrow> no_modifier (abs_editor s)"

text \<open>Between two reads the line is empty and no modifier is down.\<close>

definition at_rest :: "'a keyboard_scheme \<Rightarrow> bool" where
  "at_rest s \<longleftrightarrow> kbd_inv s \<and> enter_flag s = 0 \<and> buffer_Size s = 0 \<and> no_modifiers s"

lemma take_line_frame:
  assumes "buffer_Size s \<le> 128" "p \<notin> region buf 129" "p \<notin> region (keybuf s) 129"
  shows "mem (snd (take_line buf s)) p = mem s p"
proof -
  define n where "n = unat (buffer_Size s)"
  have n: "n \<le> 128" "ucast (buffer_Size s) = (of_nat n :: u32)" using assms(1) by (simp_all add: n_def word_le_nat_alt)
  have copy: "copy_buffer k src dst m p = m p" if "p \<notin> region dst k" for k src dst m
    using that by (induction k arbitrary: src dst m) (simp_all add: region_Suc)
  have "p \<notin> region (keybuf s) n" "p \<notin> region buf n" "p \<noteq> buf + of_nat n"
    using assms(2,3) region_mono [of n 129] in_regionI [of n 129 buf] n(1) by auto
  then show ?thesis by (simp add: take_line_def Let_def n(2) n_def [symmetric] clear_buffer_outside copy)
qed

lemma take_line_fields:
  fixes s :: "'a keyboard_scheme" and buf :: u32
  defines "t \<equiv> snd (take_line buf s)"
  shows "cursor_x t = cursor_x s" "cursor_y t = cursor_y s" "keybuf t = keybuf s" "buffer_Size t = 0" "enter_flag t = 0"
    "capsLockFlag t = capsLockFlag s" "shiftKeyHoldDown t = shiftKeyHoldDown s" "ctrlKeyHoldDown t = ctrlKeyHoldDown s"
    "tabbed t = tabbed s" "charactersOnScreen t = charactersOnScreen s" "keyboard.more t = keyboard.more s" "attr t = attr s"
  by (simp_all add: t_def take_line_def Let_def attr_def)

lemma read_Terminal_kept:
  fixes s :: "'a keyboard_scheme"
  assumes rest: "at_rest s" and ks: "list_all plain_key ks" "unat (cursor_x s) + length ks \<le> 80"
    and buf: "region buf 129 \<inter> region (keybuf s) 129 = {}"
  obtains t where "read_Terminal (map (key_interrupt fkey) (ks @ [0x1C]) @ later) buf s = Some (of_nat (length ks + 1), t, later)"
    "bytes (mem t) buf (length ks + 1) = key_text ks @ [10]" "at_rest t" "cursor_x t = 0" "unat (cursor_y t) \<le> 24"
    "keyboard.more t = keyboard.more s" "keybuf t = keybuf s" "attr t = attr s"
    "\<And>p. p \<notin> region video 0x8000 \<union> region (keybuf s) 129 \<union> region buf 129 \<Longrightarrow> mem t p = mem s p"
proof -
  have r: "kbd_inv s" "enter_flag s = 0" "typed (abs_editor s) = []" "no_modifier (abs_editor s)"
    using rest by (simp_all add: at_rest_def no_modifiers_def typed_empty)
  have col: "col (abs_editor s) = unat (cursor_x s)" by (simp add: abs_editor_def)
  have sp: "set ks \<inter> {0x3B, 0x3C, 0x3D, 0x1C} = {}" using plain_not_special [OF ks(1)] .
  obtain u where u: "enter_spin (map (key_interrupt fkey) (ks @ [0x1C]) @ later) (sti s) = Some (u, later)" "kbd_inv u"
    "abs_editor u = edit 0x1C (fold edit ks (abs_editor s))" "keybuf u = keybuf s"
    using enter_spin_keys [OF sp, of "sti s" fkey later] r by auto
  have kept: "key_kept s u"
    using enter_spin_kept [OF sp _ _ u(1)] r by (simp add: sti_def key_kept_def attr_def)
  have line: "typed (abs_editor u) = key_text ks" "no_modifier (abs_editor u)"
    using edit_line [OF ks(1) r(4)] ks(2) r(3) by (simp_all add: u(3) edit_enter col no_modifier_def)
  have cur: "cursor_x u = 0" using arg_cong [OF u(3), of col] by (simp add: edit_enter abs_editor_def unat_eq_0)
  have len: "length (key_text ks) = length ks" by (simp add: key_text_def)
  have small: "buffer_Size u \<le> 128" using u(2) by (simp add: kbd_inv_def kbd_wf_def)
  define t where "t = snd (take_line buf u)"
  note f = take_line_fields [of buf u, folded t_def]
  have tl: "fst (take_line buf u) = of_nat (length ks + 1)" "bytes (mem t) buf (length ks + 1) = key_text ks @ [10]"
    using take_line_correct [OF small, of buf] buf u(4) line(1) len by (simp_all add: t_def)
  show thesis
  proof (rule that [of t])
    show "read_Terminal (map (key_interrupt fkey) (ks @ [0x1C]) @ later) buf s = Some (of_nat (length ks + 1), t, later)"
      using u(1) tl(1) by (cases "take_line buf u") (simp add: read_Terminal_def t_def)
    show "at_rest t"
      using u(2) line(2) cur f by (auto simp: at_rest_def kbd_inv_def kbd_wf_def no_modifiers_def no_modifier_def abs_editor_def)
    show "unat (cursor_y t) \<le> 24" using u(2) kbd_wfD(2) by (auto simp: f kbd_inv_def)
    show "mem t p = mem s p" if "p \<notin> region video 0x8000 \<union> region (keybuf s) 129 \<union> region buf 129" for p
      using that take_line_frame [OF small, of p buf] kept u(4) by (simp add: t_def key_kept_def)
  qed (use tl f cur kept u(4) in \<open>simp_all add: key_kept_def\<close>)
qed

section \<open>Output between two reads\<close>

text \<open>Output moves the cursor and draws; it does not touch the line editor.\<close>

definition line_state :: "'a keyboard_scheme \<Rightarrow> i32 \<times> i32 \<times> i32 \<times> u32 \<times> u16 \<times> i32 \<times> u16 \<times> u8" where
  "line_state s = (capsLockFlag s, shiftKeyHoldDown s, ctrlKeyHoldDown s, keybuf s, buffer_Size s, tabbed s, charactersOnScreen s, enter_flag s)"

lemma line_state_parts [simp]:
  "line_state (WriteCharacter c f b tx ty s) = line_state s" "line_state (fb_move_cursor r cl s) = line_state s"
  "line_state (blank_line k j r s) = line_state s" "line_state (setX x s) = line_state s" "line_state (setY y s) = line_state s"
proof -
  show w: "line_state (WriteCharacter c f b tx ty s) = line_state s" for c f b tx ty and s :: "'a keyboard_scheme"
    by (simp add: line_state_def WriteCharacter_def Let_def)
  show "line_state (blank_line k j r s) = line_state s" by (induction k arbitrary: j s) (simp_all add: w)
qed (simp_all add: line_state_def fb_move_cursor_def outb_def Let_def setX_def setY_def)

lemma line_state_fields [simp]: "line_state (s\<lparr>mem := m\<rparr>) = line_state s" "line_state (s\<lparr>cursor_y := y\<rparr>) = line_state s"
  by (simp_all add: line_state_def)

lemma line_state_scroll [simp]: "line_state (scroll s) = line_state s" "line_state (snd (last_line ty s)) = line_state s"
  by (simp_all add: scroll_def last_line_def Let_def)

lemma line_state_last_line: "last_line ty s = (ty', s') \<Longrightarrow> line_state s' = line_state s"
  by (metis line_state_scroll(2) snd_conv)

lemma line_state_char [simp]: "line_state (snd (snd (write_Terminal_char c st))) = line_state (snd (snd st))"
  by (cases st) (auto simp: write_Terminal_char_def Let_def split: prod.splits dest!: line_state_last_line)

lemma line_state_loop [simp]: "line_state (snd (snd (write_Terminal_loop k buf st))) = line_state (snd (snd st))"
  by (induction k arbitrary: buf st) simp_all

lemma line_state_write:
  assumes "cursor_y s \<noteq> 25" "cursor_y s \<noteq> 26" shows "line_state (snd (write_Terminal buf n s)) = line_state s"
proof -
  obtain tx ty t where loop: "write_Terminal_loop (nat (sint n)) buf (getX s, getY s, s) = (tx, ty, t)" by (metis prod_cases3)
  have "line_state t = line_state s"
    using line_state_loop [of "nat (sint n)" buf "(getX s, getY s, s)"] unfolding loop by simp
  with assms loop show ?thesis by (simp add: write_Terminal_def Let_def getX_def getY_def)
qed

section \<open>The interface\<close>

text \<open>
  What a session of the shell consists of.  \<open>line_read\<close>: from \<open>s\<close>, the prompt is shown, the line \<open>l\<close> is read, and in
  \<open>t\<close> it is the string at \<open>buf\<close>.  \<open>result_shown\<close>: the message for the result \<open>r\<close> of a command is shown after what the
  command has left on the screen, nothing for 0.  \<open>session\<close>: each line is read, and unless it is empty, executed and its
  result shown before the next prompt.
\<close>

definition line_read ::
  "'s calls \<Rightarrow> ('s \<Rightarrow> 'o) \<Rightarrow> (u8 list \<Rightarrow> 'o \<Rightarrow> 'o) \<Rightarrow> u32 \<Rightarrow> u32 \<Rightarrow> u8 list \<Rightarrow> 's \<Rightarrow> 's \<Rightarrow> bool" where
  "line_read U out emit buf lit l s t \<longleftrightarrow>
     (\<exists>s1 s2. put_literal U lit ''391OS> '' s = Some s1 \<and> out s1 = emit (ascii ''391OS> '') (out s) \<and>
        u_read U 0 buf 1023 s1 = Some (of_nat (length l + 1), s2) \<and> bytes (u_mem U s2) buf (length l + 1) = l @ [10] \<and>
        t = with_literal U lit ''exit'' (poke U (buf + of_nat (length l)) 0 s2) \<and> out t = out s2 \<and> cstring (u_mem U t) buf l)"

definition command_message :: "i32 \<Rightarrow> string" where
  "command_message r =
     (if r = -1 then ''no such command'' @ [CHR 0x0A]
      else if r = 256 then ''program terminated by exception'' @ [CHR 0x0A]
      else ''program terminated abnormally'' @ [CHR 0x0A])"

definition result_shown :: "'s calls \<Rightarrow> ('s \<Rightarrow> 'o) \<Rightarrow> (u8 list \<Rightarrow> 'o \<Rightarrow> 'o) \<Rightarrow> u32 \<Rightarrow> i32 \<Rightarrow> 's \<Rightarrow> 's \<Rightarrow> bool" where
  "result_shown U out emit lit r u v \<longleftrightarrow>
     (if r = 0 then v = u
      else put_literal U lit (command_message r) u = Some v \<and> out v = emit (ascii (command_message r)) (out u))"

fun session ::
  "'s calls \<Rightarrow> ('s \<Rightarrow> 'o) \<Rightarrow> (u8 list \<Rightarrow> 'o \<Rightarrow> 'o) \<Rightarrow> u32 \<Rightarrow> u32 \<Rightarrow> u8 list list \<Rightarrow> 's \<Rightarrow> 's \<Rightarrow> bool" where
  "session U out emit buf lit [] s v \<longleftrightarrow> v = s"
| "session U out emit buf lit (l # ls) s v \<longleftrightarrow>
     (\<exists>t. line_read U out emit buf lit l s t \<and>
        (if l = [] then session U out emit buf lit ls t v
         else \<exists>r u w. u_execute U buf t = Some (r, u) \<and> result_shown U out emit lit r u w \<and> session U out emit buf lit ls w v))"

text \<open>
  \<open>pending s ls\<close>: the lines \<open>ls\<close> will be typed next, and \<open>column\<close> is where output goes on in the row of the
  terminal.  A line that fits the rest of the row is read as it is typed.
\<close>

lemma count_not_error: "n < 2 ^ 31 \<Longrightarrow> (of_nat n :: i32) \<noteq> -1"
  using u32_of_nat_eq_iff [of n "2 ^ 32 - 1"] by auto

locale program_input = program_output U inv own out emit
  for U :: "'s calls" and inv :: "'s \<Rightarrow> bool" and own :: "u32 set" and out :: "'s \<Rightarrow> 'o" and emit :: "u8 list \<Rightarrow> 'o \<Rightarrow> 'o" +
  fixes pending :: "'s \<Rightarrow> u8 list list \<Rightarrow> bool" and column :: "'o \<Rightarrow> nat"
  assumes pending_set: "inv s \<Longrightarrow> pending s ls \<Longrightarrow> (\<And>p. p \<notin> own \<Longrightarrow> m p = u_mem U s p) \<Longrightarrow> pending (u_set_mem U m s) ls"
    and pending_write: "inv s \<Longrightarrow> pending s ls \<Longrightarrow> n < 2 ^ 31 \<Longrightarrow> region b n \<subseteq> own \<Longrightarrow>
      u_write U 1 b (of_nat n) s = Some (r, t) \<Longrightarrow> pending t ls"
    and pending_text: "pending s (l # ls) \<Longrightarrow> 0 \<notin> set l"
    and read_line: "inv s \<Longrightarrow> pending s (l # ls) \<Longrightarrow> column (out s) + length l \<le> 80 \<Longrightarrow> region b 129 \<subseteq> own \<Longrightarrow>
      \<exists>t. u_read U 0 b 1023 s = Some (of_nat (length l + 1), t) \<and> bytes (u_mem U t) b (length l + 1) = l @ [10] \<and>
        inv t \<and> pending t ls \<and> column (out t) = 0 \<and> (\<forall>p \<in> own - region b 129. u_mem U t p = u_mem U s p)"
    and column_text: "column v = 0 \<Longrightarrow> 10 \<notin> set cs \<Longrightarrow> length cs < 80 \<Longrightarrow> column (emit cs v) = length cs"
    and column_newline: "column (emit (cs @ [10]) v) = 0"
begin

lemma column_line: "column (emit (ascii (str @ [CHR 0x0A])) v) = 0"
  using column_newline [of "ascii str" v] by (simp add: ascii_def)

lemma put_literal_pending:
  assumes "inv s" "pending s ls" "region lit (length str + 1) \<subseteq> own" "length str < 2 ^ 31" "0 \<notin> set (ascii str)"
  obtains t where "put_literal U lit str s = Some t" "inv t" "pending t ls" "out t = emit (ascii str) (out s)"
    "\<And>p. p \<in> own \<Longrightarrow> p \<notin> region lit (length str + 1) \<Longrightarrow> u_mem U t p = u_mem U s p"
proof -
  obtain t where t: "put_literal U lit str s = Some t" "inv t" "out t = emit (ascii str) (out s)"
    "\<And>p. p \<in> own \<Longrightarrow> p \<notin> region lit (length str + 1) \<Longrightarrow> u_mem U t p = u_mem U s p"
    by (rule put_literal_emits [OF assms(1,3-5)]) blast
  let ?s = "with_literal U lit str s"
  note lits = with_literal_inv [OF assms(1,3)]
  have len: "length (ascii str) = length str" by (simp add: ascii_def)
  have out: "store_bytes (u_mem U s) lit (ascii str @ [0]) p = u_mem U s p" if "p \<notin> own" for p
    by (rule literal_outside [OF _ that]) (use assms(3) len in simp)
  have "pending ?s ls" unfolding with_literal_def by (rule pending_set [OF assms(1,2) out])
  moreover have "cstring (u_mem U ?s) lit (ascii str)"
    unfolding lits(3) using assms(4,5) len by (intro cstring_stored) simp_all
  from strlen_cstring [OF this] t(1) obtain r where "u_write U 1 lit (of_nat (length str)) ?s = Some (r, t)"
    by (auto simp: put_literal_def ece391_fdputs_def ece391_strlen_eq len)
  moreover have "region lit (length str) \<subseteq> own" using assms(3) region_mono [of "length str" "length str + 1" lit] by auto
  ultimately have "pending t ls" using pending_write [OF lits(1) _ assms(4)] by blast
  with t show thesis using that by blast
qed

lemma poke_pending:
  assumes "inv s" "a \<in> own" "pending s ls"
  shows "inv (poke U a v s)" "out (poke U a v s) = out s" "u_mem U (poke U a v s) = (u_mem U s)(a := v)" "pending (poke U a v s) ls"
  unfolding poke_def using assms by (auto simp: mem_set intro!: set_inv set_out pending_set)

text \<open>A read line, after the program has put the end of the string behind it.\<close>

lemma read_string:
  assumes "inv s" "pending s (l # ls)" "column (out s) + length l \<le> 80" "region b 1024 \<subseteq> own"
  obtains t where "u_read U 0 b 1023 s = Some (of_nat (length l + 1), t)" "inv t" "pending t ls" "column (out t) = 0"
    "bytes (u_mem U t) b (length l + 1) = l @ [10]" "0 \<notin> set l" "length l \<le> 80"
    "\<And>p. p \<in> own \<Longrightarrow> p \<notin> region b 1024 \<Longrightarrow> u_mem U t p = u_mem U s p"
proof -
  have sub: "region b 129 \<subseteq> region b 1024" by (rule region_mono) simp
  then have "region b 129 \<subseteq> own" using assms(4) by blast
  from read_line [OF assms(1-3) this] obtain t where t: "u_read U 0 b 1023 s = Some (of_nat (length l + 1), t)"
    "bytes (u_mem U t) b (length l + 1) = l @ [10]" "inv t" "pending t ls" "column (out t) = 0"
    "\<forall>p \<in> own - region b 129. u_mem U t p = u_mem U s p" by blast
  then have "u_mem U t p = u_mem U s p" if "p \<in> own" "p \<notin> region b 1024" for p using that sub by blast
  with t that show thesis using pending_text [OF assms(2)] assms(3) by simp
qed

lemma cstring_end_here:
  assumes "bytes m b (length l) = l" "0 \<notin> set l" "length l < 2 ^ 31"
  shows "cstring (m(b + of_nat (length l) := 0)) b l"
proof -
  have "bytes (m(b + of_nat (length l) := 0)) b (length l) = bytes m b (length l)"
    using assms(3) by (intro nth_equalityI) (auto simp: u32_of_nat_eq_iff)
  with assms show ?thesis by (simp add: cstring_def)
qed

lemma counter_refuses:
  assumes "inv s" "pending s (l # ls)" "length l \<le> 80" "region buf 1024 \<subseteq> own" "region lit 64 \<subseteq> own"
  obtains t v where "counter_main U buf lit s = Some (0, t)" "inv t" "pending t ls"
    "out t = emit (ascii (''Wrong Choice!'' @ [CHR 0x0A])) v" "column v = 0"
proof -
  let ?q = "''Enter the Test Number: (0): 100, (1): 10000, (2): 100000'' @ [CHR 0x0A]"
  have lit: "region lit n \<subseteq> own" if "n \<le> 64" for n using assms(5) region_mono [OF that, of lit] by blast
  obtain s1 where s1: "put_literal U lit ?q s = Some s1" "inv s1" "pending s1 (l # ls)" "out s1 = emit (ascii ?q) (out s)"
    by (rule put_literal_pending [OF assms(1,2), of lit ?q]) (simp_all add: lit ascii_def)
  have "column (out s1) = 0" unfolding s1(4) by (rule column_line)
  then have fit: "column (out s1) + length l \<le> 80" using assms(3) by simp
  obtain s2 where s2: "u_read U 0 buf 1023 s1 = Some (of_nat (length l + 1), s2)" "inv s2" "pending s2 ls"
    "bytes (u_mem U s2) buf (length l + 1) = l @ [10]" "0 \<notin> set l" "length l \<le> 80" "column (out s2) = 0"
    by (rule read_string [OF s1(2,3) fit assms(4)])
  have at: "buf + of_nat (length l + 1) \<in> own" using assms(3,4) in_regionI [of "length l + 1" 1024 buf] by auto
  note p = poke_pending [OF s2(2) at s2(3), of 0]
  let ?s3 = "poke U (buf + of_nat (length l + 1)) 0 s2"
  have str: "cstring (u_mem U ?s3) buf (l @ [10])"
    unfolding p(3) using cstring_end_here [of "u_mem U s2" buf "l @ [10]"] s2(4-6) by simp
  have refuse: "of_nat (length l + 1) > (1 :: u32) \<or> (of_nat (length l + 1) = (1 :: u32) \<and> (u_mem U ?s3 buf < 48 \<or> u_mem U ?s3 buf > 50))"
  proof (cases l)
    case Nil
    then have "u_mem U ?s3 buf = 10" using cstring_nth [OF str, of 0] by simp
    with Nil show ?thesis by simp
  next
    case (Cons c cs)
    then show ?thesis using s2(6) by (simp add: word_less_nat_alt unat_of_nat del: of_nat_add of_nat_Suc)
  qed
  have "(of_nat (length l + 1) :: i32) \<noteq> -1" by (rule count_not_error) (use s2(6) in simp)
  then have "counter_main U buf lit s = fail_with U lit ''Wrong Choice!'' 0 ?s3"
    using s1(1) s2(1) refuse strlen_cstring [OF str] by (auto simp: counter_main_def Let_def ece391_strlen_eq)
  moreover obtain t where "put_literal U lit (''Wrong Choice!'' @ [CHR 0x0A]) ?s3 = Some t" "inv t" "pending t ls"
    "out t = emit (ascii (''Wrong Choice!'' @ [CHR 0x0A])) (out ?s3)"
    by (rule put_literal_pending [OF p(1,4), of lit "''Wrong Choice!'' @ [CHR 0x0A]"]) (simp_all add: lit ascii_def)
  ultimately show thesis using that s2(7) p(2) by (simp add: fail_with_def)
qed

lemma message_pending:
  assumes "inv s" "pending s ls" "region lit 64 \<subseteq> own" "length str < 63" "0 \<notin> set (ascii str)"
  obtains t where "put_literal U lit (str @ [CHR 0x0A]) s = Some t" "inv t" "pending t ls" "column (out t) = 0"
    "out t = emit (ascii (str @ [CHR 0x0A])) (out s)"
proof -
  have "region lit (length (str @ [CHR 0x0A]) + 1) \<subseteq> own"
    using assms(3,4) region_mono [of "length str + 2" 64 lit] by auto
  then obtain t where "put_literal U lit (str @ [CHR 0x0A]) s = Some t" "inv t" "pending t ls"
    "out t = emit (ascii (str @ [CHR 0x0A])) (out s)"
    by (rule put_literal_pending [OF assms(1,2)]) (use assms(4,5) in \<open>simp_all add: ascii_def\<close>)
  then show thesis using that column_line by metis
qed

lemma command_result_pending:
  assumes "inv s" "pending s ls" "region lit 64 \<subseteq> own" "column (out s) = 0"
  obtains t where "command_result U lit r s = Some t" "inv t" "pending t ls" "column (out t) = 0"
    "result_shown U out emit lit r s t"
proof (cases "r = 0")
  case False
  define str where "str = (if r = -1 then ''no such command'' else if r = 256 then ''program terminated by exception''
    else ''program terminated abnormally'')"
  have msg: "command_message r = str @ [CHR 0x0A]" by (simp add: command_message_def str_def)
  have str: "length str < 63" "0 \<notin> set (ascii str)" by (simp_all add: str_def ascii_def)
  obtain t where t: "put_literal U lit (str @ [CHR 0x0A]) s = Some t" "inv t" "pending t ls" "column (out t) = 0"
    "out t = emit (ascii (str @ [CHR 0x0A])) (out s)"
    by (rule message_pending [OF assms(1-3) str])
  have "command_result U lit r s = put_literal U lit (str @ [CHR 0x0A]) s"
    using False by (simp add: command_result_def str_def)
  with t False show thesis by (intro that [of t]) (simp_all add: result_shown_def msg)
next
  case True
  then show thesis using that [of s] assms by (simp add: command_result_def result_shown_def)
qed

text \<open>One round of the shell: the prompt, a line, and what the shell does with it.\<close>

lemma prompt_round:
  assumes "inv s" "pending s (l # ls)" "column (out s) = 0" "length l \<le> 70"
    and layout: "region buf 1024 \<subseteq> own" "region lit 64 \<subseteq> own" "region buf 1024 \<inter> region lit 64 = {}"
  obtains t where "inv t" "pending t ls" "column (out t) = 0" "cstring (u_mem U t) buf l"
    "line_read U out emit buf lit l s t"
    "prompt_loop U buf lit s =
       (if l = ascii ''exit'' then Some (0, t) else if l = [] then prompt_loop U buf lit t
        else do { (rval, u) \<leftarrow> u_execute U buf t; u \<leftarrow> command_result U lit rval u; prompt_loop U buf lit u })"
proof -
  have lit: "region lit n \<subseteq> own" if "n \<le> 64" for n using layout(2) region_mono [OF that, of lit] by blast
  obtain s1 where s1: "put_literal U lit ''391OS> '' s = Some s1" "inv s1" "pending s1 (l # ls)" "out s1 = emit (ascii ''391OS> '') (out s)"
    by (rule put_literal_pending [OF assms(1,2), of lit "''391OS> ''"]) (simp_all add: lit ascii_def)
  have "column (out s1) = length (ascii ''391OS> '')" unfolding s1(4) by (rule column_text [OF assms(3)]) (simp_all add: ascii_def)
  then have fit: "column (out s1) + length l \<le> 80" using assms(4) by (simp add: ascii_def)
  obtain s2 where s2: "u_read U 0 buf 1023 s1 = Some (of_nat (length l + 1), s2)" "inv s2" "pending s2 ls" "column (out s2) = 0"
    "bytes (u_mem U s2) buf (length l + 1) = l @ [10]" "0 \<notin> set l"
    by (rule read_string [OF s1(2,3) fit layout(1)])
  let ?n = "length l"
  have n: "?n \<le> 70" by (rule assms(4))
  have by_app: "bytes (u_mem U s2) buf ?n = l" "u_mem U s2 (buf + of_nat ?n) = 10"
    using s2(5) bytes_append [of "u_mem U s2" buf ?n 1] by (simp_all add: bytes_Suc)
  have at: "buf + of_nat ?n \<in> own" using layout(1) n in_regionI [of ?n 1024 buf] by auto
  note p = poke_pending [OF s2(2) at s2(3), of 0]
  let ?s3 = "poke U (buf + of_nat ?n) 0 s2" and ?t = "with_literal U lit ''exit'' (poke U (buf + of_nat ?n) 0 s2)"
  have l5: "region lit (length ''exit'' + 1) \<subseteq> own" by (rule lit) simp
  note w = with_literal_inv [OF p(1) l5]
  have out: "store_bytes (u_mem U ?s3) lit (ascii ''exit'' @ [0]) q = u_mem U ?s3 q" if "q \<notin> own" for q
    by (rule literal_outside [OF _ that]) (use l5 in \<open>simp add: ascii_def\<close>)
  have pend: "pending ?t ls" unfolding with_literal_def by (rule pending_set [OF p(1,4) out])
  have c3: "cstring (u_mem U ?s3) buf l" unfolding p(3) by (rule cstring_end_here [OF by_app(1) s2(6)]) (use n in simp)
  have same: "u_mem U ?t q = u_mem U ?s3 q" if "q \<in> region buf 1024" for q
  proof -
    have "region lit (length (ascii ''exit'' @ [0])) \<subseteq> region lit 64" by (rule region_mono) (simp add: ascii_def)
    then show ?thesis unfolding w(3) using that layout(3) by (intro store_bytes_outside) blast
  qed
  have str: "cstring (u_mem U ?t) buf l"
    by (rule cstring_cong [OF c3], rule same) (use n region_mono [of "Suc ?n" 1024 buf] in auto)
  have exit: "cstring (u_mem U ?t) lit (ascii ''exit'')" unfolding w(3) by (rule cstring_stored) (simp_all add: ascii_def)
  have cmp: "ece391_strcmp (u_mem U ?t) buf lit = Some (compare_bytes l (ascii ''exit''))" by (rule ece391_strcmp_cstring [OF str exit])
  have zero: "compare_bytes l (ascii ''exit'') = 0 \<longleftrightarrow> l = ascii ''exit''" by (rule compare_bytes_0 [OF s2(6)]) (simp add: ascii_def)
  have empty: "u_mem U ?t buf = 0 \<longleftrightarrow> l = []"
    using str cstring_nth_nz [OF str, of 0] by (cases l) (auto simp: cstring_def)
  have cnt: "(of_nat (?n + 1) :: i32) \<noteq> -1" "sint (of_nat (?n + 1) :: i32) > 0" "of_nat (?n + 1) - 1 = (of_nat ?n :: i32)"
    using count_not_error [of "?n + 1"] n sint_u32_of_nat [of "?n + 1"] by simp_all
  define c d where "c = (of_nat (?n + 1) :: i32)" and "d = (of_nat ?n :: i32)"
  note cd = s2(1) [folded c_def] cnt [folded c_def d_def] by_app(2) [folded d_def] cmp [folded d_def] empty [folded d_def]
  have "prompt_loop U buf lit s =
      (if l = ascii ''exit'' then Some (0, ?t) else if l = [] then prompt_loop U buf lit ?t
       else do { (rval, u) \<leftarrow> u_execute U buf ?t; u \<leftarrow> command_result U lit rval u; prompt_loop U buf lit u })"
    unfolding d_def [symmetric] using s1(1) cd zero by (subst prompt_loop.simps) (simp add: Let_def)
  moreover have "line_read U out emit buf lit l s ?t"
    unfolding line_read_def using s1(1,4) s2(1,5) str w(2) p(2) by - (rule exI [of _ s1], rule exI [of _ s2], simp)
  ultimately show thesis using w(1,2) p(2) s2(4) pend str by (intro that [of ?t]) simp_all
qed

lemma prompt_loop_lines:
  assumes layout: "region buf 1024 \<subseteq> own" "region lit 64 \<subseteq> own" "region buf 1024 \<inter> region lit 64 = {}"
    and child: "\<And>l ls s. l \<in> C \<Longrightarrow> l \<noteq> [] \<Longrightarrow> inv s \<Longrightarrow> pending s ls \<Longrightarrow> cstring (u_mem U s) buf l \<Longrightarrow> column (out s) = 0 \<Longrightarrow>
      \<exists>r t. u_execute U buf s = Some (r, t) \<and> inv t \<and> pending t ls \<and> column (out t) = 0"
  shows "inv s \<Longrightarrow> pending s (ls @ ascii ''exit'' # later) \<Longrightarrow> column (out s) = 0 \<Longrightarrow> set ls \<subseteq> C - {ascii ''exit''} \<Longrightarrow>
    \<forall>l \<in> set ls. length l \<le> 70 \<Longrightarrow>
    \<exists>v t. prompt_loop U buf lit s = Some (0, t) \<and> inv t \<and> pending t later \<and>
      session U out emit buf lit ls s v \<and> line_read U out emit buf lit (ascii ''exit'') v t"
proof (induction ls arbitrary: s)
  case Nil
  have "pending s (ascii ''exit'' # later)" using Nil(2) by simp
  then obtain t where "inv t" "pending t later" "prompt_loop U buf lit s = Some (0, t)"
    "line_read U out emit buf lit (ascii ''exit'') s t"
    by (rule prompt_round [OF Nil(1) _ Nil(3) _ layout]) (simp_all add: ascii_def)
  then show ?case by simp
next
  case (Cons l ls)
  let ?rest = "ls @ ascii ''exit'' # later"
  have p: "pending s (l # ?rest)" "length l \<le> 70" "l \<noteq> ascii ''exit''" "l \<in> C" using Cons.prems by simp_all
  obtain t where t: "inv t" "pending t ?rest" "column (out t) = 0" "cstring (u_mem U t) buf l"
    "line_read U out emit buf lit l s t"
    "prompt_loop U buf lit s = (if l = ascii ''exit'' then Some (0, t) else if l = [] then prompt_loop U buf lit t
       else do { (rval, u) \<leftarrow> u_execute U buf t; u \<leftarrow> command_result U lit rval u; prompt_loop U buf lit u })"
    by (rule prompt_round [OF Cons.prems(1) p(1) Cons.prems(3) p(2) layout])
  show ?case
  proof (cases "l = []")
    case True
    with t(6) p(3) have "prompt_loop U buf lit s = prompt_loop U buf lit t" by simp
    with True t Cons.IH [of t] Cons.prems(4,5) show ?thesis by auto
  next
    case False
    obtain r u where u: "u_execute U buf t = Some (r, u)" "inv u" "pending u ?rest" "column (out u) = 0"
      using child [OF p(4) False t(1,2,4,3)] by blast
    obtain v where v: "command_result U lit r u = Some v" "inv v" "pending v ?rest" "column (out v) = 0"
      "result_shown U out emit lit r u v"
      by (rule command_result_pending [OF u(2,3) layout(2) u(4)])
    have "prompt_loop U buf lit s = prompt_loop U buf lit v" using t(6) False p(3) u(1) v(1) by simp
    moreover obtain w x where "prompt_loop U buf lit v = Some (0, x)" "inv x" "pending x later"
      "session U out emit buf lit ls v w" "line_read U out emit buf lit (ascii ''exit'') w x"
      using v Cons.IH [of v] Cons.prems(4,5) by auto
    moreover from this have "session U out emit buf lit (l # ls) s w" using t(5) False u(1) v(5) by auto
    ultimately show ?thesis by - (rule exI [of _ w], rule exI [of _ x], simp del: session.simps)
  qed
qed

lemma hello_greets:
  assumes "inv s" "pending s (l # ls)" "column (out s) = 0" "length l \<le> 50"
    and layout: "region buf 1024 \<subseteq> own" "region lit 64 \<subseteq> own" "region buf 1024 \<inter> region lit 64 = {}"
  obtains t v where "hello_main U buf lit s = Some (0, t)" "inv t" "out t = emit (l @ [10]) (emit (ascii ''Hello, '') v)"
proof -
  let ?q = "''Hi, what's your name? ''"
  have lit: "region lit n \<subseteq> own" if "n \<le> 64" for n using layout(2) region_mono [OF that, of lit] by blast
  obtain s1 where s1: "put_literal U lit ?q s = Some s1" "inv s1" "pending s1 (l # ls)" "out s1 = emit (ascii ?q) (out s)"
    by (rule put_literal_pending [OF assms(1,2), of lit ?q]) (simp_all add: lit ascii_def)
  have "column (out s1) = length (ascii ?q)" unfolding s1(4) by (rule column_text [OF assms(3)]) (simp_all add: ascii_def)
  then have fit: "column (out s1) + length l \<le> 80" using assms(4) by (simp add: ascii_def)
  let ?n = "length l + 1"
  obtain s2 where s2: "u_read U 0 buf 1023 s1 = Some (of_nat ?n, s2)" "inv s2" "pending s2 ls"
    "bytes (u_mem U s2) buf ?n = l @ [10]" "0 \<notin> set l" "length l \<le> 80"
    by (rule read_string [OF s1(2,3) fit layout(1)])
  have at: "buf + of_nat ?n \<in> own" using assms(4) layout(1) in_regionI [of ?n 1024 buf] by auto
  note p = poke_pending [OF s2(2) at s2(3), of 0]
  let ?s3 = "poke U (buf + of_nat ?n) 0 s2"
  have str: "cstring (u_mem U ?s3) buf (l @ [10])"
    unfolding p(3) using cstring_end_here [of "u_mem U s2" buf "l @ [10]"] s2(4-6) by simp
  have l8: "region lit (length ''Hello, '' + 1) \<subseteq> own" by (rule lit) simp
  obtain s4 where s4: "put_literal U lit ''Hello, '' ?s3 = Some s4" "inv s4" "out s4 = emit (ascii ''Hello, '') (out ?s3)"
    "\<And>q. q \<in> own \<Longrightarrow> q \<notin> region lit (length ''Hello, '' + 1) \<Longrightarrow> u_mem U s4 q = u_mem U ?s3 q"
    by (rule put_literal_emits [OF p(1) l8]) (simp_all add: ascii_def)
  have buf_apart: "q \<in> own \<and> q \<notin> region lit (length ''Hello, '' + 1)" if "q \<in> region buf 1024" for q
  proof -
    have "region lit (length ''Hello, '' + 1) \<subseteq> region lit 64" by (rule region_mono) simp
    then show ?thesis using that layout by blast
  qed
  have c4: "cstring (u_mem U s4) buf (l @ [10])"
    by (rule cstring_cong [OF str], rule s4(4)) (use buf_apart s2(6) region_mono [of "Suc (length (l @ [10]))" 1024 buf] in auto)
  have sub: "region buf (length (l @ [10])) \<subseteq> own" using layout(1) s2(6) region_mono [of ?n 1024 buf] by auto
  obtain t where t: "ece391_fdputs U 1 buf s4 = Some t" "inv t" "out t = emit (l @ [10]) (out s4)"
    by (rule fdputs_cstring [OF s4(2) c4 _ sub]) (use s2(6) in simp)
  have "(of_nat ?n :: i32) \<noteq> -1" by (rule count_not_error) (use s2(6) in simp)
  then have "hello_main U buf lit s = Some (0, t)"
    using s1(1) s2(1) s4(1) t(1) by (simp add: hello_main_def del: of_nat_add of_nat_Suc)
  with t s4(3) show thesis using that by simp
qed

end

section \<open>The keyboard of the kernel\<close>

definition typing_memory :: "'a keyboard_scheme \<Rightarrow> u32 set" where
  "typing_memory s = region video 0x8000 \<union> region (keybuf s) 129"

fun reading :: "u32 set \<Rightarrow> 'a process_state \<Rightarrow> bool" where
  "reading own (s, h) \<longleftrightarrow>
     program_ready own s \<and> at_rest s \<and> fb_flags (current_file 0 s) \<noteq> 0 \<and> file_op_table_ptr (current_file 0 s) = STDIN \<and>
     own \<inter> typing_memory s = {} \<and> image_region (mem s) (bootmebb s) \<inter> typing_memory s = {}"

text \<open>The lines are typed one after the other by keyboard interrupts; any handlers may follow.\<close>

fun typed_lines ::
  "(nat \<Rightarrow> 'a kernel_scheme \<Rightarrow> 'a kernel_scheme) \<Rightarrow> 'a process_state \<Rightarrow> u8 list list \<Rightarrow> bool" where
  "typed_lines fkey (s, h) ls \<longleftrightarrow>
     (\<exists>kss later. h = concat (map (\<lambda>ks. map (key_interrupt fkey) (ks @ [0x1C])) kss) @ later \<and>
        ls = map key_text kss \<and> (\<forall>ks \<in> set kss. list_all plain_key ks))"

fun view_column :: "u8 \<times> screen \<Rightarrow> nat" where
  "view_column (a, V, c, r) = c"

lemma at_rest_line_state:
  assumes "at_rest s" "line_state t = line_state s" "unat (cursor_x t) < 80" "unat (cursor_y t) \<le> 24"
  shows "at_rest t"
proof -
  have l: "capsLockFlag t = capsLockFlag s" "shiftKeyHoldDown t = shiftKeyHoldDown s" "ctrlKeyHoldDown t = ctrlKeyHoldDown s"
    "keybuf t = keybuf s" "buffer_Size t = buffer_Size s" "tabbed t = tabbed s" "charactersOnScreen t = charactersOnScreen s"
    "enter_flag t = enter_flag s"
    using assms(2) by (simp_all add: line_state_def)
  show ?thesis
    using assms(1,3,4) by (auto simp: at_rest_def kbd_inv_def kbd_wf_def no_modifiers_def no_modifier_def abs_editor_def l)
qed

lemma at_rest_mem [simp]: "at_rest (s\<lparr>mem := m\<rparr>) = at_rest s"
  by (auto simp: at_rest_def kbd_inv_def kbd_wf_def no_modifiers_def no_modifier_def abs_editor_def)

lemma key_text_no_zero: "list_all plain_key ks \<Longrightarrow> 0 \<notin> set (key_text ks)"
  by (induction ks) (auto simp: key_text_def plain_key_def)

lemma put_char_column:
  "10 \<notin> set cs \<Longrightarrow> c + length cs < 80 \<Longrightarrow> \<exists>V'. fold (put_char a) cs (V, c, r) = (V', c + length cs, r)"
proof (induction cs arbitrary: V c)
  case (Cons x xs)
  then have "\<exists>V'. put_char a x (V, c, r) = (V', c + 1, r)" by (simp add: Let_def)
  with Cons.IH [of "c + 1"] Cons.prems show ?case by fastforce
qed simp

lemma put_newline_column: "\<exists>V' r'. put_char a 10 t = (V', 0, r')"
  by (cases t) (simp add: next_row_def)

lemma reading_mem:
  assumes "reading own (s, h)" "\<And>p. p \<notin> own \<Longrightarrow> m p = mem s p"
  shows "reading own (s\<lparr>mem := m\<rparr>, h)" "terminal_view (s\<lparr>mem := m\<rparr>) = terminal_view s"
proof -
  have "program_ready own s" using assms(1) by simp
  note o = own_memory [OF this assms(2)]
  show "terminal_view (s\<lparr>mem := m\<rparr>) = terminal_view s" by (rule o(2))
  show "reading own (s\<lparr>mem := m\<rparr>, h)"
    using assms(1) o(1) image_agrees_counts(3) [OF o(3)] by (simp add: current_file_def typing_memory_def)
qed

lemma reading_write:
  assumes "reading own (s, h)" "n < 2 ^ 31" "region b n \<subseteq> own"
  obtains t where "sys_call_write dev 1 b (of_nat n) s = Some (0, t)" "reading own (t, h)"
    "terminal_view t = type_text (bytes (mem s) b n) (terminal_view s)" "\<And>p. p \<in> own \<Longrightarrow> mem t p = mem s p"
proof -
  have r: "program_ready own s" "at_rest s" using assms(1) by simp_all
  obtain t where t: "sys_call_write dev 1 b (of_nat n) s = Some (0, t)" "program_ready own t"
    "terminal_view t = type_text (bytes (mem s) b n) (terminal_view s)" "\<And>p. p \<in> own \<Longrightarrow> mem t p = mem s p" "same_files s t"
    by (rule terminal_write [where dev = dev, OF r(1) assms(2,3)]) blast
  have cur: "unat (cursor_y s) \<le> 24" "unat (cursor_x t) < 80" "unat (cursor_y t) \<le> 24"
    using r(1) t(2) by (simp_all add: program_ready_def screen_wf_def screen_of_def)
  have "Some (write_Terminal b (of_nat n) s) = Some (0, t)"
    using t(1) r(1) by (simp add: sys_call_write_def bad_fd_def call_write_def program_ready_def)
  then have "t = snd (write_Terminal b (of_nat n) s)" by simp
  moreover have "cursor_y s \<noteq> 25" "cursor_y s \<noteq> 26" using cur(1) by auto
  ultimately have line: "line_state t = line_state s" using line_state_write by blast
  then have kb: "keybuf t = keybuf s" by (simp add: line_state_def)
  have f: "pcb_view t = pcb_view s" "bootmebb t = bootmebb s" "image_agrees (bootmebb s) (mem s) (mem t)"
    using t(5) by (simp_all add: same_files_def)
  have "reading own (t, h)"
    using assms(1) t(2) at_rest_line_state [OF r(2) line cur(2,3)] image_agrees_counts(3) [OF f(3)] f(1)
    by (simp add: typing_memory_def kb f(2) current_file_def pcb_view_def)
  with t show thesis using that by blast
qed

lemma reading_read:
  fixes s :: "'a kernel_scheme"
  assumes "reading own (s, map (key_interrupt fkey) (ks @ [0x1C]) @ h)" "list_all plain_key ks"
    and "view_column (terminal_view s) + length ks \<le> 80" "region b 129 \<subseteq> own"
  obtains t where "sys_call_read dentry (map (key_interrupt fkey) (ks @ [0x1C]) @ h) 0 b 1023 s = Some (of_nat (length ks + 1), t, h)"
    "bytes (mem t) b (length ks + 1) = key_text ks @ [10]" "reading own (t, h)" "view_column (terminal_view t) = 0"
    "\<And>p. p \<in> own \<Longrightarrow> p \<notin> region b 129 \<Longrightarrow> mem t p = mem s p"
proof -
  note r = assms(1) [simplified]
  have col: "unat (cursor_x s) + length ks \<le> 80" using assms(3) by (simp add: terminal_view_def screen_of_def)
  have rest: "at_rest s" and apart: "region b 129 \<inter> region (keybuf s) 129 = {}" using r assms(4) by (auto simp: typing_memory_def)
  obtain t where t: "read_Terminal (map (key_interrupt fkey) (ks @ [0x1C]) @ h) b s = Some (of_nat (length ks + 1), t, h)"
    "bytes (mem t) b (length ks + 1) = key_text ks @ [10]" "at_rest t" "cursor_x t = 0" "unat (cursor_y t) \<le> 24"
    "keyboard.more t = keyboard.more s" "keybuf t = keybuf s" "attr t = attr s"
    "\<And>p. p \<notin> region video 0x8000 \<union> region (keybuf s) 129 \<union> region b 129 \<Longrightarrow> mem t p = mem s p"
    by (rule read_Terminal_kept [OF rest assms(2) col apart]) blast
  have view: "pcb_view t = pcb_view s" by (rule pcb_view_keyboard [OF t(6)])
  from t(6) have boot: "bootmebb t = bootmebb s" by (cases s; cases t; simp)
  have ag: "image_agrees (bootmebb s) (mem s) (mem t)"
    unfolding image_agrees_def using r assms(4) by (intro ballI t(9)) (auto simp: typing_memory_def program_ready_def)
  have cf: "current_file fd t = current_file fd s" for fd using view by (simp add: current_file_def pcb_view_def)
  have wf: "screen_wf (screen_of t)" using t(4,5) by (simp add: screen_wf_def screen_of_def)
  have "reading own (t, h)"
    using r t(3) wf image_agrees_counts(3) [OF ag] by (simp add: program_ready_def cf boot typing_memory_def t(7))
  moreover have "sys_call_read dentry (map (key_interrupt fkey) (ks @ [0x1C]) @ h) 0 b 1023 s = Some (of_nat (length ks + 1), t, h)"
    using r t(1) by (simp add: sys_call_read_def bad_fd_def call_read_def)
  moreover have "mem t p = mem s p" if "p \<in> own" "p \<notin> region b 129" for p
    using that r by (intro t(9)) (auto simp: typing_memory_def)
  ultimately show thesis using that [of t] t(2,4) by (simp add: terminal_view_def screen_of_def)
qed

interpretation kernel_input: program_input "kernel_calls A dev child" "reading own" own
  "\<lambda>(s, h). terminal_view s" type_text "typed_lines fkey" view_column for A dev child own fkey
proof (unfold_locales, goal_cases)
  case (1 m s)
  show ?case by (cases s) simp
next
  case (2 s m)
  then show ?case by (cases s) (auto simp del: reading.simps intro: reading_mem)
next
  case (3 s m)
  then show ?case by (cases s) (auto simp del: reading.simps intro: reading_mem)
next
  case (4 s n b)
  obtain k h where s: "s = (k, h)" by fastforce
  obtain t where "sys_call_write dev 1 b (of_nat n) k = Some (0, t)" "reading own (t, h)"
    "terminal_view t = type_text (bytes (mem k) b n) (terminal_view k)" "\<And>p. p \<in> own \<Longrightarrow> mem t p = mem k p"
    by (rule reading_write [where dev = dev, OF 4 [unfolded s]]) blast
  then show ?case by (intro exI [of _ "(t, h)"]) (simp add: s del: reading.simps)
next
  case (5 s ls m)
  then show ?case by (cases s) simp
next
  case (6 s ls n b r t)
  obtain k h where s: "s = (k, h)" by fastforce
  with 6(5) obtain k' where "t = (k', h)" by auto
  with 6(2) show ?case by (simp add: s)
next
  case (7 s l ls)
  then show ?case by (cases s) (auto simp: key_text_no_zero)
next
  case (8 s l ls b)
  obtain k h where s: "s = (k, h)" by fastforce
  from 8(2) obtain ks kss later where h: "h = map (key_interrupt fkey) (ks @ [0x1C]) @ concat (map (\<lambda>ks. map (key_interrupt fkey) (ks @ [0x1C])) kss) @ later"
    "l = key_text ks" "ls = map key_text kss" "list_all plain_key ks" "\<forall>ks \<in> set kss. list_all plain_key ks"
    by (auto simp: s Cons_eq_map_conv)
  let ?h = "concat (map (\<lambda>ks. map (key_interrupt fkey) (ks @ [0x1C])) kss) @ later"
  have len: "length l = length ks" by (simp add: h(2) key_text_def)
  have fit: "view_column (terminal_view k) + length ks \<le> 80" using 8(3) by (simp add: s len)
  obtain t where t: "sys_call_read (at_dentry A) h 0 b 1023 k = Some (of_nat (length ks + 1), t, ?h)"
    "bytes (mem t) b (length ks + 1) = key_text ks @ [10]" "reading own (t, ?h)" "view_column (terminal_view t) = 0"
    "\<And>p. p \<in> own \<Longrightarrow> p \<notin> region b 129 \<Longrightarrow> mem t p = mem k p"
    by (rule reading_read [where dentry = "at_dentry A", OF 8(1) [unfolded s h(1)] h(4) fit 8(4), folded h(1)]) blast
  moreover have "typed_lines fkey (t, ?h) ls" using h(3,5) by auto
  ultimately show ?case
    by (intro exI [of _ "(t, ?h)"]) (simp add: s h(2) key_text_def del: reading.simps typed_lines.simps)
next
  case (9 v cs)
  obtain a V c r where v: "v = (a, V, c, r)" by (cases v)
  then show ?case using 9 put_char_column [of cs 0 a V r] by auto
next
  case (10 cs v)
  obtain a t where v: "v = (a, t)" by (cases v)
  then show ?case using put_newline_column [of a "fold (put_char a) cs t"] by auto
qed

section \<open>A kernel at the prompt\<close>

lemma cat_kernel_line:
  "keybuf cat_kernel = 0x410000" "at_rest cat_kernel" "fb_flags (current_file 0 cat_kernel) = 1" "file_op_table_ptr (current_file 0 cat_kernel) = STDIN"
proof -
  show kb: "keybuf cat_kernel = 0x410000"
    by (simp add: cat_kernel_def elf_kernel_def shell_kernel_def reset_kernel_def reset_paging_def reset_keyboard_def
        keyboard.defs paging.defs console.defs)
  have "region 0x410000 129 \<inter> region video 0x8000 = {}" unfolding video_def by (rule region_disjointI) simp_all
  then show "at_rest cat_kernel"
    by (simp add: at_rest_def kbd_inv_def kbd_wf_def no_modifiers_def no_modifier_def abs_editor_def kb cat_kernel_cursor)
      (simp add: cat_kernel_def elf_kernel_def shell_kernel_def reset_kernel_def reset_paging_def reset_keyboard_def
        keyboard.defs paging.defs console.defs reset_console_def)
  show "fb_flags (current_file 0 cat_kernel) = 1" "file_op_table_ptr (current_file 0 cat_kernel) = STDIN"
    by (simp_all add: cat_kernel_fields current_file_def initial_file_array_def stdin_block_def)
qed

lemma cat_kernel_reading: "reading (region 0x8000000 0x3000) (cat_kernel, h)"
proof -
  have "region 0x8000000 0x3000 \<inter> region video 0x8000 = {}" "region 0x8000000 0x3000 \<inter> region 0x410000 129 = {}"
    "image_region elf_image 0x400000 \<inter> region video 0x8000 = {}" "image_region elf_image 0x400000 \<inter> region 0x410000 129 = {}"
    unfolding image_region_def elf_image_size video_def by (rule region_disjointI; simp)+
  then show ?thesis
    using cat_kernel_ready cat_kernel_line by (simp add: typing_memory_def cat_kernel_fields Int_Un_distrib)
qed

lemma typed_keys:
  "key_text [0x12, 0x2D, 0x17, 0x14] = ascii ''exit''" "key_text [0x26, 0x1F] = ascii ''ls''"
  "list_all plain_key [0x12, 0x2D, 0x17, 0x14]" "list_all plain_key [0x26, 0x1F]"
  by (simp_all add: key_text_def plain_key_def ignored_keys_def kbdus_def scancode_table_def ascii_def)

section \<open>Properties\<close>

text \<open>
  C10: The shell on this kernel, from the key presses to its end: when the lines \<open>ls\<close> and then \<^verbatim>\<open>exit\<close> are typed, it
  shows its greeting and goes through a session of these lines, in their order: it shows its prompt, reads the line as
  it was typed, and unless the line is empty gives it to \<^verbatim>\<open>execute\<close> as a string, goes on in the state in which the
  program comes back, and shows the message for its result there.  At \<^verbatim>\<open>exit\<close> it returns 0, with what is typed later
  still to be read.  The hypothesis on \<open>child\<close> is that the programs of these commands come back to the shell, leaving
  it its memory and the terminal at the start of a row.
\<close>

theorem shell_obeys_lines:
  assumes ready: "reading own (s, h)" and typed: "typed_lines fkey (s, h) (ls @ ascii ''exit'' # later)"
    and short: "\<forall>l \<in> set ls. length l \<le> 70 \<and> l \<noteq> ascii ''exit''"
    and layout: "region buf 1024 \<subseteq> own" "region lit 64 \<subseteq> own" "region buf 1024 \<inter> region lit 64 = {}"
    and child: "\<forall>l s h ls'. l \<in> set ls \<and> l \<noteq> [] \<and> reading own (s, h) \<and> typed_lines fkey (s, h) ls' \<and> cstring (mem s) buf l \<and>
      view_column (terminal_view s) = 0 \<longrightarrow>
      (\<exists>r t h'. child buf (s, h) = Some (r, t, h') \<and> reading own (t, h') \<and> typed_lines fkey (t, h') ls' \<and> view_column (terminal_view t) = 0)"
  shows "let U = kernel_calls A dev child; out = (\<lambda>(s, h). terminal_view s); hi = ''Starting 391 Shell'' @ [CHR 0x0A] in
    \<exists>s1 v t h'. put_literal U lit hi (s, h) = Some s1 \<and> out s1 = type_text (ascii hi) (terminal_view s) \<and>
      session U out type_text buf lit ls s1 v \<and> line_read U out type_text buf lit (ascii ''exit'') v (t, h') \<and>
      shell_main U buf lit (s, h) = Some (0, t, h') \<and> reading own (t, h') \<and> typed_lines fkey (t, h') later"
proof -
  let ?U = "kernel_calls A dev child" and ?out = "\<lambda>(s, h). terminal_view s"
  obtain s1 where s1: "put_literal ?U lit (''Starting 391 Shell'' @ [CHR 0x0A]) (s, h) = Some s1" "reading own s1"
    "typed_lines fkey s1 (ls @ ascii ''exit'' # later)" "view_column (?out s1) = 0"
    "?out s1 = type_text (ascii (''Starting 391 Shell'' @ [CHR 0x0A])) (?out (s, h))"
    by (rule kernel_input.message_pending [where A = A and dev = dev and child = child and str = "''Starting 391 Shell''", OF ready typed layout(2)])
      (simp, simp add: ascii_def, blast)
  have "\<exists>v t. prompt_loop ?U buf lit s1 = Some (0, t) \<and> reading own t \<and> typed_lines fkey t later \<and>
      session ?U ?out type_text buf lit ls s1 v \<and> line_read ?U ?out type_text buf lit (ascii ''exit'') v t"
    by (rule kernel_input.prompt_loop_lines [OF layout, where C = "set ls"])
      (use s1 short child in \<open>auto simp: kernel_calls_def simp del: reading.simps typed_lines.simps\<close>)
  then obtain v t where t: "prompt_loop ?U buf lit s1 = Some (0, t)" "reading own t" "typed_lines fkey t later"
    "session ?U ?out type_text buf lit ls s1 v" "line_read ?U ?out type_text buf lit (ascii ''exit'') v t" by blast
  have main: "shell_main ?U buf lit (s, h) = Some (0, t)" using s1(1) t(1) by (simp add: shell_main_def)
  obtain k h' where "t = (k, h')" by fastforce
  with t main s1(1,5) show ?thesis
    unfolding Let_def
    by - (rule exI [of _ s1], rule exI [of _ v], rule exI [of _ k], rule exI [of _ h'], simp del: reading.simps typed_lines.simps type_text.simps)
qed

text \<open>An empty line, and \<^verbatim>\<open>ls\<close> whose program answers 1.\<close>

theorem shell_obeys_lines_witness:
  "let child = (\<lambda>_ st. Some (1, st)); U = kernel_calls \<lparr>at_words = 0x8002000, at_dentry = 0x8002100\<rparr> (\<lambda>_ _. 0) child;
       out = (\<lambda>(s, h). terminal_view s);
       h = map (key_interrupt (\<lambda>_ s. s)) ([0x1C, 0x26, 0x1F, 0x1C, 0x12, 0x2D, 0x17, 0x14, 0x1C] :: u8 list)
   in \<exists>s1 v t h'. session U out type_text 0x8000000 0x8001000 [[], ascii ''ls''] s1 v \<and>
        line_read U out type_text 0x8000000 0x8001000 (ascii ''exit'') v (t, h') \<and>
        shell_main U 0x8000000 0x8001000 (cat_kernel, h) = Some (0, t, h')"
proof -
  let ?own = "region 0x8000000 0x3000" and ?child = "\<lambda>_ st. Some (1, st)"
  let ?h = "map (key_interrupt (\<lambda>_ s. s)) ([0x1C, 0x26, 0x1F, 0x1C, 0x12, 0x2D, 0x17, 0x14, 0x1C] :: u8 list)"
  have typed: "typed_lines (\<lambda>_ s. s) (cat_kernel, ?h) ([[], ascii ''ls''] @ ascii ''exit'' # [])"
    unfolding typed_lines.simps
    by (rule exI [of _ "[[], [0x26, 0x1F], [0x12, 0x2D, 0x17, 0x14]]"], rule exI [of _ "[]"])
      (use typed_keys(3,4) in \<open>simp add: typed_keys(1,2)\<close>, simp add: key_text_def)
  have sub: "region (0x8000000 + of_nat j) n \<subseteq> ?own" if "j + n \<le> 0x3000" for j n using region_shift_subset [OF that] .
  have apart: "region 0x8000000 1024 \<inter> region 0x8001000 64 = {}" by (rule region_disjointI) simp_all
  have lines: "\<forall>l \<in> set [[], ascii ''ls'']. length l \<le> 70 \<and> l \<noteq> ascii ''exit''" by (simp add: ascii_def)
  have own: "region 0x8000000 1024 \<subseteq> ?own" "region 0x8001000 64 \<subseteq> ?own" using sub [of 0 1024] sub [of "0x1000" 64] by simp_all
  show ?thesis
    using shell_obeys_lines [where child = ?child and A = "\<lparr>at_words = 0x8002000, at_dentry = 0x8002100\<rparr>" and dev = "\<lambda>_ _. 0",
        OF cat_kernel_reading typed lines own apart]
    unfolding Let_def by (simp del: reading.simps typed_lines.simps session.simps type_text.simps) blast
qed

text \<open>
  C11: \<^verbatim>\<open>counter\<close> on this kernel refuses every answer: \<^verbatim>\<open>read_Terminal\<close> leaves the newline in the line, so an empty answer
  is taken for a wrong character and any other for one that is too long.  Whatever line is typed, also \<^verbatim>\<open>0\<close>, \<^verbatim>\<open>1\<close> or \<^verbatim>\<open>2\<close>,
  the program prints \<^verbatim>\<open>Wrong Choice!\<close> and returns 0 without counting.
\<close>

theorem counter_always_refuses:
  assumes "reading own (s, h)" "typed_lines fkey (s, h) (l # later)" "length l \<le> 80"
    and "region buf 1024 \<subseteq> own" "region lit 64 \<subseteq> own"
  shows "\<exists>t h' v. counter_main (kernel_calls A dev child) buf lit (s, h) = Some (0, t, h') \<and> view_column v = 0 \<and>
    terminal_view t = type_text (ascii (''Wrong Choice!'' @ [CHR 0x0A])) v"
proof (rule kernel_input.counter_refuses [where A = A and dev = dev and child = child, OF assms])
  fix t v
  assume "counter_main (kernel_calls A dev child) buf lit (s, h) = Some (0, t)" "view_column v = 0"
    "(case t of (s, h) \<Rightarrow> terminal_view s) = type_text (ascii (''Wrong Choice!'' @ [CHR 0x0A])) v"
  moreover obtain k h' where "t = (k, h')" by fastforce
  ultimately show ?thesis
    by (intro exI [of _ k] exI [of _ h'] exI [of _ v]) (simp del: type_text.simps view_column.simps)
qed

theorem counter_always_refuses_witness:
  "\<exists>t h' v. counter_main (kernel_calls \<lparr>at_words = 0x8002000, at_dentry = 0x8002100\<rparr> (\<lambda>_ _. 0) (\<lambda>_ _. None)) 0x8000000 0x8001000
      (cat_kernel, map (key_interrupt (\<lambda>_ s. s)) ([0x02, 0x1C] :: u8 list)) = Some (0, t, h') \<and> view_column v = 0 \<and>
    terminal_view t = type_text (ascii (''Wrong Choice!'' @ [CHR 0x0A])) v"
proof -
  let ?own = "region 0x8000000 0x3000" and ?h = "map (key_interrupt (\<lambda>_ s. s)) ([0x02, 0x1C] :: u8 list)"
  have one: "list_all plain_key [0x02]" by (simp add: plain_key_def ignored_keys_def kbdus_def scancode_table_def ascii_def)
  have typed: "typed_lines (\<lambda>_ s. s) (cat_kernel, ?h) [key_text [0x02]]"
    unfolding typed_lines.simps by (rule exI [of _ "[[0x02]]"], rule exI [of _ "[]"]) (use one in simp)
  have sub: "region (0x8000000 + of_nat j) n \<subseteq> ?own" if "j + n \<le> 0x3000" for j n using region_shift_subset [OF that] .
  show ?thesis
    by (rule counter_always_refuses [OF cat_kernel_reading typed])
      (use sub [of 0 1024] sub [of "0x1000" 64] in \<open>simp_all add: key_text_def\<close>)
qed

end
