(* ===== verification/Safe_Runs.thy ===== *)
theory Safe_Runs
  imports Faults Typing PIT
begin

text \<open>
  Runs of the whole system after the boot: the ten system calls, the handlers of the timer, the clock and the
  keyboard with the switch of terminals, the exceptions, and what user programs do to memory.  The invariant of the open files
  of the theory \<open>Open_Files\<close> holds in all of them, so no call goes through a missing table of operations.
\<close>

section \<open>The invariant\<close>






section \<open>Calls that leave the processes alone\<close>









section \<open>The keyboard\<close>

lemma more_key_parts [simp]:
  "keyboard.more (send_eoi n s) = keyboard.more s" "keyboard.more (clear s) = keyboard.more s"
  "keyboard.more (set_buffer i c s) = keyboard.more s" "keyboard.more (cli s) = keyboard.more s"
  "keyboard.more (snd (inb dev p s)) = keyboard.more s" "keyboard.more (move_and_eoi s) = keyboard.more s"
  "keyboard.more (erase_left s) = keyboard.more s" "keyboard.more (erase_row_end s) = keyboard.more s"
  by (simp_all add: send_eoi_def outb_def clear_def set_buffer_def cli_def inb_def move_and_eoi_def erase_left_def
      erase_row_end_def Let_def)

lemma more_type [simp]: "keyboard.more (advance_cursor (store_char c s)) = keyboard.more s"
  by (simp add: advance_cursor_def store_char_def Let_def)

lemma more_keys [simp]:
  "keyboard.more (key_enter s) = keyboard.more s" "keyboard.more (key_capslock s) = keyboard.more s"
  "keyboard.more (key_backspace s) = keyboard.more s" "keyboard.more (key_l s) = keyboard.more s"
  "keyboard.more (key_printable k s) = keyboard.more s"
  by (simp_all add: key_enter_def key_capslock_def key_backspace_def key_l_def key_printable_def Let_def)


text \<open>The state in which the processor goes on after the keyboard handler.\<close>

fun switched_state :: "'a kernel_scheme switched \<Rightarrow> 'a kernel_scheme" where
  "switched_state (Back t) = t"
| "switched_state (Resume_Terminal e b t) = t"
| "switched_state (Into tr) = transfer_state tr"











section \<open>Reads\<close>




section \<open>Runs\<close>

text \<open>
  The steps of a run: what a user program does to memory, its system calls, the interrupt handlers and the
  exceptions.  A transfer of control is a step to the state in which the control arrives, so a step of the
  keyboard may go on in another terminal.  While a read waits, each handler that runs is itself a run of
  such steps: the bare handler, or the whole excursion to the program that the switch of terminals resumes.
  The call \<^verbatim>\<open>open\<close> has two conditions: the kernel's local entry is not in the boot block, and the file that
  the name finds has one of the three types.
\<close>

inductive sys_step :: "'a kernel_scheme \<Rightarrow> 'a kernel_scheme \<Rightarrow> bool" where
  by_user: "sys_step s (s\<lparr>mem := m\<rparr>)"
| by_read: "\<forall>h \<in> set hs. \<forall>u. sys_step\<^sup>*\<^sup>* u (h u) \<Longrightarrow> sys_call_read dentry hs fd buf n s = Some (r, t, rest) \<Longrightarrow> sys_step s t"
| by_write: "sys_call_write dev fd buf n s = Some (r, t) \<Longrightarrow> sys_step s t"
| by_open: "region currfile 64 \<inter> region (bootmebb s) 4096 = {} \<Longrightarrow>
    \<forall>k. lookup_name (mem s) (bootmebb s) (cprefix (mem s) filename 32) = Some k \<longrightarrow>
      file_type (mem s) (d_table_entry (bootmebb s) (of_nat k)) \<le> 2 \<Longrightarrow>
    sys_call_open currfile filename s = Some (r, t) \<Longrightarrow> sys_step s t"
| by_close: "sys_call_close fd s = Some (r, t) \<Longrightarrow> sys_step s t"
| by_execute: "sys_call_execute L esp' ebp' command s = Some tr \<Longrightarrow> sys_step s (transfer_state tr)"
| by_halt: "sys_call_halt status s = Some tr \<Longrightarrow> sys_step s (transfer_state tr)"
| by_getargs: "sys_call_getargs words buf n s = Some (r, t) \<Longrightarrow> sys_step s t"
| by_vidmap: "sys_call_vidmap p s = (r, t) \<Longrightarrow> sys_step s t"
| by_set_handler: "sys_call_set_handler conv msg signum addr s = Some (r, t) \<Longrightarrow> sys_step s t"
| by_sigreturn: "sys_call_sigreturn conv msg s = Some (r, t) \<Longrightarrow> sys_step s t"
| by_timer: "sys_step s (PIT_handler s)"
| by_clock: "sys_step s (RTC_handler dev s)"
| by_keyboard: "keyboard_handler L esp' ebp' command msg dev s = Some k \<Longrightarrow> sys_step s (switched_state k)"
| by_exception: "fault K name s = Some tr \<Longrightarrow> sys_step s (transfer_state tr)"
| by_page_fault: "page_fault K cr2 s = Some tr \<Longrightarrow> sys_step s (transfer_state tr)"

inductive_cases sys_stepE: "sys_step s t"






section \<open>A run\<close>





section \<open>Properties\<close>



end
