(* ===== verification/User_Signals.thy ===== *)
theory User_Signals
  imports Typing
begin

text \<open>
  \<^verbatim>\<open>ece391sigtest.c\<close>: a program that stores through a null pointer and has a handler for the fault.  The kernel has
  no signals: its \<^verbatim>\<open>set_handler\<close> prints a message, and a fault ends the process (theory \<open>Faults\<close>), so the handlers below are
  never entered by it.
\<close>

section \<open>The program\<close>

record sig_vars =
  at_charbuf :: u32
  at_badbuf :: u32
  at_segfault_handler :: u32
  at_alarm_handler :: u32

text \<open>The program returns from \<^verbatim>\<open>main\<close>, or it is stopped at a store to an address that is not mapped.\<close>

datatype 's ended = Returns i32 's | Stopped_At u32 's

definition sig_digit :: "i32 \<Rightarrow> string" where
  "sig_digit signum =
     (if signum = 0 then ''0'' else if signum = 1 then ''1'' else if signum = 2 then ''2'' else if signum = 3 then ''3''
      else ''invalid'') @ [CHR 0x0A]"

text \<open>\<open>at_signum\<close> is the address of the parameter on the stack; seven words above it lies the saved \<^verbatim>\<open>eax\<close>.\<close>

definition segfault_sighandler :: "'s calls \<Rightarrow> sig_vars \<Rightarrow> u32 \<Rightarrow> u32 \<Rightarrow> u32 \<Rightarrow> i32 \<Rightarrow> 's \<Rightarrow> 's option" where
  "segfault_sighandler U V buf lit at_signum signum st =
     do {
       st \<leftarrow> put_literal U lit ''Segfault signal handler called, signum: '' st;
       st \<leftarrow> put_literal U lit (sig_digit signum) st;
       st \<leftarrow> put_literal U lit (''Press enter to continue...'' @ [CHR 0x0A]) st;
       (r, st) \<leftarrow> u_read U 0 buf 1 st;
       let st = u_set_mem U (store32 (u_mem U st) (at_badbuf V) (at_charbuf V)) st;
       let st = u_set_mem U (store32 (u_mem U st) (at_signum + 28) (at_charbuf V)) st;
       put_literal U lit (''Signal handler returning'' @ [CHR 0x0A]) st
     }"

definition alarm_sighandler :: "'s calls \<Rightarrow> u32 \<Rightarrow> i32 \<Rightarrow> 's \<Rightarrow> 's option" where
  "alarm_sighandler U lit signum st =
     do {
       st \<leftarrow> put_literal U lit ''Alarm signal handler called, signum: '' st;
       put_literal U lit (sig_digit signum) st
     }"

definition install_handlers ::
  "'s calls \<Rightarrow> (i32 \<Rightarrow> u32 \<Rightarrow> 's \<Rightarrow> (i32 \<times> 's) option) \<Rightarrow> sig_vars \<Rightarrow> u32 \<Rightarrow> 's \<Rightarrow> 's option" where
  "install_handlers U set_handler V lit st =
     do {
       st \<leftarrow> put_literal U lit (''Installing signal handlers'' @ [CHR 0x0A]) st;
       (r, st) \<leftarrow> set_handler 1 (at_segfault_handler V) st;
       (r, st) \<leftarrow> set_handler 3 (at_alarm_handler V) st;
       Some st
     }"

text \<open>\<open>mapped a\<close>: the program may store to \<open>a\<close>.  What is mapped does not change while it runs.\<close>

definition sigtest_main ::
  "'s calls \<Rightarrow> (i32 \<Rightarrow> u32 \<Rightarrow> 's \<Rightarrow> (i32 \<times> 's) option) \<Rightarrow> (u32 \<Rightarrow> bool) \<Rightarrow> sig_vars \<Rightarrow> u32 \<Rightarrow> u32 \<Rightarrow> 's \<Rightarrow> 's ended option" where
  "sigtest_main U set_handler mapped V buf lit st =
     do {
       (r, st) \<leftarrow> u_getargs U buf 1024 st;
       if 0 \<noteq> r then map_option (\<lambda>(r, st). Returns r st) (fail_with U lit ''could not read argument'' 3 st)
       else do {
         st \<leftarrow> (if u_mem U st buf = 49 then install_handlers U set_handler V lit st else Some st);
         st \<leftarrow> put_literal U lit ''Hi, what's your name? '' st;
         (cnt, st) \<leftarrow> u_read U 0 buf 1023 st;
         if -1 = cnt then map_option (\<lambda>(r, st). Returns r st) (fail_with U lit ''Can't read name from keyboard.'' 3 st)
         else
           let bad = load32 (u_mem U st) (at_badbuf V)
           in if \<not> mapped bad then Some (Stopped_At bad st)
              else do {
                st \<leftarrow> put_literal U lit ''Hello, '' (poke U (buf + cnt) 0 (poke U bad 1 st));
                st \<leftarrow> ece391_fdputs U 1 buf st;
                st \<leftarrow> put_literal U lit ((if u_mem U st (at_charbuf V) = 1 then ''success'' else ''failure'') @ [CHR 0x0A]) st;
                Some (Returns 0 st)
              }
       }
     }"

section \<open>The fault\<close>

context program_input
begin

text \<open>Without the argument \<^verbatim>\<open>1\<close> the program asks for a name, and is stopped at the null pointer whatever is typed.\<close>

lemma sigtest_stops:
  assumes args: "u_getargs U buf 1024 s = Some (0, s0)" "inv s0" "pending s0 (l # ls)" "column (out s0) = 0" "u_mem U s0 buf \<noteq> 49"
    and len: "length l \<le> 50" and layout: "region buf 1024 \<subseteq> own" "region lit 64 \<subseteq> own" "region (at_badbuf V) 4 \<subseteq> own"
      "region (at_badbuf V) 4 \<inter> (region buf 1024 \<union> region lit 64) = {}"
    and null: "load32 (u_mem U s0) (at_badbuf V) = 0" "\<not> mapped 0"
  obtains t where "sigtest_main U set_handler mapped V buf lit s = Some (Stopped_At 0 t)" "inv t" "pending t ls"
proof -
  let ?q = "''Hi, what's your name? ''"
  have lit: "region lit n \<subseteq> own" if "n \<le> 64" for n using layout(2) region_mono [OF that, of lit] by blast
  obtain s1 where s1: "put_literal U lit ?q s0 = Some s1" "inv s1" "pending s1 (l # ls)" "out s1 = emit (ascii ?q) (out s0)"
    "\<And>p. p \<in> own \<Longrightarrow> p \<notin> region lit (length ?q + 1) \<Longrightarrow> u_mem U s1 p = u_mem U s0 p"
    by (rule put_literal_pending [OF args(2,3), of lit ?q]) (simp_all add: lit ascii_def)
  have "column (out s1) = length (ascii ?q)" unfolding s1(4) by (rule column_text [OF args(4)]) (simp_all add: ascii_def)
  then have fit: "column (out s1) + length l \<le> 80" using len by (simp add: ascii_def)
  obtain s2 where s2: "u_read U 0 buf 1023 s1 = Some (of_nat (length l + 1), s2)" "inv s2" "pending s2 ls"
    "\<And>p. p \<in> own \<Longrightarrow> p \<notin> region buf 1024 \<Longrightarrow> u_mem U s2 p = u_mem U s1 p"
    by (rule read_string [OF s1(2,3) fit layout(1)]) blast
  have short: "region lit (length ?q + 1) \<subseteq> region lit 64" by (rule region_mono) simp
  have "load32 (u_mem U s2) (at_badbuf V) = load32 (u_mem U s0) (at_badbuf V)"
  proof (rule load32_cong)
    fix p assume "p \<in> region (at_badbuf V) 4"
    then have "p \<in> own" "p \<notin> region buf 1024" "p \<notin> region lit (length ?q + 1)" using layout(3,4) short by blast+
    with s2(4) [of p] s1(5) [of p] show "u_mem U s2 p = u_mem U s0 p" by simp
  qed
  with null have bad: "load32 (u_mem U s2) (at_badbuf V) = 0" by simp
  have "(of_nat (length l + 1) :: i32) \<noteq> -1" by (rule count_not_error) (use len in simp)
  then have "sigtest_main U set_handler mapped V buf lit s = Some (Stopped_At 0 s2)"
    using args(1,5) s1(1) s2(1) bad null(2) by (simp add: sigtest_main_def Let_def del: of_nat_add of_nat_Suc)
  with s2 show thesis using that by blast
qed

end

section \<open>The fault on the kernel\<close>

text \<open>
  Called with an argument that does not start with \<^verbatim>\<open>1\<close>, on a kernel that maps no page at 0 for users, the program asks
  for the name, reads the line, and is stopped at the store through \<^verbatim>\<open>badbuf\<close>.
\<close>

theorem sigtest_null_pointer:
  assumes ready: "reading own (s, h)" and typed: "typed_lines fkey (s, h) (l # later)" and len: "length l \<le> 50"
    and row: "view_column (terminal_view s) = 0" and page0: "translate User_Access s 0 = None"
    and command: "has_command (prog @ 32 # args) s" "32 \<notin> set prog" "prog \<noteq> []" "take 1 args \<noteq> [49]"
    and layout: "buf \<noteq> 0" "region buf 1024 \<subseteq> own" "region lit 64 \<subseteq> own" "region (at_words A) 41 \<subseteq> own"
      "region buf 40 \<inter> region (at_words A) 41 = {}" "region (at_badbuf V) 4 \<subseteq> own"
      "region (at_badbuf V) 4 \<inter> (region buf 1024 \<union> region lit 64 \<union> region (at_words A) 41) = {}"
    and null: "load32 (mem s) (at_badbuf V) = 0"
  shows "\<exists>t h'. sigtest_main (kernel_calls A dev child) set_handler (\<lambda>a. translate User_Access s a \<noteq> None) V buf lit (s, h)
      = Some (Stopped_At 0 (t, h')) \<and> typed_lines fkey (t, h') later"
proof -
  let ?U = "kernel_calls A dev child"
  obtain m where m: "sys_call_getargs (at_words A) buf 1024 s = Some (0, s\<lparr>mem := m\<rparr>)" "cstring m buf args"
    "\<And>p. p \<notin> region buf 40 \<Longrightarrow> p \<notin> region (at_words A) 41 \<Longrightarrow> m p = mem s p"
    by (rule getargs_effect [OF command(1-3) layout(1) _ layout(5), of 1024]) simp_all
  have sub: "region buf 40 \<subseteq> region buf 1024" by (rule region_mono) simp
  have same: "m p = mem s p" if "p \<notin> own" for p using that layout(2,4) sub by (intro m(3)) blast+
  have r: "reading own (s\<lparr>mem := m\<rparr>, h)" "terminal_view (s\<lparr>mem := m\<rparr>) = terminal_view s"
    using reading_mem [OF ready, of m] same by blast+
  have bad: "load32 m (at_badbuf V) = 0"
    unfolding null [symmetric] using layout(7) sub by (intro load32_cong m(3)) blast+
  have "m buf \<noteq> 49"
  proof (cases args)
    case Nil
    then show ?thesis using m(2) by (simp add: cstring_def)
  next
    case (Cons a as)
    then show ?thesis using cstring_Cons [of m buf a as] m(2) command(4) by simp
  qed
  then have args: "u_getargs ?U buf 1024 (s, h) = Some (0, s\<lparr>mem := m\<rparr>, h)" "u_mem ?U (s\<lparr>mem := m\<rparr>, h) buf \<noteq> 49"
    using m(1) by simp_all
  have typed': "typed_lines fkey (s\<lparr>mem := m\<rparr>, h) (l # later)" using typed by simp
  have row': "view_column (case (s\<lparr>mem := m\<rparr>, h) of (s, h) \<Rightarrow> terminal_view s) = 0" using row r(2) by simp
  have apart: "region (at_badbuf V) 4 \<inter> (region buf 1024 \<union> region lit 64) = {}" using layout(7) by blast
  have bad': "load32 (u_mem ?U (s\<lparr>mem := m\<rparr>, h)) (at_badbuf V) = 0" using bad by simp
  have unmapped: "\<not> translate User_Access s 0 \<noteq> None" using page0 by simp
  obtain t where "sigtest_main ?U set_handler (\<lambda>a. translate User_Access s a \<noteq> None) V buf lit (s, h) = Some (Stopped_At 0 t)"
    "typed_lines fkey t later"
    by (rule kernel_input.sigtest_stops [where mapped = "\<lambda>a. translate User_Access s a \<noteq> None",
        OF args(1) r(1) typed' row' args(2) len layout(2,3,6) apart bad' unmapped]) blast
  then show ?thesis by (cases t) blast
qed

end
