(* ===== verification/Blink.thy ===== *)
theory Blink
  imports Lib_Memory
begin

text \<open>
  The blinking characters of the fish demo: the C helpers of \<^verbatim>\<open>fish.c\<close> and the list of \<^verbatim>\<open>blink.S\<close> that is
  built on them.  The list lives in memory: its cells are slots of \<^verbatim>\<open>blink_array\<close>, linked through their last
  four bytes.  The operations are proved to refine those of an abstract state, a list of blinks and the
  characters on the screen.
\<close>

section \<open>Half words\<close>

definition load16 :: "memory \<Rightarrow> u32 \<Rightarrow> u16" where
  "load16 m a = ucast (m a) OR push_bit 8 (ucast (m (a + 1)))"

definition store16 :: "memory \<Rightarrow> u32 \<Rightarrow> u16 \<Rightarrow> memory" where
  "store16 m a v = m(a := ucast v, a + 1 := ucast (drop_bit 8 v))"

lemma load16_store16 [simp]: "load16 (store16 m a v) a = v"
proof (rule bit_word_eqI)
  fix n assume "n < LENGTH(16)"
  then show "bit (load16 (store16 m a v) a) n \<longleftrightarrow> bit v n"
    by (cases "n < 8") (auto simp: load16_def store16_def bit_simps)
qed

lemma load16_cong: "m a = m' b \<Longrightarrow> m (a + 1) = m' (b + 1) \<Longrightarrow> load16 m a = load16 m' b"
  by (simp add: load16_def)

lemma store16_outside: "p \<notin> region a 2 \<Longrightarrow> store16 m a v p = m p"
  using region_Suc [of a 1] region_Suc [of "a + 1" 0] by (simp add: store16_def numeral_2_eq_2)

section \<open>fish.c: helpers\<close>

record fish_globals =
  at_blink_array :: u32
  at_list_head :: u32
  at_vmem :: u32
  at_temp :: u32

fun memset_loop :: "nat \<Rightarrow> memory \<Rightarrow> u32 \<Rightarrow> u8 \<Rightarrow> memory" where
  "memset_loop 0 m a c = m"
| "memset_loop (Suc k) m a c = memset_loop k (m(a := c)) (a + 1) c"

definition ece391_memset :: "memory \<Rightarrow> u32 \<Rightarrow> u8 \<Rightarrow> i32 \<Rightarrow> memory" where
  "ece391_memset m memory c n = memset_loop (nat (sint n)) m memory c"

fun memcpy_loop :: "nat \<Rightarrow> memory \<Rightarrow> u32 \<Rightarrow> u32 \<Rightarrow> memory" where
  "memcpy_loop 0 m d s = m"
| "memcpy_loop (Suc k) m d s = memcpy_loop k (m(d := m s)) (d + 1) (s + 1)"

definition ece391_memcpy :: "memory \<Rightarrow> u32 \<Rightarrow> u32 \<Rightarrow> i32 \<Rightarrow> i32 \<times> memory" where
  "ece391_memcpy m dest src n = (0, memcpy_loop (nat (sint n)) m dest src)"

definition slot :: "fish_globals \<Rightarrow> nat \<Rightarrow> u32" where
  "slot G i = at_blink_array G + 16 * of_nat i"

text \<open>A slot is taken to be free when its \<^verbatim>\<open>location\<close> is 0.\<close>

definition mp1_malloc :: "fish_globals \<Rightarrow> memory \<Rightarrow> u32" where
  "mp1_malloc G m = (case List.find (\<lambda>i. load16 m (slot G i) = 0) [0..<80 * 25] of Some i \<Rightarrow> slot G i | None \<Rightarrow> 0)"

definition mp1_free :: "u32 \<Rightarrow> memory \<Rightarrow> memory" where
  "mp1_free p m = ece391_memset m p 0 16"

section \<open>blink.S\<close>

definition mp1_poke :: "fish_globals \<Rightarrow> u8 \<Rightarrow> u32 \<Rightarrow> memory \<Rightarrow> memory" where
  "mp1_poke G cl eax m = m(load32 m (at_vmem G) + eax := cl)"

text \<open>The screen offset of an entry: \<^verbatim>\<open>movzwl LOCATION, %eax; shl $1, %eax\<close>.\<close>

definition screen_offset :: "u32 \<Rightarrow> memory \<Rightarrow> u32" where
  "screen_offset p m = push_bit 1 (ucast (load16 m p))"

definition end_blink :: "u32 \<Rightarrow> u16 \<Rightarrow> memory \<Rightarrow> memory" where
  "end_blink p dx m = (let m = store16 m (p + 8) dx in store16 m (p + 10) (load16 m (p + 10) XOR 1))"

definition tasklet_node :: "fish_globals \<Rightarrow> u32 \<Rightarrow> memory \<Rightarrow> memory" where
  "tasklet_node G p m =
     (let m = store16 m (p + 8) (load16 m (p + 8) - 1)
      in if 0 <s load16 m (p + 8) then m
         else if load16 m (p + 10) AND 1 \<noteq> 0
         then let m = mp1_poke G (m (p + 3)) (screen_offset p m) m in end_blink p (load16 m (p + 6)) m
         else let m = mp1_poke G (m (p + 2)) (screen_offset p m) m in end_blink p (load16 m (p + 4)) m)"

partial_function (option) tasklet_loop :: "fish_globals \<Rightarrow> u32 \<Rightarrow> memory \<Rightarrow> memory option" where
  "tasklet_loop G p m =
     (if p = 0 then Some m else let m = tasklet_node G p m in tasklet_loop G (load32 m (p + 12)) m)"

definition mp1_rtc_tasklet :: "fish_globals \<Rightarrow> memory \<Rightarrow> memory option" where
  "mp1_rtc_tasklet G m = tasklet_loop G (load32 m (at_list_head G)) m"

definition mp1_ioctl_add :: "fish_globals \<Rightarrow> u32 \<Rightarrow> memory \<Rightarrow> i32 \<times> memory" where
  "mp1_ioctl_add G arg m =
     (let t = at_temp G; (r, m) = ece391_memcpy m t arg 16
      in if r \<noteq> 0 then (-1, m)
         else if load16 m t \<ge> 80 * 25 then (-1, m)
         else
           let m = store16 m (t + 10) 1; m = store16 m (t + 8) (load16 m (t + 4)); q = mp1_malloc G m
           in if q = 0 then (-1, m)
              else
                let (r, m) = ece391_memcpy m q t 16; m = store32 m (q + 12) (load32 m (at_list_head G));
                    m = store32 m (at_list_head G) q
                in (0, mp1_poke G (m (q + 2)) (screen_offset q m) m))"

partial_function (option) find_loop :: "memory \<Rightarrow> u16 \<Rightarrow> u32 \<Rightarrow> u32 option" where
  "find_loop m ax p = (if p = 0 then Some 0 else if ax = load16 m p then Some p else find_loop m ax (load32 m (p + 12)))"

definition mp1_find_helper :: "fish_globals \<Rightarrow> u32 \<Rightarrow> memory \<Rightarrow> u32 option" where
  "mp1_find_helper G arg m = find_loop m (ucast arg) (load32 m (at_list_head G))"

text \<open>\<open>edx\<close> is the address of the pointer under test.\<close>

partial_function (option) remove_find_prev :: "memory \<Rightarrow> u32 \<Rightarrow> u32 \<Rightarrow> u32 option" where
  "remove_find_prev m eax edx = (if eax = load32 m edx then Some edx else remove_find_prev m eax (load32 m edx + 12))"

definition mp1_ioctl_remove :: "fish_globals \<Rightarrow> u32 \<Rightarrow> memory \<Rightarrow> (i32 \<times> memory) option" where
  "mp1_ioctl_remove G arg m =
     do {
       eax \<leftarrow> mp1_find_helper G arg m;
       if eax = 0 then Some (-1, m)
       else do {
         edx \<leftarrow> remove_find_prev m eax (at_list_head G);
         Some (0, mp1_free eax (store32 m edx (load32 m (eax + 12))))
       }
     }"

definition mp1_ioctl_find :: "fish_globals \<Rightarrow> u32 \<Rightarrow> memory \<Rightarrow> (i32 \<times> memory) option" where
  "mp1_ioctl_find G arg m =
     (let t = at_temp G; (r, m) = ece391_memcpy m t arg 2
      in if r \<noteq> 0 then Some (-1, m)
         else do {
           eax \<leftarrow> mp1_find_helper G (ucast (load16 m t)) m;
           if eax = 0 then Some (-1, m)
           else let (r, m) = ece391_memcpy m arg eax 16 in Some (if r = 0 then 0 else -1, m)
         })"

text \<open>
  \<^verbatim>\<open>testb $0x1, STATUS\<close> and then \<^verbatim>\<open>cmovl\<close>: the move is made when the sign and the overflow flag differ.  The
  test clears the overflow flag, and the sign flag is the top bit of its result.
\<close>

definition sync_char :: "u32 \<Rightarrow> memory \<Rightarrow> u8" where
  "sync_char edi m = (if bit (m (edi + 10) AND 1) 7 then m (edi + 2) else m (edi + 3))"

definition mp1_ioctl_sync :: "fish_globals \<Rightarrow> u32 \<Rightarrow> memory \<Rightarrow> (i32 \<times> memory) option" where
  "mp1_ioctl_sync G arg m =
     do {
       esi \<leftarrow> mp1_find_helper G (drop_bit 16 arg) m;
       if esi = 0 then Some (-1, m)
       else do {
         edi \<leftarrow> mp1_find_helper G (arg AND 0xFFFF) m;
         if edi = 0 then Some (-1, m)
         else
           let m = store16 m (edi + 4) (load16 m (esi + 4)); m = store16 m (edi + 6) (load16 m (esi + 6));
               m = store16 m (edi + 8) (load16 m (esi + 8)); m = store16 m (edi + 10) (load16 m (esi + 10))
           in Some (0, mp1_poke G (sync_char edi m) (screen_offset edi m) m)
       }
     }"

text \<open>The jump through \<^verbatim>\<open>call_table\<close>; a command past its end leaves the program, and gives \<open>None\<close>.\<close>

definition mp1_ioctl :: "fish_globals \<Rightarrow> u32 \<Rightarrow> u32 \<Rightarrow> memory \<Rightarrow> (i32 \<times> memory) option" where
  "mp1_ioctl G arg cmd m =
     (if cmd = 0 then Some (mp1_ioctl_add G arg m) else if cmd = 1 then mp1_ioctl_remove G arg m
      else if cmd = 2 then mp1_ioctl_find G arg m else if cmd = 3 then mp1_ioctl_sync G arg m else None)"

section \<open>The abstract state\<close>

record blink =
  location :: u16
  on_char :: u8
  off_char :: u8
  on_length :: u16
  off_length :: u16
  countdown :: u16
  status :: u16

record fish_view =
  blinks :: "blink list"
  shown :: "u8 list"

definition show_at :: "u16 \<Rightarrow> u8 \<Rightarrow> u8 list \<Rightarrow> u8 list" where
  "show_at loc c scr = scr[unat loc := c]"

definition add_blink :: "blink \<Rightarrow> fish_view \<Rightarrow> i32 \<times> fish_view" where
  "add_blink b v =
     (if location b \<ge> 2000 \<or> length (blinks v) = 2000 then (-1, v)
      else (0, \<lparr>blinks = b\<lparr>status := 1, countdown := on_length b\<rparr> # blinks v, shown = show_at (location b) (on_char b) (shown v)\<rparr>))"

fun drop_first :: "u16 \<Rightarrow> blink list \<Rightarrow> blink list" where
  "drop_first loc [] = []"
| "drop_first loc (b # bs) = (if location b = loc then bs else b # drop_first loc bs)"

definition remove_blink :: "u16 \<Rightarrow> fish_view \<Rightarrow> i32 \<times> fish_view" where
  "remove_blink loc v =
     (if loc \<in> location ` set (blinks v) then (0, v\<lparr>blinks := drop_first loc (blinks v)\<rparr>) else (-1, v))"

text \<open>Copying the times of an entry to the first one at a location, which then shows its second character.\<close>

definition copy_times :: "blink \<Rightarrow> blink \<Rightarrow> blink" where
  "copy_times a b = b\<lparr>on_length := on_length a, off_length := off_length a, countdown := countdown a, status := status a\<rparr>"

fun sync_first :: "blink \<Rightarrow> u16 \<Rightarrow> blink list \<Rightarrow> blink list" where
  "sync_first a loc [] = []"
| "sync_first a loc (b # bs) = (if location b = loc then copy_times a b # bs else b # sync_first a loc bs)"

definition sync_blink :: "u16 \<Rightarrow> u16 \<Rightarrow> fish_view \<Rightarrow> i32 \<times> fish_view" where
  "sync_blink loc1 loc2 v =
     (case (List.find (\<lambda>b. location b = loc1) (blinks v), List.find (\<lambda>b. location b = loc2) (blinks v)) of
        (Some a, Some b) \<Rightarrow> (0, \<lparr>blinks = sync_first a loc2 (blinks v), shown = show_at loc2 (off_char b) (shown v)\<rparr>)
      | _ \<Rightarrow> (-1, v))"

definition tick_blink :: "blink \<Rightarrow> blink" where
  "tick_blink b =
     (if 0 <s countdown b - 1 then b\<lparr>countdown := countdown b - 1\<rparr>
      else b\<lparr>countdown := (if status b AND 1 \<noteq> 0 then off_length b else on_length b), status := status b XOR 1\<rparr>)"

definition tick_shown :: "blink \<Rightarrow> u8 list \<Rightarrow> u8 list" where
  "tick_shown b scr =
     (if 0 <s countdown b - 1 then scr else show_at (location b) (if status b AND 1 \<noteq> 0 then off_char b else on_char b) scr)"

definition tick :: "fish_view \<Rightarrow> fish_view" where
  "tick v = \<lparr>blinks = map tick_blink (blinks v), shown = fold tick_shown (blinks v) (shown v)\<rparr>"

section \<open>The state in memory\<close>

definition blink_at :: "memory \<Rightarrow> u32 \<Rightarrow> blink" where
  "blink_at m p = \<lparr>location = load16 m p, on_char = m (p + 2), off_char = m (p + 3), on_length = load16 m (p + 4),
     off_length = load16 m (p + 6), countdown = load16 m (p + 8), status = load16 m (p + 10)\<rparr>"

primrec chain :: "memory \<Rightarrow> u32 \<Rightarrow> u32 list \<Rightarrow> bool" where
  "chain m p [] \<longleftrightarrow> p = 0"
| "chain m p (q # qs) \<longleftrightarrow> p = q \<and> q \<noteq> 0 \<and> chain m (load32 m (q + 12)) qs"

definition slots :: "fish_globals \<Rightarrow> u32 set" where
  "slots G = slot G ` {..<2000}"

definition fish_layout :: "fish_globals \<Rightarrow> u32 \<Rightarrow> bool" where
  "fish_layout G base \<longleftrightarrow>
     0 \<notin> region (at_blink_array G) 32000 \<and>
     region (at_blink_array G) 32000 \<inter> (region (at_list_head G) 4 \<union> region (at_vmem G) 4 \<union> region base 4000 \<union> region (at_temp G) 16) = {} \<and>
     region (at_list_head G) 4 \<inter> (region (at_vmem G) 4 \<union> region base 4000 \<union> region (at_temp G) 16) = {} \<and>
     region (at_vmem G) 4 \<inter> (region base 4000 \<union> region (at_temp G) 16) = {} \<and>
     region base 4000 \<inter> region (at_temp G) 16 = {}"

definition fish_rep :: "fish_globals \<Rightarrow> memory \<Rightarrow> u32 list \<Rightarrow> bool" where
  "fish_rep G m ps \<longleftrightarrow>
     fish_layout G (load32 m (at_vmem G)) \<and> chain m (load32 m (at_list_head G)) ps \<and> distinct ps \<and> set ps \<subseteq> slots G \<and>
     (\<forall>p \<in> slots G. load16 m p = 0 \<longleftrightarrow> p \<notin> set ps) \<and> (\<forall>p \<in> set ps. load16 m p < 2000)"

definition fish_view :: "fish_globals \<Rightarrow> memory \<Rightarrow> u32 list \<Rightarrow> fish_view" where
  "fish_view G m ps = \<lparr>blinks = map (blink_at m) ps, shown = map (\<lambda>i. m (load32 m (at_vmem G) + of_nat (2 * i))) [0..<2000]\<rparr>"

section \<open>Regions of the demo\<close>

lemma memcpy_loop_bottom: "memcpy_loop k m d s = memcpy_bottom k m s d"
  by (induction k arbitrary: m d s) simp_all

lemma copy16:
  assumes "region d 16 \<inter> region s 16 = {}" "ece391_memcpy m d s 16 = (r, m')"
  shows "r = 0" "\<And>i. i < 16 \<Longrightarrow> m' (d + of_nat i) = m (s + of_nat i)" "\<And>p. p \<notin> region d 16 \<Longrightarrow> m' p = m p"
proof -
  have m': "m' = store_bytes m d (bytes m s 16)" and r: "r = 0"
    using assms by (simp_all add: ece391_memcpy_def memcpy_loop_bottom memcpy_bottom_store Int_commute)
  show "r = 0" by (rule r)
  show "m' (d + of_nat i) = m (s + of_nat i)" if "i < 16" for i
    using that store_bytes_inside [of i "bytes m s 16" m d] by (simp add: m')
  show "m' p = m p" if "p \<notin> region d 16" for p using that by (simp add: m' store_bytes_outside)
qed

lemma slot_region: "p \<in> slots G \<Longrightarrow> region p 16 \<subseteq> region (at_blink_array G) 32000"
proof -
  assume "p \<in> slots G"
  then obtain i where "p = at_blink_array G + of_nat (16 * i)" "i < 2000" by (auto simp: slots_def slot_def)
  then show ?thesis using region_shift_subset [of "16 * i" 16 32000 "at_blink_array G"] by simp
qed

lemma slot_inject: "i < 2000 \<Longrightarrow> j < 2000 \<Longrightarrow> slot G i = slot G j \<longleftrightarrow> i = j"
  using u32_of_nat_eq_iff [of "16 * i" "16 * j"] by (simp add: slot_def)

lemma slot_apart:
  assumes "p \<in> slots G" "q \<in> slots G" "p \<noteq> q" shows "region p 16 \<inter> region q 16 = {}"
proof (rule ccontr)
  obtain i j where ij: "p = slot G i" "q = slot G j" "i < 2000" "j < 2000" using assms by (auto simp: slots_def)
  assume "region p 16 \<inter> region q 16 \<noteq> {}"
  then obtain a b where ab: "a < 16" "b < 16" "p + of_nat a = q + of_nat b" by (auto simp: region_def)
  then have "(of_nat (16 * i + a) :: u32) = of_nat (16 * j + b)" by (simp add: ij slot_def add.assoc)
  then have "16 * i + a = 16 * j + b" using ij ab u32_of_nat_eq_iff [of "16 * i + a" "16 * j + b"] by simp
  then have "i = j" using ab by linarith
  with ij assms(3) show False by simp
qed

lemma slot_array: "slots G \<subseteq> region (at_blink_array G) 32000"
  using slot_region region_Suc [of _ 15] by fastforce

lemma card_slots: "card (slots G) = 2000" and finite_slots: "finite (slots G)"
  using card_image [of "slot G" "{..<2000}"] by (simp_all add: slots_def inj_on_def slot_inject)

text \<open>The cell of a location on the screen.\<close>

definition cell :: "u32 \<Rightarrow> u16 \<Rightarrow> u32" where
  "cell base loc = base + of_nat (2 * unat loc)"

lemma screen_offset_cell: "base + screen_offset p m = cell base (load16 m p)"
  by (simp add: screen_offset_def cell_def push_bit_eq_mult)

lemma cell_in: "loc < 2000 \<Longrightarrow> cell base loc \<in> region base 4000"
  unfolding cell_def by (rule in_regionI) (simp add: word_less_nat_alt)

lemma shown_poke:
  assumes "loc < 2000"
  shows "map (\<lambda>i. (m(cell base loc := c)) (base + of_nat (2 * i))) [0..<2000] = show_at loc c (map (\<lambda>i. m (base + of_nat (2 * i))) [0..<2000])"
proof (rule nth_equalityI)
  fix i assume "i < length (map (\<lambda>i. (m(cell base loc := c)) (base + of_nat (2 * i))) [0..<2000])"
  then have i: "i < 2000" by simp
  have "base + of_nat (2 * i) = cell base loc \<longleftrightarrow> i = unat loc"
    using assms i u32_of_nat_eq_iff [of "2 * i" "2 * unat loc"] by (simp add: cell_def word_less_nat_alt)
  with i assms show "map (\<lambda>i. (m(cell base loc := c)) (base + of_nat (2 * i))) [0..<2000] ! i =
      show_at loc c (map (\<lambda>i. m (base + of_nat (2 * i))) [0..<2000]) ! i"
    by (simp add: show_at_def nth_list_update word_less_nat_alt del: upt_rec_numeral)
qed (simp add: show_at_def)

section \<open>Frames\<close>

lemma struct_cell: "i < 16 \<Longrightarrow> p + of_nat i \<in> region p 16"
  by (rule in_regionI)

lemma in_struct [simp]:
  "p \<in> region p 16" "p + 1 \<in> region p 16" "p + 2 \<in> region p 16" "p + 3 \<in> region p 16" "p + 4 \<in> region p 16"
  "p + 5 \<in> region p 16" "p + 6 \<in> region p 16" "p + 7 \<in> region p 16" "p + 8 \<in> region p 16" "p + 9 \<in> region p 16"
  "p + 10 \<in> region p 16" "p + 11 \<in> region p 16" "p + 12 \<in> region p 16" "p + 13 \<in> region p 16" "p + 14 \<in> region p 16"
  "p + 15 \<in> region p 16"
  using struct_cell [of 0 p] struct_cell [of 1 p] struct_cell [of 2 p] struct_cell [of 3 p] struct_cell [of 4 p] struct_cell [of 5 p]
    struct_cell [of 6 p] struct_cell [of 7 p] struct_cell [of 8 p] struct_cell [of 9 p] struct_cell [of 10 p] struct_cell [of 11 p]
    struct_cell [of 12 p] struct_cell [of 13 p] struct_cell [of 14 p] struct_cell [of 15 p]
  by simp_all

lemma blink_at_copy:
  assumes "\<And>i. i < 12 \<Longrightarrow> m' (q + of_nat i) = m (p + of_nat i)"
  shows "blink_at m' q = blink_at m p"
  using assms [of 0] assms [of 1] assms [of 2] assms [of 3] assms [of 4] assms [of 5] assms [of 6] assms [of 7]
    assms [of 8] assms [of 9] assms [of 10] assms [of 11]
  by (simp add: blink_at_def load16_def add.assoc)

lemma struct_cong:
  assumes "\<And>a. a \<in> region p 16 \<Longrightarrow> m' a = m a"
  shows "blink_at m' p = blink_at m p" "load32 m' (p + 12) = load32 m (p + 12)" "load16 m' p = load16 m p"
proof -
  show "blink_at m' p = blink_at m p" by (rule blink_at_copy) (use assms in \<open>auto simp: struct_cell\<close>)
  show "load16 m' p = load16 m p" by (rule load16_cong) (simp_all add: assms)
  have "region (p + 12) 4 \<subseteq> region p 16" using region_shift_subset [of 12 4 16 p] by simp
  then show "load32 m' (p + 12) = load32 m (p + 12)" by (intro load32_cong assms) blast
qed

lemma chain_cong: "(\<And>q. q \<in> set ps \<Longrightarrow> load32 m' (q + 12) = load32 m (q + 12)) \<Longrightarrow> chain m' p ps = chain m p ps"
  by (induction ps arbitrary: p) simp_all

lemma rep_cong:
  assumes "fish_rep G m ps" "\<And>a. a \<in> region (at_blink_array G) 32000 \<union> region (at_list_head G) 4 \<union> region (at_vmem G) 4 \<Longrightarrow> m' a = m a"
  shows "fish_rep G m' ps" "map (blink_at m') ps = map (blink_at m) ps" "load32 m' (at_vmem G) = load32 m (at_vmem G)"
    "load32 m' (at_list_head G) = load32 m (at_list_head G)"
proof -
  have s: "m' a = m a" if "p \<in> slots G" "a \<in> region p 16" for p a using slot_region [OF that(1)] that(2) assms(2) by blast
  have ps: "p \<in> slots G" if "p \<in> set ps" for p using that assms(1) by (auto simp: fish_rep_def)
  show v: "load32 m' (at_vmem G) = load32 m (at_vmem G)" and h: "load32 m' (at_list_head G) = load32 m (at_list_head G)"
    by (rule load32_cong; simp add: assms(2))+
  have c: "chain m' x ps = chain m x ps" for x by (intro chain_cong struct_cong(2) s ps)
  have l: "load16 m' p = load16 m p" if "p \<in> slots G" for p using struct_cong(3) [OF s [OF that]] .
  show "fish_rep G m' ps" using assms(1) ps l by (simp add: fish_rep_def v h c)
  show "map (blink_at m') ps = map (blink_at m) ps" by (intro map_cong refl struct_cong(1) s ps)
qed

section \<open>Fields of an entry\<close>

lemma load16_other [simp]:
  "a \<noteq> b \<Longrightarrow> a \<noteq> b + 1 \<Longrightarrow> a + 1 \<noteq> b \<Longrightarrow> load16 (store16 m b v) a = load16 m a"
  by (simp add: load16_def store16_def)

lemma store16_field:
  assumes "a \<notin> region p 16"
  shows "store16 m (p + 4) v a = m a" "store16 m (p + 6) v a = m a" "store16 m (p + 8) v a = m a" "store16 m (p + 10) v a = m a"
  using assms region_shift_subset [of 4 2 16 p] region_shift_subset [of 6 2 16 p] region_shift_subset [of 8 2 16 p]
    region_shift_subset [of 10 2 16 p]
  by (auto intro!: store16_outside)

lemma field_at [simp]:
  "location (blink_at m p) = load16 m p" "on_char (blink_at m p) = m (p + 2)" "off_char (blink_at m p) = m (p + 3)"
  "on_length (blink_at m p) = load16 m (p + 4)" "off_length (blink_at m p) = load16 m (p + 6)"
  "countdown (blink_at m p) = load16 m (p + 8)" "status (blink_at m p) = load16 m (p + 10)"
  by (simp_all add: blink_at_def)

lemma blink_store:
  "blink_at (store16 m (p + 4) v) p = (blink_at m p)\<lparr>on_length := v\<rparr>"
  "blink_at (store16 m (p + 6) v) p = (blink_at m p)\<lparr>off_length := v\<rparr>"
  "blink_at (store16 m (p + 8) v) p = (blink_at m p)\<lparr>countdown := v\<rparr>"
  "blink_at (store16 m (p + 10) v) p = (blink_at m p)\<lparr>status := v\<rparr>"
  by (simp_all add: blink_at_def) (simp_all add: store16_def)

lemma next_store:
  "load32 (store16 m (p + 4) v) (p + 12) = load32 m (p + 12)" "load32 (store16 m (p + 6) v) (p + 12) = load32 m (p + 12)"
  "load32 (store16 m (p + 8) v) (p + 12) = load32 m (p + 12)" "load32 (store16 m (p + 10) v) (p + 12) = load32 m (p + 12)"
  by (simp_all add: load32_def store16_def)

lemma blink_poke:
  assumes "c \<notin> region p 16"
  shows "blink_at (m(c := v)) p = blink_at m p" "load32 (m(c := v)) (p + 12) = load32 m (p + 12)"
  by (rule struct_cong; use assms in auto)+

text \<open>The addresses of a layout: an entry, the two variables and the screen do not meet.\<close>

lemma layout_apart:
  assumes "fish_layout G base" "p \<in> slots G" "loc < 2000"
  shows "cell base loc \<notin> region p 16" "region p 16 \<inter> region (at_list_head G) 4 = {}" "region p 16 \<inter> region (at_vmem G) 4 = {}"
    "region p 16 \<inter> region base 4000 = {}" "region p 16 \<inter> region (at_temp G) 16 = {}" "p \<noteq> 0"
    "cell base loc \<notin> region (at_list_head G) 4" "cell base loc \<notin> region (at_vmem G) 4"
  using assms(1) slot_region [OF assms(2)] cell_in [OF assms(3), of base] in_struct(1) [of p] unfolding fish_layout_def by blast+

definition screen_at :: "memory \<Rightarrow> u32 \<Rightarrow> u8 list" where
  "screen_at m base = map (\<lambda>i. m (base + of_nat (2 * i))) [0..<2000]"

lemma screen_cong: "(\<And>a. a \<in> region base 4000 \<Longrightarrow> m' a = m a) \<Longrightarrow> screen_at m' base = screen_at m base"
  unfolding screen_at_def
proof (rule map_cong)
  fix i assume c: "\<And>a. a \<in> region base 4000 \<Longrightarrow> m' a = m a" and "i \<in> set [0..<2000]"
  then have "i < 2000" by (simp del: upt_rec_numeral)
  then have "base + of_nat (2 * i) \<in> region base 4000" by (intro in_regionI) simp
  then show "m' (base + of_nat (2 * i)) = m (base + of_nat (2 * i))" by (rule c)
qed simp

lemma screen_poke: "loc < 2000 \<Longrightarrow> screen_at (m(cell base loc := c)) base = show_at loc c (screen_at m base)"
  unfolding screen_at_def by (rule shown_poke)

lemma fish_view_eq: "fish_view G m ps = \<lparr>blinks = map (blink_at m) ps, shown = screen_at m (load32 m (at_vmem G))\<rparr>"
  by (simp add: fish_view_def screen_at_def)

section \<open>The tasklet\<close>

lemma tasklet_node_effect:
  fixes G :: fish_globals
  assumes lay: "fish_layout G base" "load32 m (at_vmem G) = base" and p: "p \<in> slots G" "load16 m p < 2000"
  defines "m' \<equiv> tasklet_node G p m"
  shows "blink_at m' p = tick_blink (blink_at m p)" "load32 m' (p + 12) = load32 m (p + 12)"
    "screen_at m' base = tick_shown (blink_at m p) (screen_at m base)"
    "\<And>a. a \<notin> region p 16 \<Longrightarrow> a \<noteq> cell base (load16 m p) \<Longrightarrow> m' a = m a"
proof -
  note ap = layout_apart [OF lay(1) p]
  define m1 where "m1 = store16 m (p + 8) (load16 m (p + 8) - 1)"
  have b1: "blink_at m1 p = (blink_at m p)\<lparr>countdown := load16 m (p + 8) - 1\<rparr>" "load32 m1 (p + 12) = load32 m (p + 12)"
    by (simp_all add: m1_def blink_store next_store)
  have f1: "load16 m1 p = load16 m p" "m1 (p + 2) = m (p + 2)" "m1 (p + 3) = m (p + 3)" "load16 m1 (p + 4) = load16 m (p + 4)"
    "load16 m1 (p + 6) = load16 m (p + 6)" "load16 m1 (p + 8) = load16 m (p + 8) - 1" "load16 m1 (p + 10) = load16 m (p + 10)"
    using arg_cong [OF b1(1), of location] arg_cong [OF b1(1), of on_char] arg_cong [OF b1(1), of off_char]
      arg_cong [OF b1(1), of on_length] arg_cong [OF b1(1), of off_length] arg_cong [OF b1(1), of countdown] arg_cong [OF b1(1), of status]
    by simp_all
  have o1: "m1 a = m a" if "a \<notin> region p 16" for a using that by (simp add: m1_def store16_field)
  have v1: "load32 m1 (at_vmem G) = base"
    using ap(3) by (subst lay(2) [symmetric], intro load32_cong o1) blast
  have s1: "screen_at m1 base = screen_at m base" using ap(4) by (intro screen_cong o1) blast
  define c where "c = (if load16 m (p + 10) AND 1 \<noteq> 0 then m (p + 3) else m (p + 2))"
  define dx where "dx = (if load16 m (p + 10) AND 1 \<noteq> 0 then load16 m (p + 6) else load16 m (p + 4))"
  have fc: "load16 (m1(cell base (load16 m p) := d)) (p + 4) = load16 m (p + 4)" "load16 (m1(cell base (load16 m p) := d)) (p + 6) = load16 m (p + 6)"
      "load16 (m1(cell base (load16 m p) := d)) (p + 10) = load16 m (p + 10)" for d
    using arg_cong [OF blink_poke(1) [OF ap(1), of m1 d], of on_length] arg_cong [OF blink_poke(1) [OF ap(1), of m1 d], of off_length]
      arg_cong [OF blink_poke(1) [OF ap(1), of m1 d], of status] f1 by simp_all
  define m2 where "m2 = m1(cell base (load16 m p) := c)"
  have b2: "blink_at m2 p = blink_at m1 p" "load32 m2 (p + 12) = load32 m1 (p + 12)"
    unfolding m2_def by (rule blink_poke [OF ap(1)])+
  note f2 = fc [of c, folded m2_def]
  have s2: "screen_at m2 base = show_at (load16 m p) c (screen_at m base)"
    unfolding m2_def by (simp only: screen_poke [OF p(2)] s1)
  define m3 where "m3 = end_blink p dx m2"
  have b3: "blink_at m3 p = (blink_at m p)\<lparr>countdown := dx, status := load16 m (p + 10) XOR 1\<rparr>" "load32 m3 (p + 12) = load32 m (p + 12)"
    using f2 by (simp_all add: m3_def end_blink_def Let_def blink_store next_store b2 b1)
  have o3: "m3 a = m2 a" if "a \<notin> region p 16" for a using that by (simp add: m3_def end_blink_def Let_def store16_field)
  have s3: "screen_at m3 base = screen_at m2 base" using ap(4) by (intro screen_cong o3) blast
  have m': "m' = (if 0 <s load16 m (p + 8) - 1 then m1 else m3)"
    by (simp add: m'_def tasklet_node_def Let_def m1_def [symmetric] f1 mp1_poke_def v1 screen_offset_cell m3_def m2_def c_def dx_def fc)
  show "blink_at m' p = tick_blink (blink_at m p)" "load32 m' (p + 12) = load32 m (p + 12)"
    "screen_at m' base = tick_shown (blink_at m p) (screen_at m base)"
    using b1 b3 s1 s2 s3 by (simp_all add: m' tick_blink_def tick_shown_def dx_def c_def)
  show "m' a = m a" if "a \<notin> region p 16" "a \<noteq> cell base (load16 m p)" for a
    using that o1 o3 by (simp add: m' m2_def)
qed

lemma tick_blink_location [simp]: "location (tick_blink b) = location b"
  by (simp add: tick_blink_def)

lemma tasklet_loop_chain:
  assumes "fish_layout G base"
  shows "chain m p ps \<Longrightarrow> distinct ps \<Longrightarrow> set ps \<subseteq> slots G \<Longrightarrow> \<forall>q \<in> set ps. load16 m q < 2000 \<Longrightarrow> load32 m (at_vmem G) = base \<Longrightarrow>
    \<exists>m'. tasklet_loop G p m = Some m' \<and> map (blink_at m') ps = map tick_blink (map (blink_at m) ps) \<and>
      screen_at m' base = fold tick_shown (map (blink_at m) ps) (screen_at m base) \<and>
      (\<forall>q \<in> set ps. load32 m' (q + 12) = load32 m (q + 12)) \<and>
      (\<forall>a. a \<notin> region base 4000 \<longrightarrow> (\<forall>q \<in> set ps. a \<notin> region q 16) \<longrightarrow> m' a = m a)"
proof (induction ps arbitrary: p m)
  case Nil
  then show ?case by (simp add: tasklet_loop.simps)
next
  case (Cons q qs)
  have q: "q \<in> slots G" "load16 m q < 2000" "p = q" "q \<noteq> 0" "chain m (load32 m (q + 12)) qs" "q \<notin> set qs" using Cons.prems by simp_all
  define m1 where "m1 = tasklet_node G q m"
  note n = tasklet_node_effect [OF assms Cons.prems(5) q(1,2), folded m1_def]
  note ap = layout_apart [OF assms q(1,2)]
  have same: "blink_at m1 r = blink_at m r \<and> load32 m1 (r + 12) = load32 m (r + 12) \<and> load16 m1 r = load16 m r" if "r \<in> set qs" for r
  proof -
    have r: "r \<in> slots G" "r \<noteq> q" using that Cons.prems q(6) by auto
    have "m1 a = m a" if "a \<in> region r 16" for a
      using that slot_apart [OF r(1) q(1) r(2)] layout_apart(1) [OF assms r(1) q(2)] by (intro n(4)) blast+
    then show ?thesis using struct_cong [of r m1 m] by blast
  qed
  have v: "load32 m1 (at_vmem G) = base"
    unfolding Cons.prems(5) [symmetric] by (intro load32_cong n(4)) (use ap in blast)+
  have "chain m1 (load32 m1 (q + 12)) qs" using chain_cong [of qs m1 m] same q(5) n(2) by simp
  then obtain m' where m': "tasklet_loop G (load32 m1 (q + 12)) m1 = Some m'" "map (blink_at m') qs = map tick_blink (map (blink_at m1) qs)"
    "screen_at m' base = fold tick_shown (map (blink_at m1) qs) (screen_at m1 base)" "\<forall>r \<in> set qs. load32 m' (r + 12) = load32 m1 (r + 12)"
    "\<forall>a. a \<notin> region base 4000 \<longrightarrow> (\<forall>r \<in> set qs. a \<notin> region r 16) \<longrightarrow> m' a = m1 a"
    using Cons.IH [of m1 "load32 m1 (q + 12)"] Cons.prems same v by auto
  have "m' a = m1 a" if "a \<in> region q 16" for a
  proof -
    have "\<forall>r \<in> set qs. a \<notin> region r 16" using that slot_apart [OF _ q(1)] Cons.prems(3) q(6) by fastforce
    then show ?thesis using m'(5) that ap(4) by blast
  qed
  note mq = struct_cong [of q m' m1, OF this]
  have map1: "map (blink_at m1) qs = map (blink_at m) qs" using same by simp
  show ?case
  proof (intro exI [of _ m'] conjI)
    show "tasklet_loop G p m = Some m'" using m'(1) q by (subst tasklet_loop.simps) (simp add: m1_def)
    show "map (blink_at m') (q # qs) = map tick_blink (map (blink_at m) (q # qs))" using m'(2) mq(1) n(1) map1 by simp
    show "screen_at m' base = fold tick_shown (map (blink_at m) (q # qs)) (screen_at m base)" using m'(3) n(3) map1 by simp
    show "\<forall>r \<in> set (q # qs). load32 m' (r + 12) = load32 m (r + 12)" using m'(4) same mq(2) n(2) by simp
    show "\<forall>a. a \<notin> region base 4000 \<longrightarrow> (\<forall>r \<in> set (q # qs). a \<notin> region r 16) \<longrightarrow> m' a = m a"
      using m'(5) n(4) cell_in [OF q(2), of base] by auto
  qed
qed

lemma tasklet_refines_view:
  assumes "fish_rep G m ps"
  obtains m' where "mp1_rtc_tasklet G m = Some m'" "fish_rep G m' ps" "fish_view G m' ps = tick (fish_view G m ps)"
proof -
  let ?base = "load32 m (at_vmem G)"
  note rep = assms [unfolded fish_rep_def]
  obtain m' where m': "tasklet_loop G (load32 m (at_list_head G)) m = Some m'" "map (blink_at m') ps = map tick_blink (map (blink_at m) ps)"
      "screen_at m' ?base = fold tick_shown (map (blink_at m) ps) (screen_at m ?base)" "\<forall>q \<in> set ps. load32 m' (q + 12) = load32 m (q + 12)"
      "\<forall>a. a \<notin> region ?base 4000 \<longrightarrow> (\<forall>q \<in> set ps. a \<notin> region q 16) \<longrightarrow> m' a = m a"
    using tasklet_loop_chain [of G ?base m "load32 m (at_list_head G)" ps] rep by auto
  have arr: "region q 16 \<subseteq> region (at_blink_array G) 32000" if "q \<in> set ps" for q using slot_region that rep by blast
  have out: "m' a = m a" if "a \<in> region (at_list_head G) 4 \<union> region (at_vmem G) 4" for a
  proof -
    have "a \<notin> region ?base 4000" "a \<notin> region (at_blink_array G) 32000" using that rep unfolding fish_layout_def by blast+
    then show ?thesis using m'(5) arr by blast
  qed
  have v: "load32 m' (at_vmem G) = ?base" "load32 m' (at_list_head G) = load32 m (at_list_head G)"
    by (rule load32_cong; simp add: out)+
  have loc: "load16 m' q = load16 m q" if "q \<in> slots G" for q
  proof (cases "q \<in> set ps")
    case True
    then have "blink_at m' q = tick_blink (blink_at m q)" using m'(2) by simp
    then have "location (blink_at m' q) = location (tick_blink (blink_at m q))" by simp
    then show ?thesis by simp
  next
    case False
    then have "region q 16 \<inter> region r 16 = {}" if "r \<in> set ps" for r
      using slot_apart [OF \<open>q \<in> slots G\<close>, of r] that rep by blast
    moreover have "region q 16 \<inter> region ?base 4000 = {}" using layout_apart(4) [of G ?base q 0] rep \<open>q \<in> slots G\<close> by simp
    ultimately have "m' a = m a" if "a \<in> region q 16" for a using that m'(5) by blast
    then show ?thesis by (rule struct_cong)
  qed
  have "chain m' x ps = chain m x ps" for x using m'(4) by (intro chain_cong) simp
  then have "fish_rep G m' ps" using rep loc by (simp add: fish_rep_def v subset_iff)
  moreover have "fish_view G m' ps = tick (fish_view G m ps)" by (simp add: fish_view_eq tick_def v m'(2,3))
  ultimately show thesis using that m'(1) by (simp add: mp1_rtc_tasklet_def)
qed

section \<open>Adding an entry\<close>

lemma malloc_slot:
  assumes "fish_rep G m ps" "\<And>a. a \<in> region (at_blink_array G) 32000 \<Longrightarrow> m' a = m a"
  shows "if length ps = 2000 then mp1_malloc G m' = 0
    else mp1_malloc G m' \<in> slots G \<and> mp1_malloc G m' \<notin> set ps \<and> length ps < 2000"
proof -
  note rep = assms(1) [unfolded fish_rep_def]
  have free: "load16 m' (slot G i) = 0 \<longleftrightarrow> slot G i \<notin> set ps" if "i < 2000" for i
  proof -
    have s: "slot G i \<in> slots G" using that by (simp add: slots_def)
    have "load16 m' (slot G i) = load16 m (slot G i)" using slot_region [OF s] assms(2) by (intro struct_cong) blast
    then show ?thesis using rep s by simp
  qed
  have len: "length ps = card (set ps)" using rep by (simp add: distinct_card)
  show ?thesis
  proof (cases "List.find (\<lambda>i. load16 m' (slot G i) = 0) [0..<80 * 25]")
    case None
    then have "slots G \<subseteq> set ps" using free by (auto simp: find_None_iff slots_def simp del: upt_rec_numeral)
    then have "set ps = slots G" using rep by blast
    then have "length ps = 2000" using len card_slots by simp
    then show ?thesis using None by (simp add: mp1_malloc_def del: upt_rec_numeral)
  next
    case (Some i)
    then have i: "i < 2000" "load16 m' (slot G i) = 0" by (auto simp: find_Some_iff simp del: upt_rec_numeral)
    then have q: "slot G i \<in> slots G" "slot G i \<notin> set ps" using free by (auto simp: slots_def)
    then have "set ps \<subset> slots G" using rep by blast
    then have "length ps < 2000" using psubset_card_mono [OF finite_slots] len card_slots by metis
    with Some q show ?thesis by (simp add: mp1_malloc_def del: upt_rec_numeral)
  qed
qed

lemma store32_outside: "p \<notin> region a 4 \<Longrightarrow> store32 m a v p = m p"
proof -
  assume "p \<notin> region a 4"
  moreover have "region a 4 = {a, a + 1, a + 2, a + 3}"
    using region_Suc [of a 3] region_Suc [of "a + 1" 2] region_Suc [of "a + 2" 1] region_Suc [of "a + 3" 0]
    by (simp add: add.assoc eval_nat_numeral)
  ultimately show ?thesis by (simp add: store32_def)
qed

lemma load32_frame: "(\<And>p. p \<notin> S \<Longrightarrow> m' p = m p) \<Longrightarrow> region a 4 \<inter> S = {} \<Longrightarrow> load32 m' a = load32 m a"
  by (rule load32_cong) blast

text \<open>The copy of the argument that \<^verbatim>\<open>mp1_ioctl_add\<close> prepares, and how it goes on from there.\<close>

definition link_entry :: "fish_globals \<Rightarrow> u32 \<Rightarrow> memory \<Rightarrow> memory" where
  "link_entry G q m =
     (let (r, m) = ece391_memcpy m q (at_temp G) 16; m = store32 m (q + 12) (load32 m (at_list_head G)); m = store32 m (at_list_head G) q
      in mp1_poke G (m (q + 2)) (screen_offset q m) m)"

lemma copy_to_temp:
  assumes arg: "region arg 16 \<inter> region (at_temp G) 16 = {}"
  obtains m1 where "ece391_memcpy m (at_temp G) arg 16 = (0, m1)" "blink_at m1 (at_temp G) = blink_at m arg"
    "\<And>a. a \<notin> region (at_temp G) 16 \<Longrightarrow> m1 a = m a"
proof -
  define m1 where "m1 = snd (ece391_memcpy m (at_temp G) arg 16)"
  have e: "ece391_memcpy m (at_temp G) arg 16 = (0, m1)" by (simp add: m1_def ece391_memcpy_def)
  have t: "region (at_temp G) 16 \<inter> region arg 16 = {}" using arg by blast
  note c = copy16 [OF t e]
  have "blink_at m1 (at_temp G) = blink_at m arg" using c(2) by (intro blink_at_copy) simp
  then show thesis using that e c(3) by blast
qed

lemma add_prepared:
  assumes arg: "region arg 16 \<inter> region (at_temp G) 16 = {}" and loc: "load16 m arg < 2000"
  obtains m3 where "\<And>a. a \<notin> region (at_temp G) 16 \<Longrightarrow> m3 a = m a"
    "blink_at m3 (at_temp G) = (blink_at m arg)\<lparr>status := 1, countdown := load16 m (arg + 4)\<rparr>"
    "mp1_ioctl_add G arg m = (let q = mp1_malloc G m3 in if q = 0 then (-1, m3) else (0, link_entry G q m3))"
proof -
  let ?t = "at_temp G"
  obtain m1 where m1: "ece391_memcpy m ?t arg 16 = (0, m1)" "blink_at m1 ?t = blink_at m arg"
    "\<And>a. a \<notin> region ?t 16 \<Longrightarrow> m1 a = m a" by (rule copy_to_temp [where m = m, OF arg]) blast
  have l: "load16 m1 ?t = load16 m arg" "load16 m1 (?t + 4) = load16 m (arg + 4)"
    using arg_cong [OF m1(2), of location] arg_cong [OF m1(2), of on_length] by simp_all
  define m3 where "m3 = store16 (store16 m1 (?t + 10) 1) (?t + 8) (load16 m1 (?t + 4))"
  have four: "load16 (store16 m1 (?t + 10) 1) (?t + 4) = load16 m1 (?t + 4)" by simp
  show thesis
  proof (rule that [of m3])
    show "m3 a = m a" if "a \<notin> region ?t 16" for a using that m1(3) by (simp add: m3_def store16_field)
    show "blink_at m3 ?t = (blink_at m arg)\<lparr>status := 1, countdown := load16 m (arg + 4)\<rparr>"
      by (simp add: m3_def blink_store m1(2) l)
    show "mp1_ioctl_add G arg m = (let q = mp1_malloc G m3 in if q = 0 then (-1, m3) else (0, link_entry G q m3))"
      using loc by (simp add: mp1_ioctl_add_def link_entry_def m1(1) l(1) four m3_def Let_def not_le [symmetric] split: prod.split)
  qed
qed

lemma copied_before_link:
  fixes q :: u32
  assumes "i < 12" shows "q + of_nat i \<in> region q 16" "q + of_nat i \<notin> region (q + 12) 4"
proof -
  have "unat (q + of_nat i - (q + 12)) = 2 ^ 32 - (12 - i)" using unat_of_nat_diff [of 12 i] assms by simp
  then show "q + of_nat i \<notin> region (q + 12) 4" using assms by (simp add: region_iff)
  show "q + of_nat i \<in> region q 16" using assms by (intro in_regionI) simp
qed

text \<open>The effect of linking the prepared copy as slot \<open>q\<close>.\<close>

lemma link_entry_effect:
  assumes lay: "fish_layout G base" "load32 m (at_vmem G) = base" and q: "q \<in> slots G" and loc: "load16 m (at_temp G) < 2000"
  defines "m' \<equiv> link_entry G q m"
  shows "blink_at m' q = blink_at m (at_temp G)" "load32 m' (q + 12) = load32 m (at_list_head G)" "load32 m' (at_list_head G) = q"
    "load32 m' (at_vmem G) = base" "screen_at m' base = show_at (load16 m (at_temp G)) (m (at_temp G + 2)) (screen_at m base)"
    "\<And>a. a \<notin> region q 16 \<union> region (at_list_head G) 4 \<union> region base 4000 \<Longrightarrow> m' a = m a"
proof -
  let ?t = "at_temp G" and ?h = "at_list_head G" and ?v = "at_vmem G"
  note ap = layout_apart [OF lay(1) q loc]
  define m4 where "m4 = snd (ece391_memcpy m q ?t 16)"
  have e4: "ece391_memcpy m q ?t 16 = (0, m4)" by (simp add: m4_def ece391_memcpy_def)
  note c4 = copy16 [OF ap(5) e4]
  define m5 where "m5 = store32 m4 (q + 12) (load32 m4 ?h)"
  define m6 where "m6 = store32 m5 ?h q"
  have h4: "load32 m4 ?h = load32 m ?h" by (rule load32_frame [of "region q 16", OF c4(3)]) (use ap(2) in \<open>simp_all add: Int_commute\<close>)
  have o5: "m5 a = m4 a" if "a \<notin> region (q + 12) 4" for a unfolding m5_def by (rule store32_outside [OF that])
  have o6: "m6 a = m5 a" if "a \<notin> region ?h 4" for a unfolding m6_def by (rule store32_outside [OF that])
  have s6: "m6 a = m5 a" if "a \<in> region q 16" for a using that ap(2) by (intro o6) blast
  have b6: "blink_at m6 q = blink_at m ?t"
    by (rule blink_at_copy) (simp add: s6 copied_before_link o5 c4(2))
  have l6: "load16 m6 q = load16 m ?t" "m6 (q + 2) = m (?t + 2)"
    using arg_cong [OF b6, of location] arg_cong [OF b6, of on_char] by simp_all
  have n6: "load32 m6 (q + 12) = load32 m ?h" using struct_cong(2) [OF s6] h4 by (simp add: m5_def)
  have next_in: "region (q + 12) 4 \<subseteq> region q 16" using region_shift_subset [of 12 4 16 q] by simp
  have out6: "m6 a = m a" if "a \<notin> region q 16 \<union> region ?h 4" for a
    using that next_in o6 [of a] o5 [of a] c4(3) [of a] by auto
  have v6: "load32 m6 ?v = base" unfolding lay(2) [symmetric]
    by (rule load32_frame [of "region q 16 \<union> region ?h 4", OF out6]) (use ap(3) lay(1) in \<open>auto simp: fish_layout_def\<close>)
  have m': "m' = m6(cell base (load16 m ?t) := m (?t + 2))"
    by (simp add: m'_def link_entry_def e4 m5_def [symmetric] m6_def [symmetric] Let_def mp1_poke_def v6 screen_offset_cell l6)
  show "blink_at m' q = blink_at m ?t" "load32 m' (q + 12) = load32 m ?h"
    unfolding m' using blink_poke [OF ap(1)] b6 n6 by simp_all
  have fr: "load32 m' ?h = load32 m6 ?h" "load32 m' ?v = load32 m6 ?v"
    unfolding m' by (rule load32_frame [where S = "{cell base (load16 m ?t)}"]; use ap(7,8) in simp)+
  then show "load32 m' ?h = q" "load32 m' ?v = base" using v6 by (simp_all add: m6_def)
  have "screen_at m6 base = screen_at m base"
    by (intro screen_cong out6) (use ap(4) lay(1) in \<open>auto simp: fish_layout_def\<close>)
  then show "screen_at m' base = show_at (load16 m ?t) (m (?t + 2)) (screen_at m base)"
    unfolding m' by (simp only: screen_poke [OF loc])
  show "m' a = m a" if "a \<notin> region q 16 \<union> region ?h 4 \<union> region base 4000" for a
    using that out6 cell_in [OF loc, of base] by (auto simp: m')
qed

text \<open>Memory after \<^verbatim>\<open>mp1_ioctl_add\<close> has put its argument into slot \<open>q\<close>.\<close>

definition entry_added :: "fish_globals \<Rightarrow> u32 \<Rightarrow> u32 \<Rightarrow> memory \<Rightarrow> memory \<Rightarrow> bool" where
  "entry_added G arg q m m' \<longleftrightarrow>
     blink_at m' q = (blink_at m arg)\<lparr>status := 1, countdown := load16 m (arg + 4)\<rparr> \<and>
     load32 m' (q + 12) = load32 m (at_list_head G) \<and> load32 m' (at_list_head G) = q \<and>
     load32 m' (at_vmem G) = load32 m (at_vmem G) \<and>
     screen_at m' (load32 m (at_vmem G)) = show_at (load16 m arg) (m (arg + 2)) (screen_at m (load32 m (at_vmem G))) \<and>
     (\<forall>a. a \<notin> region (at_temp G) 16 \<union> region q 16 \<union> region (at_list_head G) 4 \<union> region (load32 m (at_vmem G)) 4000 \<longrightarrow> m' a = m a)"

lemma add_effect:
  assumes lay: "fish_layout G (load32 m (at_vmem G))" and arg: "region arg 16 \<inter> region (at_temp G) 16 = {}"
    and loc: "load16 m arg < 2000"
  obtains m3 where "\<And>a. a \<notin> region (at_temp G) 16 \<Longrightarrow> m3 a = m a"
    "mp1_malloc G m3 = 0 \<Longrightarrow> mp1_ioctl_add G arg m = (-1, m3)"
    "\<And>q. mp1_malloc G m3 = q \<Longrightarrow> q \<in> slots G \<Longrightarrow> \<exists>m'. mp1_ioctl_add G arg m = (0, m') \<and> entry_added G arg q m m'"
proof -
  define base where "base = load32 m (at_vmem G)"
  note L = lay [folded base_def]
  obtain m3 where m3: "\<And>a. a \<notin> region (at_temp G) 16 \<Longrightarrow> m3 a = m a"
    "blink_at m3 (at_temp G) = (blink_at m arg)\<lparr>status := 1, countdown := load16 m (arg + 4)\<rparr>"
    "mp1_ioctl_add G arg m = (let q = mp1_malloc G m3 in if q = 0 then (-1, m3) else (0, link_entry G q m3))"
    by (rule add_prepared [OF arg loc]) blast
  have l3: "load16 m3 (at_temp G) = load16 m arg" "m3 (at_temp G + 2) = m (arg + 2)"
    using arg_cong [OF m3(2), of location] arg_cong [OF m3(2), of on_char] by simp_all
  have keep: "load32 m3 (at_list_head G) = load32 m (at_list_head G)" "load32 m3 (at_vmem G) = base"
    unfolding base_def by (rule load32_frame [of "region (at_temp G) 16", OF m3(1)]; use L in \<open>auto simp: fish_layout_def\<close>)+
  have scr: "screen_at m3 base = screen_at m base" by (intro screen_cong m3(1)) (use L in \<open>auto simp: fish_layout_def\<close>)
  show thesis
  proof (rule that [of m3, OF m3(1)])
    show "mp1_ioctl_add G arg m = (-1, m3)" if "mp1_malloc G m3 = 0" by (simp add: m3(3) that)
    fix q assume q: "mp1_malloc G m3 = q" "q \<in> slots G"
    note e = link_entry_effect [OF L keep(2) q(2), unfolded l3(1), OF loc]
    have "entry_added G arg q m (link_entry G q m3)"
      unfolding entry_added_def base_def [symmetric] using e m3(1,2) by (simp add: l3 keep scr)
    moreover have "mp1_ioctl_add G arg m = (0, link_entry G q m3)"
      using q(1) layout_apart(6) [OF L q(2) loc] by (simp add: m3(3))
    ultimately show "\<exists>m'. mp1_ioctl_add G arg m = (0, m') \<and> entry_added G arg q m m'" by blast
  qed
qed

lemma temp_view:
  assumes "fish_rep G m ps" "\<And>a. a \<notin> region (at_temp G) 16 \<Longrightarrow> m' a = m a"
  shows "fish_rep G m' ps \<and> fish_view G m' ps = fish_view G m ps"
proof -
  have lay: "fish_layout G (load32 m (at_vmem G))" using assms(1) by (simp add: fish_rep_def)
  have eq: "m' a = m a" if "a \<in> region (at_blink_array G) 32000 \<union> region (at_list_head G) 4 \<union> region (at_vmem G) 4" for a
    by (rule assms(2)) (use that lay in \<open>auto simp: fish_layout_def\<close>)
  have "screen_at m' (load32 m (at_vmem G)) = screen_at m (load32 m (at_vmem G))"
    by (intro screen_cong assms(2)) (use lay in \<open>auto simp: fish_layout_def\<close>)
  then show ?thesis using rep_cong [OF assms(1) eq] by (simp add: fish_view_eq)
qed

text \<open>The list with the new entry in front.\<close>

lemma entry_added_rep:
  assumes rep: "fish_rep G m ps" and q: "q \<in> slots G" "q \<notin> set ps" and loc: "load16 m arg < 2000" "load16 m arg \<noteq> 0"
    and add: "entry_added G arg q m m'"
  shows "fish_rep G m' (q # ps)" "map (blink_at m') ps = map (blink_at m) ps"
proof -
  note R = rep [unfolded fish_rep_def] and m' = add [unfolded entry_added_def]
  then have lay: "fish_layout G (load32 m (at_vmem G))" by simp
  have same: "blink_at m' p = blink_at m p \<and> load32 m' (p + 12) = load32 m (p + 12) \<and> load16 m' p = load16 m p"
    if "p \<in> slots G" "p \<noteq> q" for p
  proof -
    have "a \<notin> region (at_temp G) 16 \<union> region q 16 \<union> region (at_list_head G) 4 \<union> region (load32 m (at_vmem G)) 4000" if "a \<in> region p 16" for a
      using that slot_apart [OF \<open>p \<in> slots G\<close> q(1) \<open>p \<noteq> q\<close>] layout_apart(2,4,5) [OF lay \<open>p \<in> slots G\<close> loc(1)] by blast
    then have "m' a = m a" if "a \<in> region p 16" for a using that m' by blast
    then show ?thesis using struct_cong [of p m' m] by blast
  qed
  have ps: "p \<in> slots G \<and> p \<noteq> q" if "p \<in> set ps" for p using that R q(2) by blast
  have "location (blink_at m' q) = location (blink_at m arg)" using m' by simp
  then have lq: "load16 m' q = load16 m arg" by simp
  have "chain m' x ps = chain m x ps" for x using same ps by (intro chain_cong) blast
  then have c: "chain m' (load32 m' (at_list_head G)) (q # ps)"
    using R m' layout_apart(6) [OF lay q(1) loc(1)] by simp
  have free: "\<forall>p \<in> slots G. load16 m' p = 0 \<longleftrightarrow> p \<notin> set (q # ps)"
  proof
    fix p assume "p \<in> slots G"
    then show "load16 m' p = 0 \<longleftrightarrow> p \<notin> set (q # ps)" using R same [of p] lq loc(2) by (cases "p = q") simp_all
  qed
  have small: "\<forall>p \<in> set (q # ps). load16 m' p < 2000" using R same ps lq loc(1) by simp
  show "fish_rep G m' (q # ps)" unfolding fish_rep_def using lay c q R free small m' by simp
  show "map (blink_at m') ps = map (blink_at m) ps" using same ps by simp
qed

text \<open>The bytes of the demo that \<^verbatim>\<open>blink.S\<close> writes, for a screen at \<open>base\<close>.\<close>

definition fish_data :: "fish_globals \<Rightarrow> u32 \<Rightarrow> u32 set" where
  "fish_data G base =
     region (at_temp G) 16 \<union> region (at_blink_array G) 32000 \<union> region (at_list_head G) 4 \<union> region base 4000"

lemma entry_added_outside:
  assumes "entry_added G arg q m m'" "q \<in> slots G" "a \<notin> fish_data G (load32 m (at_vmem G))"
  shows "m' a = m a"
  using assms slot_region [OF assms(2)] unfolding entry_added_def fish_data_def by blast

lemma add_out_of_range:
  assumes "region arg 16 \<inter> region (at_temp G) 16 = {}" "2000 \<le> load16 m arg"
  obtains m' where "mp1_ioctl_add G arg m = (-1, m')" "\<And>a. a \<notin> region (at_temp G) 16 \<Longrightarrow> m' a = m a"
proof -
  obtain m1 where m1: "ece391_memcpy m (at_temp G) arg 16 = (0, m1)" "blink_at m1 (at_temp G) = blink_at m arg"
    "\<And>a. a \<notin> region (at_temp G) 16 \<Longrightarrow> m1 a = m a" by (rule copy_to_temp [where m = m, OF assms(1)]) blast
  from arg_cong [OF m1(2), of location] have "load16 m1 (at_temp G) = load16 m arg" by simp
  with assms(2) have "mp1_ioctl_add G arg m = (-1, m1)" by (simp add: mp1_ioctl_add_def m1(1) Let_def)
  then show thesis using that m1(3) by blast
qed

lemma add_refines:
  assumes rep: "fish_rep G m ps" and arg: "region arg 16 \<inter> region (at_temp G) 16 = {}" and nz: "load16 m arg \<noteq> 0"
  obtains r m' ps' where "mp1_ioctl_add G arg m = (r, m')" "fish_rep G m' ps'"
    "(r, fish_view G m' ps') = add_blink (blink_at m arg) (fish_view G m ps)"
    "\<And>a. a \<notin> fish_data G (load32 m (at_vmem G)) \<Longrightarrow> m' a = m a"
proof (cases "load16 m arg < 2000")
  case False
  then have "2000 \<le> load16 m arg" by simp
  then obtain m' where m': "mp1_ioctl_add G arg m = (-1, m')" "\<And>a. a \<notin> region (at_temp G) 16 \<Longrightarrow> m' a = m a"
    by (rule add_out_of_range [OF arg]) blast
  then show thesis using that [of "-1" m' ps] temp_view [OF rep m'(2)] False m'(2) by (simp add: add_blink_def fish_data_def not_less)
next
  case True
  have lay: "fish_layout G (load32 m (at_vmem G))" using rep by (simp add: fish_rep_def)
  obtain m3 where m3: "\<And>a. a \<notin> region (at_temp G) 16 \<Longrightarrow> m3 a = m a" "mp1_malloc G m3 = 0 \<Longrightarrow> mp1_ioctl_add G arg m = (-1, m3)"
    "\<And>q. mp1_malloc G m3 = q \<Longrightarrow> q \<in> slots G \<Longrightarrow> \<exists>m'. mp1_ioctl_add G arg m = (0, m') \<and> entry_added G arg q m m'"
    by (rule add_effect [OF lay arg True]) blast
  have array: "m3 a = m a" if "a \<in> region (at_blink_array G) 32000" for a
    by (rule m3(1)) (use that lay in \<open>auto simp: fish_layout_def\<close>)
  note slot = malloc_slot [OF rep array]
  show thesis
  proof (cases "length ps = 2000")
    case full: True
    then have "mp1_ioctl_add G arg m = (-1, m3)" using slot m3(2) by simp
    then show thesis using that [of "-1" m3 ps] temp_view [OF rep m3(1)] full m3(1) by (simp add: add_blink_def fish_view_eq fish_data_def)
  next
    case False
    define q where "q = mp1_malloc G m3"
    have q: "q \<in> slots G" "q \<notin> set ps" "length ps < 2000" using slot False by (simp_all add: q_def)
    obtain m' where m': "mp1_ioctl_add G arg m = (0, m')" "entry_added G arg q m m'"
      using m3(3) [OF q_def [symmetric] q(1)] by blast
    note r = entry_added_rep [OF rep q(1,2) True nz m'(2)]
    have "(0, fish_view G m' (q # ps)) = add_blink (blink_at m arg) (fish_view G m ps)"
      using True q(3) m'(2) r(2) by (simp add: add_blink_def fish_view_eq entry_added_def not_le [symmetric])
    then show thesis by (rule that [OF m'(1) r(1)]) (rule entry_added_outside [OF m'(2) q(1)])
  qed
qed

section \<open>Searching and removing\<close>

lemma find_loop_chain:
  "chain m p ps \<Longrightarrow> find_loop m ax p = Some (case List.find (\<lambda>q. load16 m q = ax) ps of Some q \<Rightarrow> q | None \<Rightarrow> 0)"
  by (induction ps arbitrary: p) (auto simp: find_loop.simps [of m ax])

lemma remove_find_prev_chain:
  "chain m (load32 m edx) (xs @ q # ys) \<Longrightarrow> q \<notin> set xs \<Longrightarrow>
     remove_find_prev m q edx = Some (if xs = [] then edx else last xs + 12)"
proof (induction xs arbitrary: edx)
  case Nil
  then show ?case by (simp add: remove_find_prev.simps [of m q])
next
  case (Cons x xs)
  then have "remove_find_prev m q (x + 12) = Some (if xs = [] then x + 12 else last xs + 12)" by simp
  moreover have "remove_find_prev m q edx = remove_find_prev m q (x + 12)"
    using Cons.prems by (subst remove_find_prev.simps) auto
  ultimately show ?case by simp
qed

lemma chain_unlink:
  "chain m p (xs @ q # ys) \<Longrightarrow> distinct (xs @ q # ys) \<Longrightarrow>
   \<forall>r \<in> set (xs @ ys). load32 m' (r + 12) = (if xs \<noteq> [] \<and> r = last xs then load32 m (q + 12) else load32 m (r + 12)) \<Longrightarrow>
     chain m' (if xs = [] then load32 m (q + 12) else p) (xs @ ys)"
proof (induction xs arbitrary: p)
  case Nil
  then show ?case using chain_cong [of ys m' m] by simp
next
  case (Cons x xs)
  have "chain m' (if xs = [] then load32 m (q + 12) else load32 m (x + 12)) (xs @ ys)"
  proof (rule Cons.IH)
    show "\<forall>r \<in> set (xs @ ys). load32 m' (r + 12) = (if xs \<noteq> [] \<and> r = last xs then load32 m (q + 12) else load32 m (r + 12))"
      using Cons.prems(2,3) by auto
  qed (use Cons.prems in simp_all)
  moreover have "load32 m' (x + 12) = (if xs = [] then load32 m (q + 12) else load32 m (x + 12))"
    using Cons.prems(2,3) by auto
  ultimately show ?case using Cons.prems(1) by simp
qed

lemma drop_first_split:
  "\<forall>b \<in> set xs. location b \<noteq> loc \<Longrightarrow> location b = loc \<Longrightarrow> drop_first loc (xs @ b # ys) = xs @ ys"
  by (induction xs) simp_all

lemma memset_outside: "a \<notin> region p n \<Longrightarrow> memset_loop n m p c a = m a"
  by (induction n arbitrary: p m) (simp_all add: region_Suc)

lemma memset_inside: "i < n \<Longrightarrow> n \<le> 2 ^ 32 \<Longrightarrow> memset_loop n m p c (p + of_nat i) = c"
proof -
  assume i: "i < n" "n \<le> 2 ^ 32"
  have "memset_loop n m p c = store_bytes m p (replicate n c)" for m p
    by (induction n arbitrary: m p) simp_all
  with i show ?thesis using store_bytes_inside [of i "replicate n c" m p] by simp
qed

lemma freed:
  "a \<notin> region p 16 \<Longrightarrow> mp1_free p m a = m a" "load16 (mp1_free p m) p = 0"
  using memset_inside [of 0 16 m p 0] memset_inside [of 1 16 m p 0]
  by (simp_all add: mp1_free_def ece391_memset_def memset_outside load16_def)

text \<open>
  Taking the entry \<open>q\<close> behind the entries \<open>xs\<close> out of the list: the pointer at \<open>unlink_at\<close>, in the list head or in the
  last of \<open>xs\<close>, gets the successor of \<open>q\<close>, and the slot of \<open>q\<close> is cleared.
\<close>

definition unlink_at :: "fish_globals \<Rightarrow> u32 list \<Rightarrow> u32" where
  "unlink_at G xs = (if xs = [] then at_list_head G else last xs + 12)"

definition unlinked :: "fish_globals \<Rightarrow> u32 list \<Rightarrow> u32 \<Rightarrow> memory \<Rightarrow> memory" where
  "unlinked G xs q m = mp1_free q (store32 m (unlink_at G xs) (load32 m (q + 12)))"

lemma unlinked_outside:
  "a \<notin> region (unlink_at G xs) 4 \<Longrightarrow> a \<notin> region q 16 \<Longrightarrow> unlinked G xs q m a = m a"
  by (simp add: unlinked_def freed store32_outside)

lemma unlink_at_region:
  "region (unlink_at G xs) 4 \<subseteq> (if xs = [] then region (at_list_head G) 4 else region (last xs) 16)"
  using region_shift_subset [of 12 4 16 "last xs"] by (auto simp: unlink_at_def)

lemma unlink_at_apart:
  assumes "fish_layout G base" "set xs \<subseteq> slots G" "p \<in> slots G" "xs = [] \<or> p \<noteq> last xs"
  shows "region (unlink_at G xs) 4 \<inter> region p 16 = {}"
proof (cases "xs = []")
  case True
  then show ?thesis using unlink_at_region [of G xs] layout_apart(2) [OF assms(1,3), of 0] by auto
next
  case False
  then have "last xs \<in> slots G" using assms(2) by (auto simp: last_in_set)
  then have "region p 16 \<inter> region (last xs) 16 = {}" using slot_apart [OF assms(3), of "last xs"] False assms(4) by blast
  then show ?thesis using unlink_at_region [of G xs] False by auto
qed

text \<open>The other entries keep their fields; their links step over \<open>q\<close>.\<close>

lemma unlinked_entry:
  assumes lay: "fish_layout G base" and xs: "set xs \<subseteq> slots G" and q: "q \<in> slots G" "q \<notin> set xs" and r: "r \<in> slots G" "r \<noteq> q"
  shows "blink_at (unlinked G xs q m) r = blink_at m r" "load16 (unlinked G xs q m) r = load16 m r"
    "load32 (unlinked G xs q m) (r + 12) = (if xs \<noteq> [] \<and> r = last xs then load32 m (q + 12) else load32 m (r + 12))"
proof -
  note rq = slot_apart [OF r(1) q(1) r(2)]
  have "unlinked G xs q m (r + of_nat i) = m (r + of_nat i)" if i: "i < 12" for i
  proof (rule unlinked_outside)
    have in_r: "r + of_nat i \<in> region r 16" using i by (intro in_regionI) simp
    then show "r + of_nat i \<notin> region q 16" using rq by blast
    show "r + of_nat i \<notin> region (unlink_at G xs) 4"
    proof (cases "xs = [] \<or> r \<noteq> last xs")
      case True
      then show ?thesis using unlink_at_apart [OF lay xs r(1)] in_r by blast
    next
      case False
      have "unat (r + of_nat i - (r + 12)) = 2 ^ 32 - (12 - i)" using unat_of_nat_diff [of 12 i] i by simp
      with False i show ?thesis by (simp add: unlink_at_def region_iff)
    qed
  qed
  then show b: "blink_at (unlinked G xs q m) r = blink_at m r" by (rule blink_at_copy)
  from arg_cong [OF b, of location] show "load16 (unlinked G xs q m) r = load16 m r" by simp
  show "load32 (unlinked G xs q m) (r + 12) = (if xs \<noteq> [] \<and> r = last xs then load32 m (q + 12) else load32 m (r + 12))"
  proof (cases "xs \<noteq> [] \<and> r = last xs")
    case True
    then have "q \<noteq> last xs" using q(2) last_in_set [of xs] by auto
    then have "region (unlink_at G xs) 4 \<inter> region q 16 = {}" using unlink_at_apart [OF lay xs q(1)] by blast
    then have "load32 (unlinked G xs q m) (unlink_at G xs) = load32 m (q + 12)"
      using load32_frame [of "region q 16" "unlinked G xs q m" "store32 m (unlink_at G xs) (load32 m (q + 12))"]
      by (simp add: unlinked_def freed)
    with True show ?thesis by (simp add: unlink_at_def)
  next
    case False
    then have "unlinked G xs q m a = m a" if "a \<in> region r 16" for a
      using that unlink_at_apart [OF lay xs r(1)] rq by (intro unlinked_outside) blast+
    then have "load32 (unlinked G xs q m) (r + 12) = load32 m (r + 12)" by (rule struct_cong)
    with False show ?thesis by (simp only: if_False)
  qed
qed

lemma unlinked_head:
  assumes "fish_layout G base" "set xs \<subseteq> slots G" "q \<in> slots G" "q \<notin> set xs"
  shows "load32 (unlinked G xs q m) (at_list_head G) = (if xs = [] then load32 m (q + 12) else load32 m (at_list_head G))"
proof (cases "xs = []")
  case True
  have "region (at_list_head G) 4 \<inter> region q 16 = {}" using layout_apart(2) [OF assms(1,3), of 0] by auto
  then have "load32 (unlinked G xs q m) (at_list_head G) = load32 (store32 m (at_list_head G) (load32 m (q + 12))) (at_list_head G)"
    using True by (intro load32_frame [of "region q 16"]) (simp_all add: unlinked_def unlink_at_def freed)
  with True show ?thesis by simp
next
  case False
  then have "last xs \<in> slots G" using assms(2) by (auto simp: last_in_set)
  then have "region (at_list_head G) 4 \<inter> (region (unlink_at G xs) 4 \<union> region q 16) = {}"
    using False unlink_at_region [of G xs] layout_apart(2) [OF assms(1) _, of _ 0] assms(3) by fastforce
  from load32_frame [OF _ this, of "unlinked G xs q m" m] False show ?thesis by (auto simp: unlinked_outside)
qed

text \<open>What is left is a representation of the list without \<open>q\<close>.\<close>

lemma unlinked_rep:
  assumes rep: "fish_rep G m (xs @ q # ys)"
  defines "m' \<equiv> unlinked G xs q m" and "base \<equiv> load32 m (at_vmem G)"
  shows "fish_rep G m' (xs @ ys)" "map (blink_at m') (xs @ ys) = map (blink_at m) (xs @ ys)" "load32 m' (at_vmem G) = base"
    "screen_at m' base = screen_at m base"
proof -
  note R = rep [unfolded fish_rep_def base_def [symmetric]]
  then have lay: "fish_layout G base" by simp
  have sl: "set xs \<subseteq> slots G" "q \<in> slots G" "q \<notin> set xs" "distinct (xs @ q # ys)" "set (xs @ ys) \<subseteq> slots G - {q}" using R by auto
  note e = unlinked_entry [OF lay sl(1-3), of _ m, folded m'_def]
  have other: "r \<in> slots G" "r \<noteq> q" if "r \<in> set (xs @ ys)" for r using that sl(5) by auto
  have "chain m' (if xs = [] then load32 m (q + 12) else load32 m (at_list_head G)) (xs @ ys)"
    by (rule chain_unlink [where q = q]) (use R e(3) other in \<open>simp_all\<close>)
  then have c: "chain m' (load32 m' (at_list_head G)) (xs @ ys)" using unlinked_head [OF lay sl(1-3), of m] by (simp add: m'_def)
  have "last xs \<in> slots G" if "xs \<noteq> []" using that sl(1) by (auto simp: last_in_set)
  then have array: "region q 16 \<subseteq> region (at_blink_array G) 32000"
    "region (unlink_at G xs) 4 \<subseteq> region (at_list_head G) 4 \<union> region (at_blink_array G) 32000"
    using slot_region sl(2) unlink_at_region [of G xs] slot_region [of "last xs" G] by (auto split: if_splits)
  show v: "load32 m' (at_vmem G) = base"
    unfolding base_def m'_def
    by (rule load32_frame [of "region (unlink_at G xs) 4 \<union> region q 16"])
      (use unlinked_outside array lay in \<open>auto simp: fish_layout_def\<close>)
  show "screen_at m' base = screen_at m base"
    unfolding m'_def by (rule screen_cong, rule unlinked_outside) (use array lay in \<open>auto simp: fish_layout_def\<close>)
  have free: "load16 m' p = 0 \<longleftrightarrow> p \<notin> set (xs @ ys)" if "p \<in> slots G" for p
  proof (cases "p = q")
    case True
    then show ?thesis using sl(4) by (simp add: m'_def unlinked_def freed)
  next
    case False
    have "load16 m p = 0 \<longleftrightarrow> p \<notin> set (xs @ q # ys)" using R that by blast
    with False e(2) [OF that] show ?thesis by simp
  qed
  have small: "load16 m' p < 2000" if "p \<in> set (xs @ ys)" for p using e(2) [OF other [OF that]] R that by auto
  show "fish_rep G m' (xs @ ys)"
    unfolding fish_rep_def v using lay c sl(4,5) free small by auto
  show "map (blink_at m') (xs @ ys) = map (blink_at m) (xs @ ys)" by (intro map_cong refl e(1) other)
qed

lemma find_helper_rep:
  assumes "fish_rep G m ps"
  shows "mp1_find_helper G arg m = Some (case List.find (\<lambda>q. load16 m q = ucast arg) ps of Some q \<Rightarrow> q | None \<Rightarrow> 0)"
  using assms find_loop_chain by (simp add: mp1_find_helper_def fish_rep_def)

lemma find_split:
  assumes "List.find P ps = Some q" obtains xs ys where "ps = xs @ q # ys" "P q" "\<forall>x \<in> set xs. \<not> P x"
proof -
  obtain i where i: "i < length ps" "P (ps ! i)" "q = ps ! i" "\<forall>j < i. \<not> P (ps ! j)" using assms by (auto simp: find_Some_iff)
  then show thesis by (intro that [of "take i ps" "drop (Suc i) ps"]) (auto simp: id_take_nth_drop [symmetric] in_set_conv_nth)
qed

lemma remove_refines:
  assumes rep: "fish_rep G m ps"
  obtains r m' ps' where "mp1_ioctl_remove G arg m = Some (r, m')" "fish_rep G m' ps'"
    "(r, fish_view G m' ps') = remove_blink (ucast arg) (fish_view G m ps)"
proof (cases "List.find (\<lambda>q. load16 m q = ucast arg) ps")
  case None
  then have "(ucast arg :: u16) \<notin> location ` set (blinks (fish_view G m ps))" by (auto simp: find_None_iff fish_view_eq)
  then show thesis
    using that [of "-1" m ps] rep find_helper_rep [OF rep, of arg] None by (simp add: mp1_ioctl_remove_def remove_blink_def)
next
  case (Some q)
  obtain xs ys where ps: "ps = xs @ q # ys" and q: "load16 m q = ucast arg" and before: "\<forall>x \<in> set xs. load16 m x \<noteq> ucast arg"
    by (rule find_split [OF Some])
  note R = rep [unfolded ps fish_rep_def]
  note u = unlinked_rep [OF rep [unfolded ps]]
  have "q \<noteq> 0" using R layout_apart(6) [of G "load32 m (at_vmem G)" q 0] by simp
  moreover have "remove_find_prev m q (at_list_head G) = Some (unlink_at G xs)"
    using remove_find_prev_chain [of m "at_list_head G" xs q ys] R by (simp add: unlink_at_def)
  ultimately have "mp1_ioctl_remove G arg m = Some (0, unlinked G xs q m)"
    using find_helper_rep [OF rep, of arg] Some by (simp add: mp1_ioctl_remove_def unlinked_def)
  moreover have "drop_first (ucast arg) (map (blink_at m) xs @ blink_at m q # map (blink_at m) ys) = map (blink_at m) xs @ map (blink_at m) ys"
    by (rule drop_first_split) (use before q in auto)
  then have "(0, fish_view G (unlinked G xs q m) (xs @ ys)) = remove_blink (ucast arg) (fish_view G m ps)"
    using u(2) q by (simp add: fish_view_eq remove_blink_def ps u(3,4))
  ultimately show thesis using that u(1) by blast
qed

section \<open>Synchronising\<close>

text \<open>The conditional move of \<^verbatim>\<open>mp1_ioctl_sync\<close> is never made.\<close>

lemma sync_char_off: "sync_char edi m = m (edi + 3)"
  by (simp add: sync_char_def bit_simps)

lemma sync_first_split:
  "\<forall>b \<in> set xs. location b \<noteq> loc \<Longrightarrow> location b = loc \<Longrightarrow> sync_first a loc (xs @ b # ys) = xs @ copy_times a b # ys"
  by (induction xs) simp_all

lemma find_blink: "List.find (\<lambda>b. location b = loc) (map (blink_at m) ps) = map_option (blink_at m) (List.find (\<lambda>q. load16 m q = loc) ps)"
  by (induction ps) simp_all

lemma times_kept:
  assumes "p = q \<or> region p 16 \<inter> region q 16 = {}"
  shows "load16 (store16 m (q + 4) v) (p + 6) = load16 m (p + 6)" "load16 (store16 m (q + 4) v) (p + 8) = load16 m (p + 8)"
    "load16 (store16 m (q + 4) v) (p + 10) = load16 m (p + 10)" "load16 (store16 m (q + 6) v) (p + 8) = load16 m (p + 8)"
    "load16 (store16 m (q + 6) v) (p + 10) = load16 m (p + 10)" "load16 (store16 m (q + 8) v) (p + 10) = load16 m (p + 10)"
proof -
  have b: "blink_at (store16 m (q + 4) v) p = blink_at m p" "blink_at (store16 m (q + 6) v) p = blink_at m p"
    "blink_at (store16 m (q + 8) v) p = blink_at m p" if "p \<noteq> q"
    by (rule struct_cong(1), rule store16_field; use assms that in blast)+
  have f: "off_length x = off_length y \<and> countdown x = countdown y \<and> status x = status y" if "x = y" for x y :: blink
    using that by simp
  show "load16 (store16 m (q + 4) v) (p + 6) = load16 m (p + 6)" "load16 (store16 m (q + 4) v) (p + 8) = load16 m (p + 8)"
    "load16 (store16 m (q + 4) v) (p + 10) = load16 m (p + 10)" "load16 (store16 m (q + 6) v) (p + 8) = load16 m (p + 8)"
    "load16 (store16 m (q + 6) v) (p + 10) = load16 m (p + 10)" "load16 (store16 m (q + 8) v) (p + 10) = load16 m (p + 10)"
    using f [OF b(1)] f [OF b(2)] f [OF b(3)] by (cases "p = q"; simp)+
qed

lemma sync_fields:
  fixes m :: memory and p q :: u32
  defines "m' \<equiv> (let m = store16 m (q + 4) (load16 m (p + 4)); m = store16 m (q + 6) (load16 m (p + 6));
     m = store16 m (q + 8) (load16 m (p + 8)) in store16 m (q + 10) (load16 m (p + 10)))"
  assumes "p = q \<or> region p 16 \<inter> region q 16 = {}"
  shows "blink_at m' q = copy_times (blink_at m p) (blink_at m q)" "load32 m' (q + 12) = load32 m (q + 12)" "\<And>a. a \<notin> region q 16 \<Longrightarrow> m' a = m a"
proof -
  note f = times_kept [OF assms(2)]
  show "blink_at m' q = copy_times (blink_at m p) (blink_at m q)" by (simp add: m'_def Let_def blink_store f copy_times_def)
  show "load32 m' (q + 12) = load32 m (q + 12)" by (simp add: m'_def Let_def next_store)
  show "m' a = m a" if "a \<notin> region q 16" for a using that by (simp add: m'_def Let_def store16_field)
qed

text \<open>What a synchronisation leaves in memory: entry \<open>q\<close> has the times of \<open>p\<close> and shows its second character.\<close>

definition entry_synced :: "fish_globals \<Rightarrow> u32 \<Rightarrow> u32 \<Rightarrow> memory \<Rightarrow> memory \<Rightarrow> bool" where
  "entry_synced G p q m m' \<longleftrightarrow>
     blink_at m' q = copy_times (blink_at m p) (blink_at m q) \<and> load32 m' (q + 12) = load32 m (q + 12) \<and>
     screen_at m' (load32 m (at_vmem G)) = show_at (load16 m q) (m (q + 3)) (screen_at m (load32 m (at_vmem G))) \<and>
     (\<forall>a. a \<notin> region q 16 \<union> {cell (load32 m (at_vmem G)) (load16 m q)} \<longrightarrow> m' a = m a)"

lemma sync_effect:
  assumes lay: "fish_layout G (load32 m (at_vmem G))" and pq: "p \<in> slots G" "q \<in> slots G" "load16 m q < 2000"
    and f: "mp1_find_helper G (drop_bit 16 arg) m = Some p" "mp1_find_helper G (arg AND 0xFFFF) m = Some q"
  obtains m' where "mp1_ioctl_sync G arg m = Some (0, m')" "entry_synced G p q m m'"
proof -
  define base where "base = load32 m (at_vmem G)"
  note L = lay [folded base_def]
  note ap = layout_apart [OF L pq(2,3)]
  define m1 where "m1 = (let m = store16 m (q + 4) (load16 m (p + 4)); m = store16 m (q + 6) (load16 m (p + 6));
     m = store16 m (q + 8) (load16 m (p + 8)) in store16 m (q + 10) (load16 m (p + 10)))"
  have e: "blink_at m1 q = copy_times (blink_at m p) (blink_at m q)" "load32 m1 (q + 12) = load32 m (q + 12)"
    "\<And>a. a \<notin> region q 16 \<Longrightarrow> m1 a = m a"
    unfolding m1_def by (rule sync_fields; use slot_apart [OF pq(1,2)] in blast)+
  define m2 where "m2 = m1(cell base (load16 m q) := m (q + 3))"
  have l1: "load16 m1 q = load16 m q" "m1 (q + 3) = m (q + 3)"
    using arg_cong [OF e(1), of location] arg_cong [OF e(1), of off_char] by (simp_all add: copy_times_def)
  have vmem1: "load32 m1 (at_vmem G) = base" unfolding base_def
    by (rule load32_frame [of "region q 16"]) (use e(3) ap(3) in auto)
  have "mp1_ioctl_sync G arg m = Some (0, m2)"
    using f layout_apart(6) [OF L pq(1,3)] ap(6) l1 vmem1
    by (simp add: mp1_ioctl_sync_def Let_def m1_def mp1_poke_def sync_char_off screen_offset_cell m2_def)
  moreover have "screen_at m1 base = screen_at m base" using ap(4) by (intro screen_cong e(3)) blast
  then have "screen_at m2 base = show_at (load16 m q) (m (q + 3)) (screen_at m base)" unfolding m2_def by (simp only: screen_poke [OF pq(3)])
  then have "entry_synced G p q m m2"
    unfolding entry_synced_def base_def [symmetric] using e blink_poke [OF ap(1)] by (simp add: m2_def)
  ultimately show thesis by (rule that)
qed

lemma entry_synced_rep:
  assumes rep: "fish_rep G m ps" and q: "q \<in> slots G" "load16 m q < 2000" and sync: "entry_synced G p q m m'"
  shows "fish_rep G m' ps" "load32 m' (at_vmem G) = load32 m (at_vmem G)" "\<And>r. r \<in> slots G \<Longrightarrow> r \<noteq> q \<Longrightarrow> blink_at m' r = blink_at m r"
proof -
  define base where "base = load32 m (at_vmem G)"
  note R = rep [unfolded fish_rep_def, folded base_def] and S = sync [unfolded entry_synced_def, folded base_def]
  then have lay: "fish_layout G base" by simp
  have out: "m' a = m a" if "a \<notin> region q 16" "a \<noteq> cell base (load16 m q)" for a using that S by blast
  have other: "blink_at m' r = blink_at m r" "load32 m' (r + 12) = load32 m (r + 12)" "load16 m' r = load16 m r"
    if "r \<in> slots G" "r \<noteq> q" for r
    by (rule struct_cong; rule out; use slot_apart [OF that(1) q(1) that(2)] layout_apart(1) [OF lay that(1) q(2)] in blast)+
  have "location (blink_at m' q) = location (blink_at m q)" using S by (simp add: copy_times_def)
  then have "load16 m' q = load16 m q" by simp
  then have all: "load16 m' r = load16 m r \<and> load32 m' (r + 12) = load32 m (r + 12)" if "r \<in> slots G" for r
    using other [OF that] S by (cases "r = q") simp_all
  have h: "load32 m' (at_list_head G) = load32 m (at_list_head G)" and v: "load32 m' (at_vmem G) = load32 m (at_vmem G)"
    by (rule load32_frame [of "region q 16 \<union> {cell base (load16 m q)}"]; use out layout_apart [OF lay q] in auto)+
  have ps: "set ps \<subseteq> slots G" using R by blast
  then have "chain m' x ps = chain m x ps" for x using all by (intro chain_cong) blast
  then show "fish_rep G m' ps" unfolding fish_rep_def h v base_def [symmetric] using R all ps by (metis subsetD)
  show "load32 m' (at_vmem G) = load32 m (at_vmem G)" by (rule v)
  show "\<And>r. r \<in> slots G \<Longrightarrow> r \<noteq> q \<Longrightarrow> blink_at m' r = blink_at m r" by (rule other(1))
qed

lemma sync_refines:
  assumes rep: "fish_rep G m ps"
  obtains r m' where "mp1_ioctl_sync G arg m = Some (r, m')" "fish_rep G m' ps"
    "(r, fish_view G m' ps) = sync_blink (ucast (drop_bit 16 arg)) (ucast (arg AND 0xFFFF)) (fish_view G m ps)"
proof -
  define loc1 loc2 where "loc1 = (ucast (drop_bit 16 arg) :: u16)" and "loc2 = (ucast (arg AND 0xFFFF) :: u16)"
  note R = rep [unfolded fish_rep_def]
  then have lay: "fish_layout G (load32 m (at_vmem G))" by simp
  let ?f = "\<lambda>loc. List.find (\<lambda>q. load16 m q = loc) ps"
  note h = find_helper_rep [OF rep]
  have nz: "p \<noteq> 0" if "p \<in> set ps" for p using that R layout_apart(6) [OF lay, of p 0] by auto
  have in_ps: "?f loc = Some p \<Longrightarrow> p \<in> set ps" for loc p by (auto simp: find_Some_iff)
  show thesis
  proof (cases "?f loc1 = None \<or> ?f loc2 = None")
    case True
    then have "mp1_ioctl_sync G arg m = Some (-1, m)"
      using h nz in_ps by (auto simp: mp1_ioctl_sync_def loc1_def loc2_def split: option.splits)
    moreover have "sync_blink loc1 loc2 (fish_view G m ps) = (-1, fish_view G m ps)"
      using True by (auto simp: sync_blink_def fish_view_eq find_blink split: option.splits)
    ultimately show thesis using that rep by (simp add: loc1_def loc2_def)
  next
    case False
    then obtain p q where f: "?f loc1 = Some p" "?f loc2 = Some q" by auto
    obtain xs ys where ps: "ps = xs @ q # ys" and q2: "load16 m q = loc2" and before: "\<forall>x \<in> set xs. load16 m x \<noteq> loc2"
      by (rule find_split [OF f(2)])
    have sl: "p \<in> slots G" "q \<in> slots G" "load16 m q < 2000" "distinct ps" "set ps \<subseteq> slots G" using R in_ps [OF f(1)] in_ps [OF f(2)] by blast+
    have "mp1_find_helper G (drop_bit 16 arg) m = Some p" "mp1_find_helper G (arg AND 0xFFFF) m = Some q"
      using h f by (simp_all add: loc1_def loc2_def)
    then obtain m' where run: "mp1_ioctl_sync G arg m = Some (0, m')" and m': "entry_synced G p q m m'"
      by (rule sync_effect [OF lay sl(1,2,3)])
    note r = entry_synced_rep [OF rep sl(2,3) m']
    have "map (blink_at m') xs = map (blink_at m) xs" "map (blink_at m') ys = map (blink_at m) ys"
      using sl(4,5) by (auto simp: ps intro!: r(3))
    then have "map (blink_at m') ps = sync_first (blink_at m p) loc2 (map (blink_at m) ps)"
      using sync_first_split [of "map (blink_at m) xs" loc2 "blink_at m q" "blink_at m p" "map (blink_at m) ys"] before q2 m'
      by (simp add: ps entry_synced_def)
    then show thesis
      using that [OF run r(1)] f m' by (simp add: sync_blink_def fish_view_eq find_blink r(2) entry_synced_def q2 loc1_def [symmetric] loc2_def [symmetric])
  qed
qed

section \<open>An entry at location 0\<close>

lemma tasklet_self_loop:
  assumes lay: "fish_layout G base" and q: "q \<in> slots G"
  shows "load32 m (at_vmem G) = base \<Longrightarrow> load16 m q < 2000 \<Longrightarrow> load32 m (q + 12) = q \<Longrightarrow> tasklet_loop G q m = None"
proof (rule ccontr)
  define P where "P = (\<lambda>G' p m (r :: memory). G' = G \<longrightarrow> p = q \<longrightarrow> load32 m (at_vmem G) = base \<longrightarrow> load16 m q < 2000 \<longrightarrow> load32 m (q + 12) \<noteq> q)"
  have all: "tasklet_loop G' p m = Some r \<Longrightarrow> P G' p m r" for G' p m r
  proof (erule tasklet_loop.raw_induct [where P = P, rotated])
    fix f G' p m r
    assume IH: "\<And>G' p m r. f G' p m = Some r \<Longrightarrow> P G' p m r"
      and eq: "(if p = 0 then Some m else let m = tasklet_node G' p m in f G' (load32 m (p + 12)) m) = Some r"
    show "P G' p m r"
      unfolding P_def
    proof (intro impI notI)
      assume g: "G' = G" "p = q" and v: "load32 m (at_vmem G) = base" and l: "load16 m q < 2000" and n: "load32 m (q + 12) = q"
      note e = tasklet_node_effect [OF lay v q l] and ap = layout_apart [OF lay q l]
      let ?m = "tasklet_node G q m"
      have "f G (load32 ?m (q + 12)) ?m = Some r" using eq ap(6) by (simp only: g Let_def if_False)
      then have "f G q ?m = Some r" by (simp only: e(2) n)
      then have "P G q ?m r" by (rule IH)
      moreover have "load16 ?m q = load16 m q" using arg_cong [OF e(1), of location] by simp
      moreover have "load32 ?m (at_vmem G) = base"
        unfolding v [symmetric]
        by (rule load32_frame [of "region q 16 \<union> {cell base (load16 m q)}"]) (use e(4) ap(3,8) in auto)
      moreover have "load32 ?m (q + 12) = q" using e(2) n by (rule trans)
      moreover have "load16 ?m q < 2000" unfolding calculation(2) by (rule l)
      ultimately show False unfolding P_def by blast
    qed
  qed
  assume a: "load32 m (at_vmem G) = base" "load16 m q < 2000" "load32 m (q + 12) = q" "tasklet_loop G q m \<noteq> None"
  then obtain r where "tasklet_loop G q m = Some r" by blast
  from all [OF this] have "P G q m r" .
  then show False unfolding P_def using a(1-3) by blast
qed

lemma malloc_first: "load16 m (slot G 0) = 0 \<Longrightarrow> mp1_malloc G m = slot G 0"
proof -
  assume free: "load16 m (slot G 0) = 0"
  have first: "[0..<80 * 25] = 0 # [Suc 0..<80 * 25]" by (rule upt_conv_Cons) simp
  show ?thesis unfolding mp1_malloc_def first by (simp only: List.find.simps free option.case if_True simp_thms)
qed

text \<open>When the first slot counts as free, it is the one that \<^verbatim>\<open>mp1_ioctl_add\<close> fills.\<close>

lemma add_first:
  assumes lay: "fish_layout G (load32 m (at_vmem G))" and arg: "region arg 16 \<inter> region (at_temp G) 16 = {}"
    and loc: "load16 m arg < 2000" and free: "load16 m (slot G 0) = 0"
  obtains m' where "mp1_ioctl_add G arg m = (0, m')" "load16 m' (slot G 0) = load16 m arg"
    "load32 m' (slot G 0 + 12) = load32 m (at_list_head G)" "load32 m' (at_list_head G) = slot G 0" "load32 m' (at_vmem G) = load32 m (at_vmem G)"
    "\<And>a. a \<notin> region (at_temp G) 16 \<union> region (slot G 0) 16 \<union> region (at_list_head G) 4 \<union> region (load32 m (at_vmem G)) 4000 \<Longrightarrow> m' a = m a"
proof -
  have q: "slot G 0 \<in> slots G" by (simp add: slots_def)
  obtain m3 where m3: "\<And>a. a \<notin> region (at_temp G) 16 \<Longrightarrow> m3 a = m a"
    "\<And>q. mp1_malloc G m3 = q \<Longrightarrow> q \<in> slots G \<Longrightarrow> \<exists>m'. mp1_ioctl_add G arg m = (0, m') \<and> entry_added G arg q m m'"
    by (rule add_effect [OF lay arg loc]) blast
  have "load16 m3 (slot G 0) = load16 m (slot G 0)"
    by (intro struct_cong(3) m3(1)) (use layout_apart(5) [OF lay q loc] in blast)
  from m3(2) [OF malloc_first [OF this [unfolded free]] q]
  obtain m' where m': "mp1_ioctl_add G arg m = (0, m')" "entry_added G arg (slot G 0) m m'" by blast
  then have "location (blink_at m' (slot G 0)) = location (blink_at m arg)" by (simp add: entry_added_def)
  then have "load16 m' (slot G 0) = load16 m arg" by simp
  with m' show thesis by (intro that [of m']) (simp_all add: entry_added_def)
qed

text \<open>A layout as the linker gives one, with an empty list and the locations of two entries.\<close>

definition demo :: fish_globals where
  "demo = \<lparr>at_blink_array = 0x8049000, at_list_head = 0x8051000, at_vmem = 0x8051010, at_temp = 0x83FF000\<rparr>"

definition demo_memory :: "u8 \<Rightarrow> memory" where
  "demo_memory loc = (store32 (\<lambda>_. 0) 0x8051010 0x8C00000)(0x83FE000 := loc, 0x83FE100 := 5)"

lemma demo_facts:
  "fish_layout demo 0x8C00000" "load32 (demo_memory l) (at_vmem demo) = 0x8C00000" "load32 (demo_memory l) (at_list_head demo) = 0"
  "load16 (demo_memory l) 0x83FE000 = ucast l" "load16 (demo_memory l) 0x83FE100 = 5"
  "region 0x83FE000 16 \<inter> region (at_temp demo) 16 = {}" "region 0x83FE100 16 \<inter> region (at_temp demo) 16 = {}"
proof -
  have "region 0x8049000 32000 \<inter> region 0x8051000 4 = {}" "region 0x8049000 32000 \<inter> region 0x8051010 4 = {}"
    "region 0x8049000 32000 \<inter> region 0x8C00000 4000 = {}" "region 0x8049000 32000 \<inter> region 0x83FF000 16 = {}"
    "region 0x8051000 4 \<inter> region 0x8051010 4 = {}" "region 0x8051000 4 \<inter> region 0x8C00000 4000 = {}"
    "region 0x8051000 4 \<inter> region 0x83FF000 16 = {}" "region 0x8051010 4 \<inter> region 0x8C00000 4000 = {}"
    "region 0x8051010 4 \<inter> region 0x83FF000 16 = {}" "region 0x8C00000 4000 \<inter> region 0x83FF000 16 = {}"
    by (rule region_disjointI; simp)+
  moreover have "0 \<notin> region 0x8049000 32000" by (simp add: region_iff)
  ultimately show "fish_layout demo 0x8C00000" by (simp add: fish_layout_def demo_def Int_Un_distrib)
  show "region 0x83FE000 16 \<inter> region (at_temp demo) 16 = {}" "region 0x83FE100 16 \<inter> region (at_temp demo) 16 = {}"
    unfolding demo_def fish_globals.simps by (rule region_disjointI; simp)+
  show "load32 (demo_memory l) (at_vmem demo) = 0x8C00000" "load32 (demo_memory l) (at_list_head demo) = 0"
    "load16 (demo_memory l) 0x83FE000 = ucast l" "load16 (demo_memory l) 0x83FE100 = 5"
    by (simp_all add: demo_memory_def demo_def load32_def load16_def store32_def)
qed

lemma demo_rep: "fish_rep demo (demo_memory l) []"
proof -
  have "load16 (demo_memory l) p = 0" if "p \<in> slots demo" for p
  proof -
    have r: "region p 16 \<subseteq> region 0x8049000 32000" using slot_region [OF that] by (simp add: demo_def)
    have "demo_memory l a = 0" if "a \<in> region p 16" for a
    proof -
      have "unat (a - 0x8049000) < 32000" using r that region_iff [of 32000 a "0x8049000"] by auto
      then have "a \<noteq> 0x8051010" "a \<noteq> 0x8051011" "a \<noteq> 0x8051012" "a \<noteq> 0x8051013" "a \<noteq> 0x83FE000" "a \<noteq> 0x83FE100" by auto
      then show ?thesis by (simp add: demo_memory_def store32_def)
    qed
    then show ?thesis by (simp add: load16_def)
  qed
  then show ?thesis using demo_facts(1-3) by (simp add: fish_rep_def)
qed

section \<open>Properties\<close>

text \<open>
  C30: Adding, removing and synchronising blinking characters: on memory that holds the list, \<^verbatim>\<open>mp1_ioctl\<close> with
  \<^verbatim>\<open>RTC_ADD\<close> and a nonzero location, with \<^verbatim>\<open>RTC_REMOVE\<close> and with \<^verbatim>\<open>RTC_SYNC\<close> returns, gives the answer of the abstract
  list, and leaves memory that holds the abstract result, the screen included.  After \<^verbatim>\<open>RTC_SYNC\<close> the screen shows the
  second character of the entry, whatever its state.
\<close>

theorem mp1_ioctl_refines:
  assumes "fish_rep G m ps" "region arg 16 \<inter> region (at_temp G) 16 = {}" "load16 m arg \<noteq> 0"
  shows "(\<exists>r m' ps'. mp1_ioctl G arg 0 m = Some (r, m') \<and> fish_rep G m' ps' \<and>
         (r, fish_view G m' ps') = add_blink (blink_at m arg) (fish_view G m ps)) \<and>
    (\<exists>r m' ps'. mp1_ioctl G loc 1 m = Some (r, m') \<and> fish_rep G m' ps' \<and>
         (r, fish_view G m' ps') = remove_blink (ucast loc) (fish_view G m ps)) \<and>
    (\<exists>r m' ps'. mp1_ioctl G locs 3 m = Some (r, m') \<and> fish_rep G m' ps' \<and>
         (r, fish_view G m' ps') = sync_blink (ucast (drop_bit 16 locs)) (ucast (locs AND 0xFFFF)) (fish_view G m ps))"
proof (intro conjI)
  show "\<exists>r m' ps'. mp1_ioctl G arg 0 m = Some (r, m') \<and> fish_rep G m' ps' \<and>
      (r, fish_view G m' ps') = add_blink (blink_at m arg) (fish_view G m ps)"
    by (rule add_refines [OF assms]) (simp add: mp1_ioctl_def, blast)
  show "\<exists>r m' ps'. mp1_ioctl G loc 1 m = Some (r, m') \<and> fish_rep G m' ps' \<and>
      (r, fish_view G m' ps') = remove_blink (ucast loc) (fish_view G m ps)"
    by (rule remove_refines [OF assms(1), of loc]) (simp add: mp1_ioctl_def, blast)
  show "\<exists>r m' ps'. mp1_ioctl G locs 3 m = Some (r, m') \<and> fish_rep G m' ps' \<and>
      (r, fish_view G m' ps') = sync_blink (ucast (drop_bit 16 locs)) (ucast (locs AND 0xFFFF)) (fish_view G m ps)"
    by (rule sync_refines [OF assms(1), of locs]) (simp add: mp1_ioctl_def, blast)
qed

theorem mp1_ioctl_refines_witness:
  "\<exists>r m' ps'. mp1_ioctl demo 0x83FE100 0 (demo_memory 0) = Some (r, m') \<and> fish_rep demo m' ps' \<and>
     (r, fish_view demo m' ps') = add_blink (blink_at (demo_memory 0) 0x83FE100) (fish_view demo (demo_memory 0) [])"
  using mp1_ioctl_refines [OF demo_rep demo_facts(7)] demo_facts(5) by simp

text \<open>
  C31: \<^verbatim>\<open>mp1_rtc_tasklet\<close> ends on memory that holds the list, and does what a tick does to the abstract state: it
  counts every entry down, and at the end of its time shows its other character and starts the other time.
\<close>

theorem mp1_rtc_tasklet_refines:
  assumes "fish_rep G m ps"
  shows "\<exists>m'. mp1_rtc_tasklet G m = Some m' \<and> fish_rep G m' ps \<and> fish_view G m' ps = tick (fish_view G m ps)"
  by (rule tasklet_refines_view [OF assms]) blast

theorem mp1_rtc_tasklet_refines_witness:
  "\<exists>m p m'. mp1_ioctl demo 0x83FE100 0 (demo_memory 0) = Some (0, m) \<and> fish_rep demo m [p] \<and>
     mp1_rtc_tasklet demo m = Some m' \<and> fish_rep demo m' [p] \<and> fish_view demo m' [p] = tick (fish_view demo m [p])"
proof -
  have five: "load16 (demo_memory 0) 0x83FE100 \<noteq> 0" using demo_facts(5) by simp
  obtain r m ps where m: "mp1_ioctl_add demo 0x83FE100 (demo_memory 0) = (r, m)" "fish_rep demo m ps"
    "(r, fish_view demo m ps) = add_blink (blink_at (demo_memory 0) 0x83FE100) (fish_view demo (demo_memory 0) [])"
    by (rule add_refines [OF demo_rep demo_facts(7) five])
  from m(3) have r: "r = 0" "blinks (fish_view demo m ps) = [(blink_at (demo_memory 0) 0x83FE100)\<lparr>status := 1, countdown := on_length (blink_at (demo_memory 0) 0x83FE100)\<rparr>]"
    by (simp_all add: add_blink_def fish_view_eq demo_facts(5))
  from arg_cong [OF r(2), of length] obtain p where "ps = [p]" by (auto simp: fish_view_eq length_Suc_conv)
  with mp1_rtc_tasklet_refines [OF m(2)] m(1,2) r(1) show ?thesis by (auto simp: mp1_ioctl_def)
qed

text \<open>
  C32: Location 0, which \<^verbatim>\<open>mp1_ioctl_add\<close> accepts, marks a slot as free for \<^verbatim>\<open>mp1_malloc\<close>: when an entry at location 0 is
  added to the empty list and then any other, both calls succeed, the second takes the slot of the first, the list
  becomes a cycle, and \<^verbatim>\<open>mp1_rtc_tasklet\<close> never returns.
\<close>

theorem location_zero_hangs:
  assumes rep: "fish_rep G m []" and args: "region arg 16 \<inter> region (at_temp G) 16 = {}" "region arg' 16 \<inter> region (at_temp G) 16 = {}"
    and apart: "region arg' 16 \<inter> (region (slot G 0) 16 \<union> region (at_list_head G) 4 \<union> region (load32 m (at_vmem G)) 4000) = {}"
    and loc: "load16 m arg = 0" "load16 m arg' < 2000"
  shows "\<exists>m1 m2. mp1_ioctl G arg 0 m = Some (0, m1) \<and> mp1_ioctl G arg' 0 m1 = Some (0, m2) \<and> mp1_rtc_tasklet G m2 = None"
proof -
  have q: "slot G 0 \<in> slots G" by (simp add: slots_def)
  have lay: "fish_layout G (load32 m (at_vmem G))" and free: "load16 m (slot G 0) = 0" using rep q by (simp_all add: fish_rep_def)
  obtain m1 where m1: "mp1_ioctl_add G arg m = (0, m1)" "load16 m1 (slot G 0) = 0" "load32 m1 (at_list_head G) = slot G 0"
    "load32 m1 (at_vmem G) = load32 m (at_vmem G)"
    "\<And>a. a \<notin> region (at_temp G) 16 \<union> region (slot G 0) 16 \<union> region (at_list_head G) 4 \<union> region (load32 m (at_vmem G)) 4000 \<Longrightarrow> m1 a = m a"
    by (rule add_first [OF lay args(1) _ free]) (use loc(1) in auto)
  have "load16 m1 arg' = load16 m arg'" by (intro struct_cong(3) m1(5)) (use args(2) apart in blast)
  then have l1: "load16 m1 arg' < 2000" using loc(2) by simp
  obtain m2 where m2: "mp1_ioctl_add G arg' m1 = (0, m2)" "load16 m2 (slot G 0) = load16 m1 arg'"
    "load32 m2 (slot G 0 + 12) = load32 m1 (at_list_head G)" "load32 m2 (at_list_head G) = slot G 0" "load32 m2 (at_vmem G) = load32 m1 (at_vmem G)"
    by (rule add_first [of G m1 arg']) (use lay m1(2,4) args(2) l1 in auto)
  have "tasklet_loop G (slot G 0) m2 = None"
    by (rule tasklet_self_loop [OF lay q]) (simp_all add: m2 m1 l1)
  then show ?thesis using m1(1) m2(1) by (simp add: mp1_ioctl_def mp1_rtc_tasklet_def m2(4))
qed

theorem location_zero_hangs_witness:
  "\<exists>m1 m2. mp1_ioctl demo 0x83FE000 0 (demo_memory 0) = Some (0, m1) \<and> mp1_ioctl demo 0x83FE100 0 m1 = Some (0, m2) \<and>
     mp1_rtc_tasklet demo m2 = None"
proof -
  have "region 0x83FE100 16 \<inter> region 0x8049000 16 = {}" "region 0x83FE100 16 \<inter> region 0x8051000 4 = {}" "region 0x83FE100 16 \<inter> region 0x8C00000 4000 = {}"
    by (rule region_disjointI; simp)+
  then have "region 0x83FE100 16 \<inter> (region (slot demo 0) 16 \<union> region (at_list_head demo) 4 \<union> region (load32 (demo_memory 0) (at_vmem demo)) 4000) = {}"
    unfolding demo_facts(2) by (simp add: slot_def demo_def Int_Un_distrib)
  from location_zero_hangs [OF demo_rep demo_facts(6,7) this] show ?thesis using demo_facts(4,5) [of 0] by simp
qed

end
