(* ===== verification/Fish.thy ===== *)
theory Fish
  imports Blink User_Programs
begin

text \<open>
  The fish demo, \<^verbatim>\<open>fish.c\<close>: two text files are the frames of an animation, each place where one of them shows
  something becomes a blinking character, and the real time clock drives the blinking.  The helpers of \<^verbatim>\<open>fish.c\<close>
  and the list of \<^verbatim>\<open>blink.S\<close> are in theory \<open>Blink\<close>.
\<close>

section \<open>fish.c\<close>

text \<open>The variables of the program: its globals and the locals of \<^verbatim>\<open>main\<close> and \<^verbatim>\<open>add_frames\<close>.\<close>

record fish_vars = fish_globals +
  at_file0 :: u32
  at_file1 :: u32
  at_rtc_name :: u32
  at_c0 :: u32
  at_c1 :: u32
  at_frame_struct :: u32
  at_main_struct :: u32
  at_ret_val :: u32
  at_garbage :: u32

abbreviation globals :: "fish_vars \<Rightarrow> fish_globals" where
  "globals L \<equiv> fish_globals.truncate L"

definition set16 :: "'s calls \<Rightarrow> u32 \<Rightarrow> u16 \<Rightarrow> 's \<Rightarrow> 's" where
  "set16 U a v st = u_set_mem U (store16 (u_mem U st) a v) st"

definition call_ioctl :: "'s calls \<Rightarrow> fish_globals \<Rightarrow> u32 \<Rightarrow> u32 \<Rightarrow> 's \<Rightarrow> 's option" where
  "call_ioctl U G arg cmd st = map_option (\<lambda>(r, m). u_set_mem U m st) (mp1_ioctl G arg cmd (u_mem U st))"

definition mp1_set_video_mode :: "'s calls \<Rightarrow> fish_globals \<Rightarrow> 's \<Rightarrow> (u32 \<times> 's) option" where
  "mp1_set_video_mode U G st =
     do {
       (r, st) \<leftarrow> u_vidmap U (at_vmem G) st;
       if r = -1 then Some (0, st) else Some (load32 (u_mem U st) (at_vmem G), st)
     }"

text \<open>The next character of a frame, kept in the variable at \<open>a\<close>, and the end-of-file mark; a finished line stays at
  the newline.\<close>

definition next_char :: "'s calls \<Rightarrow> i32 \<Rightarrow> u32 \<Rightarrow> i32 \<Rightarrow> 's \<Rightarrow> (i32 \<times> 's) option" where
  "next_char U fd a eof st =
     (if u_mem U st a \<noteq> 10
      then do {
        (num_bytes, st) \<leftarrow> u_read U fd a 1 st;
        if num_bytes = 0 then Some (1, poke U a 10 st) else Some (eof, st)
      }
      else Some (eof, st))"

definition draw_cell :: "'s calls \<Rightarrow> fish_vars \<Rightarrow> i32 \<Rightarrow> i32 \<Rightarrow> 's \<Rightarrow> 's option" where
  "draw_cell U L y x st =
     (let c0 = u_mem U st (at_c0 L); c1 = u_mem U st (at_c1 L); b = at_frame_struct L
      in if c0 \<noteq> 32 \<and> c0 \<noteq> 10 \<or> c1 \<noteq> 32 \<and> c1 \<noteq> 10
         then
           let st = poke U (b + 2) (if c0 = 10 then 32 else c0) st; st = poke U (b + 3) (if c1 = 10 then 32 else c1) st;
               st = set16 U b (ucast (y * 80 + x + 40)) st
           in call_ioctl U (globals L) b 0 st
         else Some st)"

partial_function (option) frame_row ::
  "'s calls \<Rightarrow> fish_vars \<Rightarrow> i32 \<Rightarrow> i32 \<Rightarrow> i32 \<Rightarrow> i32 \<Rightarrow> i32 \<Rightarrow> i32 \<Rightarrow> 's \<Rightarrow> (i32 \<times> i32 \<times> 's) option" where
  "frame_row U L fd0 fd1 y x eof0 eof1 st =
     do {
       (eof0, st) \<leftarrow> next_char U fd0 (at_c0 L) eof0 st;
       (eof1, st) \<leftarrow> next_char U fd1 (at_c1 L) eof1 st;
       if u_mem U st (at_c0 L) = 10 \<and> u_mem U st (at_c1 L) = 10 then Some (eof0, eof1, st)
       else do {
         st \<leftarrow> draw_cell U L y x st;
         frame_row U L fd0 fd1 y (x + 1) eof0 eof1 st
       }
     }"

definition end_row :: "'s calls \<Rightarrow> i32 \<Rightarrow> u32 \<Rightarrow> i32 \<Rightarrow> 's \<Rightarrow> 's option" where
  "end_row U fd a eof st =
     (if eof \<noteq> 0 then map_option snd (u_close U fd (poke U a 10 st)) else Some (poke U a 48 st))"

partial_function (option) frame_rows ::
  "'s calls \<Rightarrow> fish_vars \<Rightarrow> i32 \<Rightarrow> i32 \<Rightarrow> i32 \<Rightarrow> i32 \<Rightarrow> i32 \<Rightarrow> 's \<Rightarrow> 's option" where
  "frame_rows U L fd0 fd1 y eof0 eof1 st =
     (if eof0 = 0 \<or> eof1 = 0
      then do {
        (eof0, eof1, st) \<leftarrow> frame_row U L fd0 fd1 y 0 eof0 eof1 st;
        st \<leftarrow> end_row U fd0 (at_c0 L) eof0 st;
        st \<leftarrow> end_row U fd1 (at_c1 L) eof1 st;
        frame_rows U L fd0 fd1 (y + 1) eof0 eof1 st
      }
      else Some st)"

text \<open>\<open>Inl r\<close>: the program has called \<^verbatim>\<open>ece391_halt(r)\<close>, which does not return.\<close>

definition add_frames :: "'s calls \<Rightarrow> fish_vars \<Rightarrow> u32 \<Rightarrow> u32 \<Rightarrow> 's \<Rightarrow> (i32 + 's) option" where
  "add_frames U L f0 f1 st =
     (let b = at_frame_struct L;
          st = poke U (at_c1 L) 48 (poke U (at_c0 L) 48 st); st = set16 U (b + 6) 15 (set16 U (b + 4) 15 st)
      in do {
        (fd0, st) \<leftarrow> u_open U f0 st;
        if fd0 <s 0 then Some (Inl (-1))
        else do {
          (fd1, st) \<leftarrow> u_open U f1 st;
          if fd1 <s 0 then Some (Inl (-1)) else map_option Inr (frame_rows U L fd0 fd1 0 0 0 st)
        }
      })"

text \<open>The waiting loops: a tick of the clock, then the tasklet.\<close>

fun fish_ticks :: "nat \<Rightarrow> 's calls \<Rightarrow> fish_vars \<Rightarrow> i32 \<Rightarrow> 's \<Rightarrow> 's option" where
  "fish_ticks 0 U L rtc_fd st = Some st"
| "fish_ticks (Suc n) U L rtc_fd st =
     do {
       (r, st) \<leftarrow> u_read U rtc_fd (at_garbage L) 4 st;
       m \<leftarrow> mp1_rtc_tasklet (globals L) (u_mem U st);
       fish_ticks n U L rtc_fd (u_set_mem U m st)
     }"

text \<open>The last call removes location 200, the value of the loop counter, and not location 60.\<close>

definition fish_show :: "'s calls \<Rightarrow> fish_vars \<Rightarrow> i32 \<Rightarrow> 's \<Rightarrow> (i32 \<times> 's) option" where
  "fish_show U L rtc_fd st =
     (let b = at_main_struct L
      in do {
        (r, st) \<leftarrow> u_write U rtc_fd (at_ret_val L) 4 (u_set_mem U (store32 (u_mem U st) (at_ret_val L) 32) st);
        let st = u_set_mem U (store32 (u_mem U st) (at_ret_val L) r) st;
        st \<leftarrow> fish_ticks 200 U L rtc_fd st;
        let st = set16 U (b + 6) 6 (set16 U (b + 4) 7 (poke U (b + 3) 77 (poke U (b + 2) 73 st)));
        st \<leftarrow> call_ioctl U (globals L) b 0 (set16 U b (6 * 80 + 60) st);
        st \<leftarrow> fish_ticks 200 U L rtc_fd st;
        st \<leftarrow> call_ioctl U (globals L) (push_bit 16 40 OR (6 * 80 + 60)) 3 st;
        st \<leftarrow> fish_ticks 200 U L rtc_fd st;
        st \<leftarrow> call_ioctl U (globals L) 200 1 (set16 U b 60 st);
        st \<leftarrow> fish_ticks (80 * 25) U L rtc_fd st;
        (r, st) \<leftarrow> u_close U rtc_fd st;
        Some (0, st)
      })"

definition fish_main :: "'s calls \<Rightarrow> fish_vars \<Rightarrow> 's \<Rightarrow> (i32 + i32 \<times> 's) option" where
  "fish_main U L st =
     do {
       let st = u_set_mem U (ece391_memset (u_mem U st) (at_blink_array L) 0 (16 * 80 * 25)) st;
       (base, st) \<leftarrow> mp1_set_video_mode U (globals L) st;
       if base = 0 then Some (Inr (-1, st))
       else do {
         (rtc_fd, st) \<leftarrow> u_open U (at_rtc_name L) (with_literal U (at_rtc_name L) ''rtc'' st);
         r \<leftarrow> add_frames U L (at_file0 L) (at_file1 L) st;
         case r of Inl halted \<Rightarrow> Some (Inl halted) | Inr st \<Rightarrow> map_option Inr (fish_show U L rtc_fd st)
       }
     }"

end
