(* ===== verification/Frames.thy ===== *)
theory Frames
  imports Fish Program_Runs
begin

text \<open>
  What the fish demo shows: its \<^verbatim>\<open>add_frames\<close> reads two text files side by side and adds a blinking character for
  every place where one of them shows something.  The frames are described on the lines of the two files; the
  files are read through a contract of the calls, the locale \<open>frame_files\<close>, which this kernel meets.
\<close>

section \<open>The frames\<close>

definition frame_blink :: "nat \<Rightarrow> nat \<Rightarrow> u8 \<Rightarrow> u8 \<Rightarrow> blink list" where
  "frame_blink y x c d =
     (if c \<noteq> 32 \<or> d \<noteq> 32
      then [\<lparr>location = of_nat (y * 80 + x + 40), on_char = c, off_char = d, on_length = 15, off_length = 15, countdown = 0, status = 0\<rparr>]
      else [])"

text \<open>A line that has ended is continued with spaces.\<close>

fun row_blinks :: "nat \<Rightarrow> nat \<Rightarrow> u8 list \<Rightarrow> u8 list \<Rightarrow> blink list" where
  "row_blinks y x [] [] = []"
| "row_blinks y x (c # l0) [] = frame_blink y x c 32 @ row_blinks y (Suc x) l0 []"
| "row_blinks y x [] (d # l1) = frame_blink y x 32 d @ row_blinks y (Suc x) [] l1"
| "row_blinks y x (c # l0) (d # l1) = frame_blink y x c d @ row_blinks y (Suc x) l0 l1"

fun frame_blinks :: "nat \<Rightarrow> u8 list list \<Rightarrow> u8 list list \<Rightarrow> blink list" where
  "frame_blinks y [] [] = []"
| "frame_blinks y (l # ls) [] = row_blinks y 0 l [] @ frame_blinks (Suc y) ls []"
| "frame_blinks y [] (l' # ls') = row_blinks y 0 [] l' @ frame_blinks (Suc y) [] ls'"
| "frame_blinks y (l # ls) (l' # ls') = row_blinks y 0 l l' @ frame_blinks (Suc y) ls ls'"

definition add_blinks :: "blink list \<Rightarrow> fish_view \<Rightarrow> fish_view" where
  "add_blinks bs v = fold (\<lambda>b v. snd (add_blink b v)) bs v"

lemma add_blinks_simps [simp]:
  "add_blinks [] v = v" "add_blinks (b # bs) v = add_blinks bs (snd (add_blink b v))"
  "add_blinks (bs @ bs') v = add_blinks bs' (add_blinks bs v)"
  by (simp_all add: add_blinks_def)

text \<open>\<^verbatim>\<open>mp1_ioctl_add\<close> sets the state and the counter itself.\<close>

lemma add_blink_started: "add_blink (b\<lparr>countdown := n, status := k\<rparr>) v = add_blink b v"
  by (simp add: add_blink_def)

lemma ucast16_of_nat: "ucast (of_nat n :: i32) = (of_nat n :: u16)"
  by (rule bit_word_eqI) (simp add: bit_simps bit_of_nat_iff unsigned_of_nat)

section \<open>Memory of the demo while it draws\<close>

definition frame_vars :: "fish_vars \<Rightarrow> u32 set" where
  "frame_vars L = {at_c0 L, at_c1 L} \<union> region (at_frame_struct L) 16"

definition frame_layout :: "u32 set \<Rightarrow> fish_vars \<Rightarrow> u32 \<Rightarrow> bool" where
  "frame_layout own L base \<longleftrightarrow>
     at_c0 L \<noteq> at_c1 L \<and> {at_c0 L, at_c1 L} \<inter> region (at_frame_struct L) 16 = {} \<and>
     frame_vars L \<inter> (fish_data (globals L) base \<union> region (at_vmem L) 4) = {} \<and> frame_vars L \<union> fish_data (globals L) base \<subseteq> own"

text \<open>The list and the screen show \<open>v\<close>; the times of the structure are set.\<close>

definition shows_view :: "fish_vars \<Rightarrow> u32 \<Rightarrow> memory \<Rightarrow> fish_view \<Rightarrow> bool" where
  "shows_view L base m v \<longleftrightarrow>
     (\<exists>ps. fish_rep (globals L) m ps \<and> fish_view (globals L) m ps = v) \<and> load32 m (at_vmem L) = base \<and>
     load16 m (at_frame_struct L + 4) = 15 \<and> load16 m (at_frame_struct L + 6) = 15"

lemma globals_fields [simp]:
  "at_blink_array (globals L) = at_blink_array L" "at_list_head (globals L) = at_list_head L"
  "at_vmem (globals L) = at_vmem L" "at_temp (globals L) = at_temp L"
  by (simp_all add: fish_globals.truncate_def)

lemma rep_view_cong:
  assumes rep: "fish_rep G m ps" "load32 m (at_vmem G) = base"
    and same: "\<And>a. a \<in> fish_data G base \<union> region (at_vmem G) 4 \<Longrightarrow> m' a = m a"
  shows "fish_rep G m' ps" "fish_view G m' ps = fish_view G m ps" "load32 m' (at_vmem G) = base"
proof -
  have eq: "m' a = m a" if "a \<in> region (at_blink_array G) 32000 \<union> region (at_list_head G) 4 \<union> region (at_vmem G) 4" for a
    using that by (intro same) (auto simp: fish_data_def)
  note r = rep_cong [OF rep(1) eq]
  have "screen_at m' base = screen_at m base" by (intro screen_cong same) (simp add: fish_data_def)
  with rep r show "fish_rep G m' ps" "fish_view G m' ps = fish_view G m ps" "load32 m' (at_vmem G) = base"
    by (simp_all add: fish_view_eq)
qed

lemma shows_view_cong:
  assumes v: "shows_view L base m v"
    and same: "\<And>a. a \<in> fish_data (globals L) base \<union> region (at_vmem L) 4 \<union> region (at_frame_struct L + 4) 4 \<Longrightarrow> m' a = m a"
  shows "shows_view L base m' v"
proof -
  obtain ps where ps: "fish_rep (globals L) m ps" "fish_view (globals L) m ps = v" "load32 m (at_vmem (globals L)) = base"
    using v by (auto simp: shows_view_def)
  note r = rep_view_cong [OF ps(1,3), of m']
  have b: "at_frame_struct L + 4 + of_nat i \<in> region (at_frame_struct L + 4) 4" if "i < 4" for i using that by (rule in_regionI)
  have "load16 m' (at_frame_struct L + 4) = load16 m (at_frame_struct L + 4)" "load16 m' (at_frame_struct L + 6) = load16 m (at_frame_struct L + 6)"
    by (rule load16_cong; rule same; use b [of 0] b [of 1] b [of 2] b [of 3] in \<open>simp add: add.assoc\<close>)+
  with v r same ps(2) show ?thesis by (auto simp: shows_view_def)
qed

text \<open>The first assignments of \<^verbatim>\<open>add_frames\<close>.\<close>

definition frame_start :: "fish_vars \<Rightarrow> memory \<Rightarrow> memory" where
  "frame_start L m =
     store16 (store16 (m(at_c0 L := 48, at_c1 L := 48)) (at_frame_struct L + 4) 15) (at_frame_struct L + 6) 15"

lemma frame_start_outside: "a \<notin> frame_vars L \<Longrightarrow> frame_start L m a = m a"
  by (simp add: frame_start_def frame_vars_def store16_field)

lemma frame_start_shows:
  assumes lay: "frame_layout own L base" and rep: "fish_rep (globals L) m ps" "load32 m (at_vmem L) = base"
  shows "shows_view L base (frame_start L m) (fish_view (globals L) m ps)"
    "frame_start L m (at_c0 L) = 48" "frame_start L m (at_c1 L) = 48"
proof -
  have "frame_start L m a = m a" if "a \<in> fish_data (globals L) base \<union> region (at_vmem (globals L)) 4" for a
    using that lay unfolding frame_layout_def globals_fields by (intro frame_start_outside) blast
  note r = rep_view_cong [OF rep(1) _ this, of base, simplified, OF rep(2)]
  have "load16 (frame_start L m) (at_frame_struct L + 4) = 15" "load16 (frame_start L m) (at_frame_struct L + 6) = 15"
    by (simp_all add: frame_start_def)
  with r show "shows_view L base (frame_start L m) (fish_view (globals L) m ps)" unfolding shows_view_def by blast
  show "frame_start L m (at_c0 L) = 48" "frame_start L m (at_c1 L) = 48"
    using lay by (simp_all add: frame_start_def store16_field frame_layout_def)
qed

lemma struct_times: "region (p + 4) 4 \<subseteq> region p (16 :: nat)"
  using region_shift_subset [of 4 4 16 p] by simp

lemma shows_view_char:
  assumes "frame_layout own L base" "shows_view L base m v" "a \<in> {at_c0 L, at_c1 L}"
  shows "shows_view L base (m(a := c)) v"
proof (rule shows_view_cong [OF assms(2)])
  fix p assume "p \<in> fish_data (globals L) base \<union> region (at_vmem L) 4 \<union> region (at_frame_struct L + 4) 4"
  then have "p \<noteq> a"
    using assms(1,3) struct_times [of "at_frame_struct L"] unfolding frame_layout_def frame_vars_def by blast
  then show "(m(a := c)) p = m p" by simp
qed

text \<open>Drawing one place.\<close>

lemma cell_drawn:
  fixes c d :: u8 and loc :: u16
  assumes lay: "frame_layout own L base" and v: "shows_view L base m v" and loc: "loc \<noteq> 0"
  defines "m1 \<equiv> store16 (m(at_frame_struct L + 2 := c, at_frame_struct L + 3 := d)) (at_frame_struct L) loc"
  obtains r m' where "mp1_ioctl (globals L) (at_frame_struct L) 0 m1 = Some (r, m')"
    "shows_view L base m' (snd (add_blink \<lparr>location = loc, on_char = c, off_char = d, on_length = 15, off_length = 15, countdown = 0, status = 0\<rparr> v))"
    "\<And>a. a \<notin> region (at_frame_struct L) 16 \<union> fish_data (globals L) base \<Longrightarrow> m' a = m a"
proof -
  let ?b = "at_frame_struct L" and ?G = "globals L"
  have apart: "region ?b 16 \<inter> (fish_data ?G base \<union> region (at_vmem L) 4) = {}" using lay by (auto simp: frame_layout_def frame_vars_def)
  have out1: "m1 a = m a" if "a \<notin> {?b, ?b + 1, ?b + 2, ?b + 3}" for a using that by (simp add: m1_def store16_def)
  have times: "?b + of_nat i \<notin> region (?b + 4) 4" if "i < 4" for i
  proof -
    have "unat (?b + of_nat i - (?b + 4)) = 2 ^ 32 - (4 - i)" using unat_of_nat_diff [of 4 i] that by simp
    then show ?thesis using that by (simp add: region_iff)
  qed
  have v1: "shows_view L base m1 v"
  proof (rule shows_view_cong [OF v out1])
    fix a assume a: "a \<in> fish_data ?G base \<union> region (at_vmem L) 4 \<union> region (?b + 4) 4"
    have "{?b, ?b + 1, ?b + 2, ?b + 3} \<subseteq> region ?b 16" by simp
    moreover have "{?b, ?b + 1, ?b + 2, ?b + 3} \<inter> region (?b + 4) 4 = {}"
      using times [of 0] times [of 1] times [of 2] times [of 3] by simp
    ultimately show "a \<notin> {?b, ?b + 1, ?b + 2, ?b + 3}" using a apart by blast
  qed
  then obtain ps where ps: "fish_rep ?G m1 ps" "fish_view ?G m1 ps = v" "load32 m1 (at_vmem L) = base" by (auto simp: shows_view_def)
  then have base1: "load32 m1 (at_vmem ?G) = base" by simp
  define e where "e = \<lparr>location = loc, on_char = c, off_char = d, on_length = 15, off_length = 15, countdown = 0, status = 0\<rparr>"
  have blink: "blink_at m1 ?b = e\<lparr>countdown := load16 m1 (?b + 8), status := load16 m1 (?b + 10)\<rparr>"
  proof -
    have "load16 m1 ?b = loc" by (simp add: m1_def)
    moreover have "m1 (?b + 2) = c" "m1 (?b + 3) = d" by (simp_all add: m1_def store16_def)
    ultimately show ?thesis using v1 by (simp add: blink_at_def e_def shows_view_def)
  qed
  have "region ?b 16 \<inter> region (at_temp ?G) 16 = {}" using apart by (auto simp: fish_data_def)
  moreover have "load16 m1 ?b \<noteq> 0" using loc by (simp add: m1_def)
  ultimately obtain r m' ps' where m': "mp1_ioctl_add ?G ?b m1 = (r, m')" "fish_rep ?G m' ps'"
    "(r, fish_view ?G m' ps') = add_blink (blink_at m1 ?b) v" "\<And>a. a \<notin> fish_data ?G base \<Longrightarrow> m' a = m1 a"
    by (rule add_refines [OF ps(1), unfolded ps(2) base1]) blast
  from m'(3) have "fish_view ?G m' ps' = snd (add_blink e v)" unfolding blink add_blink_started by (metis snd_conv)
  moreover have "load32 m' (at_vmem L) = base" unfolding ps(3) [symmetric]
    by (rule load32_frame [of "fish_data ?G base", OF m'(4)])
      (use ps(1) in \<open>auto simp: fish_rep_def fish_layout_def fish_data_def ps(3)\<close>)
  moreover have "blink_at m' ?b = blink_at m1 ?b" by (intro struct_cong(1) m'(4)) (use apart in blast)
  from arg_cong [OF this, of on_length] arg_cong [OF this, of off_length] v1
  have "load16 m' (?b + 4) = 15" "load16 m' (?b + 6) = 15" by (simp_all add: shows_view_def)
  ultimately have sv: "shows_view L base m' (snd (add_blink e v))" using m'(2) by (auto simp: shows_view_def)
  have out: "m' a = m a" if "a \<notin> region ?b 16 \<union> fish_data ?G base" for a
  proof -
    have "{?b, ?b + 1, ?b + 2, ?b + 3} \<subseteq> region ?b 16" by simp
    with that have "a \<notin> {?b, ?b + 1, ?b + 2, ?b + 3}" by blast
    then show ?thesis using that m'(4) [of a] out1 [of a] by simp
  qed
  show thesis by (rule that [OF _ sv [unfolded e_def] out]) (simp add: mp1_ioctl_def m'(1))
qed

section \<open>Reading the frames\<close>

text \<open>
  What \<open>add_frames\<close> needs of the calls: \<open>rest fd\<close> is what is left to read of an open file, a read of one byte takes
  its first byte into the buffer and changes nothing else, or answers 0 at the end, and closing one file leaves the other.
\<close>

locale frame_files =
  fixes U :: "'s calls" and inv :: "'s \<Rightarrow> bool" and own :: "u32 set" and fds :: "i32 set" and rest :: "i32 \<Rightarrow> 's \<Rightarrow> u8 list option"
  assumes mem_set: "u_mem U (u_set_mem U m s) = m"
    and set_set: "u_set_mem U m (u_set_mem U m' s) = u_set_mem U m s"
    and set_inv: "inv s \<Longrightarrow> (\<And>p. p \<notin> own \<Longrightarrow> m p = u_mem U s p) \<Longrightarrow> inv (u_set_mem U m s)"
    and set_rest: "inv s \<Longrightarrow> (\<And>p. p \<notin> own \<Longrightarrow> m p = u_mem U s p) \<Longrightarrow> fd \<in> fds \<Longrightarrow> rest fd (u_set_mem U m s) = rest fd s"
    and read_next: "inv s \<Longrightarrow> fd \<in> fds \<Longrightarrow> a \<in> own \<Longrightarrow> rest fd s = Some (c # cs) \<Longrightarrow>
      \<exists>t. u_read U fd a 1 s = Some (1, t) \<and> inv t \<and> u_mem U t = (u_mem U s)(a := c) \<and> rest fd t = Some cs \<and>
        (\<forall>fd' \<in> fds - {fd}. rest fd' t = rest fd' s)"
    and read_end: "inv s \<Longrightarrow> fd \<in> fds \<Longrightarrow> a \<in> own \<Longrightarrow> rest fd s = Some [] \<Longrightarrow> u_read U fd a 1 s = Some (0, s)"
    and close_one: "inv s \<Longrightarrow> fd \<in> fds \<Longrightarrow>
      \<exists>r t. u_close U fd s = Some (r, t) \<and> inv t \<and> u_mem U t = u_mem U s \<and> (\<forall>fd' \<in> fds - {fd}. rest fd' t = rest fd' s)"
begin

lemma poke_inv:
  assumes "inv s" "a \<in> own"
  shows "inv (poke U a c s)" "fd \<in> fds \<Longrightarrow> rest fd (poke U a c s) = rest fd s" "u_mem U (poke U a c s) = (u_mem U s)(a := c)"
  using assms by (auto simp: poke_def mem_set intro!: set_inv set_rest)

text \<open>
  Within a row, the character \<open>c\<close> of a file is a newline once its line has ended; \<open>l\<close> is what is left of the line and
  \<open>ls\<close> are the lines after it.
\<close>

definition in_line :: "u8 \<Rightarrow> u8 list option \<Rightarrow> i32 \<Rightarrow> u8 list \<Rightarrow> u8 list list \<Rightarrow> bool" where
  "in_line c r eof l ls \<longleftrightarrow>
     (if c = 10 then l = [] \<and> (eof = 0 \<and> (\<exists>cs. r = Some cs \<and> lines_of cs = ls) \<or> eof = 1 \<and> ls = [])
      else eof = 0 \<and> (\<exists>cs. r = Some cs \<and> lines_of cs = l # ls))"

lemma next_char_line:
  assumes inv: "inv s" and fd: "fd \<in> fds" and a: "a \<in> own" and line: "in_line (u_mem U s a) (rest fd s) eof l ls"
  defines "c \<equiv> (case l of [] \<Rightarrow> 10 | x # _ \<Rightarrow> x)"
  obtains eof' t where "next_char U fd a eof s = Some (eof', t)" "inv t" "u_mem U t = (u_mem U s)(a := c)"
    "in_line c (rest fd t) eof' (tl l) ls" "\<forall>fd' \<in> fds - {fd}. rest fd' t = rest fd' s"
proof (cases "u_mem U s a = 10")
  case True
  then have "l = []" using line by (simp add: in_line_def)
  moreover from this have "(u_mem U s)(a := c) = u_mem U s" using True by (auto simp: c_def)
  ultimately show thesis
    using that [of eof s] True line inv by (simp add: next_char_def c_def)
next
  case False
  then obtain cs where cs: "eof = 0" "rest fd s = Some cs" "lines_of cs = l # ls" using line by (auto simp: in_line_def)
  show thesis
  proof (cases cs)
    case Nil
    then have "l = []" "ls = []" using cs(3) by simp_all
    moreover have "next_char U fd a eof s = Some (1, poke U a 10 s)"
      using False read_end [OF inv fd a] cs(2) Nil by (simp add: next_char_def)
    ultimately show thesis
      using that [of 1 "poke U a 10 s"] poke_inv [OF inv a] fd by (simp add: c_def in_line_def)
  next
    case (Cons x xs)
    obtain t where t: "u_read U fd a 1 s = Some (1, t)" "inv t" "u_mem U t = (u_mem U s)(a := x)" "rest fd t = Some xs"
      "\<forall>fd' \<in> fds - {fd}. rest fd' t = rest fd' s"
      using read_next [OF inv fd a] cs(2) Cons by blast
    have line': "c = x \<and> in_line x (rest fd t) eof (tl l) ls"
    proof (cases "x = 10")
      case True
      then show ?thesis using cs Cons t(4) by (auto simp: c_def in_line_def)
    next
      case False
      then have "l = x # hd (lines_of xs)" "ls = tl (lines_of xs)" using cs(3) Cons by simp_all
      then show ?thesis using False cs(1) t(4) by (simp add: c_def in_line_def)
    qed
    have "next_char U fd a eof s = Some (eof, t)" using False t(1) by (simp add: next_char_def)
    then show thesis using that [of eof t] t line' by simp
  qed
qed

lemma draw_cell_draws:
  assumes inv: "inv s" and lay: "frame_layout own L base" and v: "shows_view L base (u_mem U s) v"
    and cd: "c = (if u_mem U s (at_c0 L) = 10 then 32 else u_mem U s (at_c0 L))"
      "d = (if u_mem U s (at_c1 L) = 10 then 32 else u_mem U s (at_c1 L))"
    and loc: "\<forall>b \<in> set (frame_blink y x c d). location b \<noteq> 0"
  obtains t where "draw_cell U L (of_nat y) (of_nat x) s = Some t" "inv t" "\<forall>fd \<in> fds. rest fd t = rest fd s"
    "shows_view L base (u_mem U t) (add_blinks (frame_blink y x c d) v)"
    "u_mem U t (at_c0 L) = u_mem U s (at_c0 L)" "u_mem U t (at_c1 L) = u_mem U s (at_c1 L)"
proof (cases "c \<noteq> 32 \<or> d \<noteq> 32")
  case False
  then have "draw_cell U L (of_nat y) (of_nat x) s = Some s" using cd by (auto simp: draw_cell_def Let_def split: if_splits)
  then show thesis using that [of s] inv v False by (simp add: frame_blink_def)
next
  case True
  define loc where "loc = (of_nat (y * 80 + x + 40) :: u16)"
  let ?b = "at_frame_struct L"
  define m1 where "m1 = store16 ((u_mem U s)(?b + 2 := c, ?b + 3 := d)) ?b loc"
  have st: "set16 U ?b loc (poke U (?b + 3) d (poke U (?b + 2) c s)) = u_set_mem U m1 s"
    by (simp add: set16_def poke_def mem_set set_set m1_def)
  have "(of_nat y * 80 + of_nat x + 40 :: i32) = of_nat (y * 80 + x + 40)" by simp
  then have l: "ucast (of_nat y * 80 + of_nat x + 40 :: i32) = loc" by (simp only: loc_def ucast16_of_nat)
  have "loc \<noteq> 0" using assms(6) True by (simp add: frame_blink_def loc_def)
  then obtain r m' where m': "mp1_ioctl (globals L) ?b 0 m1 = Some (r, m')"
    "shows_view L base m' (snd (add_blink \<lparr>location = loc, on_char = c, off_char = d, on_length = 15, off_length = 15, countdown = 0, status = 0\<rparr> v))"
    "\<And>a. a \<notin> region ?b 16 \<union> fish_data (globals L) base \<Longrightarrow> m' a = u_mem U s a"
    unfolding m1_def by (rule cell_drawn [OF lay v]) blast
  have "u_mem U s (at_c0 L) \<noteq> 32 \<and> u_mem U s (at_c0 L) \<noteq> 10 \<or> u_mem U s (at_c1 L) \<noteq> 32 \<and> u_mem U s (at_c1 L) \<noteq> 10"
    using True cd by (auto split: if_splits)
  then have "draw_cell U L (of_nat y) (of_nat x) s = call_ioctl U (globals L) ?b 0 (u_set_mem U m1 s)"
    unfolding draw_cell_def Let_def cd [symmetric] l st by (rule if_P)
  then have run: "draw_cell U L (of_nat y) (of_nat x) s = Some (u_set_mem U m' s)"
    by (simp add: call_ioctl_def mem_set m'(1) set_set)
  have own: "region ?b 16 \<union> fish_data (globals L) base \<subseteq> own" and apart: "{at_c0 L, at_c1 L} \<inter> (region ?b 16 \<union> fish_data (globals L) base) = {}"
    using lay by (auto simp: frame_layout_def frame_vars_def)
  have keep: "m' a = u_mem U s a" if "a \<notin> own" for a using that own by (intro m'(3)) blast
  show thesis
  proof (rule that [OF run])
    show "inv (u_set_mem U m' s)" "\<forall>fd \<in> fds. rest fd (u_set_mem U m' s) = rest fd s"
      using set_inv [OF inv keep] set_rest [OF inv keep] by blast+
    show "shows_view L base (u_mem U (u_set_mem U m' s)) (add_blinks (frame_blink y x c d) v)"
      using m'(2) True by (simp add: mem_set frame_blink_def loc_def)
    show "u_mem U (u_set_mem U m' s) (at_c0 L) = u_mem U s (at_c0 L)" "u_mem U (u_set_mem U m' s) (at_c1 L) = u_mem U s (at_c1 L)"
      unfolding mem_set using apart by (auto intro!: m'(3))
  qed
qed

lemma in_line_no_newline: "in_line c r eof l ls \<Longrightarrow> 10 \<notin> set l"
  by (auto simp: in_line_def split: if_splits dest: lines_of_no_newline_hd)

lemma frame_row_draws:
  assumes fds: "fd0 \<in> fds" "fd1 \<in> fds" "fd0 \<noteq> fd1" and lay: "frame_layout own L base"
  shows "inv s \<Longrightarrow> shows_view L base (u_mem U s) v \<Longrightarrow> in_line (u_mem U s (at_c0 L)) (rest fd0 s) eof0 l0 ls0 \<Longrightarrow>
    in_line (u_mem U s (at_c1 L)) (rest fd1 s) eof1 l1 ls1 \<Longrightarrow> \<forall>b \<in> set (row_blinks y x l0 l1). location b \<noteq> 0 \<Longrightarrow>
    \<exists>eof0' eof1' t. frame_row U L fd0 fd1 (of_nat y) (of_nat x) eof0 eof1 s = Some (eof0', eof1', t) \<and> inv t \<and>
      shows_view L base (u_mem U t) (add_blinks (row_blinks y x l0 l1) v) \<and>
      in_line 10 (rest fd0 t) eof0' [] ls0 \<and> in_line 10 (rest fd1 t) eof1' [] ls1"
proof (induction "length l0 + length l1" arbitrary: s v x l0 l1 eof0 eof1 rule: less_induct)
  case less
  let ?c = "case l0 of [] \<Rightarrow> 10 | x # _ \<Rightarrow> x" and ?d = "case l1 of [] \<Rightarrow> 10 | x # _ \<Rightarrow> x"
  have own: "at_c0 L \<in> own" "at_c1 L \<in> own" and ne: "at_c0 L \<noteq> at_c1 L" using lay by (simp_all add: frame_layout_def frame_vars_def)
  note nl = in_line_no_newline [OF less.prems(3)] in_line_no_newline [OF less.prems(4)]
  obtain e0 s1 where s1: "next_char U fd0 (at_c0 L) eof0 s = Some (e0, s1)" "inv s1" "u_mem U s1 = (u_mem U s)(at_c0 L := ?c)"
    "in_line ?c (rest fd0 s1) e0 (tl l0) ls0" "\<forall>fd' \<in> fds - {fd0}. rest fd' s1 = rest fd' s"
    by (rule next_char_line [OF less.prems(1) fds(1) own(1) less.prems(3)])
  have "in_line (u_mem U s1 (at_c1 L)) (rest fd1 s1) eof1 l1 ls1" using less.prems(4) s1(3,5) ne fds by simp
  then obtain e1 s2 where s2: "next_char U fd1 (at_c1 L) eof1 s1 = Some (e1, s2)" "inv s2" "u_mem U s2 = (u_mem U s1)(at_c1 L := ?d)"
    "in_line ?d (rest fd1 s2) e1 (tl l1) ls1" "\<forall>fd' \<in> fds - {fd1}. rest fd' s2 = rest fd' s1"
    by (rule next_char_line [OF s1(2) fds(2) own(2)])
  have at: "u_mem U s2 (at_c0 L) = ?c" "u_mem U s2 (at_c1 L) = ?d" using s1(3) s2(3) ne by simp_all
  have l0: "in_line ?c (rest fd0 s2) e0 (tl l0) ls0" using s1(4) s2(5) fds by simp
  have v2: "shows_view L base (u_mem U s2) v"
    unfolding s2(3) s1(3) by (intro shows_view_char [OF lay] less.prems(2)) simp_all
  show ?case
  proof (cases "l0 = [] \<and> l1 = []")
    case True
    then show ?thesis
      using s1(1) s2 at l0 v2 by (subst frame_row.simps) simp
  next
    case False
    define c d where "c = (if ?c = 10 then 32 else ?c)" and "d = (if ?d = 10 then 32 else ?d)"
    have more: "\<not> (?c = 10 \<and> ?d = 10)" using nl False by (auto split: list.splits)
    have row: "row_blinks y x l0 l1 = frame_blink y x c d @ row_blinks y (Suc x) (tl l0) (tl l1)"
      using nl False by (cases l0; cases l1) (auto simp: c_def d_def)
    obtain s3 where s3: "draw_cell U L (of_nat y) (of_nat x) s2 = Some s3" "inv s3" "\<forall>fd \<in> fds. rest fd s3 = rest fd s2"
      "shows_view L base (u_mem U s3) (add_blinks (frame_blink y x c d) v)"
      "u_mem U s3 (at_c0 L) = u_mem U s2 (at_c0 L)" "u_mem U s3 (at_c1 L) = u_mem U s2 (at_c1 L)"
      by (rule draw_cell_draws [OF s2(2) lay v2, unfolded at, OF c_def d_def]) (use less.prems(5) row at in auto)
    have "length (tl l0) + length (tl l1) < length l0 + length l1" using False by (cases l0; cases l1) auto
    from less.hyps [OF this s3(2,4), of e0 e1 "Suc x"]
    obtain e0' e1' t where t: "frame_row U L fd0 fd1 (of_nat y) (of_nat (Suc x)) e0 e1 s3 = Some (e0', e1', t)" "inv t"
      "shows_view L base (u_mem U t) (add_blinks (row_blinks y (Suc x) (tl l0) (tl l1)) (add_blinks (frame_blink y x c d) v))"
      "in_line 10 (rest fd0 t) e0' [] ls0" "in_line 10 (rest fd1 t) e1' [] ls1"
      using l0 s2(4) s3(3,5,6) at fds less.prems(5) row by auto
    have "frame_row U L fd0 fd1 (of_nat y) (of_nat x) eof0 eof1 s = frame_row U L fd0 fd1 (of_nat y) (of_nat x + 1) e0 e1 s3"
      using s1(1) s2(1) at more s3(1) by (subst frame_row.simps) auto
    then show ?thesis using t row by (auto simp: add.commute)
  qed
qed

text \<open>Between two rows \<open>ls\<close> are the lines still to come; a file at its end stays at the newline.\<close>

definition at_row :: "u8 \<Rightarrow> u8 list option \<Rightarrow> i32 \<Rightarrow> u8 list list \<Rightarrow> bool" where
  "at_row c r eof ls \<longleftrightarrow>
     (if eof = 0 then c = 48 \<and> (\<exists>cs. r = Some cs \<and> lines_of cs = ls) else eof = 1 \<and> c = 10 \<and> ls = [])"

lemma at_row_line: "at_row c r eof ls \<Longrightarrow> in_line c r eof (case ls of [] \<Rightarrow> [] | l # _ \<Rightarrow> l) (tl ls)"
  by (auto simp: at_row_def in_line_def split: if_splits list.splits)

lemma end_row_starts:
  assumes inv: "inv s" and fd: "fd \<in> fds" and a: "a \<in> own" and line: "in_line 10 (rest fd s) eof [] ls"
  obtains t c where "end_row U fd a eof s = Some t" "inv t" "u_mem U t = (u_mem U s)(a := c)" "at_row c (rest fd t) eof ls"
    "\<forall>fd' \<in> fds - {fd}. rest fd' t = rest fd' s"
proof (cases "eof = 0")
  case True
  then show thesis
    using that [of "poke U a 48 s" 48] line poke_inv [OF inv a] fd by (auto simp: end_row_def in_line_def at_row_def)
next
  case False
  obtain r t where t: "u_close U fd (poke U a 10 s) = Some (r, t)" "inv t" "u_mem U t = u_mem U (poke U a 10 s)"
    "\<forall>fd' \<in> fds - {fd}. rest fd' t = rest fd' (poke U a 10 s)"
    using close_one [OF poke_inv(1) [OF inv a] fd] by blast
  then show thesis
    using that [of t 10] line False poke_inv [OF inv a] by (auto simp: end_row_def in_line_def at_row_def)
qed

lemma frame_rows_draw:
  assumes fds: "fd0 \<in> fds" "fd1 \<in> fds" "fd0 \<noteq> fd1" and lay: "frame_layout own L base"
  shows "inv s \<Longrightarrow> shows_view L base (u_mem U s) v \<Longrightarrow> at_row (u_mem U s (at_c0 L)) (rest fd0 s) eof0 ls0 \<Longrightarrow>
    at_row (u_mem U s (at_c1 L)) (rest fd1 s) eof1 ls1 \<Longrightarrow> \<forall>b \<in> set (frame_blinks y ls0 ls1). location b \<noteq> 0 \<Longrightarrow>
    \<exists>t. frame_rows U L fd0 fd1 (of_nat y) eof0 eof1 s = Some t \<and> inv t \<and>
      shows_view L base (u_mem U t) (add_blinks (frame_blinks y ls0 ls1) v)"
proof (induction "length ls0 + length ls1" arbitrary: s v y ls0 ls1 eof0 eof1 rule: less_induct)
  case less
  let ?l0 = "case ls0 of [] \<Rightarrow> [] | l # _ \<Rightarrow> l" and ?l1 = "case ls1 of [] \<Rightarrow> [] | l # _ \<Rightarrow> l"
  have own: "at_c0 L \<in> own" "at_c1 L \<in> own" and ne: "at_c0 L \<noteq> at_c1 L" using lay by (simp_all add: frame_layout_def frame_vars_def)
  show ?case
  proof (cases "ls0 = [] \<and> ls1 = []")
    case True
    then have "eof0 \<noteq> 0" "eof1 \<noteq> 0" using less.prems(3,4) by (auto simp: at_row_def split: if_splits)
    with True less.prems(1,2) show ?thesis by (subst frame_rows.simps) simp
  next
    case False
    then have go: "eof0 = 0 \<or> eof1 = 0" using less.prems(3,4) by (auto simp: at_row_def split: if_splits)
    have rows: "frame_blinks y ls0 ls1 = row_blinks y 0 ?l0 ?l1 @ frame_blinks (Suc y) (tl ls0) (tl ls1)"
      using False by (cases ls0; cases ls1) auto
    have "\<forall>b \<in> set (row_blinks y 0 ?l0 ?l1). location b \<noteq> 0" using less.prems(5) rows by simp
    from frame_row_draws [OF fds lay less.prems(1,2) at_row_line [OF less.prems(3)] at_row_line [OF less.prems(4)] this]
    obtain e0 e1 s1 where s1: "frame_row U L fd0 fd1 (of_nat y) 0 eof0 eof1 s = Some (e0, e1, s1)" "inv s1"
      "shows_view L base (u_mem U s1) (add_blinks (row_blinks y 0 ?l0 ?l1) v)"
      "in_line 10 (rest fd0 s1) e0 [] (tl ls0)" "in_line 10 (rest fd1 s1) e1 [] (tl ls1)" by auto
    obtain s2 c where s2: "end_row U fd0 (at_c0 L) e0 s1 = Some s2" "inv s2" "u_mem U s2 = (u_mem U s1)(at_c0 L := c)"
      "at_row c (rest fd0 s2) e0 (tl ls0)" "\<forall>fd' \<in> fds - {fd0}. rest fd' s2 = rest fd' s1"
      by (rule end_row_starts [OF s1(2) fds(1) own(1) s1(4)])
    have "in_line 10 (rest fd1 s2) e1 [] (tl ls1)" using s1(5) s2(5) fds by simp
    then obtain s3 d where s3: "end_row U fd1 (at_c1 L) e1 s2 = Some s3" "inv s3" "u_mem U s3 = (u_mem U s2)(at_c1 L := d)"
      "at_row d (rest fd1 s3) e1 (tl ls1)" "\<forall>fd' \<in> fds - {fd1}. rest fd' s3 = rest fd' s2"
      by (rule end_row_starts [OF s2(2) fds(2) own(2)])
    have "shows_view L base (u_mem U s3) (add_blinks (row_blinks y 0 ?l0 ?l1) v)"
      unfolding s3(3) s2(3) by (intro shows_view_char [OF lay] s1(3)) simp_all
    moreover have "at_row (u_mem U s3 (at_c0 L)) (rest fd0 s3) e0 (tl ls0)" "at_row (u_mem U s3 (at_c1 L)) (rest fd1 s3) e1 (tl ls1)"
      using s2(3,4) s3(3,4,5) ne fds by simp_all
    moreover have "length (tl ls0) + length (tl ls1) < length ls0 + length ls1" using False by (cases ls0; cases ls1) auto
    moreover have "\<forall>b \<in> set (frame_blinks (Suc y) (tl ls0) (tl ls1)). location b \<noteq> 0" using less.prems(5) rows by simp
    ultimately obtain t where t: "frame_rows U L fd0 fd1 (of_nat (Suc y)) e0 e1 s3 = Some t" "inv t"
      "shows_view L base (u_mem U t) (add_blinks (frame_blinks (Suc y) (tl ls0) (tl ls1)) (add_blinks (row_blinks y 0 ?l0 ?l1) v))"
      using less.hyps s3(2) by meson
    have "frame_rows U L fd0 fd1 (of_nat y) eof0 eof1 s = frame_rows U L fd0 fd1 (of_nat y + 1) e0 e1 s3"
      using go s1(1) s2(1) s3(1) by (subst frame_rows.simps) simp
    then show ?thesis using t rows by (auto simp: add.commute)
  qed
qed

lemma add_frames_shows:
  assumes fds: "fd0 \<in> fds" "fd1 \<in> fds" "fd0 \<noteq> fd1" "\<not> fd0 <s 0" "\<not> fd1 <s 0" and lay: "frame_layout own L base"
  defines "b \<equiv> at_frame_struct L"
  assumes opened: "u_open U f0 (set16 U (b + 6) 15 (set16 U (b + 4) 15 (poke U (at_c1 L) 48 (poke U (at_c0 L) 48 s)))) = Some (fd0, s0)"
      "u_open U f1 s0 = Some (fd1, s1)"
    and inv: "inv s1" and rests: "rest fd0 s1 = Some fc0" "rest fd1 s1 = Some fc1"
    and mem: "shows_view L base (u_mem U s1) v" "u_mem U s1 (at_c0 L) = 48" "u_mem U s1 (at_c1 L) = 48"
    and loc: "\<forall>b \<in> set (frame_blinks 0 (lines_of fc0) (lines_of fc1)). location b \<noteq> 0"
  obtains t where "add_frames U L f0 f1 s = Some (Inr t)" "inv t"
    "shows_view L base (u_mem U t) (add_blinks (frame_blinks 0 (lines_of fc0) (lines_of fc1)) v)"
proof -
  have "at_row (u_mem U s1 (at_c0 L)) (rest fd0 s1) 0 (lines_of fc0)" "at_row (u_mem U s1 (at_c1 L)) (rest fd1 s1) 0 (lines_of fc1)"
    using rests mem by (simp_all add: at_row_def)
  from frame_rows_draw [OF fds(1-3) lay inv mem(1) this loc] obtain t where
    t: "frame_rows U L fd0 fd1 0 0 0 s1 = Some t" "inv t"
      "shows_view L base (u_mem U t) (add_blinks (frame_blinks 0 (lines_of fc0) (lines_of fc1)) v)" by auto
  have "add_frames U L f0 f1 s = Some (Inr t)"
    using opened fds(4,5) t(1) by (simp add: add_frames_def Let_def b_def)
  then show thesis using that t by blast
qed

end

section \<open>Two files of the kernel\<close>

text \<open>The descriptors \<open>fds\<close> of the running process are files to read byte by byte, or closed again.\<close>

definition frames_open :: "u32 set \<Rightarrow> i32 set \<Rightarrow> 'a kernel_scheme \<Rightarrow> bool" where
  "frames_open own fds s \<longleftrightarrow>
     own \<noteq> {} \<and> own \<inter> image_region (mem s) (bootmebb s) = {} \<and> unat (current_process_ID s) < length (PCB_array s) \<and>
     length (file_array (PCB_array s ! unat (current_process_ID s))) = 8 \<and>
     (\<forall>fd \<in> fds. 2 \<le> unat fd \<and> unat fd < 8 \<and> file_op_table_ptr (current_file fd s) = FILE_DEV \<and>
        (fb_flags (current_file fd s) = 1 \<longrightarrow> (\<forall>a \<in> own. readable fd a 1 s)))"

definition left_to_read :: "i32 \<Rightarrow> 'a kernel_scheme \<Rightarrow> u8 list option" where
  "left_to_read fd s = (if fb_flags (current_file fd s) = 1 then Some (unread fd s) else None)"

lemma frames_open_same:
  assumes "frames_open own fds s" "image_agrees (bootmebb s) (mem s) m"
  shows "frames_open own fds (s\<lparr>mem := m\<rparr>)" "\<And>fd. fd \<in> fds \<Longrightarrow> left_to_read fd (s\<lparr>mem := m\<rparr>) = left_to_read fd s"
proof -
  have r: "readable fd a 1 (s\<lparr>mem := m\<rparr>) \<and> unread fd (s\<lparr>mem := m\<rparr>) = unread fd s" if "readable fd a 1 s" for fd a
    using readable_cong [of "s\<lparr>mem := m\<rparr>" s fd a 1] assms(2) that by simp
  show "frames_open own fds (s\<lparr>mem := m\<rparr>)"
    using assms(1) r image_agrees_counts(3) [OF assms(2)] by (simp add: frames_open_def)
  show "left_to_read fd (s\<lparr>mem := m\<rparr>) = left_to_read fd s" if fd: "fd \<in> fds" for fd
  proof (cases "fb_flags (current_file fd s) = 1")
    case True
    with assms(1) fd obtain a where "readable fd a 1 s" by (auto simp: frames_open_def)
    with r show ?thesis by (simp add: left_to_read_def)
  qed (simp add: left_to_read_def)
qed

lemma frames_open_other:
  assumes "unat fd' \<noteq> unat fd"
  shows "readable fd' a n (update_file fd f s) = readable fd' a n s" "unread fd' (update_file fd f s) = unread fd' s"
    "left_to_read fd' (update_file fd f s) = left_to_read fd' s"
  using assms by (simp_all add: readable_def unread_def left_to_read_def current_other_file length_file_array_update)

lemma frames_open_update:
  assumes s: "frames_open own fds s" and fd: "2 \<le> unat fd" "unat fd < 8"
    and f: "file_op_table_ptr (f (current_file fd s)) = FILE_DEV"
      "fb_flags (f (current_file fd s)) = 1 \<Longrightarrow> \<forall>a \<in> own. readable fd a 1 (update_file fd f s)"
  shows "frames_open own (insert fd fds) (update_file fd f s)"
proof -
  note S = s [unfolded frames_open_def]
  have cf: "current_file fd (update_file fd f s) = f (current_file fd s)" using S fd by (intro current_update_file) auto
  have "2 \<le> unat fd' \<and> unat fd' < 8 \<and> file_op_table_ptr (current_file fd' (update_file fd f s)) = FILE_DEV \<and>
      (fb_flags (current_file fd' (update_file fd f s)) = 1 \<longrightarrow> (\<forall>a \<in> own. readable fd' a 1 (update_file fd f s)))"
    if "fd' \<in> insert fd fds" for fd'
  proof (cases "fd' = fd")
    case True
    then show ?thesis using fd f cf by simp
  next
    case False
    then have "unat fd' \<noteq> unat fd" using unsigned_word_eqI by blast
    then show ?thesis using S that False by (simp add: frames_open_other current_other_file)
  qed
  then show ?thesis using S by (simp add: frames_open_def length_file_array_update)
qed

lemma frames_open_fd: "frames_open own fds s \<Longrightarrow> fd \<in> fds \<Longrightarrow> 2 \<le> unat fd \<and> unat fd < 8"
  by (simp add: frames_open_def)

lemma frames_read:
  assumes s: "frames_open own fds s" and fd: "fd \<in> fds" and a: "a \<in> own" and left: "left_to_read fd s = Some (c # cs)"
  obtains t where "sys_call_read dentry h fd a 1 s = Some (1, t, h)" "frames_open own fds t" "mem t = (mem s)(a := c)"
    "left_to_read fd t = Some cs" "\<forall>fd' \<in> fds - {fd}. left_to_read fd' t = left_to_read fd' s"
proof -
  have open1: "fb_flags (current_file fd s) = 1" and un: "unread fd s = c # cs" using left by (auto simp: left_to_read_def split: if_splits)
  have ok: "readable fd p 1 s" if "p \<in> own" for p using s fd open1 that by (auto simp: frames_open_def)
  let ?m = "(mem s)(a := c)"
  define f where "f = (\<lambda>b :: file_block. b\<lparr>file_position := file_position b + 1\<rparr>)"
  define t where "t = update_file fd f (s\<lparr>mem := ?m\<rparr>)"
  have t: "t = after_read fd a [c] s" by (simp add: t_def f_def after_read_def)
  have ag: "image_agrees (bootmebb s) (mem s) ?m" using s a by (auto simp: image_agrees_def frames_open_def)
  note same = frames_open_same [OF s ag]
  note r = after_read_readable [OF ok, simplified un, simplified]
  have cf: "fb_flags (current_file fd t) = 1"
    using s fd open1 unfolding t_def by (subst current_update_file) (auto simp: frames_open_def f_def)
  have "readable fd p 1 t" if p: "p \<in> own" for p
    using r(1) [OF a] s p image_agrees_counts(3) [OF ag]
    by (simp add: t [symmetric]) (auto simp: readable_def frames_open_def region_Suc t_def)
  then have "frames_open own fds t"
    using frames_open_update [OF same(1), of fd f] frames_open_fd [OF s fd] s fd
    by (simp add: t_def [symmetric] insert_absorb) (simp add: f_def frames_open_def)
  moreover have "sys_call_read dentry h fd a 1 s = Some (1, t, h)"
    using sys_call_read_file [OF ok [OF a], of dentry h] by (simp add: un t)
  moreover have "left_to_read fd t = Some cs" using r(2) [OF a] cf by (simp add: left_to_read_def t)
  moreover have "left_to_read fd' t = left_to_read fd' s" if "fd' \<in> fds - {fd}" for fd'
  proof -
    have "unat fd' \<noteq> unat fd" using that unsigned_word_eqI by blast
    then show ?thesis using same(2) [of fd'] that unfolding t_def by (simp add: frames_open_other)
  qed
  ultimately show thesis using that by (simp add: t_def)
qed

lemma frames_read_end:
  assumes s: "frames_open own fds s" and fd: "fd \<in> fds" and a: "a \<in> own" and left: "left_to_read fd s = Some []"
  shows "sys_call_read dentry h fd a 1 s = Some (0, s, h)"
proof -
  have "fb_flags (current_file fd s) = 1" and un: "unread fd s = []" using left by (auto simp: left_to_read_def split: if_splits)
  then have ok: "readable fd a 1 s" using s fd a by (auto simp: frames_open_def)
  from sys_call_read_file [OF ok, of dentry h] show ?thesis by (simp add: un)
qed

lemma frames_close:
  assumes s: "frames_open own fds s" and fd: "fd \<in> fds"
  obtains r t where "sys_call_close fd s = Some (r, t)" "frames_open own fds t" "mem t = mem s"
    "\<forall>fd' \<in> fds - {fd}. left_to_read fd' t = left_to_read fd' s"
proof -
  define t where "t = update_file fd (\<lambda>b. b\<lparr>fb_flags := 0\<rparr>) s"
  note S = s [unfolded frames_open_def]
  have b: "2 \<le> unat fd" "unat fd < 8" using S fd by blast+
  then have "sint fd = int (unat fd)" by (intro sint_small) simp
  with b have guard: "\<not> (sint fd < 2 \<or> sint fd > 7)" by linarith
  show thesis
  proof (cases "fb_flags (current_file fd s) = 1")
    case False
    then show thesis using that [of "-1" s] guard s by (simp add: sys_call_close_def)
  next
    case True
    have "current_file fd t = (current_file fd s)\<lparr>fb_flags := 0\<rparr>" unfolding t_def using S fd by (subst current_update_file) auto
    then have "sys_call_close fd s = Some (0, t)" using guard True S fd by (simp add: sys_call_close_def t_def [symmetric])
    moreover have "frames_open own fds t"
      using frames_open_update [OF s, of fd "\<lambda>b. b\<lparr>fb_flags := 0\<rparr>"] b S fd by (simp add: t_def insert_absorb)
    moreover have "left_to_read fd' t = left_to_read fd' s" if "fd' \<in> fds - {fd}" for fd'
      unfolding t_def using that unsigned_word_eqI [of fd' fd] by (intro frames_open_other) blast
    ultimately show thesis using that by (simp add: t_def)
  qed
qed

lemma own_agrees: "frames_open own fds s \<Longrightarrow> (\<And>p. p \<notin> own \<Longrightarrow> m p = mem s p) \<Longrightarrow> image_agrees (bootmebb s) (mem s) m"
  unfolding image_agrees_def frames_open_def by blast

interpretation kernel_frames: frame_files "kernel_calls A dev child" "\<lambda>(s, h). frames_open own fds s" own fds
  "\<lambda>fd (s, h). left_to_read fd s" for A dev child own fds
proof (unfold_locales, goal_cases)
  case (1 m s)
  show ?case by (cases s) simp
next
  case (2 m m' s)
  show ?case by (cases s) simp
next
  case (3 s m)
  then show ?case by (cases s) (auto intro: frames_open_same(1) own_agrees)
next
  case (4 s m fd)
  then show ?case by (cases s) (auto intro: frames_open_same(2) own_agrees)
next
  case (5 s fd a c cs)
  obtain k h where s: "s = (k, h)" by fastforce
  obtain t where "sys_call_read (at_dentry A) h fd a 1 k = Some (1, t, h)" "frames_open own fds t" "mem t = (mem k)(a := c)"
    "left_to_read fd t = Some cs" "\<forall>fd' \<in> fds - {fd}. left_to_read fd' t = left_to_read fd' k"
    by (rule frames_read [of own fds k fd a c cs]) (use 5 in \<open>simp_all add: s\<close>)
  then show ?case by (intro exI [of _ "(t, h)"]) (simp add: s)
next
  case (6 s fd a)
  then show ?case by (cases s) (simp add: frames_read_end)
next
  case (7 s fd)
  obtain k h where s: "s = (k, h)" by fastforce
  obtain r t where "sys_call_close fd k = Some (r, t)" "frames_open own fds t" "mem t = mem k"
    "\<forall>fd' \<in> fds - {fd}. left_to_read fd' t = left_to_read fd' k"
    by (rule frames_close [of own fds k fd]) (use 7 in \<open>simp_all add: s\<close>)
  then show ?case by (intro exI [of _ r] exI [of _ "(t, h)"]) (simp add: s)
qed

section \<open>Opening the frames\<close>

lemma fd_alloc_flags:
  assumes "map fb_flags fs = map fb_flags fs'" shows "fd_alloc fs = fd_alloc fs'"
proof -
  have "length fs = length fs'" using arg_cong [OF assms, of length] by simp
  moreover have "fb_flags (fs ! i) = fb_flags (fs' ! i)" if "i < length fs" for i
    using that assms calculation by (metis nth_map)
  ultimately have "fd_alloc fs = Some k \<longleftrightarrow> fd_alloc fs' = Some k" for k
    unfolding fds.alloc_iff by (auto simp: fd_used_def)
  then show ?thesis by (metis option.exhaust)
qed

text \<open>The descriptors of the running process.\<close>

definition own_files :: "'a kernel_scheme \<Rightarrow> file_block list" where
  "own_files s = file_array (PCB_array s ! unat (current_process_ID s))"

lemma frames_open_file:
  assumes s: "frames_open own fds s" and name: "cstring (mem s) filename cs" "cs \<noteq> []" "names_file (mem s) (bootmebb s) cs fc"
    and small: "length fc + 1 < 2 ^ 31" and dentry: "region (at_dentry A) 64 \<subseteq> own"
    and slot: "fd_alloc (own_files s) = Some i" and new: "of_nat i \<notin> fds"
  obtains t where "sys_call_open (at_dentry A) filename s = Some (of_nat i, t)" "frames_open own (insert (of_nat i) fds) t"
    "left_to_read (of_nat i) t = Some fc" "\<And>fd. fd \<in> fds \<Longrightarrow> left_to_read fd t = left_to_read fd s"
    "\<And>p. p \<notin> region (at_dentry A) 64 \<Longrightarrow> mem t p = mem s p" "bootmebb t = bootmebb s" "image_agrees (bootmebb s) (mem s) (mem t)"
    "map fb_flags (own_files t) = map fb_flags (fd_claim i (own_files s))"
proof -
  note S = s [unfolded frames_open_def]
  from name(3) obtain k where k: "lookup_name (mem s) (bootmebb s) (take 32 cs) = Some k"
    "file_type (mem s) (d_table_entry (bootmebb s) (of_nat k)) = 2"
    "file_wf (mem s) (bootmebb s) (inode_num (mem s) (d_table_entry (bootmebb s) (of_nat k)))"
    "fc = file_content (mem s) (bootmebb s) (inode_num (mem s) (d_table_entry (bootmebb s) (of_nat k)))"
    by (auto simp: names_file_def Let_def)
  define e where "e = d_table_entry (bootmebb s) (of_nat k)"
  define s' where "s' = s\<lparr>mem := memcpy (mem s) (at_dentry A) e 64\<rparr>"
  define t where "t = opened i FILE_DEV (inode_num (mem s) e) s'"
  have apart: "region (at_dentry A) 64 \<inter> image_region (mem s) (bootmebb s) = {}" using S dentry by blast
  have cur: "unat (current_process_ID s) < length (PCB_array s)" "length (file_array (PCB_array s ! unat (current_process_ID s))) = 8"
    using S by blast+
  have one: "(0 :: i32) < 1" "length fc + unat (1 :: i32) < 2 ^ 31" using small by simp_all
  have reg: "region a (unat (1 :: i32)) \<inter> image_region (mem s) (bootmebb s) = {}" if "a \<in> own" for a
    using S that by (auto simp: region_Suc)
  note op = open_regular_file [OF name(1,2) cur apart k(1) e_def k(2,3,4) [folded e_def] slot [unfolded own_files_def] one reg,
      folded s'_def, folded t_def]
  obtain a0 where a0: "a0 \<in> own" using S by blast
  have i: "2 \<le> i" "i < 8" using slot cur by (simp_all add: fds.alloc_iff own_files_def)
  have s': "s\<lparr>mem := mem s'\<rparr> = s'" by (simp add: s'_def)
  note same = frames_open_same [OF s op(4) [OF a0], unfolded s']
  have "region e 64 \<subseteq> region (bootmebb s) 4096" unfolding e_def using k(1) by (intro d_table_entry_region) (simp add: lookup_name_Some)
  then have "region (at_dentry A) 64 \<inter> region e 64 = {}" using apart boot_in_image [of "bootmebb s" "mem s"] by blast
  then have out: "mem t p = mem s p" if "p \<notin> region (at_dentry A) 64" for p
    using dentry_copied(4) that by (simp add: t_def s'_def opened_def)
  have "frames_open own (insert (of_nat i) fds) t"
    using op(2) i unfolding t_def opened_def by (intro frames_open_update [OF same(1)]) simp_all
  moreover have cf: "fb_flags (current_file (of_nat i) t) = 1"
    unfolding t_def opened_def using cur i by (subst current_update_file) (simp_all add: s'_def)
  then have "left_to_read (of_nat i) t = Some fc" using op(3) [OF a0] by (simp add: left_to_read_def)
  moreover have "left_to_read fd t = left_to_read fd s" if "fd \<in> fds" for fd
  proof -
    have "fd \<noteq> of_nat i" using that new by blast
    then have "unat fd \<noteq> unat (of_nat i :: i32)" using unsigned_word_eqI by blast
    then show ?thesis using same(2) [OF that] by (simp add: t_def opened_def frames_open_other)
  qed
  moreover have "map fb_flags (own_files t) = map fb_flags (fd_claim i (own_files s))"
    using cur i by (simp add: own_files_def t_def opened_def update_file_def s'_def fd_claim_def map_update)
  moreover have "bootmebb t = bootmebb s" "image_agrees (bootmebb s) (mem s) (mem t)"
    using op(4) [OF a0] by (simp_all add: t_def opened_def s'_def)
  ultimately show thesis using that [OF op(1) [OF a0]] out by blast
qed

section \<open>Properties\<close>

text \<open>
  C9: \<^verbatim>\<open>add_frames\<close> of the fish demo on this kernel: called with the names of two text files, it ends, and every
  place where one of the two shows a character has become a blinking entry with the characters of the two, in the
  list and on the screen; lines and files of different lengths are continued with spaces.
\<close>

theorem add_frames_shows_files:
  assumes lay: "frame_layout own L base"
    and rep: "fish_rep (globals L) (mem s) ps" "load32 (mem s) (at_vmem L) = base"
    and files: "names_file (mem s) (bootmebb s) nm0 fc0" "names_file (mem s) (bootmebb s) nm1 fc1"
      "length fc0 + 1 < 2 ^ 31" "length fc1 + 1 < 2 ^ 31"
    and names: "cstring (mem s) f0 nm0" "cstring (mem s) f1 nm1" "nm0 \<noteq> []" "nm1 \<noteq> []"
      "region f0 (length nm0 + 1) \<inter> frame_vars L = {}" "region f1 (length nm1 + 1) \<inter> (frame_vars L \<union> region (at_dentry A) 64) = {}"
    and own: "frames_open own {} s" "region (at_dentry A) 64 \<subseteq> own"
      "region (at_dentry A) 64 \<inter> (frame_vars L \<union> fish_data (globals L) base \<union> region (at_vmem L) 4) = {}"
    and slots: "fd_alloc (own_files s) = Some i" "fd_alloc (fd_claim i (own_files s)) = Some j"
    and loc: "\<forall>b \<in> set (frame_blinks 0 (lines_of fc0) (lines_of fc1)). location b \<noteq> 0"
  shows "\<exists>t h' ps'. add_frames (kernel_calls A dev child) L f0 f1 (s, h) = Some (Inr (t, h')) \<and> fish_rep (globals L) (mem t) ps' \<and>
    fish_view (globals L) (mem t) ps' = add_blinks (frame_blinks 0 (lines_of fc0) (lines_of fc1)) (fish_view (globals L) (mem s) ps)"
proof -
  let ?v = "fish_view (globals L) (mem s) ps" and ?U = "kernel_calls A dev child" and ?d = "region (at_dentry A) 64"
    and ?b = "at_frame_struct L"
  define s0 where "s0 = s\<lparr>mem := frame_start L (mem s)\<rparr>"
  note start = frame_start_shows [OF lay rep]
  have vars: "frame_vars L \<subseteq> own" using lay by (simp add: frame_layout_def)
  have ag0: "image_agrees (bootmebb s) (mem s) (frame_start L (mem s))"
    by (rule own_agrees [OF own(1)]) (use vars in \<open>auto intro: frame_start_outside\<close>)
  have s0: "frames_open own {} s0" "bootmebb s0 = bootmebb s" "own_files s0 = own_files s" "mem s0 = frame_start L (mem s)"
    using frames_open_same(1) [OF own(1) ag0] by (simp_all add: s0_def own_files_def)
  have n0: "cstring (mem s0) f0 nm0" and n1': "cstring (mem s0) f1 nm1"
    unfolding s0(4) by (rule cstring_cong [OF names(1)], use names(5) in \<open>auto intro!: frame_start_outside\<close>)
      (rule cstring_cong [OF names(2)], use names(6) in \<open>auto intro!: frame_start_outside\<close>)
  obtain s1 where s1: "sys_call_open (at_dentry A) f0 s0 = Some (of_nat i, s1)" "frames_open own {of_nat i} s1"
    "left_to_read (of_nat i) s1 = Some fc0" "\<And>p. p \<notin> ?d \<Longrightarrow> mem s1 p = mem s0 p" "bootmebb s1 = bootmebb s0"
    "image_agrees (bootmebb s0) (mem s0) (mem s1)" "map fb_flags (own_files s1) = map fb_flags (fd_claim i (own_files s0))"
    by (rule frames_open_file [OF s0(1) n0 names(3) _ files(3) own(2), of i])
      (use names_file_agrees [OF ag0 files(1)] slots(1) s0 in auto)
  have n1: "cstring (mem s1) f1 nm1" by (rule cstring_cong [OF n1']) (use names(6) in \<open>auto intro!: s1(4)\<close>)
  have len: "length (own_files s) = 8" using own(1) by (simp add: frames_open_def own_files_def)
  have ij: "i < 8" "j < 8" "i \<noteq> j" "2 \<le> i" "2 \<le> j"
    using slots len by (auto simp: fds.alloc_iff fd_claim_def fd_used_def)
  then have ij': "(of_nat i :: i32) \<noteq> of_nat j" using u32_of_nat_eq_iff [of i j] by simp
  have slot1: "fd_alloc (own_files s1) = Some j"
    using slots(2) fd_alloc_flags [OF s1(7)] by (simp add: s0(3))
  obtain s2 where s2: "sys_call_open (at_dentry A) f1 s1 = Some (of_nat j, s2)" "frames_open own {of_nat j, of_nat i} s2"
    "left_to_read (of_nat j) s2 = Some fc1" "left_to_read (of_nat i) s2 = left_to_read (of_nat i) s1"
    "\<And>p. p \<notin> ?d \<Longrightarrow> mem s2 p = mem s1 p"
    by (rule frames_open_file [OF s1(2) n1 names(4) _ files(4) own(2) slot1])
      (use names_file_agrees [OF s1(6), unfolded s0(2,4), OF names_file_agrees [OF ag0 files(2)]] s0(2) s1(5) ij' in auto)
  have keep: "mem s2 p = frame_start L (mem s) p" if "p \<notin> ?d" for p using that s2(5) s1(4) s0(4) by simp
  have "shows_view L base (mem s2) ?v"
    by (rule shows_view_cong [OF start(1) keep]) (use own(3) struct_times [of "at_frame_struct L"] in \<open>auto simp: frame_vars_def\<close>)
  moreover have "mem s2 (at_c0 L) = 48" "mem s2 (at_c1 L) = 48"
    using keep [of "at_c0 L"] keep [of "at_c1 L"] start(2,3) own(3) by (auto simp: frame_vars_def)
  moreover have "\<not> (of_nat i :: i32) <s 0" "\<not> (of_nat j :: i32) <s 0"
    using ij by (simp_all add: word_sless_alt sint_small)
  moreover have "frames_open own {of_nat i, of_nat j} s2" using s2(2) by (simp add: insert_commute)
  moreover have "u_open ?U f0 (set16 ?U (?b + 6) 15 (set16 ?U (?b + 4) 15 (poke ?U (at_c1 L) 48 (poke ?U (at_c0 L) 48 (s, h)))))
      = Some (of_nat i, s1, h)" "u_open ?U f1 (s1, h) = Some (of_nat j, s2, h)"
    using s1(1) s2(1) by (simp_all add: set16_def poke_def s0_def frame_start_def)
  ultimately obtain t where "add_frames ?U L f0 f1 (s, h) = Some (Inr t)"
    "shows_view L base (u_mem ?U t) (add_blinks (frame_blinks 0 (lines_of fc0) (lines_of fc1)) ?v)"
    using ij' lay loc s1(3) s2(3,4)
    by - (rule kernel_frames.add_frames_shows [of "of_nat i" "{of_nat i, of_nat j}" "of_nat j" own L base A dev child f0 "(s, h)" "(s1, h)" f1 "(s2, h)" fc0 fc1 ?v];
      simp)
  then show ?thesis
    by (cases t) (auto simp: shows_view_def)
qed

text \<open>The kernel with its file system at 4 MB and the demo in the program page; both frames are the file \<open>a\<close>.\<close>

definition demo_vars :: fish_vars where
  "demo_vars = \<lparr>at_blink_array = 0x8049000, at_list_head = 0x8051000, at_vmem = 0x8051010, at_temp = 0x83FF000,
     at_file0 = 0x8052000, at_file1 = 0x8052000, at_rtc_name = 0x8052010, at_c0 = 0x83FE000, at_c1 = 0x83FE001,
     at_frame_struct = 0x83FE010, at_main_struct = 0x83FE020, at_ret_val = 0x83FE030, at_garbage = 0x83FE040\<rparr>"

definition demo_page :: "u32 set" where
  "demo_page = region 0x8000000 0x1000000"

definition frames_memory :: memory where
  "frames_memory p = (if p \<in> demo_page then ((demo_memory 0)(0x8052000 := 97)) p else elf_image p)"

definition frames_kernel :: kernel where
  "frames_kernel = cat_kernel\<lparr>mem := frames_memory\<rparr>"

lemma demo_page_shift: "j + n \<le> 0x1000000 \<Longrightarrow> region (0x8000000 + of_nat j) n \<subseteq> demo_page"
  unfolding demo_page_def by (rule region_shift_subset)

lemma image_off_page: "demo_page \<inter> image_region elf_image 0x400000 = {}"
  unfolding demo_page_def image_region_def elf_image_size by (rule region_disjointI) simp_all

lemma frames_image: "image_agrees 0x400000 elf_image frames_memory"
  using image_off_page by (auto simp: image_agrees_def frames_memory_def)

lemma demo_globals: "globals demo_vars = demo"
  by (simp add: demo_vars_def demo_def fish_globals.truncate_def)

lemma frames_demo_data: "fish_data demo 0x8C00000 \<subseteq> demo_page" "region (at_vmem demo) 4 \<subseteq> demo_page"
  using demo_page_shift [of "0x3FF000" 16] demo_page_shift [of "0x49000" 32000] demo_page_shift [of "0x51000" 4]
    demo_page_shift [of "0xC00000" 4000] demo_page_shift [of "0x51010" 4]
  by (simp_all add: fish_data_def demo_def)

lemma frames_rep: "fish_rep demo frames_memory []" "load32 frames_memory (at_vmem demo) = 0x8C00000"
proof -
  have base: "load32 (demo_memory 0) (at_vmem demo) = 0x8C00000" by (rule demo_facts(2))
  have "frames_memory a = demo_memory 0 a" if "a \<in> fish_data demo 0x8C00000 \<union> region (at_vmem demo) 4" for a
  proof -
    have "a \<noteq> 0x8052000"
      using that by (auto simp: fish_data_def demo_def region_iff)
    then show ?thesis using that frames_demo_data by (auto simp: frames_memory_def)
  qed
  note r = rep_view_cong [OF demo_rep base this]
  show "fish_rep demo frames_memory []" "load32 frames_memory (at_vmem demo) = 0x8C00000" using r(1,3) by blast+
qed

lemma frames_layout:
  "frame_layout demo_page demo_vars 0x8C00000" "region 0x8F00100 64 \<subseteq> demo_page"
  "region 0x8F00100 64 \<inter> (frame_vars demo_vars \<union> fish_data demo 0x8C00000 \<union> region (at_vmem demo) 4) = {}"
  "region 0x8052000 2 \<inter> (frame_vars demo_vars \<union> region 0x8F00100 64) = {}"
proof -
  have vars: "frame_vars demo_vars = region 0x83FE000 1 \<union> region 0x83FE001 1 \<union> region 0x83FE010 16"
    by (auto simp: frame_vars_def demo_vars_def region_Suc)
  have "region 0x83FE000 1 \<subseteq> demo_page" "region 0x83FE001 1 \<subseteq> demo_page" "region 0x83FE010 16 \<subseteq> demo_page"
    using demo_page_shift [of "0x3FE000" 1] demo_page_shift [of "0x3FE001" 1] demo_page_shift [of "0x3FE010" 16] by simp_all
  moreover have "region a n \<inter> region b k = {}"
    if "(a, n) \<in> {(0x83FE000, 1), (0x83FE001, 1), (0x83FE010, 16)}"
      "(b, k) \<in> {(0x83FF000, 16), (0x8049000, 32000), (0x8051000, 4), (0x8C00000, 4000), (0x8051010, 4)}" for a b :: u32 and n k
    using that by (elim insertE emptyE) (auto intro!: region_disjointI)
  then have "frame_vars demo_vars \<inter> (fish_data demo 0x8C00000 \<union> region (at_vmem demo) 4) = {}"
    unfolding vars fish_data_def demo_def by (simp add: Int_Un_distrib Int_Un_distrib2)
  moreover have "at_c0 demo_vars \<noteq> at_c1 demo_vars" "{at_c0 demo_vars, at_c1 demo_vars} \<inter> region (at_frame_struct demo_vars) 16 = {}"
    by (simp_all add: demo_vars_def region_iff)
  ultimately show "frame_layout demo_page demo_vars 0x8C00000"
    using frames_demo_data(1) by (simp add: frame_layout_def demo_globals vars) (simp add: demo_vars_def demo_def)
  show "region 0x8F00100 64 \<subseteq> demo_page" using demo_page_shift [of "0xF00100" 64] by simp
  show "region 0x8F00100 64 \<inter> (frame_vars demo_vars \<union> fish_data demo 0x8C00000 \<union> region (at_vmem demo) 4) = {}"
    unfolding vars fish_data_def demo_def by (simp add: Int_Un_distrib) (intro conjI region_disjointI; simp)
  show "region 0x8052000 2 \<inter> (frame_vars demo_vars \<union> region 0x8F00100 64) = {}"
    unfolding vars by (simp add: Int_Un_distrib) (intro conjI region_disjointI; simp)
qed

lemma frames_kernel_fields:
  "mem frames_kernel = frames_memory" "bootmebb frames_kernel = 0x400000" "own_files frames_kernel = initial_file_array"
  "current_process_ID frames_kernel = 0" "length (PCB_array frames_kernel) = 6"
  by (simp_all add: frames_kernel_def own_files_def cat_kernel_fields)

lemma frames_kernel_ready: "frames_open demo_page {} frames_kernel"
proof -
  have "image_region frames_memory 0x400000 = image_region elf_image 0x400000" by (rule image_agrees_counts(3) [OF frames_image])
  moreover have "0x8000000 \<in> demo_page" unfolding demo_page_def using in_regionI [of 0 "0x1000000" "0x8000000"] by simp
  moreover have "length (own_files frames_kernel) = 8" by (simp add: frames_kernel_fields initial_file_array_def)
  ultimately show ?thesis using image_off_page by (auto simp: frames_open_def frames_kernel_fields own_files_def)
qed

lemma frames_kernel_file:
  "names_file frames_memory 0x400000 [97] elf_file" "cstring frames_memory 0x8052000 [97]"
proof -
  have "file_type elf_image 0x400040 = 2" "inode_num elf_image 0x400040 = 0"
    by (simp_all add: file_type_def inode_num_def load32_def elf_image_def)
  then have "names_file elf_image 0x400000 [97] elf_file"
    unfolding names_file_def Let_def
    by - (rule exI [of _ 0], simp add: elf_lookup elf_image_wf elf_image_content d_table_entry_def)
  then show "names_file frames_memory 0x400000 [97] elf_file" by (rule names_file_agrees [OF frames_image])
  have page: "0x8052000 \<in> demo_page" "0x8052001 \<in> demo_page"
    unfolding demo_page_def using in_regionI [of "0x52000" "0x1000000" "0x8000000"] in_regionI [of "0x52001" "0x1000000" "0x8000000"] by simp_all
  have "frames_memory 0x8052000 = 97" "frames_memory 0x8052001 = 0"
    unfolding frames_memory_def by (simp_all only: page if_True) (simp_all add: demo_memory_def store32_def)
  then show "cstring frames_memory 0x8052000 [97]" by (simp add: cstring_def bytes_Suc)
qed

theorem add_frames_shows_files_witness:
  "\<exists>t h' ps'. add_frames (kernel_calls \<lparr>at_words = 0x8F00000, at_dentry = 0x8F00100\<rparr> (\<lambda>_ _. 0) (\<lambda>_ _. None)) demo_vars
       0x8052000 0x8052000 (frames_kernel, []) = Some (Inr (t, h')) \<and> fish_rep demo (mem t) ps' \<and>
     fish_view demo (mem t) ps' = add_blinks (frame_blinks 0 (lines_of elf_file) (lines_of elf_file)) (fish_view demo frames_memory [])"
proof -
  have slots: "fd_alloc initial_file_array = Some 2" "fd_alloc (fd_claim 2 initial_file_array) = Some 3"
    unfolding fds.alloc_iff by (auto simp: fd_used_def fd_claim_def initial_file_array_def free_block_def nth_Cons')
  have "lines_of elf_file = [elf_magic @ map of_nat [4..<10], map of_nat [11..<40]]"
    by (simp add: elf_file_def elf_magic_def upt_rec lines_of_Cons del: lines_of.simps(2))
  then have loc: "\<forall>b \<in> set (frame_blinks 0 (lines_of elf_file) (lines_of elf_file)). location b \<noteq> 0"
    by (simp add: elf_magic_def upt_rec frame_blink_def)
  have vmem: "at_vmem demo_vars = at_vmem demo" by (simp add: demo_vars_def demo_def)
  show ?thesis
    using add_frames_shows_files [where own = demo_page and L = demo_vars and base = "0x8C00000" and s = frames_kernel and ps = "[]"
        and A = "\<lparr>at_words = 0x8F00000, at_dentry = 0x8F00100\<rparr>" and ?nm0.0 = "[97]" and ?nm1.0 = "[97]" and ?fc0.0 = elf_file
        and ?fc1.0 = elf_file and ?f0.0 = "0x8052000" and ?f1.0 = "0x8052000" and i = 2 and j = 3 and h = "[]"
        and dev = "\<lambda>_ _. 0" and child = "\<lambda>_ _. None"]
      frames_layout(1-3) frames_layout(4) [unfolded numeral_2_eq_2] frames_rep frames_kernel_ready frames_kernel_file slots loc elf_file_facts(1)
    by (simp add: demo_globals vmem frames_kernel_fields Int_Un_distrib)
qed

end
