(* ===== verification/Grep.thy ===== *)
theory Grep
  imports Program_Runs "HOL-Library.Sublist"
begin

text \<open>
  What \<^verbatim>\<open>grep\<close> prints for one file: the lines of the file that contain the search string, each after the name of
  the file.  The file passes through a buffer of 1024 bytes; a line that the buffer cuts off is moved to its
  start and completed by the next read.  The calls are used through the contract \<open>grep_files\<close>, which this kernel meets.
\<close>

section \<open>The lines to print\<close>

definition match_line :: "u8 list \<Rightarrow> u8 list \<Rightarrow> u8 list \<Rightarrow> u8 list" where
  "match_line nm w l = (if w \<noteq> [] \<and> sublist w l then nm @ 58 # l @ [10] else [])"

definition grep_output :: "u8 list \<Rightarrow> u8 list \<Rightarrow> u8 list list \<Rightarrow> u8 list" where
  "grep_output nm w ls = concat (map (match_line nm w) ls)"

lemma grep_output_simps [simp]:
  "grep_output nm w [] = []" "grep_output nm w (l # ls) = match_line nm w l @ grep_output nm w ls"
  by (simp_all add: grep_output_def)

lemma match_line_Nil [simp]: "match_line nm w [] = []"
  by (simp add: match_line_def)

lemma lines_of_line: "10 \<notin> set l \<Longrightarrow> lines_of (l @ 10 # cs) = l # lines_of cs"
  by (induction l) simp_all

lemma lines_of_single: "10 \<notin> set l \<Longrightarrow> lines_of l = [l]"
  by (induction l) simp_all

lemma lines_of_prefix: "10 \<notin> set q \<Longrightarrow> lines_of (q @ cs) = (q @ hd (lines_of cs)) # tl (lines_of cs)"
  by (induction q) simp_all

section \<open>Strings in memory\<close>

lemma strncmp_prefix:
  "cstring m a xs \<Longrightarrow> cstring m b w \<Longrightarrow> ece391_strncmp m a b (of_nat (length w)) = 0 \<longleftrightarrow> prefix w xs"
proof (induction w arbitrary: a b xs)
  case Nil
  then show ?case by (subst ece391_strncmp.simps) simp
next
  case (Cons c w)
  have b: "m b = c" "c \<noteq> 0" "cstring m (b + 1) w" using cstring_Cons [OF Cons.prems(2)] by auto
  have len: "length (c # w) < 4294967296" by (rule cstring_length [OF Cons.prems(2)])
  have n: "(of_nat (length (c # w)) :: u32) \<noteq> 0" using len u32_of_nat_eq_iff [of "length (c # w)" 0] by simp
  show ?case
  proof (cases xs)
    case Nil
    then have "m a = 0" using Cons.prems(1) by (simp add: cstring_def)
    moreover have "(ucast c :: u32) \<noteq> 0" using b(2) by (metis ucast_u8_u32_u8 unsigned_0)
    ultimately show ?thesis using n b Nil by (subst ece391_strncmp.simps) auto
  next
    case (Cons d ys)
    have a: "m a = d" "d \<noteq> 0" "cstring m (a + 1) ys" using cstring_Cons Cons.prems(1) Cons by auto
    have "(of_nat (length w) :: u32) = 0 \<longleftrightarrow> w = []" using len u32_of_nat_eq_iff [of "length w" 0] by simp
    then show ?thesis using n a b Cons Cons.IH [OF a(3) b(3)]
      by (subst ece391_strncmp.simps) (auto simp: ucast_u8_eq_iff)
  qed
qed

text \<open>A copy towards lower addresses, whose source and destination may overlap.\<close>

lemma strcpy_down:
  "cstring m src q \<Longrightarrow> src = dst + of_nat d \<Longrightarrow> length q + d + 1 < 2 ^ 32 \<Longrightarrow>
    ece391_strcpy m dst src = Some (store_bytes m dst (q @ [0]))"
proof (induction q arbitrary: m src dst)
  case Nil
  then show ?case by (subst ece391_strcpy.simps) (simp add: cstring_def Let_def)
next
  case (Cons c q)
  define m1 where "m1 = m(dst := c)"
  have c: "m src = c" "c \<noteq> 0" "cstring m (src + 1) q" using cstring_Cons [OF Cons.prems(1)] by auto
  have "dst \<notin> region (src + 1) (Suc (length q))"
  proof -
    have "(of_nat (2 ^ 32 - (d + 1)) :: u32) = dst - (src + 1)"
      using Cons.prems(2,3) by (simp add: of_nat_diff)
    moreover have "unat (of_nat (2 ^ 32 - (d + 1)) :: u32) = 2 ^ 32 - (d + 1)" by (rule unat_u32_of_nat) simp
    ultimately show ?thesis using Cons.prems(3) by (simp add: region_iff)
  qed
  then have "cstring m1 (src + 1) q" by (intro cstring_cong [OF c(3)]) (auto simp: m1_def)
  from Cons.IH [OF this] have "ece391_strcpy m1 (dst + 1) (src + 1) = Some (store_bytes m1 (dst + 1) (q @ [0]))"
    using Cons.prems(2,3) by simp
  then show ?case using c by (subst ece391_strcpy.simps) (simp add: Let_def m1_def)
qed

lemma find_end_line:
  assumes "last' \<le> 1024"
  shows "10 \<notin> set l \<Longrightarrow> bytes m (data + of_nat k) (length l) = l \<Longrightarrow> k + length l \<le> last' \<Longrightarrow>
    k + length l = last' \<or> m (data + of_nat (k + length l)) = 10 \<Longrightarrow>
    find_end m data (of_nat last') (of_nat k) = Some (of_nat (k + length l))"
proof (induction l arbitrary: k)
  case Nil
  then show ?case using assms by (subst find_end.simps) (auto simp: sint_u32_of_nat)
next
  case (Cons c l)
  have "find_end m data (of_nat last') (of_nat (Suc k)) = Some (of_nat (Suc k + length l))"
    using Cons.prems by (intro Cons.IH) (simp_all add: bytes_Suc ac_simps)
  moreover have "m (data + of_nat k) = c" using Cons.prems(2) by (simp add: bytes_Suc)
  moreover have "k < last'" using Cons.prems(3) by simp
  then have "sint (of_nat k :: i32) < sint (of_nat last' :: i32)" using assms by (simp add: sint_u32_of_nat)
  ultimately show ?case using Cons.prems(1) by (subst find_end.simps) (simp add: ac_simps)
qed

text \<open>The program's strings and its buffer, which do not overlap.\<close>

definition grep_memory :: "u32 set \<Rightarrow> u32 \<Rightarrow> u32 \<Rightarrow> u32 \<Rightarrow> u8 list \<Rightarrow> u32 \<Rightarrow> u8 list \<Rightarrow> memory \<Rightarrow> bool" where
  "grep_memory own data lit fname nm s w m \<longleftrightarrow>
     region data 1025 \<subseteq> own \<and> region lit 2 \<subseteq> own \<and> region fname (Suc (length nm)) \<subseteq> own \<and> region s (Suc (length w)) \<subseteq> own \<and>
     region lit 2 \<inter> (region data 1025 \<union> region fname (Suc (length nm)) \<union> region s (Suc (length w))) = {} \<and>
     region data 1025 \<inter> (region fname (Suc (length nm)) \<union> region s (Suc (length w))) = {} \<and>
     length nm < 2 ^ 31 \<and> cstring m fname nm \<and> cstring m s w \<and> m (data + 1024) \<noteq> 10"

lemma grep_memory_cong:
  assumes "grep_memory own data lit fname nm s w m"
    and same: "\<And>p. p \<in> region fname (Suc (length nm)) \<union> region s (Suc (length w)) \<Longrightarrow> m' p = m p"
    and last: "m' (data + 1024) \<noteq> 10"
  shows "grep_memory own data lit fname nm s w m'"
proof -
  have "cstring m' fname nm" "cstring m' s w"
    using assms(1) same by (auto simp: grep_memory_def intro!: cstring_cong [of m])
  with assms(1) last show ?thesis by (simp add: grep_memory_def)
qed

lemma last_in_data: "data + 1024 \<in> region data (1025 :: nat)"
  using in_regionI [of 1024 1025 data] by simp

lemma grep_memory_data:
  assumes g: "grep_memory own data lit fname nm s w m"
    and out: "\<And>p. p \<notin> region data 1025 \<Longrightarrow> m' p = m p" and last: "m' (data + 1024) \<noteq> 10"
  shows "grep_memory own data lit fname nm s w m'"
  by (rule grep_memory_cong [OF g out last]) (use g in \<open>auto simp: grep_memory_def\<close>)

lemma grep_memory_lit:
  assumes g: "grep_memory own data lit fname nm s w m"
    and out: "\<And>p. p \<in> own \<Longrightarrow> p \<notin> region lit 2 \<Longrightarrow> m' p = m p"
  shows "grep_memory own data lit fname nm s w m'" "\<And>p. p \<in> region data 1025 \<Longrightarrow> m' p = m p"
proof -
  note G = g [unfolded grep_memory_def]
  show d: "m' p = m p" if "p \<in> region data 1025" for p using that G by (intro out) blast+
  have "m' (data + 1024) = m (data + 1024)" by (rule d [OF last_in_data])
  then show "grep_memory own data lit fname nm s w m'"
    using G by (intro grep_memory_cong [OF g] out) (blast, blast, simp)
qed

section \<open>Searching\<close>

text \<open>
  What \<^verbatim>\<open>do_one_file\<close> needs of the calls: output as in \<open>program_output\<close>, which leaves alone what is still to be read;
  a read into the rest of the buffer takes as much of the file as fits; and the file can be closed.
\<close>

locale grep_files = program_output U inv own "\<lambda>s. (out s, rest s)" "\<lambda>cs (x, r). (emit cs x, r)"
  for U :: "'s calls" and inv :: "'s \<Rightarrow> bool" and own :: "u32 set" and out :: "'s \<Rightarrow> 'o" and emit :: "u8 list \<Rightarrow> 'o \<Rightarrow> 'o"
    and rest :: "'s \<Rightarrow> u8 list" +
  fixes fd :: i32 and data :: u32
  assumes read_part: "inv s \<Longrightarrow> k < 1024 \<Longrightarrow> region data 1025 \<subseteq> own \<Longrightarrow>
      \<exists>t. u_read U fd (data + of_nat k) (of_nat (1024 - k)) s = Some (of_nat (length (take (1024 - k) (rest s))), t) \<and>
        inv t \<and> u_mem U t = store_bytes (u_mem U s) (data + of_nat k) (take (1024 - k) (rest s)) \<and>
        rest t = drop (1024 - k) (rest s) \<and> out t = out s"
    and close_file: "inv s \<Longrightarrow> \<exists>t. u_close U fd s = Some (0, t) \<and> out t = out s"
    and emit_Nil: "emit [] x = x"
    and emit_append: "emit (xs @ ys) x = emit ys (emit xs x)"
begin

lemma say_string:
  assumes "inv s" "grep_memory own data lit fname nm sa w (u_mem U s)" "cstring (u_mem U s) a cs" "length cs < 2 ^ 31" "region a (length cs) \<subseteq> own"
  obtains t where "ece391_fdputs U 1 a s = Some t" "inv t" "out t = emit cs (out s)" "rest t = rest s"
    "grep_memory own data lit fname nm sa w (u_mem U t)" "\<And>p. p \<in> region data 1025 \<Longrightarrow> u_mem U t p = u_mem U s p"
proof -
  obtain t where t: "ece391_fdputs U 1 a s = Some t" "inv t" "(out t, rest t) = (emit cs (out s), rest s)"
    "\<And>p. p \<in> own \<Longrightarrow> u_mem U t p = u_mem U s p"
    by (rule fdputs_cstring [OF assms(1,3-5)]) auto
  note g = grep_memory_lit [OF assms(2) t(4)]
  show thesis using that [OF t(1,2) _ _ g] t(3) by simp
qed

lemma say_literal:
  assumes "inv s" "grep_memory own data lit fname nm sa w (u_mem U s)" "length str = 1" "0 \<notin> set (ascii str)"
  obtains t where "put_literal U lit str s = Some t" "inv t" "out t = emit (ascii str) (out s)" "rest t = rest s"
    "grep_memory own data lit fname nm sa w (u_mem U t)" "\<And>p. p \<in> region data 1025 \<Longrightarrow> u_mem U t p = u_mem U s p"
proof -
  have two: "length str + 1 = 2" using assms(3) by simp
  have lit: "region lit (length str + 1) \<subseteq> own" unfolding two using assms(2) by (simp add: grep_memory_def)
  have small: "length str < 2 ^ 31" using assms(3) by simp
  obtain t where t: "put_literal U lit str s = Some t" "inv t" "(out t, rest t) = (emit (ascii str) (out s), rest s)"
    "\<And>p. p \<in> own \<Longrightarrow> p \<notin> region lit 2 \<Longrightarrow> u_mem U t p = u_mem U s p"
    by (rule put_literal_emits [OF assms(1) lit small assms(4), unfolded two]) auto
  note g = grep_memory_lit [OF assms(2) t(4)]
  show thesis using that [OF t(1,2) _ _ g] t(3) by simp
qed

text \<open>The output for a line at \<open>data + k\<close>.\<close>

lemma print_match:
  assumes inv: "inv s" and g: "grep_memory own data lit fname nm sa w (u_mem U s)"
    and l: "cstring (u_mem U s) (data + of_nat k) l" "k + length l \<le> 1024"
  obtains t where "Option.bind (ece391_fdputs U 1 fname s) (\<lambda>st. Option.bind (put_literal U lit '':'' st) (\<lambda>st.
      Option.bind (ece391_fdputs U 1 (data + of_nat k) st) (put_literal U lit [CHR 0x0A]))) = Some t"
    "inv t" "out t = emit (nm @ 58 # l @ [10]) (out s)" "rest t = rest s"
    "grep_memory own data lit fname nm sa w (u_mem U t)" "\<And>p. p \<in> region data 1025 \<Longrightarrow> u_mem U t p = u_mem U s p"
proof -
  note G = g [unfolded grep_memory_def]
  have nm: "cstring (u_mem U s) fname nm" "length nm < 2 ^ 31" "region fname (length nm) \<subseteq> own"
    using G region_mono [of "length nm" "Suc (length nm)" fname] by auto
  have len: "k + Suc (length l) \<le> 1025" using l(2) by simp
  have ln: "region (data + of_nat k) (Suc (length l)) \<subseteq> region data 1025"
    by (rule region_shift_subset [OF len])
  obtain s1 where s1: "ece391_fdputs U 1 fname s = Some s1" "inv s1" "out s1 = emit nm (out s)" "rest s1 = rest s"
    "grep_memory own data lit fname nm sa w (u_mem U s1)" "\<And>p. p \<in> region data 1025 \<Longrightarrow> u_mem U s1 p = u_mem U s p"
    by (rule say_string [OF inv g nm]) blast
  obtain s2 where s2: "put_literal U lit '':'' s1 = Some s2" "inv s2" "out s2 = emit (ascii '':'') (out s1)" "rest s2 = rest s1"
    "grep_memory own data lit fname nm sa w (u_mem U s2)" "\<And>p. p \<in> region data 1025 \<Longrightarrow> u_mem U s2 p = u_mem U s1 p"
    by (rule say_literal [OF s1(2,5), of "'':''"]) (simp_all add: ascii_def)
  have l2: "cstring (u_mem U s2) (data + of_nat k) l"
    by (rule cstring_cong [OF l(1)]) (use s1(6) s2(6) ln in \<open>simp add: subset_iff\<close>)
  have "region (data + of_nat k) (length l) \<subseteq> own" "length l < 2 ^ 31"
    using subset_trans [OF region_mono [of "length l" "Suc (length l)"] ln] G l(2) by auto
  with l2 obtain s3 where s3: "ece391_fdputs U 1 (data + of_nat k) s2 = Some s3" "inv s3" "out s3 = emit l (out s2)" "rest s3 = rest s2"
    "grep_memory own data lit fname nm sa w (u_mem U s3)" "\<And>p. p \<in> region data 1025 \<Longrightarrow> u_mem U s3 p = u_mem U s2 p"
    using say_string [OF s2(2,5)] by blast
  obtain t where t: "put_literal U lit [CHR 0x0A] s3 = Some t" "inv t" "out t = emit (ascii [CHR 0x0A]) (out s3)" "rest t = rest s3"
    "grep_memory own data lit fname nm sa w (u_mem U t)" "\<And>p. p \<in> region data 1025 \<Longrightarrow> u_mem U t p = u_mem U s3 p"
    by (rule say_literal [OF s3(2,5), of "[CHR 0x0A]"]) (simp_all add: ascii_def)
  have "nm @ 58 # l @ [10] = nm @ [58] @ l @ [10]" by simp
  then have "out t = emit (nm @ 58 # l @ [10]) (out s)"
    using s1(3) s2(3) s3(3) t(3) by (simp only: emit_append) (simp add: ascii_def)
  moreover have "Option.bind (ece391_fdputs U 1 fname s) (\<lambda>st. Option.bind (put_literal U lit '':'' st) (\<lambda>st.
      Option.bind (ece391_fdputs U 1 (data + of_nat k) st) (put_literal U lit [CHR 0x0A]))) = Some t"
    by (simp add: s1(1) s2(1) s3(1) t(1))
  ultimately show thesis using that t(2,4-6) s1(4,6) s2(4,6) s3(4,6) by simp
qed

lemma grep_line_prints:
  assumes inv: "inv s" and g: "grep_memory own data lit fname nm sa w (u_mem U s)"
    and l: "cstring (u_mem U s) (data + of_nat k) l" "k + length l \<le> 1024"
  shows "j \<le> length l \<Longrightarrow>
    \<exists>t. grep_line U lit sa fname (of_nat (length w)) data (of_nat k) (of_nat (k + length l)) (of_nat (k + j)) s = Some t \<and>
      inv t \<and> rest t = rest s \<and> grep_memory own data lit fname nm sa w (u_mem U t) \<and>
      out t = emit (if w \<noteq> [] \<and> sublist w (drop j l) then nm @ 58 # l @ [10] else []) (out s) \<and>
      (\<forall>p \<in> region data 1025. u_mem U t p = u_mem U s p)"
proof (induction "length l - j" arbitrary: j)
  case 0
  then have "j = length l" by simp
  then show ?case using inv g by (subst grep_line.simps) (simp add: emit_Nil)
next
  case (Suc n)
  then have j: "j < length l" by simp
  let ?m = "u_mem U s" and ?a = "data + of_nat (k + j)"
  have w: "cstring ?m sa w" using g by (simp add: grep_memory_def)
  have a: "cstring ?m ?a (drop j l)"
  proof -
    have "bytes ?m (data + of_nat k) (j + (length l - j)) = l" using l(1) j by (simp add: cstring_def)
    then have "bytes ?m ?a (length (drop j l)) = drop j l"
      unfolding bytes_append by (metis append_eq_conv_conj length_bytes length_drop of_nat_add add.assoc)
    moreover have "?a + of_nat (length (drop j l)) = data + of_nat k + of_nat (length l)" using j by (simp add: of_nat_diff)
    then have "?m (?a + of_nat (length (drop j l))) = 0" using cstring_end [OF l(1)] by (simp only:)
    ultimately show ?thesis using l(1) by (auto simp: cstring_def dest: in_set_dropD)
  qed
  have less: "sint (of_nat (k + j) :: i32) < sint (of_nat (k + length l) :: i32)" using j l(2) by (simp only: sint_u32_of_nat)
  have "drop j l = l ! j # drop (Suc j) l" using j by (simp add: Cons_nth_drop_Suc)
  then have sub: "sublist w (drop j l) \<longleftrightarrow> prefix w (drop j l) \<or> sublist w (drop (Suc j) l)"
    by (simp add: sublist_Cons_right)
  have hit: "?m sa = ?m ?a \<and> 0 = ece391_strncmp ?m ?a sa (of_nat (length w)) \<longleftrightarrow> w \<noteq> [] \<and> prefix w (drop j l)"
  proof (cases w)
    case Nil
    then have "?m sa = 0" using w by (simp add: cstring_def)
    moreover have "?m ?a \<noteq> 0" using cstring_Cons a \<open>drop j l = _\<close> by metis
    ultimately show ?thesis using Nil by simp
  next
    case (Cons c cs)
    then have "?m sa = c" using w cstring_Cons by blast
    moreover have "?m ?a = l ! j" using cstring_Cons a \<open>drop j l = _\<close> by metis
    ultimately show ?thesis using strncmp_prefix [OF a w] Cons \<open>drop j l = _\<close> by auto
  qed
  show ?case
  proof (cases "w \<noteq> [] \<and> prefix w (drop j l)")
    case True
    obtain t where t: "Option.bind (ece391_fdputs U 1 fname s) (\<lambda>st. Option.bind (put_literal U lit '':'' st) (\<lambda>st.
        Option.bind (ece391_fdputs U 1 (data + of_nat k) st) (put_literal U lit [CHR 0x0A]))) = Some t"
      "inv t" "out t = emit (nm @ 58 # l @ [10]) (out s)" "rest t = rest s"
      "grep_memory own data lit fname nm sa w (u_mem U t)" "\<And>p. p \<in> region data 1025 \<Longrightarrow> u_mem U t p = u_mem U s p"
      by (rule print_match [OF inv g l]) blast
    have "grep_line U lit sa fname (of_nat (length w)) data (of_nat k) (of_nat (k + length l)) (of_nat (k + j)) s = Some t"
      unfolding t(1) [symmetric] by (subst grep_line.simps) (simp only: less hit True if_True simp_thms)
    then show ?thesis using t(2-6) True sub by (intro exI [of _ t]) simp
  next
    case False
    have "grep_line U lit sa fname (of_nat (length w)) data (of_nat k) (of_nat (k + length l)) (of_nat (k + j)) s =
        grep_line U lit sa fname (of_nat (length w)) data (of_nat k) (of_nat (k + length l)) (of_nat (k + Suc j)) s"
      by (subst grep_line.simps) (simp only: less hit False if_True if_False, simp add: ac_simps)
    moreover have "w \<noteq> [] \<and> sublist w (drop j l) \<longleftrightarrow> w \<noteq> [] \<and> sublist w (drop (Suc j) l)" using False sub by auto
    ultimately show ?thesis using Suc.hyps(1) [of "Suc j"] Suc.hyps(2) j by simp
  qed
qed

lemma search_line:
  assumes inv: "inv s" and g: "grep_memory own data lit fname nm sa w (u_mem U s)"
    and l: "cstring (u_mem U s) (data + of_nat k) l" "k + length l \<le> 1024"
  obtains t where "grep_line U lit sa fname (of_nat (length w)) data (of_nat k) (of_nat (k + length l)) (of_nat k) s = Some t"
    "inv t" "rest t = rest s" "grep_memory own data lit fname nm sa w (u_mem U t)" "out t = emit (match_line nm w l) (out s)"
    "\<And>p. p \<in> region data 1025 \<Longrightarrow> u_mem U t p = u_mem U s p"
  using grep_line_prints [OF inv g l, of 0] by (auto simp: match_line_def)

text \<open>A line is ended in the buffer and searched.\<close>

lemma end_line:
  assumes inv: "inv s" and g: "grep_memory own data lit fname nm sa w (u_mem U s)"
    and l: "bytes (u_mem U s) (data + of_nat k) (length l) = l" "0 \<notin> set l" "k + length l \<le> 1024"
  defines "a \<equiv> data + of_nat (k + length l)"
  shows "inv (poke U a 0 s)" "out (poke U a 0 s) = out s" "rest (poke U a 0 s) = rest s" "u_mem U (poke U a 0 s) = (u_mem U s)(a := 0)"
    "grep_memory own data lit fname nm sa w ((u_mem U s)(a := 0))" "cstring ((u_mem U s)(a := 0)) (data + of_nat k) l"
proof -
  let ?m = "(u_mem U s)(a := 0)"
  have in_data: "a \<in> region data 1025" unfolding a_def using l(3) by (intro in_regionI) simp
  have own: "?m p = u_mem U s p" if "p \<notin> own" for p using that in_data g by (auto simp: grep_memory_def)
  show "inv (poke U a 0 s)" "out (poke U a 0 s) = out s" "rest (poke U a 0 s) = rest s" "u_mem U (poke U a 0 s) = ?m"
    using set_inv [where m = ?m, OF inv own] set_out [where m = ?m, OF inv own] by (simp_all add: poke_def mem_set)
  show "grep_memory own data lit fname nm sa w ?m"
    by (rule grep_memory_data [OF g]) (use in_data g in \<open>auto simp: grep_memory_def\<close>)
  have "a \<notin> region (data + of_nat k) (length l)"
    unfolding a_def using l(3) by (simp add: region_iff)
  then have "bytes ?m (data + of_nat k) (length l) = bytes (u_mem U s) (data + of_nat k) (length l)" by (intro bytes_cong) auto
  then show "cstring ?m (data + of_nat k) l" using l by (simp add: cstring_def a_def)
qed

lemma end_and_search:
  assumes inv: "inv s" and g: "grep_memory own data lit fname nm sa w (u_mem U s)"
    and l: "bytes (u_mem U s) (data + of_nat k) (length l) = l" "0 \<notin> set l" "k + length l \<le> 1024"
  obtains t where "grep_line U lit sa fname (of_nat (length w)) data (of_nat k) (of_nat (k + length l)) (of_nat k)
      (poke U (data + of_nat (k + length l)) 0 s) = Some t"
    "inv t" "rest t = rest s" "grep_memory own data lit fname nm sa w (u_mem U t)" "out t = emit (match_line nm w l) (out s)"
    "\<And>p. p \<in> region data 1025 \<Longrightarrow> p \<noteq> data + of_nat (k + length l) \<Longrightarrow> u_mem U t p = u_mem U s p"
proof -
  note e = end_line [OF inv g l]
  obtain t where t: "grep_line U lit sa fname (of_nat (length w)) data (of_nat k) (of_nat (k + length l)) (of_nat k)
      (poke U (data + of_nat (k + length l)) 0 s) = Some t"
    "inv t" "rest t = rest s" "grep_memory own data lit fname nm sa w (u_mem U t)" "out t = emit (match_line nm w l) (out s)"
    "\<And>p. p \<in> region data 1025 \<Longrightarrow> u_mem U t p = ((u_mem U s)(data + of_nat (k + length l) := 0)) p"
    by (rule search_line [OF e(1) e(5) [folded e(4)] e(6) [folded e(4)] l(3), unfolded e(2,3,4)]) blast
  show thesis by (rule that [OF t(1-5)]) (simp only: t(6) fun_upd_apply if_False)
qed

text \<open>
  The lines of a full buffer: \<open>p\<close> is the cut line that is left at its start, and what is printed here together with
  what is still to be printed for \<open>p\<close> and the rest of the file makes up the output for the lines from \<open>q\<close> on.
\<close>

definition searched :: "u32 \<Rightarrow> u32 \<Rightarrow> u8 list \<Rightarrow> u32 \<Rightarrow> u8 list \<Rightarrow> i32 \<Rightarrow> u8 list \<Rightarrow> 's \<Rightarrow> (i32 \<times> 's) option \<Rightarrow> bool" where
  "searched lit fname nm sa w cnt q s r \<longleftrightarrow>
     (\<exists>p t o1. r = Some (of_nat (length p), t) \<and> inv t \<and> rest t = rest s \<and> grep_memory own data lit fname nm sa w (u_mem U t) \<and>
        length p < 1024 \<and> bytes (u_mem U t) data (length p) = p \<and> 10 \<notin> set p \<and> 0 \<notin> set p \<and> (cnt = 0 \<longrightarrow> p = []) \<and>
        set (lines_of (p @ rest s)) \<subseteq> insert [] (set (lines_of (q @ rest s))) \<and>
        out t = emit o1 (out s) \<and> o1 @ grep_output nm w (lines_of (p @ rest s)) = grep_output nm w (lines_of (q @ rest s)))"

text \<open>The last line of the buffer, which no newline ends.\<close>

lemma last_line_searched:
  assumes inv: "inv s" and g: "grep_memory own data lit fname nm sa w (u_mem U s)"
    and q: "bytes (u_mem U s) (data + of_nat k) (length q) = q" "0 \<notin> set q" "10 \<notin> set q" "k + length q \<le> 1024"
    and more: "rest s \<noteq> [] \<Longrightarrow> cnt \<noteq> 0 \<and> k + length q = 1024 \<and> k \<noteq> 0"
  shows "searched lit fname nm sa w cnt q s
    (grep_lines U lit sa fname (of_nat (length w)) data cnt (of_nat (k + length q)) (of_nat k) s)"
proof -
  let ?m = "u_mem U s" and ?a = "data + of_nat (k + length q)"
  have find: "find_end ?m data (of_nat (k + length q)) (of_nat k) = Some (of_nat (k + length q))"
    by (rule find_end_line) (use q in simp_all)
  have k0: "(of_nat k :: i32) = 0 \<longleftrightarrow> k = 0" using q(4) u32_of_nat_eq_iff [of k 0] by simp
  have guard: "10 \<noteq> ?m ?a \<and> 0 \<noteq> cnt \<and> (of_nat k :: i32) \<noteq> 0 \<longleftrightarrow> ?m ?a \<noteq> 10 \<and> cnt \<noteq> 0 \<and> k \<noteq> 0" using k0 by auto
  note e = end_line [OF inv g q(1,2,4)]
  show ?thesis
  proof (cases "?m ?a \<noteq> 10 \<and> cnt \<noteq> 0 \<and> k \<noteq> 0")
    case True
    define m1 m2 t where "m1 = ?m(?a := 0)" and "m2 = store_bytes m1 data (q @ [0])" and "t = u_set_mem U m2 (poke U ?a 0 s)"
    note e' = e [folded m1_def]
    have "ece391_strcpy m1 data (data + of_nat k) = Some m2"
      unfolding m2_def by (rule strcpy_down [OF e'(6)]) (use q(4) in auto)
    then have run: "grep_lines U lit sa fname (of_nat (length w)) data cnt (of_nat (k + length q)) (of_nat k) s
        = Some (of_nat (length q), t)"
      using guard True by (subst grep_lines.simps) (simp only: find Option.bind.simps if_True guard True Let_def e'(4), simp add: t_def)
    have len: "length (q @ [0]) \<le> 1024" using q(4) True by simp
    have reg: "region data (length (q @ [0])) \<subseteq> region data 1025" using len by (intro region_mono) simp
    then have out': "m2 p = m1 p" if "p \<notin> region data 1025" for p
      unfolding m2_def using that by (intro store_bytes_outside) blast
    have "data + 1024 \<notin> region data (length (q @ [0]))" using len by (simp add: region_iff)
    then have "m2 (data + 1024) = m1 (data + 1024)" unfolding m2_def by (rule store_bytes_outside)
    moreover have "m1 (data + 1024) \<noteq> 10" using e'(5) by (simp add: grep_memory_def)
    ultimately have g2: "grep_memory own data lit fname nm sa w m2" by (intro grep_memory_data [OF e'(5) out']) simp_all
    have "region data 1025 \<subseteq> own" using g by (simp add: grep_memory_def)
    then have own: "m2 p = u_mem U (poke U ?a 0 s) p" if "p \<notin> own" for p unfolding e'(4) using that by (intro out') blast
    have st: "inv t" "out t = out s" "rest t = rest s" "u_mem U t = m2"
      using set_inv [where m = m2, OF e(1) own] set_out [where m = m2, OF e(1) own] e(2,3) by (simp_all add: t_def mem_set)
    have "bytes m2 data (length q) = q"
      using cstring_store_bytes [of q m1 data] q(2,4) by (simp add: m2_def cstring_def)
    then show ?thesis
      unfolding searched_def run
      by (intro exI [of _ q], intro exI [of _ t], intro exI [of _ "[]"]) (use st g2 len q True in \<open>auto simp: emit_Nil\<close>)
  next
    case False
    have rest: "rest s = []"
    proof (rule ccontr)
      assume "rest s \<noteq> []"
      from more [OF this] have c: "cnt \<noteq> 0" "k + length q = 1024" "k \<noteq> 0" by blast+
      with False have "?m (data + 1024) = 10" by simp
      then show False using g by (simp add: grep_memory_def)
    qed
    obtain t where t: "grep_line U lit sa fname (of_nat (length w)) data (of_nat k) (of_nat (k + length q)) (of_nat k) (poke U ?a 0 s) = Some t"
      "inv t" "rest t = rest s" "grep_memory own data lit fname nm sa w (u_mem U t)" "out t = emit (match_line nm w q) (out s)"
      by (rule end_and_search [OF inv g q(1,2,4)]) blast
    have "sint (of_nat (k + length q) + 1 :: i32) = int (k + length q) + 1"
      using sint_u32_of_nat [of "Suc (k + length q)"] q(4) by (simp add: ac_simps)
    then have over: "sint (of_nat (k + length q) :: i32) \<le> sint (of_nat (k + length q) + 1 :: i32)"
      using q(4) by (simp only: sint_u32_of_nat)
    have run: "grep_lines U lit sa fname (of_nat (length w)) data cnt (of_nat (k + length q)) (of_nat k) s = Some (0, t)"
      using guard False by (subst grep_lines.simps) (simp only: find Option.bind.simps if_False Let_def t(1) over if_True guard)
    show ?thesis
      unfolding searched_def run
      by (intro exI [of _ "[]"], intro exI [of _ t], intro exI [of _ "match_line nm w q"])
        (use t(2-5) rest lines_of_single [OF q(3)] in simp)
  qed
qed

lemma searched_step:
  assumes "searched lit fname nm sa w cnt q' t r"
    and "out t = emit (match_line nm w l) (out s)" "rest t = rest s" "lines_of (q @ rest s) = l # lines_of (q' @ rest s)"
  shows "searched lit fname nm sa w cnt q s r"
proof -
  obtain p u o1 where "r = Some (of_nat (length p), u)" "inv u" "rest u = rest s" "grep_memory own data lit fname nm sa w (u_mem U u)"
      "length p < 1024" "bytes (u_mem U u) data (length p) = p" "10 \<notin> set p" "0 \<notin> set p" "cnt = 0 \<longrightarrow> p = []"
      "set (lines_of (p @ rest s)) \<subseteq> insert [] (set (lines_of (q' @ rest s)))"
      "out u = emit o1 (out t)" "o1 @ grep_output nm w (lines_of (p @ rest s)) = grep_output nm w (lines_of (q' @ rest s))"
    using assms(1,3) unfolding searched_def by auto
  then show ?thesis
    unfolding searched_def
    by (intro exI [of _ p], intro exI [of _ u], intro exI [of _ "match_line nm w l @ o1"]) (use assms(2,4) in \<open>auto simp: emit_append\<close>)
qed

lemma grep_lines_searched:
  assumes "inv s" "grep_memory own data lit fname nm sa w (u_mem U s)"
    and "bytes (u_mem U s) (data + of_nat k) (length q) = q" "0 \<notin> set q" "k + length q \<le> 1024"
    and "rest s \<noteq> [] \<Longrightarrow> cnt \<noteq> 0 \<and> k + length q = 1024 \<and> (k \<noteq> 0 \<or> 10 \<in> set q)"
  shows "searched lit fname nm sa w cnt q s
    (grep_lines U lit sa fname (of_nat (length w)) data cnt (of_nat (k + length q)) (of_nat k) s)"
  using assms
proof (induction "length q" arbitrary: q k s rule: less_induct)
  case less
  show ?case
  proof (cases "10 \<in> set q")
    case False
    then show ?thesis using less.prems by (intro last_line_searched) auto
  next
    case True
    then obtain l q' where q: "q = l @ 10 # q'" "10 \<notin> set l" by (meson split_list_first)
    let ?m = "u_mem U s" and ?e = "k + length l"
    have qq: "length q = length l + Suc (length q')" by (simp add: q(1))
    have parts: "bytes ?m (data + of_nat k) (length l) = l" "?m (data + of_nat ?e) = 10"
      "bytes ?m (data + of_nat (Suc ?e)) (length q') = q'"
      using less.prems(3) unfolding qq bytes_append bytes_Suc unfolding q(1) by (simp_all add: ac_simps)
    have find: "find_end ?m data (of_nat (k + length q)) (of_nat k) = Some (of_nat ?e)"
      by (rule find_end_line) (use less.prems(5) q parts in simp_all)
    obtain t where t: "grep_line U lit sa fname (of_nat (length w)) data (of_nat k) (of_nat ?e) (of_nat k) (poke U (data + of_nat ?e) 0 s) = Some t"
      "inv t" "rest t = rest s" "grep_memory own data lit fname nm sa w (u_mem U t)" "out t = emit (match_line nm w l) (out s)"
      "\<And>p. p \<in> region data 1025 \<Longrightarrow> p \<noteq> data + of_nat ?e \<Longrightarrow> u_mem U t p = ?m p"
      by (rule end_and_search [OF less.prems(1,2) parts(1)]) (use less.prems(4,5) q(1) in auto)
    have next': "(of_nat ?e + 1 :: i32) = of_nat (Suc ?e)" by simp
    have over: "sint (of_nat (k + length q) :: i32) \<le> sint (of_nat (Suc ?e) :: i32) \<longleftrightarrow> q' = []"
      using less.prems(5) qq by (simp only: sint_u32_of_nat) simp
    define r where "r = grep_lines U lit sa fname (of_nat (length w)) data cnt (of_nat (k + length q)) (of_nat (Suc ?e)) t"
    have run: "grep_lines U lit sa fname (of_nat (length w)) data cnt (of_nat (k + length q)) (of_nat k) s
        = (if q' = [] then Some (0, t) else r)"
      by (subst grep_lines.simps) (simp only: find Option.bind.simps parts(2) simp_thms if_False Let_def t(1) next' over r_def)
    have lines: "lines_of (q @ rest s) = l # lines_of (q' @ rest s)" using lines_of_line [OF q(2), of "q' @ rest s"] by (simp add: q(1))
    have "searched lit fname nm sa w cnt q' t (if q' = [] then Some (0, t) else r)"
    proof (cases "q' = []")
      case True
      then show ?thesis unfolding searched_def
        by (intro exI [of _ "[]"], intro exI [of _ t], intro exI [of _ "[]"]) (use t(2,4) in \<open>auto simp: emit_Nil\<close>)
    next
      case False
      have r: "r = grep_lines U lit sa fname (of_nat (length w)) data cnt (of_nat (Suc ?e + length q')) (of_nat (Suc ?e)) t"
        unfolding r_def qq by (simp only: add_Suc_right add_Suc add.assoc)
      have "Suc ?e + length q' \<le> 1025" using less.prems(5) qq by simp
      then have "region (data + of_nat (Suc ?e)) (length q') \<subseteq> region data 1025" by (rule region_shift_subset)
      moreover have "data + of_nat ?e \<notin> region (data + of_nat (Suc ?e)) (length q')"
      proof -
        have "data + of_nat ?e - (data + of_nat (Suc ?e)) = -1" by simp
        then show ?thesis using less.prems(5) qq by (simp add: region_iff unsigned_minus_1_eq_mask mask_eq_exp_minus_1)
      qed
      ultimately have "bytes (u_mem U t) (data + of_nat (Suc ?e)) (length q') = bytes ?m (data + of_nat (Suc ?e)) (length q')"
        by (intro bytes_cong t(6)) auto
      then have "searched lit fname nm sa w cnt q' t r"
        unfolding r using less.prems(4-6) qq q(1) t(2-4) parts(3) by (intro less.hyps) auto
      then show ?thesis using False by simp
    qed
    then show ?thesis unfolding run by (rule searched_step [OF _ t(5,3) lines])
  qed
qed

text \<open>A read completes the cut line \<open>p\<close>.\<close>

lemma fill_buffer:
  assumes inv: "inv s" and g: "grep_memory own data lit fname nm sa w (u_mem U s)"
    and p: "length p < 1024" "bytes (u_mem U s) data (length p) = p"
  defines "d \<equiv> take (1024 - length p) (rest s)"
  obtains t where "u_read U fd (data + of_nat (length p)) (1024 - of_nat (length p)) s = Some (of_nat (length d), t)" "inv t"
    "grep_memory own data lit fname nm sa w (u_mem U t)" "bytes (u_mem U t) data (length (p @ d)) = p @ d" "length (p @ d) \<le> 1024"
    "rest t = drop (1024 - length p) (rest s)" "out t = out s"
proof -
  let ?a = "data + of_nat (length p)"
  have own: "region data 1025 \<subseteq> own" using g by (simp add: grep_memory_def)
  have n: "(1024 - of_nat (length p) :: i32) = of_nat (1024 - length p)" using p(1) by (simp add: of_nat_diff)
  obtain t where t: "u_read U fd ?a (of_nat (1024 - length p)) s = Some (of_nat (length d), t)" "inv t"
    "u_mem U t = store_bytes (u_mem U s) ?a d" "rest t = drop (1024 - length p) (rest s)" "out t = out s"
    using read_part [OF inv p(1) own] by (auto simp: d_def)
  have len: "length p + length d \<le> 1024" using p(1) by (simp add: d_def)
  then have "length p + length d \<le> 1025" by simp
  then have reg: "region ?a (length d) \<subseteq> region data 1025" by (rule region_shift_subset)
  have "data + 1024 - ?a = of_nat (1024 - length p)" using p(1) by (simp add: of_nat_diff)
  moreover have "unat (of_nat (1024 - length p) :: u32) = 1024 - length p" by (rule unat_u32_of_nat) simp
  ultimately have "data + 1024 \<notin> region ?a (length d)" using len by (simp add: region_iff)
  then have "u_mem U t (data + 1024) = u_mem U s (data + 1024)" unfolding t(3) by (rule store_bytes_outside)
  then have g': "grep_memory own data lit fname nm sa w (u_mem U t)"
    unfolding t(3) using g reg by (intro grep_memory_data [OF g] store_bytes_outside) (auto simp: grep_memory_def)
  have "data + of_nat i \<notin> region ?a (length d)" if "i < length p" for i
    using unat_of_nat_diff [of "length p" i] that len by (simp add: region_iff)
  then have "bytes (u_mem U t) data (length p) = p"
    unfolding t(3) by (subst (2) p(2) [symmetric], intro nth_equalityI) (simp_all add: store_bytes_outside)
  moreover have "bytes (u_mem U t) ?a (length d) = d" unfolding t(3) using len by (intro bytes_store_bytes) simp
  ultimately have "bytes (u_mem U t) data (length (p @ d)) = p @ d" by (simp only: length_append bytes_append)
  then show thesis using that [OF t(1) [folded n] t(2) g' _ _ t(4,5)] len by simp
qed

lemma grep_file_searches:
  assumes "inv s" "grep_memory own data lit fname nm sa w (u_mem U s)" "length p < 1024" "bytes (u_mem U s) data (length p) = p"
    "10 \<notin> set p" "0 \<notin> set p" "0 \<notin> set (rest s)" "\<forall>l \<in> set (lines_of (p @ rest s)). length l < 1024"
  shows "\<exists>t. grep_file U lit sa fname (of_nat (length w)) data fd (of_nat (length p)) s = Some (0, t) \<and>
    out t = emit (grep_output nm w (lines_of (p @ rest s))) (out s)"
  using assms
proof (induction "length (rest s)" arbitrary: s p rule: less_induct)
  case less
  let ?n = "1024 - length p"
  let ?d = "take ?n (rest s)"
  obtain t where t: "u_read U fd (data + of_nat (length p)) (1024 - of_nat (length p)) s = Some (of_nat (length ?d), t)" "inv t"
    "grep_memory own data lit fname nm sa w (u_mem U t)" "bytes (u_mem U t) data (length (p @ ?d)) = p @ ?d" "length (p @ ?d) \<le> 1024"
    "rest t = drop ?n (rest s)" "out t = out s"
    by (rule fill_buffer [OF less.prems(1-4)]) blast
  have all: "(p @ ?d) @ rest t = p @ rest s" using t(6) by simp
  have small: "length ?d \<le> 1024" by simp
  have "length ?d = 0 \<longleftrightarrow> rest s = []" unfolding length_0_conv take_eq_Nil using less.prems(3) by auto
  then have cnt: "(of_nat (length ?d) :: i32) = 0 \<longleftrightarrow> rest s = []"
    using u32_of_nat_eq_iff [of "length ?d" 0] small by (simp del: length_take)
  have nonneg: "(of_nat (length ?d) :: i32) \<noteq> -1"
  proof
    assume "(of_nat (length ?d) :: i32) = -1"
    then have "unat (of_nat (length ?d) :: u32) = 4294967295" by (simp only: unsigned_minus_1_eq_mask mask_eq_exp_minus_1) simp
    then show False using small by (simp del: length_take)
  qed
  have full: "length (p @ ?d) = 1024 \<and> 10 \<in> set (p @ ?d)" if "rest t \<noteq> []"
  proof
    show len: "length (p @ ?d) = 1024" using that t(6) less.prems(3) by simp
    show "10 \<in> set (p @ ?d)"
    proof (rule ccontr)
      assume "10 \<notin> set (p @ ?d)"
      from lines_of_prefix [OF this, of "rest t"] less.prems(8) len show False unfolding all [symmetric] by simp
    qed
  qed
  have "0 \<notin> set (p @ ?d)" using less.prems(6,7) by (auto dest: in_set_takeD)
  then have "searched lit fname nm sa w (of_nat (length ?d)) (p @ ?d) t (grep_lines U lit sa fname (of_nat (length w)) data
      (of_nat (length ?d)) (of_nat (0 + length (p @ ?d))) (of_nat 0) t)"
    using full t(6) cnt by (intro grep_lines_searched [OF t(2,3)]) (use t(4,5) in auto)
  then obtain p' u o1 where u: "grep_lines U lit sa fname (of_nat (length w)) data (of_nat (length ?d)) (of_nat (length p) + of_nat (length ?d)) 0 t
      = Some (of_nat (length p'), u)" "inv u" "rest u = rest t" "grep_memory own data lit fname nm sa w (u_mem U u)" "length p' < 1024"
      "bytes (u_mem U u) data (length p') = p'" "10 \<notin> set p'" "0 \<notin> set p'" "rest s = [] \<longrightarrow> p' = []"
      "set (lines_of (p' @ rest t)) \<subseteq> insert [] (set (lines_of (p @ rest s)))" "out u = emit o1 (out s)"
      "o1 @ grep_output nm w (lines_of (p' @ rest t)) = grep_output nm w (lines_of (p @ rest s))"
    unfolding searched_def all cnt t(7) by auto
  show ?case
  proof (cases "rest s = []")
    case True
    obtain v where v: "u_close U fd u = Some (0, v)" "out v = out u" using close_file [OF u(2)] by blast
    have "grep_file U lit sa fname (of_nat (length w)) data fd (of_nat (length p)) s = Some (0, v)"
      using t(1) u(1) v(1) cnt nonneg True by (subst grep_file.simps) simp
    moreover have "o1 = grep_output nm w (lines_of (p @ rest s))" using u(9,12) t(6) True by simp
    ultimately show ?thesis using u(11) v(2) by auto
  next
    case False
    have less_rest: "length (rest u) < length (rest s)"
      using False less.prems(3) length_greater_0_conv [of "rest s"] by (simp add: u(3) t(6) del: length_greater_0_conv)
    have "0 \<notin> set (rest u)" using less.prems(7) by (auto simp: u(3) t(6) dest: in_set_dropD)
    moreover have "\<forall>l \<in> set (lines_of (p' @ rest u)). length l < 1024" using u(10) less.prems(8) by (auto simp: u(3))
    ultimately obtain v where v: "grep_file U lit sa fname (of_nat (length w)) data fd (of_nat (length p')) u = Some (0, v)"
      "out v = emit (grep_output nm w (lines_of (p' @ rest u))) (out u)"
      using less.hyps [OF less_rest u(2,4,5,6,7,8)] by blast
    have "grep_file U lit sa fname (of_nat (length w)) data fd (of_nat (length p)) s = Some (0, v)"
      using t(1) u(1) v(1) cnt nonneg False by (subst grep_file.simps) simp
    moreover have "out v = emit (grep_output nm w (lines_of (p @ rest s))) (out s)"
      unfolding u(12) [symmetric] v(2) u(3,11) by (simp add: emit_append)
    ultimately show ?thesis by blast
  qed
qed

lemma do_one_file_searches:
  assumes "u_open U fname s = Some (fd, t)" "fd \<noteq> -1" "cstring (u_mem U s) sa w"
    and "inv t" "grep_memory own data lit fname nm sa w (u_mem U t)" "0 \<notin> set (rest t)" "\<forall>l \<in> set (lines_of (rest t)). length l < 1024"
  obtains u where "do_one_file U data lit sa fname s = Some (0, u)" "out u = emit (grep_output nm w (lines_of (rest t))) (out t)"
  using assms grep_file_searches [of t lit fname nm sa w "[]"] strlen_cstring [OF assms(3)]
  by (auto simp: do_one_file_def ece391_strlen_eq)

end

section \<open>The calls of the kernel\<close>

lemma readable_part:
  assumes "readable fd b n s" "0 < n'" "unat n' \<le> unat n" "region b' (unat n') \<inter> image_region (mem s) (bootmebb s) = {}"
  shows "readable fd b' n' s"
  using assms unfolding readable_def by (elim conjE, intro conjI) (assumption | simp)+

lemma readable_after_read:
  assumes ok: "readable fd b n s" and whole: "readable fd b' n' s"
  defines "d \<equiv> take (unat n) (unread fd s)"
  shows "readable fd b' n' (after_read fd b d s)"
proof -
  let ?s = "s\<lparr>mem := store_bytes (mem s) b d\<rparr>" and ?t = "after_read fd b d s"
  note after = after_read_readable [OF ok, folded d_def]
  have whole': "readable fd b' n' ?s" using readable_cong(1) [OF _ _ _ whole, of ?s] after(3) by simp
  have cf: "current_file fd ?t = (current_file fd ?s)\<lparr>file_position := file_position (current_file fd ?s) + of_nat (length d)\<rparr>"
    unfolding after_read_def using whole' by (subst current_update_file) (simp_all add: readable_def)
  have "unat (file_position (current_file fd ?t)) \<le> file_size (mem ?t) (bootmebb ?t) (fb_inode (current_file fd ?t))"
    using after(1) by (simp add: readable_def)
  then have "unat (file_position (current_file fd ?s) + of_nat (length d)) \<le> file_size (mem ?s) (bootmebb ?s) (fb_inode (current_file fd ?s))"
    unfolding cf by (simp add: after_read_def)
  then show ?thesis unfolding after_read_def by (rule readable_advance [OF whole'])
qed

definition grepping :: "u32 set \<Rightarrow> i32 \<Rightarrow> u32 \<Rightarrow> 'a kernel_scheme \<Rightarrow> bool" where
  "grepping own fd data s \<longleftrightarrow> copying own fd data s \<and> 2 \<le> unat fd"

lemma grepping_read:
  assumes s: "grepping own fd data s" and k: "k < 1024" and data: "region data 1025 \<subseteq> own"
  defines "d \<equiv> take (1024 - k) (unread fd s)"
  shows "sys_call_read dentry h fd (data + of_nat k) (of_nat (1024 - k)) s = Some (of_nat (length d), after_read fd (data + of_nat k) d s, h)"
    "grepping own fd data (after_read fd (data + of_nat k) d s)"
    "mem (after_read fd (data + of_nat k) d s) = store_bytes (mem s) (data + of_nat k) d"
    "unread fd (after_read fd (data + of_nat k) d s) = drop (1024 - k) (unread fd s)"
    "terminal_view (after_read fd (data + of_nat k) d s) = terminal_view s"
proof -
  have c: "program_ready own s" "readable fd data 1024 s" "2 \<le> unat fd" using s by (simp_all add: grepping_def copying_def)
  let ?b = "data + of_nat k" and ?n = "of_nat (1024 - k) :: i32"
  let ?t = "after_read fd ?b d s"
  have n: "unat ?n = 1024 - k" by (rule unat_u32_of_nat) simp
  have len: "k + (1024 - k) \<le> 1025" using k by simp
  have reg: "region ?b (1024 - k) \<subseteq> own" using region_shift_subset [OF len, of data] data by blast
  have part: "readable fd ?b ?n s"
  proof (rule readable_part [OF c(2)])
    show "0 < ?n" using n k by (simp add: word_less_nat_alt)
    show "region ?b (unat ?n) \<inter> image_region (mem s) (bootmebb s) = {}" unfolding n using reg c(1) by (auto simp: program_ready_def)
  qed (simp add: n)
  show "sys_call_read dentry h fd ?b ?n s = Some (of_nat (length d), ?t, h)"
    using sys_call_read_file [OF part, unfolded n, folded d_def] .
  show "mem ?t = store_bytes (mem s) ?b d" by (simp add: after_read_def)
  show "unread fd ?t = drop (1024 - k) (unread fd s)" using after_read_readable(2) [OF part, unfolded n, folded d_def] .
  have "region ?b (length d) \<subseteq> own" using reg region_mono [of "length d" "1024 - k" ?b] by (auto simp: d_def)
  then have "store_bytes (mem s) ?b d p = mem s p" if "p \<notin> own" for p using that by (intro store_bytes_outside) auto
  note o = own_memory [OF c(1) this]
  show "terminal_view ?t = terminal_view s" using o(2) by (simp add: after_read_def)
  have "unat fd \<noteq> unat (1 :: i32)" using c(3) by simp
  then have "program_ready own ?t" unfolding after_read_def using o(1) by (intro program_ready_update_file) simp_all
  moreover have "readable fd data 1024 ?t" using readable_after_read [OF part c(2), unfolded n, folded d_def] .
  moreover have "region data 1024 \<subseteq> own" using data region_mono [of 1024 1025 data] by auto
  ultimately show "grepping own fd data ?t" using c(3) by (simp add: grepping_def copying_def)
qed

lemma grepping_close:
  assumes "grepping own fd data s"
  obtains t where "sys_call_close fd s = Some (0, t)" "terminal_view t = terminal_view s"
proof -
  have c: "readable fd data 1024 s" "2 \<le> unat fd" using assms by (simp_all add: grepping_def copying_def)
  then have r: "unat fd < 8" "fb_flags (current_file fd s) = 1" "file_op_table_ptr (current_file fd s) = FILE_DEV" by (simp_all add: readable_def)
  then have "sint fd = int (unat fd)" by (intro sint_small) simp
  with c(2) r(1) have guard: "\<not> (sint fd < 2 \<or> sint fd > 7)" by linarith
  let ?t = "update_file fd (\<lambda>b. b\<lparr>fb_flags := 0\<rparr>) s"
  have "current_file fd ?t = (current_file fd s)\<lparr>fb_flags := 0\<rparr>" using c(1) by (subst current_update_file) (auto simp: readable_def)
  then have "sys_call_close fd s = Some (0, ?t)" using guard r by (simp add: sys_call_close_def Let_def)
  then show thesis by (rule that) simp
qed

interpretation kernel_grep: grep_files "kernel_calls A dev child" "\<lambda>(s, h). grepping own fd data s" own
  "\<lambda>(s, h). terminal_view s" type_text "\<lambda>(s, h). unread fd s" fd data for A dev child own fd data
proof (unfold_locales, goal_cases)
  case (1 m s)
  show ?case by (cases s) simp
next
  case (2 s m)
  then show ?case by (cases s) (auto simp: grepping_def intro: copying_set)
next
  case (3 s m)
  then show ?case by (cases s) (auto simp: grepping_def intro: copying_set)
next
  case (4 s n b)
  obtain k h where s: "s = (k, h)" by fastforce
  have "copying own fd data k" "2 \<le> unat fd" using 4(1) by (simp_all add: s grepping_def)
  then obtain t where "sys_call_write dev 1 b (of_nat n) k = Some (0, t)" "grepping own fd data t"
    "terminal_view t = type_text (bytes (mem k) b n) (terminal_view k)" "\<And>p. p \<in> own \<Longrightarrow> mem t p = mem k p"
    "unread fd t = unread fd k"
    using copying_write [where dev = dev, OF _ 4(2,3)] unfolding grepping_def by metis
  then show ?case by (intro exI [of _ "(t, h)"]) (simp add: s)
next
  case (5 s k)
  obtain u h where s: "s = (u, h)" by fastforce
  have "grepping own fd data u" using 5(1) by (simp add: s)
  note r = grepping_read [OF this 5(2,3)]
  show ?case
    by (intro exI [of _ "(after_read fd (data + of_nat k) (take (1024 - k) (unread fd u)) u, h)"]) (use r in \<open>simp add: s\<close>)
next
  case (6 s)
  obtain k h where s: "s = (k, h)" by fastforce
  have "grepping own fd data k" using 6(1) by (simp add: s)
  then obtain t where "sys_call_close fd k = Some (0, t)" "terminal_view t = terminal_view k" by (rule grepping_close)
  then show ?case by (intro exI [of _ "(t, h)"]) (simp add: s)
next
  case (7 x)
  show ?case by (rule type_text_Nil)
next
  case (8 xs ys x)
  show ?case by (rule type_text_append)
qed

section \<open>Properties\<close>

text \<open>
  C8: \<^verbatim>\<open>do_one_file\<close> of \<^verbatim>\<open>grep\<close> on this kernel: for a text file whose lines are shorter than the buffer it prints
  exactly the lines that contain the search string, in their order and each after the file's name and a colon,
  also those that the 1024 bytes of the buffer cut in two, and returns 0.
\<close>

theorem grep_prints_matching_lines:
  assumes ready: "program_ready own s"
    and files: "names_file (mem s) (bootmebb s) nm fc" "length fc + 1024 < 2 ^ 31" "nm \<noteq> []"
    and chars: "0 \<notin> set fc" "\<forall>l \<in> set (lines_of fc). length l < 1024"
    and memory: "grep_memory own data lit fname nm sa w (mem s)"
    and dentry: "region (at_dentry A) 64 \<subseteq> own"
      "region (at_dentry A) 64 \<inter> (region data 1025 \<union> region fname (Suc (length nm)) \<union> region sa (Suc (length w))) = {}"
    and cur: "unat (current_process_ID s) < length (PCB_array s)"
      "length (file_array (PCB_array s ! unat (current_process_ID s))) = 8"
    and slot: "fd_alloc (file_array (PCB_array s ! unat (current_process_ID s))) = Some i"
  shows "\<exists>t. do_one_file (kernel_calls A dev child) data lit sa fname (s, h) = Some (0, t) \<and>
    terminal_view (fst t) = type_text (grep_output nm w (lines_of fc)) (terminal_view s)"
proof -
  let ?U = "kernel_calls A dev child"
  have c: "cstring (mem s) fname nm" "cstring (mem s) sa w" "region data 1024 \<subseteq> own"
    using memory region_mono [of 1024 1025 data] by (auto simp: grep_memory_def)
  obtain t where t: "sys_call_open (at_dentry A) fname s = Some (of_nat i, t)" "copying own (of_nat i) data t"
    "unread (of_nat i) t = fc" "terminal_view t = terminal_view s" "\<And>p. p \<notin> region (at_dentry A) 64 \<Longrightarrow> mem t p = mem s p"
    "2 \<le> i" "i < 8"
    by (rule open_for_copying [OF ready c(1) files(3,1,2) cur slot c(3) dentry(1)]) blast
  have "data + 1024 \<notin> region (at_dentry A) 64" using last_in_data [of data] dentry(2) by blast
  then have "mem t (data + 1024) \<noteq> 10" using t(5) memory by (simp add: grep_memory_def)
  then have "grep_memory own data lit fname nm sa w (mem t)"
    using dentry(2) by (intro grep_memory_cong [OF memory] t(5)) blast+
  moreover have "grepping own (of_nat i) data t" using t(2,6,7) by (simp add: grepping_def)
  moreover have "u_open ?U fname (s, h) = Some (of_nat i, t, h)" using t(1) by simp
  moreover have "(of_nat i :: i32) \<noteq> -1" using u32_of_nat_eq_iff [of i "2 ^ 32 - 1"] t(7) by auto
  ultimately obtain u where "do_one_file ?U data lit sa fname (s, h) = Some (0, u)"
    "(\<lambda>(s, h). terminal_view s) u = type_text (grep_output nm w (lines_of fc)) (terminal_view t)"
    using kernel_grep.do_one_file_searches [of A dev child fname "(s, h)" "of_nat i" "(t, h)" sa w own data lit nm] c(2) chars t(3) by auto
  then show ?thesis unfolding t(4) by (auto simp: case_prod_beta)
qed

text \<open>The kernel of the other examples, with the name \<open>a\<close> of its file and the search string \<open>EL\<close> in the program's memory.\<close>

definition grep_kernel :: kernel where
  "grep_kernel = cat_kernel\<lparr>mem := elf_image(0x8001000 := 97, 0x8002000 := 69, 0x8002001 := 76)\<rparr>"

lemma grep_kernel_fields:
  "mem grep_kernel = elf_image(0x8001000 := 97, 0x8002000 := 69, 0x8002001 := 76)" "bootmebb grep_kernel = 0x400000"
  "unat (current_process_ID grep_kernel) < length (PCB_array grep_kernel)"
  "file_array (PCB_array grep_kernel ! unat (current_process_ID grep_kernel)) = initial_file_array"
  by (simp_all add: grep_kernel_def cat_kernel_fields)

lemma grep_kernel_ready: "program_ready (region 0x8000000 0x3000) grep_kernel"
  "names_file (mem grep_kernel) (bootmebb grep_kernel) [97] elf_file"
proof -
  have "0x8001000 \<in> region 0x8000000 0x3000" "0x8002000 \<in> region 0x8000000 0x3000" "0x8002001 \<in> region 0x8000000 0x3000"
    by (simp_all add: region_iff)
  then have "(elf_image(0x8001000 := 97, 0x8002000 := 69, 0x8002001 := 76)) p = mem cat_kernel p" if "p \<notin> region 0x8000000 0x3000" for p
    using that by (auto simp: cat_kernel_fields)
  note o = own_memory [where m = "elf_image(0x8001000 := 97, 0x8002000 := 69, 0x8002001 := 76)", OF cat_kernel_ready this]
  show "program_ready (region 0x8000000 0x3000) grep_kernel" using o(1) by (simp add: grep_kernel_def)
  have "file_type elf_image 0x400040 = 2" "inode_num elf_image 0x400040 = 0"
    by (simp_all add: file_type_def inode_num_def load32_def elf_image_def)
  then have "names_file elf_image 0x400000 [97] elf_file"
    unfolding names_file_def Let_def
    by - (rule exI [of _ 0], simp add: elf_lookup elf_image_wf elf_image_content d_table_entry_def)
  then show "names_file (mem grep_kernel) (bootmebb grep_kernel) [97] elf_file"
    using names_file_agrees [OF o(3)] by (simp add: grep_kernel_fields cat_kernel_fields)
qed

lemma grep_lengths: "Suc (length [97 :: u8]) = 2" "Suc (length [69, 76 :: u8]) = 3"
  by simp_all

lemma grep_kernel_memory:
  "grep_memory (region 0x8000000 0x3000) 0x8000000 0x8002100 0x8001000 [97] 0x8002000 [69, 76] (mem grep_kernel)"
proof -
  have sub: "region (0x8000000 + of_nat j) n \<subseteq> region 0x8000000 0x3000" if "j + n \<le> 0x3000" for j n
    using region_shift_subset [OF that] .
  have "region 0x8000000 1025 \<inter> region 0x8001000 2 = {}" "region 0x8000000 1025 \<inter> region 0x8002000 3 = {}"
    "region 0x8002100 2 \<inter> region 0x8000000 1025 = {}" "region 0x8002100 2 \<inter> region 0x8001000 2 = {}"
    "region 0x8002100 2 \<inter> region 0x8002000 3 = {}"
    by (rule region_disjointI; simp)+
  moreover have "cstring (mem grep_kernel) 0x8001000 [97]" "cstring (mem grep_kernel) 0x8002000 [69, 76]"
    by (simp_all add: cstring_def bytes_Suc grep_kernel_fields elf_image_def)
  moreover have "mem grep_kernel 0x8000400 \<noteq> 10" by (simp add: grep_kernel_fields elf_image_def)
  ultimately show ?thesis
    using sub [of 0 1025] sub [of "0x2100" 2] sub [of "0x1000" 2] sub [of "0x2000" 3]
    unfolding grep_memory_def grep_lengths by (simp add: Int_Un_distrib)
qed

theorem grep_prints_matching_lines_witness:
  "\<exists>t. do_one_file (kernel_calls \<lparr>at_words = 0, at_dentry = 0x8002200\<rparr> (\<lambda>_ _. 0) (\<lambda>_ _. None)) 0x8000000 0x8002100 0x8002000 0x8001000
     (grep_kernel, []) = Some (0, t) \<and>
     terminal_view (fst t) = type_text ([97, 58] @ elf_magic @ [4, 5, 6, 7, 8, 9, 10]) (terminal_view grep_kernel)"
proof -
  have lines: "lines_of elf_file = [elf_magic @ map of_nat [4..<10], map of_nat [11..<40]]"
    by (simp add: elf_file_def elf_magic_def upt_rec lines_of_Cons del: lines_of.simps(2))
  then have out: "grep_output [97] [69, 76] (lines_of elf_file) = [97, 58] @ elf_magic @ [4, 5, 6, 7, 8, 9, 10]"
    by (simp add: match_line_def elf_magic_def upt_rec sublist_Cons_right)
  have "0 \<notin> set elf_file" by (simp add: elf_file_def elf_magic_def upt_rec)
  moreover have "region 0x8002200 64 \<subseteq> region 0x8000000 0x3000" using region_shift_subset [of "0x2200" 64 "0x3000" "0x8000000"] by simp
  moreover have "region 0x8002200 64 \<inter> region 0x8000000 1025 = {}" "region 0x8002200 64 \<inter> region 0x8001000 2 = {}"
    "region 0x8002200 64 \<inter> region 0x8002000 3 = {}"
    by (rule region_disjointI; simp)+
  moreover have "fd_alloc initial_file_array = Some 2" "length initial_file_array = 8"
    unfolding fds.alloc_iff by (simp_all add: fd_used_def initial_file_array_def free_block_def)
  ultimately show ?thesis
    unfolding out [symmetric]
    by (intro grep_prints_matching_lines [OF grep_kernel_ready _ _ _ _ grep_kernel_memory, where i = 2, unfolded grep_lengths])
      (simp_all add: elf_file_facts(1) lines grep_kernel_fields Int_Un_distrib elf_magic_def)
qed

end
