(* ===== verification/Emulate.thy ===== *)
theory Emulate
  imports User_Lib Arguments
begin

text \<open>
  \<^verbatim>\<open>ece391emulate.c\<close>: the ten calls as functions of a Linux process, with which the user programs run on the host.
  The host is a parameter, a record of what the file calls: the instruction \<^verbatim>\<open>INT $0x80\<close> of Linux and the C library.
\<close>

section \<open>The host\<close>

text \<open>
  \<open>h_int80\<close> takes \<^verbatim>\<open>EAX\<close>, \<^verbatim>\<open>EBX\<close>, \<^verbatim>\<open>ECX\<close> and \<^verbatim>\<open>EDX\<close>.  \<open>h_readdir\<close> gives the address of \<^verbatim>\<open>d_name\<close> in the next entry.
  \<open>h_run\<close> is \<^verbatim>\<open>fork\<close>, \<^verbatim>\<open>execv\<close> in the child, which kills itself when that fails, and \<^verbatim>\<open>wait\<close>: the status word.
\<close>

record 'w host =
  h_int80 :: "u32 \<Rightarrow> u32 \<Rightarrow> u32 \<Rightarrow> u32 \<Rightarrow> memory \<times> 'w \<Rightarrow> (u32 \<times> memory \<times> 'w) option"
  h_open :: "string \<Rightarrow> u32 \<Rightarrow> 'w \<Rightarrow> i32 \<times> 'w"
  h_close :: "i32 \<Rightarrow> 'w \<Rightarrow> 'w"
  h_opendir :: "string \<Rightarrow> memory \<times> 'w \<Rightarrow> u32 \<times> memory \<times> 'w"
  h_readdir :: "u32 \<Rightarrow> memory \<times> 'w \<Rightarrow> u32 option \<times> memory \<times> 'w"
  h_closedir :: "u32 \<Rightarrow> 'w \<Rightarrow> 'w"
  h_mmap :: "u32 \<Rightarrow> i32 \<Rightarrow> memory \<times> 'w \<Rightarrow> u32 \<times> memory \<times> 'w"
  h_perror :: "string \<Rightarrow> 'w \<Rightarrow> 'w"
  h_run :: "u32 \<Rightarrow> u32 list \<Rightarrow> memory \<times> 'w \<Rightarrow> (u32 \<times> 'w) option"

text \<open>The process: its memory, the static variables of the file, and the world around it.\<close>

record 'w emulation =
  e_mem :: memory
  start_esp :: u32
  dir_fd :: i32
  dir :: u32
  mem_fd :: i32
  world :: 'w

text \<open>An operation of the host, which sees the memory and the world.\<close>

fun host_result :: "'w emulation \<Rightarrow> 'a \<times> memory \<times> 'w \<Rightarrow> 'a \<times> 'w emulation" where
  "host_result st (r, m, w) = (r, st\<lparr>e_mem := m, world := w\<rparr>)"

definition int80 :: "'w host \<Rightarrow> u32 \<Rightarrow> u32 \<Rightarrow> u32 \<Rightarrow> u32 \<Rightarrow> 'w emulation \<Rightarrow> (u32 \<times> 'w emulation) option" where
  "int80 H eax ebx ecx edx st = map_option (host_result st) (h_int80 H eax ebx ecx edx (e_mem st, world st))"

section \<open>The stubs\<close>

definition DO_CALL :: "'w host \<Rightarrow> u32 \<Rightarrow> u32 \<Rightarrow> u32 \<Rightarrow> u32 \<Rightarrow> 'w emulation \<Rightarrow> (i32 \<times> 'w emulation) option" where
  "DO_CALL H number ebx ecx edx st =
     map_option (\<lambda>(eax, st). (if eax \<le> 0xFFFFC000 then eax else -1, st)) (int80 H number ebx ecx edx st)"

section \<open>ece391_execute\<close>

partial_function (option) word_end :: "memory \<Rightarrow> u32 \<Rightarrow> u32 option" where
  "word_end m scan = (if 0 \<noteq> m scan \<and> 32 \<noteq> m scan \<and> 10 \<noteq> m scan then word_end m (scan + 1) else Some scan)"

partial_function (option) skip_spaces :: "memory \<Rightarrow> u32 \<Rightarrow> u32 option" where
  "skip_spaces m scan = (if 32 = m scan then skip_spaces m (scan + 1) else Some scan)"

partial_function (option) parse_arguments :: "memory \<Rightarrow> u32 \<Rightarrow> u32 list \<Rightarrow> (memory \<times> u32 list) option" where
  "parse_arguments m scan args =
     do {
       scan \<leftarrow> skip_spaces m scan;
       if 0 = m scan \<or> 10 = m scan then Some (m(scan := 0), args)
       else do {
         let args = args @ [scan];
         scan \<leftarrow> word_end m scan;
         if 0 \<noteq> m scan then parse_arguments (m(scan := 0)) (scan + 1) args else parse_arguments m scan args
       }
     }"

text \<open>The status word of \<^verbatim>\<open>wait\<close>.\<close>

definition wait_result :: "u32 \<Rightarrow> i32" where
  "wait_result status =
     (if status AND 0x7F = 0 then drop_bit 8 (status AND 0xFF00) else if status AND 0x7F = 9 then -1 else 256)"

definition emu_execute :: "'w host \<Rightarrow> u32 \<Rightarrow> u32 \<Rightarrow> 'w emulation \<Rightarrow> (i32 \<times> 'w emulation) option" where
  "emu_execute H buf command st =
     do {
       len \<leftarrow> ece391_strlen (e_mem st) command;
       if 1023 < len then Some (-1, st)
       else do {
         m \<leftarrow> ece391_strcpy ((e_mem st)(buf := 46, buf + 1 := 47)) (buf + 2) command;
         scan \<leftarrow> word_end m (buf + 2);
         (m, args) \<leftarrow> if 0 \<noteq> m scan then parse_arguments (m(scan := 0)) (scan + 1) [buf] else Some (m, [buf]);
         (status, w) \<leftarrow> h_run H buf args (m, world st);
         Some (wait_result status, st\<lparr>e_mem := m, world := w\<rparr>)
       }
     }"

section \<open>ece391_open\<close>

text \<open>\<open>lit\<close> is where the literal lies; \<open>edx\<close> is what the register happens to hold.\<close>

definition emu_open :: "'w host \<Rightarrow> u32 \<Rightarrow> u32 \<Rightarrow> u32 \<Rightarrow> 'w emulation \<Rightarrow> (i32 \<times> 'w emulation) option" where
  "emu_open H lit edx filename st =
     do {
       let st = st\<lparr>e_mem := store_bytes (e_mem st) lit (ascii ''.'' @ [0])\<rparr>;
       c \<leftarrow> ece391_strcmp (e_mem st) filename lit;
       if 0 = c
       then
         let (d, st) = host_result st (h_opendir H ''.'' (e_mem st, world st)); (fd, w) = h_open H ''/dev/null'' 0 (world st)
         in Some (fd, st\<lparr>dir := d, dir_fd := fd, world := w\<rparr>)
       else do {
         (rval, st) \<leftarrow> int80 H 5 filename 0 edx st;
         Some (if rval > 0xFFFFC000 then -1 else rval, st)
       }
     }"

section \<open>ece391_getargs\<close>

definition end_args :: "memory \<Rightarrow> u32 \<Rightarrow> i32 \<Rightarrow> i32 \<times> memory" where
  "end_args m buf nbytes = (if nbytes <s 1 then (-1, m) else (0, m(buf := 0)))"

partial_function (option) copy_args :: "u32 \<Rightarrow> i32 \<Rightarrow> memory \<Rightarrow> u32 \<Rightarrow> i32 \<Rightarrow> i32 \<Rightarrow> (i32 \<times> memory) option" where
  "copy_args argv argc m buf nbytes idx =
     (if idx <s argc
      then do {
        len \<leftarrow> ece391_strlen m (load32 m (argv + 4 * idx));
        if nbytes <s len then Some (-1, m)
        else do {
          m \<leftarrow> ece391_strcpy m buf (load32 m (argv + 4 * idx));
          let buf = buf + len;
          let nbytes = nbytes - len;
          let idx = idx + 1;
          if argc \<le>s idx then Some (end_args m buf nbytes)
          else if nbytes <s 1 then Some (-1, m)
          else copy_args argv argc (m(buf := 32)) (buf + 1) (nbytes - 1) idx
        }
      }
      else Some (end_args m buf nbytes))"

definition emu_getargs :: "u32 \<Rightarrow> i32 \<Rightarrow> 'w emulation \<Rightarrow> (i32 \<times> 'w emulation) option" where
  "emu_getargs buf nbytes st =
     map_option (\<lambda>(r, m). (r, st\<lparr>e_mem := m\<rparr>))
       (copy_args (start_esp st + 4) (load32 (e_mem st) (start_esp st)) (e_mem st) buf nbytes 1)"

section \<open>ece391_vidmap\<close>

definition emu_vidmap :: "'w host \<Rightarrow> u32 \<Rightarrow> 'w emulation \<Rightarrow> i32 \<times> 'w emulation" where
  "emu_vidmap H screen_start st =
     (let st = (if mem_fd st = -1 then let (fd, w) = h_open H ''/dev/mem'' 2 (world st) in st\<lparr>mem_fd := fd, world := w\<rparr> else st);
          (mem_image, st) = host_result st (h_mmap H (1024 * 1024) (mem_fd st) (e_mem st, world st))
      in if mem_image = -1 then (-1, st\<lparr>world := h_perror H ''mmap low memory'' (world st)\<rparr>)
         else (0, st\<lparr>e_mem := store32 (e_mem st) screen_start (mem_image + 0xB8000)\<rparr>))"

section \<open>ece391_read, ece391_write, ece391_close\<close>

partial_function (option) pad_name :: "memory \<Rightarrow> u32 \<Rightarrow> i32 \<Rightarrow> i32 \<Rightarrow> (i32 \<times> memory) option" where
  "pad_name m to copied nbytes =
     (if copied <s nbytes \<and> copied <s 32 then pad_name (m(to := 0)) (to + 1) (copied + 1) nbytes else Some (copied, m))"

partial_function (option) copy_entry :: "memory \<Rightarrow> u32 \<Rightarrow> u32 \<Rightarrow> i32 \<Rightarrow> i32 \<Rightarrow> (i32 \<times> memory) option" where
  "copy_entry m from' to copied nbytes =
     (if 0 \<noteq> m from'
      then
        let m = m(to := m from'); copied = copied + 1
        in if copied = nbytes then Some (nbytes, m) else if 32 = copied then Some (32, m)
           else copy_entry m (from' + 1) (to + 1) copied nbytes
      else pad_name m to copied nbytes)"

definition emu_read :: "'w host \<Rightarrow> i32 \<Rightarrow> u32 \<Rightarrow> i32 \<Rightarrow> 'w emulation \<Rightarrow> (i32 \<times> 'w emulation) option" where
  "emu_read H fd buf nbytes st =
     (if 0 = dir st \<or> dir_fd st \<noteq> fd then DO_CALL H 3 fd buf nbytes st
      else
        let (de, st) = host_result st (h_readdir H (dir st) (e_mem st, world st))
        in case de of
             None \<Rightarrow> Some (0, st)
           | Some from' \<Rightarrow> map_option (\<lambda>(r, m). (r, st\<lparr>e_mem := m\<rparr>)) (copy_entry (e_mem st) from' buf 0 nbytes))"

definition emu_write :: "'w host \<Rightarrow> i32 \<Rightarrow> u32 \<Rightarrow> i32 \<Rightarrow> 'w emulation \<Rightarrow> (i32 \<times> 'w emulation) option" where
  "emu_write H fd buf nbytes st = (if 0 = dir st \<or> dir_fd st \<noteq> fd then DO_CALL H 4 fd buf nbytes st else Some (-1, st))"

definition emu_close :: "'w host \<Rightarrow> u32 \<Rightarrow> u32 \<Rightarrow> i32 \<Rightarrow> 'w emulation \<Rightarrow> (i32 \<times> 'w emulation) option" where
  "emu_close H ecx edx fd st =
     (if 0 = dir st \<or> dir_fd st \<noteq> fd then DO_CALL H 6 fd ecx edx st
      else Some (0, st\<lparr>dir := 0, dir_fd := -1, world := h_close H (dir_fd st) (h_closedir H (dir st) (world st))\<rparr>))"

section \<open>The start of a program, and the calls together\<close>

definition emu_start :: "'w host \<Rightarrow> u32 \<Rightarrow> u32 \<Rightarrow> u32 \<Rightarrow> ('w emulation \<Rightarrow> (i32 \<times> 'w emulation) option) \<Rightarrow> 'w emulation \<Rightarrow> (i32 \<times> 'w emulation) option" where
  "emu_start H esp ecx edx main st = Option.bind (main (st\<lparr>start_esp := esp\<rparr>)) (\<lambda>(r, st). DO_CALL H 1 r ecx edx st)"

text \<open>The calls that the programs of theory \<open>User_Programs\<close> take, filled by the emulation.\<close>

record emulation_locals =
  at_path :: u32
  at_dot :: u32
  in_ecx :: u32
  in_edx :: u32

definition emulated_calls :: "'w host \<Rightarrow> emulation_locals \<Rightarrow> 'w emulation calls" where
  "emulated_calls H A = \<lparr>
     u_mem = e_mem, u_set_mem = (\<lambda>m st. st\<lparr>e_mem := m\<rparr>), u_read = emu_read H, u_write = emu_write H,
     u_open = emu_open H (at_dot A) (in_edx A), u_close = emu_close H (in_ecx A) (in_edx A), u_getargs = emu_getargs,
     u_vidmap = (\<lambda>p st. Some (emu_vidmap H p st)), u_execute = emu_execute H (at_path A)\<rparr>"

section \<open>The words of a command\<close>

text \<open>A word ends at a space or a newline; a newline where a word could start ends the command.\<close>

definition in_word :: "u8 \<Rightarrow> bool" where
  "in_word c \<longleftrightarrow> c \<noteq> 32 \<and> c \<noteq> 10"

function more_words :: "u8 list \<Rightarrow> u8 list list" where
  "more_words cs =
     (case dropWhile (\<lambda>c. c = 32) cs of
        [] \<Rightarrow> []
      | c # r \<Rightarrow> if c = 10 then [] else takeWhile in_word (c # r) # more_words (tl (dropWhile in_word (c # r))))"
  by pat_completeness auto
termination
proof (relation "measure length")
  fix cs r :: "u8 list" and c
  assume "dropWhile (\<lambda>c. c = 32) cs = c # r" "c \<noteq> 10"
  then have "c \<noteq> 32" "length (c # r) \<le> length cs"
    using hd_dropWhile [of "\<lambda>c. c = 32" cs] length_dropWhile_le [of "\<lambda>c. c = 32" cs] by auto
  with \<open>c \<noteq> 10\<close> show "(tl (dropWhile in_word (c # r)), cs) \<in> measure length"
    using length_dropWhile_le [of in_word r] by (simp add: in_word_def)
qed simp

declare more_words.simps [simp del]

definition command_words :: "u8 list \<Rightarrow> u8 list list" where
  "command_words cs = takeWhile in_word cs # more_words (tl (dropWhile in_word cs))"

lemma region_after: "i + k \<le> 2 ^ 32 \<Longrightarrow> region a i \<inter> region (a + of_nat i) k = {}"
proof (rule ccontr)
  assume le: "i + k \<le> 2 ^ 32" and "region a i \<inter> region (a + of_nat i) k \<noteq> {}"
  then obtain j l where "j < i" "l < k" "(of_nat j :: u32) = of_nat (i + l)" by (auto simp: region_def add.assoc)
  then show False using le u32_of_nat_eq_iff [of j "i + l"] by simp
qed

lemma cstring_append:
  assumes "cstring m s (xs @ ys)" shows "cstring m (s + of_nat (length xs)) ys" "bytes m s (length xs) = xs"
  using assms by (auto simp: cstring_def bytes_append add.assoc)

lemma skip_spaces_to: "cstring m s cs \<Longrightarrow> skip_spaces m s = Some (s + of_nat (length (takeWhile (\<lambda>c. c = 32) cs)))"
proof (induction cs arbitrary: s)
  case Nil
  then show ?case by (subst skip_spaces.simps) (simp add: cstring_def)
next
  case (Cons c cs)
  then have "m s = c" "cstring m (s + 1) cs" by (auto dest: cstring_Cons)
  with Cons.IH [of "s + 1"] show ?case by (subst skip_spaces.simps) (simp add: add.assoc)
qed

lemma word_end_to: "cstring m s cs \<Longrightarrow> word_end m s = Some (s + of_nat (length (takeWhile in_word cs)))"
proof (induction cs arbitrary: s)
  case Nil
  then show ?case by (subst word_end.simps) (simp add: cstring_def)
next
  case (Cons c cs)
  then have "m s = c" "c \<noteq> 0" "cstring m (s + 1) cs" by (auto dest: cstring_Cons)
  with Cons.IH [of "s + 1"] show ?case
    by (subst word_end.simps) (cases "c = 32 \<or> c = 10"; auto simp: add.assoc in_word_def cong: takeWhile_cong)
qed

text \<open>Replacing the character after a word by a zero ends the word there, and leaves what follows.\<close>

lemma word_ended:
  assumes "cstring m s (w @ d # r)" "length (w @ d # r) < 2 ^ 31"
  defines "q \<equiv> s + of_nat (length w)"
  shows "m q = d" "cstring (m(q := 0)) s w" "cstring (m(q := 0)) (q + 1) r"
    "region s (length w + 1) \<inter> region (q + 1) (length r + 1) = {}"
proof -
  have len: "length w + 1 + (length r + 1) \<le> 2 ^ 32" using assms(2) by simp
  have d: "cstring m q (d # r)" "bytes m s (length w) = w" unfolding q_def using cstring_append [OF assms(1)] by simp_all
  then show "m q = d" by (auto dest: cstring_Cons)
  show apart: "region s (length w + 1) \<inter> region (q + 1) (length r + 1) = {}"
    using region_after [OF len, of s] by (simp add: q_def ac_simps)
  have "q \<in> region s (length w + 1)" unfolding q_def by (rule in_regionI) simp
  with apart have "q \<notin> region (q + 1) (Suc (length r))" unfolding Suc_eq_plus1 by blast
  then have "(m(q := 0)) a = m a" if "a \<in> region (q + 1) (Suc (length r))" for a using that by (intro fun_upd_other) blast
  moreover have "cstring m (q + 1) r" using cstring_Cons [OF d(1)] by blast
  ultimately show "cstring (m(q := 0)) (q + 1) r" by (rule cstring_cong [rotated])
  have "region s (length w) \<inter> region q 1 = {}" unfolding q_def by (rule region_after) (use len in simp)
  then have "q \<notin> region s (length w)" by (auto simp: region_Suc)
  then have "bytes (m(q := 0)) s (length w) = bytes m s (length w)" by (intro bytes_cong) auto
  then show "cstring (m(q := 0)) s w" using d(2) assms(1,2) by (auto simp: cstring_def q_def)
qed

lemma parse_arguments_words:
  "cstring m scan cs \<Longrightarrow> length cs < 2 ^ 31 \<Longrightarrow>
    \<exists>m' ps. parse_arguments m scan args = Some (m', args @ ps) \<and> list_all2 (cstring m') ps (more_words cs) \<and>
      (\<forall>a. a \<notin> region scan (length cs + 1) \<longrightarrow> m' a = m a)"
proof (induction "length cs" arbitrary: m scan cs args rule: less_induct)
  case less
  define sp cs1 where "sp = takeWhile (\<lambda>c. c = 32) cs" and "cs1 = dropWhile (\<lambda>c. c = 32) cs"
  define p where "p = scan + of_nat (length sp)"
  have cs: "cs = sp @ cs1" by (simp add: sp_def cs1_def)
  have skip: "skip_spaces m scan = Some p" using skip_spaces_to [OF less.prems(1)] by (simp add: p_def sp_def)
  have p: "cstring m p cs1" unfolding p_def using less.prems(1) cs cstring_append(1) by metis
  have sub: "region p (length cs1 + 1) \<subseteq> region scan (length cs + 1)"
    unfolding p_def by (rule region_shift_subset) (simp add: cs)
  have at_p: "p \<in> region scan (length cs + 1)" unfolding p_def by (rule in_regionI) (simp add: cs)
  show ?case
  proof (cases "cs1 = [] \<or> hd cs1 = 10")
    case True
    then have "m p = 0 \<or> m p = 10"
    proof
      assume "cs1 = []"
      with p show ?thesis by (simp add: cstring_def)
    next
      assume "hd cs1 = 10"
      show ?thesis
      proof (cases cs1)
        case (Cons c r)
        with p \<open>hd cs1 = 10\<close> show ?thesis by (auto dest: cstring_Cons)
      qed (use p in \<open>simp add: cstring_def\<close>)
    qed
    then have "parse_arguments m scan args = Some (m(p := 0), args @ [])" by (subst parse_arguments.simps) (auto simp: skip)
    moreover have "more_words cs = []" using True by (subst more_words.simps) (auto simp: cs1_def [symmetric] split: list.split)
    ultimately show ?thesis using at_p by (intro exI [of _ "m(p := 0)"] exI [of _ "[]"]) auto
  next
    case False
    define w rest where "w = takeWhile in_word cs1" and "rest = dropWhile in_word cs1"
    define q where "q = p + of_nat (length w)"
    have wr: "cs1 = w @ rest" by (simp add: w_def rest_def)
    have words: "more_words cs = w # more_words (tl rest)"
      using False by (subst more_words.simps) (cases cs1, auto simp: cs1_def [symmetric] w_def rest_def)
    have hd: "hd cs1 \<noteq> 32" using False hd_dropWhile [of "\<lambda>c. c = 32" cs] by (auto simp: cs1_def)
    have "m p \<noteq> 0" "m p \<noteq> 10" using p False by (cases cs1, auto dest: cstring_Cons)+
    moreover have "word_end m p = Some q" using word_end_to [OF p] by (simp add: q_def w_def)
    ultimately have run: "parse_arguments m scan args =
        (if 0 \<noteq> m q then parse_arguments (m(q := 0)) (q + 1) (args @ [p]) else parse_arguments m q (args @ [p]))"
      by (subst parse_arguments.simps) (simp add: skip)
    show ?thesis
    proof (cases rest)
      case Nil
      then have z: "m q = 0" using p wr by (simp add: q_def cstring_def)
      then have "parse_arguments m q (args @ [p]) = Some (m, args @ [p])"
        by (subst parse_arguments.simps, subst skip_spaces.simps) (auto simp: fun_upd_idem)
      then show ?thesis using run z words Nil p wr
        by (intro exI [of _ m] exI [of _ "[p]"]) (simp add: more_words.simps [of "[]"])
    next
      case (Cons d r)
      have pw: "cstring m p (w @ d # r)" using p wr Cons by simp
      have len: "length (w @ d # r) < 2 ^ 31" using less.prems(2) cs wr Cons by simp
      note e = word_ended [OF pw len, folded q_def]
      have "d \<noteq> 0" using pw by (auto simp: cstring_def)
      moreover have "length r < length cs" "length r < 2 ^ 31" using cs wr Cons len by simp_all
      from less.hyps [OF this(1) e(3) this(2), of "args @ [p]"] obtain m' ps where
        m': "parse_arguments (m(q := 0)) (q + 1) (args @ [p]) = Some (m', (args @ [p]) @ ps)" "list_all2 (cstring m') ps (more_words r)"
          "\<And>a. a \<notin> region (q + 1) (length r + 1) \<Longrightarrow> m' a = (m(q := 0)) a" by blast
      have "cstring m' p w" by (rule cstring_cong [OF e(2)], rule m'(3)) (use e(4) in \<open>unfold Suc_eq_plus1, blast\<close>)
      moreover have "m' a = m a" if "a \<notin> region scan (length cs + 1)" for a
      proof -
        have "region (p + of_nat (length w)) (Suc (length r + 1)) \<subseteq> region p (length cs1 + 1)"
          by (rule region_shift_subset) (simp add: wr Cons)
        then have "insert q (region (q + 1) (length r + 1)) \<subseteq> region p (length cs1 + 1)" by (simp add: q_def [symmetric] region_Suc [of q])
        with sub have "insert q (region (q + 1) (length r + 1)) \<subseteq> region scan (length cs + 1)" by blast
        with that have "a \<notin> region (q + 1) (length r + 1)" "a \<noteq> q" by blast+
        with m'(3) [of a] show ?thesis by simp
      qed
      ultimately show ?thesis using run e(1) m' words Cons by (intro exI [of _ m'] exI [of _ "p # ps"]) simp
    qed
  qed
qed

section \<open>The program and its arguments\<close>

lemma cstring_ConsI: "m s = c \<Longrightarrow> c \<noteq> 0 \<Longrightarrow> cstring m (s + 1) cs \<Longrightarrow> length cs < 2 ^ 31 \<Longrightarrow> cstring m s (c # cs)"
  by (simp add: cstring_def bytes_Suc add.assoc)

text \<open>What \<^verbatim>\<open>ece391_execute\<close> has in its buffer before it looks for the words: the command behind a path.\<close>

lemma path_copied:
  assumes cmd: "cstring m command cs" "length cs \<le> 1023" and apart: "region buf 1026 \<inter> region command (length cs + 1) = {}"
  obtains m1 where "ece391_strcpy (m(buf := 46, buf + 1 := 47)) (buf + 2) command = Some m1" "cstring m1 buf (46 # 47 # cs)"
    "\<And>a. a \<notin> region buf 1026 \<Longrightarrow> m1 a = m a"
proof -
  define m0 where "m0 = m(buf := 46, buf + 1 := 47)"
  define m1 where "m1 = store_bytes m0 (buf + 2) (cs @ [0])"
  have in2: "buf \<in> region buf 1026" "buf + 1 \<in> region buf 1026" using in_regionI [of 0 1026 buf] in_regionI [of 1 1026 buf] by simp_all
  have sub: "region (buf + 2) (length (cs @ [0 :: u8])) \<subseteq> region buf 1026"
    using region_shift_subset [of 2 "length cs + 1" 1026 buf] cmd(2) by simp
  have "cstring m0 command cs"
    by (rule cstring_cong [OF cmd(1)]) (use apart in2 in \<open>auto simp: m0_def\<close>)
  moreover have "region (buf + 2) (Suc (length cs)) \<inter> region command (Suc (length cs)) = {}" using sub apart by auto
  ultimately have copied: "ece391_strcpy m0 (buf + 2) command = Some m1" unfolding ece391_strcpy_eq m1_def by (rule strcpy_spec)
  have "cstring m1 (buf + 2) cs" unfolding m1_def using cmd by (intro cstring_store_bytes) (simp_all add: cstring_def)
  moreover have "region buf 2 \<inter> region (buf + 2) (length (cs @ [0 :: u8])) = {}"
    using region_after [of 2 "length (cs @ [0 :: u8])" buf] cmd(2) by simp
  then have "buf \<notin> region (buf + 2) (length (cs @ [0 :: u8]))" "buf + 1 \<notin> region (buf + 2) (length (cs @ [0 :: u8]))"
    by (simp_all add: region_Suc numeral_2_eq_2)
  then have "m1 buf = 46" "m1 (buf + 1) = 47" by (simp_all add: m1_def m0_def store_bytes_outside)
  ultimately have "cstring m1 buf (46 # 47 # cs)" using cmd(2) by (intro cstring_ConsI) (simp_all add: add.assoc)
  moreover have "m1 a = m a" if "a \<notin> region buf 1026" for a
  proof -
    have "a \<notin> region (buf + 2) (length (cs @ [0 :: u8]))" "a \<noteq> buf" "a \<noteq> buf + 1" using that sub in2 by blast+
    then show ?thesis by (simp add: m1_def m0_def store_bytes_outside)
  qed
  ultimately show thesis using that [OF copied [unfolded m0_def]] by blast
qed

lemma execute_words:
  assumes cmd: "cstring (e_mem st) command cs" "length cs \<le> 1023" and apart: "region buf 1026 \<inter> region command (length cs + 1) = {}"
  obtains m' args where
    "emu_execute H buf command st =
       map_option (\<lambda>(status, w). (wait_result status, st\<lparr>e_mem := m', world := w\<rparr>)) (h_run H buf args (m', world st))"
    "list_all2 (cstring m') args ((46 # 47 # hd (command_words cs)) # tl (command_words cs))"
    "\<And>a. a \<notin> region buf 1026 \<Longrightarrow> m' a = e_mem st a"
proof -
  obtain m1 where m1: "ece391_strcpy ((e_mem st)(buf := 46, buf + 1 := 47)) (buf + 2) command = Some m1"
    "cstring m1 buf (46 # 47 # cs)" "\<And>a. a \<notin> region buf 1026 \<Longrightarrow> m1 a = e_mem st a"
    by (rule path_copied [OF cmd apart]) blast
  define w rest where "w = takeWhile in_word cs" and "rest = dropWhile in_word cs"
  define q where "q = buf + of_nat (length (46 # 47 # w))"
  have cs: "cs = w @ rest" by (simp add: w_def rest_def)
  have words: "command_words cs = w # more_words (tl rest)" by (simp add: command_words_def w_def rest_def)
  have "ece391_strlen (e_mem st) command = Some (of_nat (length cs))" using strlen_cstring [OF cmd(1)] by (simp add: ece391_strlen_eq)
  moreover have "\<not> 1023 < (of_nat (length cs) :: u32)" using cmd(2) by (simp add: word_less_nat_alt)
  moreover have "cstring m1 (buf + 2) cs" using cstring_append(1) [of m1 buf "[46, 47]" cs] m1(2) by simp
  then have "word_end m1 (buf + 2) = Some q" using word_end_to [of m1 "buf + 2" cs] by (simp add: q_def w_def add.assoc)
  ultimately have run: "emu_execute H buf command st =
      (if 0 \<noteq> m1 q then parse_arguments (m1(q := 0)) (q + 1) [buf] else Some (m1, [buf])) \<bind>
      (\<lambda>(m, args). h_run H buf args (m, world st) \<bind> (\<lambda>(status, w). Some (wait_result status, st\<lparr>e_mem := m, world := w\<rparr>)))"
    using m1(1) by (simp add: emu_execute_def)
  show thesis
  proof (cases rest)
    case Nil
    then have "m1 q = 0" using m1(2) cs by (simp add: q_def cstring_def)
    then show thesis
      using that [of m1 "[buf]"] m1(2,3) run cs Nil words
      by (cases "h_run H buf [buf] (m1, world st)") (auto simp: more_words.simps [of "[]"])
  next
    case (Cons d r)
    have path: "cstring m1 buf ((46 # 47 # w) @ d # r)" using m1(2) cs Cons by simp
    have len: "length ((46 # 47 # w) @ d # r) < 2 ^ 31" "length r + 3 + length w \<le> 1025" using cmd(2) cs Cons by simp_all
    note e = word_ended [OF path len(1), folded q_def]
    have "d \<noteq> 0" using path by (auto simp: cstring_def)
    have "length r < 2 ^ 31" using len(2) by simp
    from parse_arguments_words [OF e(3) this, of "[buf]"] obtain m' ps where
      m': "parse_arguments (m1(q := 0)) (q + 1) [buf] = Some (m', buf # ps)" "list_all2 (cstring m') ps (more_words r)"
        "\<And>a. a \<notin> region (q + 1) (length r + 1) \<Longrightarrow> m' a = (m1(q := 0)) a" by auto
    have "cstring m' buf (46 # 47 # w)"
      by (rule cstring_cong [OF e(2)], rule m'(3)) (use e(4) in \<open>unfold Suc_eq_plus1, blast\<close>)
    moreover have "m' a = e_mem st a" if "a \<notin> region buf 1026" for a
    proof -
      have "region (buf + of_nat (length (46 # 47 # w))) (Suc (length r + 1)) \<subseteq> region buf 1026"
        by (rule region_shift_subset) (use len(2) in simp)
      then have "insert q (region (q + 1) (length r + 1)) \<subseteq> region buf 1026"
        unfolding q_def [symmetric] by (simp only: region_Suc [of q])
      with that have "a \<notin> region (q + 1) (length r + 1)" "a \<noteq> q" by blast+
      with m'(3) [of a] m1(3) [OF that] show ?thesis by simp
    qed
    ultimately show thesis
      using that [of m' "buf # ps"] run e(1) \<open>d \<noteq> 0\<close> m'(1,2) words Cons
      by (cases "h_run H buf (buf # ps) (m', world st)") auto
  qed
qed

section \<open>The arguments of a process\<close>

fun join_words :: "u8 list list \<Rightarrow> u8 list" where
  "join_words [] = []"
| "join_words [w] = w"
| "join_words (w # v # ws) = w @ 32 # join_words (v # ws)"

text \<open>The pointers from \<open>idx\<close> on point at the strings \<open>ws\<close>; pointers and strings lie off \<open>S\<close>.\<close>

definition arguments_at :: "memory \<Rightarrow> u32 \<Rightarrow> nat \<Rightarrow> u8 list list \<Rightarrow> u32 set \<Rightarrow> bool" where
  "arguments_at m argv idx ws S \<longleftrightarrow>
     (\<forall>i < length ws. let a = argv + 4 * of_nat (idx + i); p = load32 m a
        in cstring m p (ws ! i) \<and> region p (length (ws ! i) + 1) \<inter> S = {} \<and> region a 4 \<inter> S = {})"

lemma arguments_at_Cons:
  "arguments_at m argv idx (w # ws) S \<longleftrightarrow>
     (let a = argv + 4 * of_nat idx; p = load32 m a in cstring m p w \<and> region p (length w + 1) \<inter> S = {} \<and> region a 4 \<inter> S = {}) \<and>
     arguments_at m argv (Suc idx) ws S"
  unfolding arguments_at_def by (simp only: length_Cons All_less_Suc2) (simp add: Let_def)

lemma arguments_at_cong:
  assumes args: "arguments_at m argv idx ws S" and m': "\<And>a. a \<notin> S \<Longrightarrow> m' a = m a" and T: "T \<subseteq> S"
  shows "arguments_at m' argv idx ws T"
  unfolding arguments_at_def
proof (intro allI impI)
  fix i assume i: "i < length ws"
  define a where "a = argv + 4 * of_nat (idx + i)"
  have a: "cstring m (load32 m a) (ws ! i)" "region (load32 m a) (length (ws ! i) + 1) \<inter> S = {}" "region a 4 \<inter> S = {}"
    using args i by (auto simp: arguments_at_def a_def Let_def)
  have "load32 m' a = load32 m a" by (rule load32_cong) (use a(3) m' in blast)
  moreover have "cstring m' (load32 m a) (ws ! i)"
    by (rule cstring_cong [OF a(1)]) (use a(2) m' in \<open>unfold Suc_eq_plus1, blast\<close>)
  ultimately show "let a = argv + 4 * of_nat (idx + i); p = load32 m' a
      in cstring m' p (ws ! i) \<and> region p (length (ws ! i) + 1) \<inter> T = {} \<and> region a 4 \<inter> T = {}"
    unfolding a_def [symmetric] using a(2,3) T by (auto simp: Let_def)
qed

lemma signed_of_nat:
  assumes "a < 2 ^ 31" "b < 2 ^ 31"
  shows "(of_nat a :: i32) <s of_nat b \<longleftrightarrow> a < b" "(of_nat a :: i32) \<le>s of_nat b \<longleftrightarrow> a \<le> b"
  using assms by (simp_all add: word_sless_alt word_sle_eq sint_small)

text \<open>A word copied to the front of the buffer, with room for at least one more character.\<close>

lemma word_copied:
  assumes w: "cstring m p w" and apart: "region p (length w + 1) \<inter> region buf n = {}" and n: "length w < n" "n < 2 ^ 31"
  obtains m' where "ece391_strlen m p = Some (of_nat (length w))" "ece391_strcpy m buf p = Some m'" "cstring m' buf w"
    "\<not> (of_nat n :: i32) <s of_nat (length w)" "\<not> (of_nat n - of_nat (length w) :: i32) <s 1" "\<And>a. a \<notin> region buf (length w + 1) \<Longrightarrow> m' a = m a"
proof -
  define m' where "m' = store_bytes m buf (w @ [0])"
  have "region buf (Suc (length w)) \<inter> region p (Suc (length w)) = {}"
    using apart n(1) region_mono [of "Suc (length w)" n buf] by auto
  then have "ece391_strcpy m buf p = Some m'" unfolding ece391_strcpy_eq m'_def by (rule strcpy_spec [OF w])
  moreover have "cstring m' buf w" unfolding m'_def using w by (intro cstring_store_bytes) (simp_all add: cstring_def)
  moreover have "ece391_strlen m p = Some (of_nat (length w))" using strlen_cstring [OF w] by (simp add: ece391_strlen_eq)
  moreover have "\<not> (of_nat n :: i32) <s of_nat (length w)" using signed_of_nat(1) [of n "length w"] n by simp
  moreover have "(of_nat n - of_nat (length w) :: i32) = of_nat (n - length w)" using n by (simp add: of_nat_diff)
  then have "\<not> (of_nat n - of_nat (length w) :: i32) <s 1" using signed_of_nat(1) [of "n - length w" 1] n by simp
  moreover have "m' a = m a" if "a \<notin> region buf (length w + 1)" for a using that by (simp add: m'_def store_bytes_outside)
  ultimately show thesis using that by blast
qed

lemma cstring_appendI:
  assumes "bytes m s (length xs) = xs" "0 \<notin> set xs" "cstring m (s + of_nat (length xs)) ys" "length xs + length ys < 2 ^ 31"
  shows "cstring m s (xs @ ys)"
  using assms by (simp add: cstring_def bytes_append add.assoc)

lemma copy_args_joins:
  "arguments_at m argv idx ws (region buf n) \<Longrightarrow> ws \<noteq> [] \<Longrightarrow> length (join_words ws) < n \<Longrightarrow> n < 2 ^ 31 \<Longrightarrow>
    idx + length ws < 2 ^ 31 \<Longrightarrow>
    \<exists>m'. copy_args argv (of_nat (idx + length ws)) m buf (of_nat n) (of_nat idx) = Some (0, m') \<and> cstring m' buf (join_words ws) \<and>
      (\<forall>a. a \<notin> region buf n \<longrightarrow> m' a = m a)"
proof (induction ws arbitrary: m buf n idx rule: join_words.induct)
  case 1
  then show ?case by simp
next
  case (2 w)
  note at = 2(1) [unfolded arguments_at_Cons Let_def]
  obtain m1 where m1: "ece391_strlen m (load32 m (argv + 4 * of_nat idx)) = Some (of_nat (length w))"
    "ece391_strcpy m buf (load32 m (argv + 4 * of_nat idx)) = Some m1" "cstring m1 buf w" "\<not> (of_nat n :: i32) <s of_nat (length w)"
    "\<not> (of_nat n - of_nat (length w) :: i32) <s 1" "\<And>a. a \<notin> region buf (length w + 1) \<Longrightarrow> m1 a = m a"
    by (rule word_copied [of m _ w buf n]) (use at 2(3,4) in auto)
  have idx: "(of_nat idx :: i32) <s of_nat (idx + 1)" using signed_of_nat(1) [of idx "idx + 1"] 2(5) by simp
  have "copy_args argv (of_nat (idx + length [w])) m buf (of_nat n) (of_nat idx) = Some (0, m1)"
    using m1(1-5) idx cstring_end [OF m1(3)] by (subst copy_args.simps) (simp add: Let_def end_args_def fun_upd_idem add.commute)
  moreover have "m1 a = m a" if "a \<notin> region buf n" for a
    using that 2(3) region_mono [of "length w + 1" n buf] by (intro m1(6)) auto
  ultimately show ?case using m1(3) by auto
next
  case (3 w v ws)
  note at = 3(2) [unfolded arguments_at_Cons [of _ _ _ w] Let_def]
  define n' where "n' = n - length w - 1"
  have len: "length w < n" "n = length w + (n' + 1)" "length (join_words (v # ws)) < n'" "n' < 2 ^ 31"
    using 3(4,5) by (simp_all add: n'_def)
  obtain m1 where m1: "ece391_strlen m (load32 m (argv + 4 * of_nat idx)) = Some (of_nat (length w))"
    "ece391_strcpy m buf (load32 m (argv + 4 * of_nat idx)) = Some m1" "cstring m1 buf w" "\<not> (of_nat n :: i32) <s of_nat (length w)"
    "\<not> (of_nat n - of_nat (length w) :: i32) <s 1" "\<And>a. a \<notin> region buf (length w + 1) \<Longrightarrow> m1 a = m a"
    by (rule word_copied [of m _ w buf n]) (use at len(1) 3(5) in auto)
  define q where "q = buf + of_nat (length w)"
  define m2 where "m2 = m1(q := 32)"
  have T: "region (q + 1) n' \<subseteq> region buf n" and q: "q \<in> region buf n"
    using region_shift_subset [of "length w + 1" n' n buf] len(1,2) by (auto simp: q_def ac_simps)
  have out: "m2 a = m a" if "a \<notin> region buf n" for a
    using that q len(1) region_mono [of "length w + 1" n buf] m1(6) [of a] by (auto simp: m2_def)
  have args: "arguments_at m2 argv (Suc idx) (v # ws) (region (q + 1) n')"
    using at by (intro arguments_at_cong [OF _ out T]) simp_all
  from 3(1) [OF args _ len(3,4)] 3(6) obtain m' where
    m': "copy_args argv (of_nat (Suc idx + length (v # ws))) m2 (q + 1) (of_nat n') (of_nat (Suc idx)) = Some (0, m')"
      "cstring m' (q + 1) (join_words (v # ws))" "\<And>a. a \<notin> region (q + 1) n' \<Longrightarrow> m' a = m2 a" by auto
  have idx: "(of_nat idx :: i32) <s of_nat (idx + length (w # v # ws))" "\<not> (of_nat (idx + length (w # v # ws)) :: i32) \<le>s of_nat (idx + 1)"
    using signed_of_nat(1) [of idx "idx + length (w # v # ws)"] signed_of_nat(2) [of "idx + length (w # v # ws)" "idx + 1"] 3(6) by simp_all
  have "(of_nat n - of_nat (length w) - 1 :: i32) = of_nat n'" using len(2) by simp
  then have "copy_args argv (of_nat (idx + length (w # v # ws))) m buf (of_nat n) (of_nat idx) = Some (0, m')"
    using m1(1-5) idx m'(1) by (subst copy_args.simps) (simp add: Let_def m2_def q_def add.assoc add.commute)
  moreover have "cstring m' buf (w @ 32 # join_words (v # ws))"
  proof (rule cstring_appendI)
    have "region buf (length w + 1) \<inter> region (q + 1) n' = {}"
      using region_after [of "length w + 1" n' buf] len(2) 3(5) by (simp add: q_def ac_simps)
    moreover have "region buf (length w) \<inter> region q 1 = {}" unfolding q_def by (rule region_after) (use len(1) 3(5) in simp)
    moreover have "q \<in> region buf (length w + 1)" unfolding q_def by (rule in_regionI) simp
    ultimately have apart: "region buf (length w) \<inter> region (q + 1) n' = {}" "q \<notin> region buf (length w)" "q \<notin> region (q + 1) n'"
      using region_mono [of "length w" "length w + 1" buf] by (auto simp: region_Suc)
    have "m' a = m1 a" if "a \<in> region buf (length w)" for a
    proof -
      have "a \<notin> region (q + 1) n'" "a \<noteq> q" using that apart by blast+
      with m'(3) [of a] show ?thesis by (simp add: m2_def)
    qed
    then have "bytes m' buf (length w) = bytes m1 buf (length w)" by (rule bytes_cong)
    then show "bytes m' buf (length w) = w" using m1(3) by (simp add: cstring_def)
    have "m' q = 32" using m'(3) [OF apart(3)] by (simp add: m2_def)
    then show "cstring m' (buf + of_nat (length w)) (32 # join_words (v # ws))"
      using m'(2) len by (intro cstring_ConsI) (simp_all add: q_def)
  qed (use m1(3) len 3(5) in \<open>simp_all add: cstring_def\<close>)
  moreover have "m' a = m a" if "a \<notin> region buf n" for a
    using m'(3) [of a] out [OF that] that T by auto
  ultimately show ?case by auto
qed

text \<open>A process started with the words \<open>ws\<close>, the first of which is its own name.\<close>

definition started_with :: "'w emulation \<Rightarrow> u8 list list \<Rightarrow> u32 set \<Rightarrow> bool" where
  "started_with st ws S \<longleftrightarrow>
     ws \<noteq> [] \<and> load32 (e_mem st) (start_esp st) = of_nat (length ws) \<and> length ws < 2 ^ 30 \<and>
     arguments_at (e_mem st) (start_esp st + 4) 1 (tl ws) S"

lemma getargs_joins:
  assumes st: "started_with st ws (region buf n)" and room: "length (join_words (tl ws)) < n" "n < 2 ^ 31"
  obtains m' where "emu_getargs buf (of_nat n) st = Some (0, st\<lparr>e_mem := m'\<rparr>)" "cstring m' buf (join_words (tl ws))"
    "\<And>a. a \<notin> region buf n \<Longrightarrow> m' a = e_mem st a"
proof (cases "tl ws")
  case Nil
  then have "length ws = 1" using st by (cases ws) (auto simp: started_with_def)
  then have argc: "load32 (e_mem st) (start_esp st) = 1" using st by (simp add: started_with_def)
  have "\<not> (of_nat n :: i32) <s 1" using signed_of_nat(1) [of n 1] room by simp
  moreover have "\<not> (1 :: i32) <s 1" by simp
  ultimately have "copy_args (start_esp st + 4) 1 (e_mem st) buf (of_nat n) 1 = Some (0, (e_mem st)(buf := 0))"
    by (subst copy_args.simps) (simp add: end_args_def)
  then have run: "emu_getargs buf (of_nat n) st = Some (0, st\<lparr>e_mem := (e_mem st)(buf := 0)\<rparr>)" by (simp add: emu_getargs_def argc)
  have out: "((e_mem st)(buf := 0)) a = e_mem st a" if "a \<notin> region buf n" for a
    using that in_regionI [of 0 n buf] room by (intro fun_upd_other) auto
  have "cstring ((e_mem st)(buf := 0)) buf (join_words (tl ws))" unfolding Nil by (simp add: cstring_def)
  then show thesis by (rule that [OF run _ out])
next
  case (Cons w vs)
  then have ws: "length ws = 1 + length (tl ws)" by (cases ws) simp_all
  have "1 + length (tl ws) < 2 ^ 31" unfolding ws [symmetric] using st by (simp add: started_with_def)
  moreover have "arguments_at (e_mem st) (start_esp st + 4) 1 (tl ws) (region buf n)" "tl ws \<noteq> []"
    using st Cons by (simp_all add: started_with_def)
  ultimately obtain m' where m': "copy_args (start_esp st + 4) (of_nat (1 + length (tl ws))) (e_mem st) buf (of_nat n) 1 = Some (0, m')"
    "cstring m' buf (join_words (tl ws))" "\<And>a. a \<notin> region buf n \<Longrightarrow> m' a = e_mem st a"
    using copy_args_joins [OF _ _ room, of _ _ 1, unfolded of_nat_1] by blast
  have "load32 (e_mem st) (start_esp st) = of_nat (1 + length (tl ws))" unfolding ws [symmetric] using st by (simp add: started_with_def)
  then show thesis using that [of m'] m' by (simp add: emu_getargs_def)
qed

text \<open>
  An argument that fills the buffer passes the check of its length, and its end goes to the byte after the buffer
  before the call answers -1.
\<close>

lemma getargs_overruns:
  assumes st: "started_with st [prog, w] (region buf (length w + 1))" and len: "0 < length w" "length w < 2 ^ 31"
  shows "\<exists>m'. emu_getargs buf (of_nat (length w)) st = Some (-1, st\<lparr>e_mem := m'\<rparr>) \<and> m' (buf + of_nat (length w)) = 0"
proof -
  define a p where "a = start_esp st + 4 + 4 * 1" and "p = load32 (e_mem st) a"
  have at: "cstring (e_mem st) p w" "region p (length w + 1) \<inter> region buf (length w + 1) = {}"
    and argc: "load32 (e_mem st) (start_esp st) = 2"
    using st by (simp_all add: started_with_def arguments_at_def Let_def a_def p_def)
  define m' where "m' = store_bytes (e_mem st) buf (w @ [0])"
  have "ece391_strcpy (e_mem st) buf p = Some m'"
    unfolding ece391_strcpy_eq m'_def by (rule strcpy_spec [OF at(1)]) (use at(2) in auto)
  moreover have "ece391_strlen (e_mem st) p = Some (of_nat (length w))" using strlen_cstring [OF at(1)] by (simp add: ece391_strlen_eq)
  moreover have "(1 :: i32) <s 2" "(2 :: i32) \<le>s 1 + 1" "(0 :: i32) <s 1" "\<not> (of_nat (length w) :: i32) <s of_nat (length w)"
    by (simp_all add: word_sless_alt)
  ultimately have "copy_args (start_esp st + 4) 2 (e_mem st) buf (of_nat (length w)) 1 = Some (-1, m')"
    by (subst copy_args.simps) (simp add: Let_def end_args_def p_def a_def)
  moreover have "cstring m' buf w" unfolding m'_def using at(1) by (intro cstring_store_bytes) (simp_all add: cstring_def)
  ultimately show ?thesis using cstring_end [of m' buf w] by (intro exI [of _ m']) (simp add: emu_getargs_def argc)
qed

text \<open>
  A command whose words are separated by one space each: the words are found, and joined again they are what
  follows the first space.
\<close>

definition proper_word :: "u8 list \<Rightarrow> bool" where
  "proper_word w \<longleftrightarrow> w \<noteq> [] \<and> list_all in_word w"

lemma word_before_space:
  assumes "list_all in_word w"
  shows "takeWhile in_word w = w" "dropWhile in_word w = []" "32 \<notin> set w"
    "takeWhile in_word (w @ 32 # r) = w" "dropWhile in_word (w @ 32 # r) = 32 # r" "dropWhile (\<lambda>b. b \<noteq> 32) (w @ 32 # r) = 32 # r"
  using assms by (auto simp: takeWhile_append dropWhile_append list_all_iff in_word_def)

lemma no_spaces: "proper_word w \<Longrightarrow> dropWhile (\<lambda>c. c = 32) (w @ r) = w @ r \<and> hd (w @ r) \<noteq> 10"
  by (cases w) (auto simp: proper_word_def in_word_def)

lemma more_words_word:
  assumes "proper_word w"
  shows "more_words (w @ r) = takeWhile in_word (w @ r) # more_words (tl (dropWhile in_word (w @ r)))"
  using no_spaces [OF assms, of r] assms
  by (subst more_words.simps) (cases "w @ r", auto simp: proper_word_def simp del: takeWhile.simps dropWhile.simps)

lemma more_words_join: "list_all proper_word ws \<Longrightarrow> more_words (join_words ws) = ws"
proof (induction ws rule: join_words.induct)
  case 1
  then show ?case by (simp add: more_words.simps)
next
  case (2 w)
  then have w: "proper_word w" "list_all in_word w" by (simp_all add: proper_word_def)
  with more_words_word [OF w(1), of "[]"] word_before_space(1,2) [OF w(2)] show ?case by (simp add: more_words.simps [of "[]"])
next
  case (3 w v ws)
  then have w: "proper_word w" "list_all in_word w" by (simp_all add: proper_word_def)
  have "more_words (join_words (w # v # ws)) = w # more_words (join_words (v # ws))"
    using more_words_word [OF w(1), of "32 # join_words (v # ws)"] word_before_space(4,5) [OF w(2)] by simp
  with 3 show ?case by simp
qed

lemma command_words_join:
  assumes "list_all proper_word (w # ws)" "ws \<noteq> []"
  shows "command_words (join_words (w # ws)) = w # ws" "join_words ws = tl (dropWhile (\<lambda>b. b \<noteq> 32) (join_words (w # ws)))"
    "32 \<in> set (join_words (w # ws))" "hd (join_words (w # ws)) \<noteq> 32"
proof -
  obtain v vs where ws: "ws = v # vs" using assms(2) by (cases ws) auto
  have w: "proper_word w" "list_all in_word w" using assms(1) by (simp_all add: proper_word_def)
  note k = word_before_space(4-6) [OF w(2), of "join_words ws"]
  have j: "join_words (w # ws) = w @ 32 # join_words ws" by (simp add: ws)
  show "command_words (join_words (w # ws)) = w # ws" using assms(1) by (simp add: j command_words_def k more_words_join)
  show "join_words ws = tl (dropWhile (\<lambda>b. b \<noteq> 32) (join_words (w # ws)))" by (simp add: j k)
  show "32 \<in> set (join_words (w # ws))" by (simp add: j)
  show "hd (join_words (w # ws)) \<noteq> 32"
    unfolding j using w word_before_space(3) [OF w(2)] by (cases w) (auto simp: proper_word_def)
qed

section \<open>The names of the directory\<close>

lemma pad_name_zeros:
  "k \<le> min n 32 \<Longrightarrow> n < 2 ^ 31 \<Longrightarrow>
    pad_name m to (of_nat k) (of_nat n) = Some (of_nat (min n 32), store_bytes m to (replicate (min n 32 - k) 0))"
proof (induction "min n 32 - k" arbitrary: k m to)
  case 0
  then have k: "k = min n 32" by simp
  have "\<not> ((of_nat k :: i32) <s of_nat n \<and> (of_nat k :: i32) <s 32)"
    using signed_of_nat(1) [of k n] signed_of_nat(1) [of k 32] 0(3) k by auto
  then show ?case by (subst pad_name.simps) (auto simp: k)
next
  case (Suc d)
  then have k: "k < n" "k < 32" by simp_all
  have "(of_nat k :: i32) <s of_nat n \<and> (of_nat k :: i32) <s 32"
    using signed_of_nat(1) [of k n] signed_of_nat(1) [of k 32] Suc(4) k by auto
  moreover have "replicate (min n 32 - k) (0 :: u8) = 0 # replicate (min n 32 - Suc k) 0"
    using k by (simp add: Suc_diff_Suc flip: replicate_Suc)
  moreover have "d = min n 32 - Suc k" "Suc k \<le> min n 32" using Suc(2) k by simp_all
  from Suc(1) [OF this Suc(4), of "m(to := 0)" "to + 1"]
  have "pad_name (m(to := 0)) (to + 1) (of_nat k + 1) (of_nat n) =
      Some (of_nat (min n 32), store_bytes (m(to := 0)) (to + 1) (replicate (min n 32 - Suc k) 0))" by (simp add: add.commute)
  ultimately show ?case by (subst pad_name.simps) simp
qed

lemma copy_entry_name:
  "cstring m from' cs \<Longrightarrow> k < min n 32 \<Longrightarrow> n < 2 ^ 31 \<Longrightarrow> region from' (length cs + 1) \<inter> region to (min n 32 - k) = {} \<Longrightarrow>
    copy_entry m from' to (of_nat k) (of_nat n) =
      Some (of_nat (min n 32), store_bytes m to (take (min n 32 - k) (cs @ replicate 32 0)))"
proof (induction cs arbitrary: m from' to k)
  case Nil
  then have "m from' = 0" by (simp add: cstring_def)
  moreover have "take (min n 32 - k) (replicate 32 (0 :: u8)) = replicate (min n 32 - k) 0"
    unfolding take_replicate by (rule arg_cong [of _ _ "\<lambda>i. replicate i 0"]) linarith
  moreover have "pad_name m to (of_nat k) (of_nat n) = Some (of_nat (min n 32), store_bytes m to (replicate (min n 32 - k) 0))"
    using Nil(2,3) by (intro pad_name_zeros) simp_all
  ultimately show ?case by (subst copy_entry.simps) simp
next
  case (Cons c cs)
  have c: "m from' = c" "c \<noteq> 0" "cstring m (from' + 1) cs" using cstring_Cons [OF Cons(2)] by simp_all
  define m1 where "m1 = m(to := c)"
  have to: "to \<in> region to (min n 32 - k)" using in_regionI [of 0 "min n 32 - k" to] Cons(3) by fastforce
  have left: "min n 32 - k = Suc (min n 32 - Suc k)" using Cons(3) by linarith
  have rest: "(of_nat k + 1 :: i32) = of_nat (Suc k)" by simp
  have bytes: "take (min n 32 - k) ((c # cs) @ replicate 32 0) = c # take (min n 32 - Suc k) (cs @ replicate 32 0)"
    unfolding left by simp
  show ?case
  proof (cases "Suc k < min n 32")
    case False
    with Cons(3) have k: "Suc k = min n 32" by linarith
    then show ?thesis
      using c(1,2) bytes u32_of_nat_eq_iff [of "Suc k" n] Cons(4) by (subst copy_entry.simps) (auto simp: Let_def rest min_def)
  next
    case True
    then have ne: "(of_nat (Suc k) :: i32) \<noteq> of_nat n" "(of_nat (Suc k) :: i32) \<noteq> 32"
      using u32_of_nat_eq_iff [of "Suc k" n] u32_of_nat_eq_iff [of "Suc k" 32] Cons(4) by simp_all
    have "region to (min n 32 - k) = insert to (region (to + 1) (min n 32 - Suc k))"
      unfolding left by (rule region_Suc)
    moreover have "region from' (length (c # cs) + 1) = insert from' (region (from' + 1) (length cs + 1))"
      using region_Suc [of from' "length cs + 1"] by simp
    ultimately have apart: "region (from' + 1) (length cs + 1) \<inter> region (to + 1) (min n 32 - Suc k) = {}"
      "to \<notin> region (from' + 1) (length cs + 1)" using Cons(5) to by auto
    have "cstring m1 (from' + 1) cs"
      by (rule cstring_cong [OF c(3)]) (use apart(2) in \<open>auto simp: m1_def\<close>)
    note IH = Cons(1) [OF this True Cons(4) apart(1)]
    have "copy_entry m from' to (of_nat k) (of_nat n) = copy_entry m1 (from' + 1) (to + 1) (of_nat (Suc k)) (of_nat n)"
      using c(1,2) ne unfolding m1_def rest [symmetric] by (subst copy_entry.simps) (auto simp: Let_def)
    then show ?thesis unfolding IH unfolding bytes store_bytes.simps m1_def .
  qed
qed

text \<open>A read of the open directory fills the buffer with the name of the next entry and zeros, up to 32 bytes.\<close>

lemma emu_read_directory:
  assumes dir: "dir st \<noteq> 0" "dir_fd st = fd" and entry: "h_readdir H (dir st) (e_mem st, world st) = (Some name, m, w)"
    and name: "cstring m name cs" "region name (length cs + 1) \<inter> region buf (min n 32) = {}" and n: "0 < n" "n < 2 ^ 31"
  shows "emu_read H fd buf (of_nat n) st =
    Some (of_nat (min n 32), st\<lparr>e_mem := store_bytes m buf (take (min n 32) (cs @ replicate 32 0)), world := w\<rparr>)"
  using copy_entry_name [OF name(1), of 0 n buf] name(2) n dir entry by (simp add: emu_read_def)

section \<open>Properties\<close>

text \<open>
  C34: The emulated \<^verbatim>\<open>ece391_execute\<close> starts the program whose name is the first word of the command, in the current
  directory, with the words of the command as its arguments; it writes nothing but its own buffer.
\<close>

theorem emulated_execute_words:
  assumes "cstring (e_mem st) command cs" "length cs \<le> 1023" "region buf 1026 \<inter> region command (length cs + 1) = {}"
  shows "\<exists>m' args.
    emu_execute H buf command st =
      map_option (\<lambda>(status, w). (wait_result status, st\<lparr>e_mem := m', world := w\<rparr>)) (h_run H buf args (m', world st)) \<and>
    list_all2 (cstring m') args ((46 # 47 # hd (command_words cs)) # tl (command_words cs)) \<and>
    (\<forall>a. a \<notin> region buf 1026 \<longrightarrow> m' a = e_mem st a)"
  by (rule execute_words [OF assms, of H]) blast

text \<open>A host on which every program ends with 3, and a process that has a command in memory.\<close>

definition plain_host :: "unit host" where
  "plain_host = \<lparr>h_int80 = \<lambda>_ _ _ _ _. None, h_open = \<lambda>_ _ w. (-1, w), h_close = \<lambda>_ w. w, h_opendir = \<lambda>_ mw. (0, mw),
     h_readdir = \<lambda>_ mw. (None, mw), h_closedir = \<lambda>_ w. w, h_mmap = \<lambda>_ _ mw. (-1, mw), h_perror = \<lambda>_ w. w, h_run = \<lambda>_ _ (m, w). Some (0x300, w)\<rparr>"

definition plain_process :: "u8 list \<Rightarrow> unit emulation" where
  "plain_process cs = \<lparr>e_mem = store_bytes (\<lambda>_. 0) 0x8060000 (cs @ [0]), start_esp = 0x8070000, dir_fd = -1, dir = 0, mem_fd = -1, world = ()\<rparr>"

theorem emulated_execute_words_witness:
  "\<exists>st' args. emu_execute plain_host 0x8050000 0x8060000 (plain_process (ascii ''grep  a fish'' @ [10])) = Some (3, st') \<and>
     list_all2 (cstring (e_mem st')) args [ascii ''./grep'', ascii ''a'', ascii ''fish'']"
proof -
  let ?cs = "ascii ''grep  a fish'' @ [10]" and ?st = "plain_process (ascii ''grep  a fish'' @ [10])"
  have c: "cstring (e_mem ?st) 0x8060000 ?cs"
    unfolding plain_process_def by (simp only: emulation.simps, rule cstring_store_bytes) (simp_all add: ascii_def)
  have l: "length ?cs \<le> 1023" by (simp add: ascii_def)
  have a: "region 0x8050000 1026 \<inter> region 0x8060000 (length ?cs + 1) = {}" by (rule region_disjointI) (simp_all add: ascii_def)
  have w: "command_words ?cs = [ascii ''grep'', ascii ''a'', ascii ''fish'']"
    by (simp add: command_words_def ascii_def in_word_def more_words.simps)
  have r: "h_run plain_host b xs (m, u) = Some (0x300, u)" for b xs m u by (simp add: plain_host_def)
  obtain m' args where "emu_execute plain_host 0x8050000 0x8060000 ?st =
      map_option (\<lambda>(status, w). (wait_result status, ?st\<lparr>e_mem := m', world := w\<rparr>)) (h_run plain_host 0x8050000 args (m', world ?st))"
    "list_all2 (cstring m') args ((46 # 47 # hd (command_words ?cs)) # tl (command_words ?cs))"
    using emulated_execute_words [OF c l a, of plain_host] by blast
  moreover have "wait_result 0x300 = 3" by (simp add: wait_result_def)
  ultimately show ?thesis
    by (intro exI [of _ "?st\<lparr>e_mem := m', world := world ?st\<rparr>"] exI [of _ args]) (simp add: r w, simp add: ascii_def)
qed

text \<open>
  C35: The kernel and the emulation give a program the same arguments: for a command of words separated by one space
  each, \<^verbatim>\<open>getargs\<close> of the kernel and \<^verbatim>\<open>ece391_getargs\<close> of the process that the emulated \<^verbatim>\<open>ece391_execute\<close> starts with
  those words both answer 0 and write what follows the first space.
\<close>

theorem emulation_gives_same_arguments:
  assumes words: "list_all proper_word (w # ws)" "ws \<noteq> []" "cs = join_words (w # ws)" "0 \<notin> set cs" "length cs < 40"
    and kernel: "set_name cs s = Some t" "unat (current_process_ID s) < 6"
      "length (command_global (PCB_array s ! unat (current_process_ID s))) = 240" "buf \<noteq> 0" "region buf 40 \<inter> region lwords 41 = {}"
    and host: "started_with st ((46 # 47 # hd (command_words cs)) # tl (command_words cs)) (region buf' n)" "40 \<le> n" "n < 2 ^ 31"
  shows "\<exists>u st'. sys_call_getargs lwords buf (of_nat n) t = Some (0, u) \<and> emu_getargs buf' (of_nat n) st = Some (0, st') \<and>
    cstring (mem u) buf (join_words ws) \<and> cstring (e_mem st') buf' (join_words ws)"
proof -
  note j = command_words_join [OF words(1,2), folded words(3)]
  have "0 < sint (of_nat n :: i32)" using host(2,3) by (simp add: sint_u32_of_nat)
  from getargs_of_command [OF kernel(1,2) words(5,4) kernel(3,4) this kernel(5)] j(2,3,4)
  obtain u where u: "sys_call_getargs lwords buf (of_nat n) t = Some (0, u)" "cstring (mem u) buf (join_words ws)"
    by (auto split: option.splits)
  have "length (join_words ws) \<le> length cs" unfolding j(2) using length_dropWhile_le [of "\<lambda>b. b \<noteq> 32" cs] by simp
  then have "length (join_words ws) < n" using words(5) host(2) by simp
  then obtain m' where "emu_getargs buf' (of_nat n) st = Some (0, st\<lparr>e_mem := m'\<rparr>)" "cstring m' buf' (join_words ws)"
    using getargs_joins [OF host(1) _ host(3)] j(1) by auto
  with u show ?thesis by (intro exI [of _ u] exI [of _ "st\<lparr>e_mem := m'\<rparr>"]) simp
qed

text \<open>\<^verbatim>\<open>./cat a\<close>, as Linux starts a process: the number of arguments at \<^verbatim>\<open>ESP\<close>, and above it the pointers.\<close>

definition cat_process :: "unit emulation" where
  "cat_process = (plain_process [])\<lparr>e_mem := store32 (store32 (store_bytes (\<lambda>_. 0) 0x8060000 [97, 0]) 0x8070000 2) 0x8070008 0x8060000\<rparr>"

theorem emulation_gives_same_arguments_witness:
  "\<exists>u st'. sys_call_getargs 0x930000 0x8100000 40 args_kernel = Some (0, u) \<and> emu_getargs 0x8050000 40 cat_process = Some (0, st') \<and>
     cstring (mem u) 0x8100000 [97] \<and> cstring (e_mem st') 0x8050000 [97]"
proof -
  have words: "list_all proper_word [ascii ''cat'', [97]]" "[[97 :: u8]] \<noteq> []" "ascii ''cat a'' = join_words [ascii ''cat'', [97]]"
    "0 \<notin> set (ascii ''cat a'')" "length (ascii ''cat a'') < 40"
    by (simp_all add: proper_word_def ascii_def in_word_def)
  have c: "unat (current_process_ID shell_kernel) < 6" "length (PCB_array shell_kernel) = 6"
    "length (command_global (PCB_array shell_kernel ! unat (current_process_ID shell_kernel))) = 240"
    by (simp_all add: shell_kernel_def blank_PCB_def)
  obtain t where t: "set_name (ascii ''cat a'') shell_kernel = Some t"
    using set_name_room [of shell_kernel "ascii ''cat a''"] c words by auto
  have apart: "region 0x8100000 40 \<inter> region 0x930000 41 = {}" by (rule region_disjointI) simp_all
  have p: "load32 (e_mem cat_process) 0x8070008 = 0x8060000" "load32 (e_mem cat_process) 0x8070000 = 2" "start_esp cat_process = 0x8070000"
    by (simp_all add: cat_process_def plain_process_def load32_def store32_def)
  have a: "cstring (e_mem cat_process) 0x8060000 [97]" by (simp add: cat_process_def cstring_def bytes_Suc store32_def)
  have d: "region 0x8060000 2 \<inter> region 0x8050000 40 = {}" "region 0x8070008 4 \<inter> region 0x8050000 40 = {}"
    by (rule region_disjointI; simp)+
  have "command_words (ascii ''cat a'') = [ascii ''cat'', [97]]" unfolding words(3) using command_words_join(1) [OF words(1)] by simp
  moreover have "started_with cat_process [46 # 47 # ascii ''cat'', [97]] (region 0x8050000 40)"
    using a d(2) d(1) [unfolded numeral_2_eq_2] by (simp add: started_with_def arguments_at_def p Let_def)
  ultimately show ?thesis
    using emulation_gives_same_arguments [OF words t c(1,3) _ apart, of cat_process "0x8050000" 40] by (simp add: args_kernel_def t)
qed

end
