(* ===== verification/Spec2Isabelle.thy ===== *)
theory Spec2Isabelle
  imports Prelude Lib_Memory Lib_String File_Sys Machine I8259 RTC Console Terminal Keyboard Paging Process Execute
    Syscalls Vidmap Open_Files Read_File Arguments Multiprocess PIT IDT Boot User_Lib User_Programs Program_Runs User_Tests User_Ls User_Pingpong Faults
    Typing Safe_Runs User_Signals Blink Fish Frames Grep Emulate
begin

text \<open>
  WindOS is a small 32-bit x86 kernel written in C: drivers, a text console with three terminals, a
  read-only file system in memory, paging, up to six processes, and ten system calls.  This library models
  the C code of \<^verbatim>\<open>student-distrib\<close> as functions on an explicit state and proves what the parts promise.

  \<^bold>\<open>How the code is modelled.\<close>  Memory is a total function from 32-bit addresses to bytes, pointers are
  \<open>32 word\<close>, and every integer has the width of its C type, so sums wrap and an index past an array reads or
  writes the byte that lies there.  The state is one record that grows by extension, \<open>machine\<close> (memory,
  port traffic, interrupt flag), \<open>rtc\<close>, \<open>console\<close>, \<open>keyboard\<close>, \<open>paging\<close>, \<open>kernel\<close> and
  \<open>system\<close>, each adding the globals of its C file; an operation is typed on the record it needs and applies to
  all that extend it.  A function that may not return has type \<open>option\<close>, and \<open>None\<close> is "does not return
  or faults": a string without an end, a NULL operation, a wait for an interrupt that does not come.  An operation
  that ends in a transfer of control returns a value of the type \<open>transfer\<close> or \<open>switched\<close>.

  \<^bold>\<open>The theories, in the order they build on each other.\<close>
  \<^item> \<open>Prelude\<close>: words, regions of memory, bytes, little-endian words, C strings.
  \<^item> \<open>Lib_Memory\<close>, \<open>Lib_String\<close> (\<^verbatim>\<open>lib.c\<close>): \<^verbatim>\<open>memcpy\<close>, \<^verbatim>\<open>memmove\<close>, \<^verbatim>\<open>memset\<close> in assembly,
    label by label, against block copies; \<^verbatim>\<open>strlen\<close>, \<^verbatim>\<open>strncmp\<close>, \<^verbatim>\<open>strcpy\<close>, \<^verbatim>\<open>strncpy\<close>, \<^verbatim>\<open>strrev\<close>,
    \<^verbatim>\<open>itoa\<close>.  The locale \<open>block_copy\<close> is what the file system and the terminals rely on.
  \<^item> \<open>File_Sys\<close> (\<^verbatim>\<open>file_sys.c\<close>): the directory and \<^verbatim>\<open>read_data\<close> over the image; the abstract file is the
    concatenation of its blocks cut to its length.
  \<^item> \<open>Machine\<close>, \<open>I8259\<close>, \<open>RTC\<close>, \<open>PIT\<close> (\<^verbatim>\<open>lib.h\<close> and the three drivers): port traffic is a log; the chips
    are specifications that read the log.
  \<^item> \<open>Console\<close>, \<open>Terminal\<close>, \<open>Keyboard\<close> (\<^verbatim>\<open>lib.c\<close>, \<^verbatim>\<open>terminal.c\<close>, \<^verbatim>\<open>keyboard.c\<close>): \<^verbatim>\<open>printf\<close>, the
    screen and the line editor.  \<^verbatim>\<open>write_Terminal\<close> refines an abstract screen; the key handler refines an abstract editor
    of the typed text, and \<open>screen_edit\<close> says of this editor which cells of the screen a key changes, and to what.
  \<^item> \<open>Paging\<close> (\<^verbatim>\<open>Paging.c\<close>, and the directory updates of \<^verbatim>\<open>syscalls.c\<close>): the tables, and the
    two-level walk of the processor as specification; \<open>map_window\<close> is the switch of the 4 MB program window.
  \<^item> \<open>Process\<close>, \<open>Execute\<close> (\<^verbatim>\<open>syscalls.c\<close>): control blocks, \<^verbatim>\<open>sys_call_execute\<close> and \<^verbatim>\<open>sys_call_halt\<close>.
    The locale \<open>slot_table\<close> is the contract of a table of slots; the process table and the file array of a
    process are its interpretations.
  \<^item> \<open>Syscalls\<close>, \<open>Vidmap\<close>, \<open>Open_Files\<close>, \<open>Read_File\<close>, \<open>Arguments\<close> (\<^verbatim>\<open>syscalls.c\<close>): the other calls.
    \<open>kernel_inv\<close> is the invariant of the control blocks and their open files.  The locale \<open>sequential_file\<close> is the contract of a file that is read in pieces.
  \<^item> \<open>Multiprocess\<close> (\<^verbatim>\<open>multiprocess.c\<close>, the keys F1 to F3): the terminals and the switch between them.
  \<^item> \<open>IDT\<close> (\<^verbatim>\<open>IDT.c\<close>, \<^verbatim>\<open>x86_desc.h\<close>): the gates, with the processor's reading of them, and the exceptions.
  \<^item> \<open>Boot\<close> (\<^verbatim>\<open>kernel.c\<close>): the entry, and the state in which it leaves the kernel.
  \<^item> \<open>User_Lib\<close>, \<open>User_Programs\<close>, \<open>User_Pingpong\<close>, \<open>User_Tests\<close>, \<open>User_Signals\<close> (\<^verbatim>\<open>syscalls/\<close> at the top of the repository): the user library
    and the programs, over a record of system calls that the calls of the kernel fill.
  \<^item> \<open>Blink\<close>, \<open>Fish\<close> (\<^verbatim>\<open>fish/\<close>): the fish demo, with the linked list of \<^verbatim>\<open>blink.S\<close> in memory and the helpers of \<^verbatim>\<open>fish.c\<close>
    it is built on, against an abstract list of blinks and a screen; \<open>Frames\<close> reads the two frames on the kernel, through the
    locale \<open>frame_files\<close>.
  \<^item> \<open>Emulate\<close> (\<^verbatim>\<open>ece391emulate.c\<close>): the calls as functions of a Linux process, over a record of what they use of the host.
  \<^item> \<open>Program_Runs\<close>, \<open>User_Ls\<close>, \<open>Grep\<close>, \<open>Typing\<close>, \<open>User_Tests\<close>, \<open>Faults\<close>: programs on the kernel.  The locales \<open>program_output\<close>, \<open>file_copy\<close>,
    \<open>directory_listing\<close>, \<open>grep_files\<close> and \<open>program_input\<close> are what the programs need of the calls, with \<^verbatim>\<open>cat\<close>, \<^verbatim>\<open>ls\<close>, the search of \<^verbatim>\<open>grep\<close>, the shell,
    \<^verbatim>\<open>hello\<close> and \<^verbatim>\<open>counter\<close> proved inside them; the calls of the kernel are their interpretation, the keyboard handler
    running while a read waits.  \<open>session\<close> is what the shell does with a list of lines: prompt, line, program, message.
  \<^item> \<open>Safe_Runs\<close>: \<open>sys_step\<close> is the step relation of the whole system after the boot, with the ten calls, the handlers of the timer, the
    clock and the keyboard, the switch of terminals, the exceptions and the writes of programs to memory; \<open>sys_inv\<close> is its invariant.

  \<^bold>\<open>What the lemmas show.\<close>  Round trips: halting a child undoes executing it, a file is opened, read to its end
  and closed, a terminal is left and resumed, a number is printed and read back.  Refinements: the screen, the line
  editor and the linked list of the fish demo.  Invariants: the open files and process numbers in every run of calls, handlers and exceptions that opens files of the known types.  Isolation: the windows of
  two processes, the page of \<^verbatim>\<open>vidmap\<close>, the pages of the terminals.  Equivalences: the assembly of the memory
  routines with a block copy, the string functions of the user library with those of the kernel, up to the signed comparison.  Whole runs: \<^verbatim>\<open>cat\<close>, \<^verbatim>\<open>ls\<close>, \<^verbatim>\<open>grep\<close> on one file and the error tests of \<^verbatim>\<open>syserr\<close>, up to
  the screen; the shell and \<^verbatim>\<open>counter\<close>, from the key presses; the frames of the fish demo,
  from the two files to the list and the screen.  Error paths: unknown programs, unknown file types, a read of length 0, exceptions.  Where the code does not do what
  it means to, the theorem states what it does.

  \<^bold>\<open>Bounds and waits.\<close>  The loops of the code are recursion on the count or on the data.  Loops that may not end are
  partial functions, and the theorems about them say that they return.  A wait takes the list of interrupt
  handlers that run meanwhile (in \<open>Safe_Runs\<close> each of them a run of steps of its own): it has no result when the list ends before the awaited interrupt, and
  the theorems assume that the interrupt is in the list, after any number of others.

  \<^bold>\<open>Parameters.\<close>  Devices answer reads from the port log.  The addresses of local arrays and string literals, the
  stack registers where the code reads them, the addresses of the wrappers in \<^verbatim>\<open>wrapper.S\<close> and those the linker
  gives to tables are parameters or fields of the state; a literal is written to memory where the code uses it.

  \<^bold>\<open>Not modelled.\<close>  The assembly files and the enabling of paging: they are transfers of control, register saves and
  instructions without counterpart in C.  The globals \<^verbatim>\<open>ESP_old\<close>, \<^verbatim>\<open>EBP_old\<close> and the second and third copies
  of the key flags, which are never read.  The flat memory does not show that a page table entry aliases two addresses: the
  page of \<^verbatim>\<open>vidmap\<close> and the frame buffer are related by the walk only; a program and the calls it makes see the same flat memory.  The delivery of
  signals, which the kernel does not have.  \<^verbatim>\<open>multiprocess.c\<close> at the top of the repository, an earlier version that is not built.
\<close>

end
